(* ===== verification/Dfer_Prelude.thy ===== *)
theory Dfer_Prelude
  imports Main "HOL-Library.Word"
begin

text \<open>
  Shared ground of the development: the machine types of \<^verbatim>\<open>util/types.h\<close>, unsigned 32-bit
  arithmetic on positions and lengths with its wrap-around written out, conversions between
  characters and bytes, and the generic list facts that the components use.

  Positions and lengths of the C++ code are \<^verbatim>\<open>uint32\<close> values.  They are kept as natural
  numbers below \<open>2 ^ 32\<close>; every addition and subtraction of the code that could leave that
  range goes through \<open>u32\<close> or \<open>sub32\<close>, which wrap exactly as the machine does.  Payload
  values (what an API client reads and writes) are words of their width.
\<close>

named_theorems dfer_pos \<open>arithmetic facts on 32-bit positions\<close>

subsection \<open>Machine types\<close>

type_synonym byte = "8 word"
type_synonym uint16 = "16 word"
type_synonym uint32 = "32 word"
type_synonym uint64 = "64 word"

text \<open>Signed payload values are kept as their two's complement bits (\<open>sint\<close> reads them).\<close>
type_synonym int16 = "16 word"
type_synonym int32 = "32 word"
type_synonym int64 = "64 word"

text \<open>A \<^verbatim>\<open>double\<close> is only ever copied; it is kept as its 64 bits.\<close>
type_synonym double = "64 word"

subsection \<open>Wrap-around on positions\<close>

definition u32 :: "nat \<Rightarrow> nat" where
  "u32 n = n mod 2 ^ 32"

definition sub32 :: "nat \<Rightarrow> nat \<Rightarrow> nat" where
  "sub32 a b = u32 (a + 2 ^ 32 - u32 b)"

lemma u32_less [simp]: "u32 n < 4294967296"
  by (simp add: u32_def)

lemma u32_le [simp]: "u32 n \<le> n"
  by (simp add: u32_def)

lemma u32_id [simp, dfer_pos]: "n < 4294967296 \<Longrightarrow> u32 n = n"
  by (simp add: u32_def)

lemma u32_u32 [simp]: "u32 (u32 n) = u32 n"
  by (simp add: u32_def)

lemma sub32_less [simp]: "sub32 a b < 4294967296"
  by (simp add: sub32_def)

lemma sub32_id [simp, dfer_pos]: "b \<le> a \<Longrightarrow> a < 4294967296 \<Longrightarrow> sub32 a b = a - b"
proof -
  assume "b \<le> a" and "a < 4294967296"
  then have "a + 2 ^ 32 - u32 b = (a - b) + 2 ^ 32" by simp
  then have "sub32 a b = ((a - b) + 2 ^ 32) mod 2 ^ 32" by (simp add: sub32_def u32_def)
  also have "\<dots> = (a - b) mod 2 ^ 32" by (rule mod_add_self2)
  also have "\<dots> = a - b" using \<open>a < 4294967296\<close> by simp
  finally show ?thesis .
qed

lemma unat_lt32: "unat (w :: uint32) < 4294967296"
  using unsigned_less [of w, where 'a = nat] by simp

lemma unat_of_nat_u32: "unat (of_nat n :: uint32) = u32 n"
  by (simp add: u32_def unat_of_nat)

subsection \<open>Characters and bytes\<close>

definition byte_of :: "char \<Rightarrow> byte" where
  "byte_of c = of_nat (of_char c)"

definition char_of_byte :: "byte \<Rightarrow> char" where
  "char_of_byte b = char_of (unat b)"

lemma unat_byte_of [simp]: "unat (byte_of c) = of_char c"
  by (simp add: byte_of_def unat_of_nat)

lemma char_of_byte_byte_of [simp]: "char_of_byte (byte_of c) = c"
  by (simp add: char_of_byte_def)

lemma unat_lt256: "unat (b :: byte) < 256"
  using unsigned_less [of b, where 'a = nat] by simp

lemma byte_of_char_of_byte [simp]: "byte_of (char_of_byte b) = b"
proof -
  have "unat b mod 256 = unat b"
    using unat_lt256 by simp
  then show ?thesis by (simp add: byte_of_def char_of_byte_def)
qed

lemma char_of_byte_comp [simp]: "char_of_byte \<circ> byte_of = id" "byte_of \<circ> char_of_byte = id"
  by (simp_all add: fun_eq_iff)

lemma map_char_of_byte_byte_of: "map char_of_byte (map byte_of s) = s"
  by simp

lemma byte_of_eq_0_iff [simp]: "byte_of c = 0 \<longleftrightarrow> c = CHR 0x00"
proof
  assume "byte_of c = 0"
  then have "char_of_byte (byte_of c) = char_of_byte 0" by simp
  then show "c = CHR 0x00" by (simp only: char_of_byte_byte_of) (simp add: char_of_byte_def char_of_def)
qed (simp add: byte_of_def)

subsection \<open>Overwriting a stretch of a buffer\<close>

definition overwrite :: "nat \<Rightarrow> 'a list \<Rightarrow> 'a list \<Rightarrow> 'a list" where
  "overwrite p bs buf = take p buf @ bs @ drop (p + length bs) buf"

lemma length_overwrite [simp]:
  "p + length bs \<le> length buf \<Longrightarrow> length (overwrite p bs buf) = length buf"
  by (simp add: overwrite_def)

lemma take_overwrite [simp]:
  "n \<le> p \<Longrightarrow> p \<le> length buf \<Longrightarrow> take n (overwrite p bs buf) = take n buf"
  by (simp add: overwrite_def min_def)

lemma overwrite_Nil [simp]: "overwrite p [] buf = buf"
  by (simp add: overwrite_def)

lemma take_overwrite_all:
  "p \<le> length buf \<Longrightarrow> take (p + length bs) (overwrite p bs buf) = take p buf @ bs"
  by (simp add: overwrite_def)

lemma nth_overwrite:
  "p + length bs \<le> length buf \<Longrightarrow>
   overwrite p bs buf ! i = (if p \<le> i \<and> i < p + length bs then bs ! (i - p) else buf ! i)"
  by (auto simp: overwrite_def nth_append)

subsection \<open>Stretches of a list\<close>

definition slice_at :: "nat \<Rightarrow> nat \<Rightarrow> 'a list \<Rightarrow> 'a list" where
  "slice_at p n xs = take n (drop p xs)"

lemma length_slice_at [simp]: "p + n \<le> length xs \<Longrightarrow> length (slice_at p n xs) = n"
  by (simp add: slice_at_def)

lemma slice_at_append1: "p + n \<le> length xs \<Longrightarrow> slice_at p n (xs @ ys) = slice_at p n xs"
  by (simp add: slice_at_def)

lemma slice_at_middle [simp]: "p = length xs \<Longrightarrow> n = length ys \<Longrightarrow> slice_at p n (xs @ ys @ zs) = ys"
  by (simp add: slice_at_def)

end
