(* ===== verification/Basic_Type_IO.thy ===== *)
theory Basic_Type_IO
  imports Dfer_Prelude
begin

unbundle bit_operations_syntax

text \<open>
  Model of \<^verbatim>\<open>serialization/basictypeio.h\<close>: alignment, padding, and the reading and writing of
  fixed-width integers in a byte buffer, on a little-endian host (the build without
  \<^verbatim>\<open>BIGENDIAN\<close>).  The lemmas show that the bit trick of \<open>align\<close> rounds up to the next multiple,
  and that reading inverts writing at every width, also across a byte-order swap.
\<close>

subsection \<open>Alignment and padding\<close>

definition align_word :: "uint32 \<Rightarrow> uint32 \<Rightarrow> uint32" where
  "align_word index alignment =
     (let maxStepUp = alignment - 1 in (index + maxStepUp) AND NOT maxStepUp)"

definition align :: "nat \<Rightarrow> nat \<Rightarrow> nat" where
  "align index alignment = unat (align_word (of_nat index) (of_nat alignment))"

definition isPaddingZero :: "byte list \<Rightarrow> nat \<Rightarrow> nat \<Rightarrow> bool" where
  "isPaddingZero buffer padStart padEnd =
     (let padEnd' = min padEnd (length buffer)
      in list_all (\<lambda>i. buffer ! i = 0) [padStart..<padEnd'])"

definition zeroPad :: "byte list \<Rightarrow> nat \<Rightarrow> nat \<Rightarrow> byte list \<times> nat" where
  "zeroPad buffer alignment bufferPos =
     (let padEnd = align bufferPos alignment
      in (fold (\<lambda>i b. b[i := 0]) [bufferPos..<padEnd] buffer, padEnd))"

lemma unat_and_not_mask: "unat (x AND NOT (mask k) :: uint32) = unat x div 2 ^ k * 2 ^ k"
proof -
  have "x AND NOT (mask k) = push_bit k (drop_bit k x)"
    by (rule bit_eqI) (auto simp: bit_simps not_less)
  moreover have "unat x div 2 ^ k * 2 ^ k < 4294967296"
    using unat_lt32 [of x] div_times_less_eq_dividend [of "unat x" "2 ^ k"]
    by (rule order.strict_trans1 [rotated])
  moreover have "unat (push_bit k (drop_bit k x)) = take_bit 32 (push_bit k (drop_bit k (unat x)))"
    by (simp only: unsigned_push_bit_eq unsigned_drop_bit_eq) (simp add: take_bit_nat_eq_self unat_lt32)
  ultimately show ?thesis by (simp add: push_bit_eq_mult drop_bit_eq_div take_bit_nat_eq_self)
qed

lemma align_pow2: "align i (2 ^ k) = u32 (i + (2 ^ k - 1)) div 2 ^ k * 2 ^ k"
proof -
  have *: "(of_nat i :: uint32) + (of_nat (2 ^ k) - 1) = of_nat (i + (2 ^ k - 1))"
    by (simp only: of_nat_add of_nat_diff one_le_numeral one_le_power of_nat_1)
  have "align_word (of_nat i) (of_nat (2 ^ k)) = of_nat (i + (2 ^ k - 1)) AND NOT (mask k)"
    unfolding align_word_def Let_def * by (simp add: mask_eq_exp_minus_1)
  then show ?thesis
    by (simp add: align_def unat_and_not_mask unat_of_nat_u32)
qed

text \<open>The alignments of the wire format.\<close>

lemma align_cases [dfer_pos]:
  "align i 1 = u32 i"
  "align i 2 = u32 (i + 1) div 2 * 2"
  "align i 4 = u32 (i + 3) div 4 * 4"
  "align i 8 = u32 (i + 7) div 8 * 8"
  using align_pow2 [of i 0] align_pow2 [of i 1] align_pow2 [of i 2] align_pow2 [of i 3]
  by simp_all

lemma align_Suc_0 [simp]: "align i (Suc 0) = u32 i"
  using align_cases(1) by simp

definition wire_alignment :: "nat \<Rightarrow> bool" where
  "wire_alignment a \<longleftrightarrow> a \<in> {1, 2, 4, 8}"

lemma wire_alignment_cases:
  assumes "wire_alignment a"
  obtains "a = 1" | "a = 2" | "a = 4" | "a = 8"
  using assms by (auto simp: wire_alignment_def)

lemma align_bounds:
  assumes "wire_alignment a" and "i + 8 \<le> 4294967296"
  shows "i \<le> align i a" and "align i a < i + a" and "a dvd align i a"
  using assms(1,2) by (cases rule: wire_alignment_cases; simp add: align_cases; presburger)+

lemma align_le_mono:
  assumes "wire_alignment a" and "i \<le> j" and "j + 8 \<le> 4294967296"
  shows "align i a \<le> align j a"
  using assms by (cases rule: wire_alignment_cases) (auto simp: align_cases div_le_mono)

lemma align_aligned:
  assumes "wire_alignment a" and "a dvd i" and "i + 8 \<le> 4294967296"
  shows "align i a = i"
  using assms by (cases rule: wire_alignment_cases) (auto simp: align_cases)

lemma zeroPad_snd [simp]: "snd (zeroPad b a p) = align p a"
  by (simp add: zeroPad_def Let_def)

lemma length_fold_update [simp]: "length (fold (\<lambda>i b. b[i := v]) is b) = length b"
  by (induction "is" arbitrary: b) auto

lemma nth_fold_update:
  "j < length b \<Longrightarrow> fold (\<lambda>i b. b[i := v]) is b ! j = (if j \<in> set is then v else b ! j)"
  by (induction "is" arbitrary: b) (auto simp: nth_list_update)

lemma zeroPad_fst:
  assumes "p \<le> align p a" and "align p a \<le> length b"
  shows "fst (zeroPad b a p) = overwrite p (replicate (align p a - p) 0) b"
  using assms
  by (auto simp: zeroPad_def Let_def nth_fold_update nth_overwrite intro!: nth_equalityI)

subsection \<open>Fixed-width integers\<close>

text \<open>
  The bytes of an integer in memory, least significant first (the \<^verbatim>\<open>reinterpret_cast\<close> loads and
  stores of the code on a little-endian host).
\<close>

fun le_nat :: "byte list \<Rightarrow> nat" where
  "le_nat [] = 0"
| "le_nat (b # bs) = unat b + 256 * le_nat bs"

fun nat_le :: "nat \<Rightarrow> nat \<Rightarrow> byte list" where
  "nat_le 0 v = []"
| "nat_le (Suc n) v = of_nat (v mod 256) # nat_le n (v div 256)"

definition readInt16 :: "byte list \<Rightarrow> bool \<Rightarrow> int16" where
  "readInt16 raw swap =
     (let raw' = (if swap then [raw ! 1, raw ! 0] else raw) in of_nat (le_nat (take 2 raw')))"

definition readUint16 :: "byte list \<Rightarrow> bool \<Rightarrow> uint16" where
  "readUint16 raw swap =
     (let raw' = (if swap then [raw ! 1, raw ! 0] else raw) in of_nat (le_nat (take 2 raw')))"

definition readInt32 :: "byte list \<Rightarrow> bool \<Rightarrow> int32" where
  "readInt32 raw swap =
     (let raw' = (if swap then [raw ! 3, raw ! 2, raw ! 1, raw ! 0] else raw)
      in of_nat (le_nat (take 4 raw')))"

definition readUint32 :: "byte list \<Rightarrow> bool \<Rightarrow> uint32" where
  "readUint32 raw swap =
     (let raw' = (if swap then [raw ! 3, raw ! 2, raw ! 1, raw ! 0] else raw)
      in of_nat (le_nat (take 4 raw')))"

definition readInt64 :: "byte list \<Rightarrow> bool \<Rightarrow> int64" where
  "readInt64 raw swap =
     (let raw' = (if swap then [raw ! 7, raw ! 6, raw ! 5, raw ! 4, raw ! 3, raw ! 2, raw ! 1, raw ! 0]
                  else raw)
      in of_nat (le_nat (take 8 raw')))"

definition readUint64 :: "byte list \<Rightarrow> bool \<Rightarrow> uint64" where
  "readUint64 raw swap =
     (let raw' = (if swap then [raw ! 7, raw ! 6, raw ! 5, raw ! 4, raw ! 3, raw ! 2, raw ! 1, raw ! 0]
                  else raw)
      in of_nat (le_nat (take 8 raw')))"

definition readDouble :: "byte list \<Rightarrow> bool \<Rightarrow> double" where
  "readDouble raw swap =
     (let raw' = (if swap then [raw ! 7, raw ! 6, raw ! 5, raw ! 4, raw ! 3, raw ! 2, raw ! 1, raw ! 0]
                  else raw)
      in of_nat (le_nat (take 8 raw')))"

text \<open>A store is the list of bytes it puts at the address.\<close>

definition writeInt16 :: "int16 \<Rightarrow> byte list" where
  "writeInt16 i = nat_le 2 (unat i)"

definition writeUint16 :: "uint16 \<Rightarrow> byte list" where
  "writeUint16 i = nat_le 2 (unat i)"

definition writeInt32 :: "int32 \<Rightarrow> byte list" where
  "writeInt32 i = nat_le 4 (unat i)"

definition writeUint32 :: "uint32 \<Rightarrow> byte list" where
  "writeUint32 i = nat_le 4 (unat i)"

definition writeInt64 :: "int64 \<Rightarrow> byte list" where
  "writeInt64 i = nat_le 8 (unat i)"

definition writeUint64 :: "uint64 \<Rightarrow> byte list" where
  "writeUint64 i = nat_le 8 (unat i)"

definition writeDouble :: "double \<Rightarrow> byte list" where
  "writeDouble d = nat_le 8 (unat d)"

lemmas basic_read_defs =
  readInt16_def readUint16_def readInt32_def readUint32_def readInt64_def readUint64_def readDouble_def

lemmas basic_write_defs =
  writeInt16_def writeUint16_def writeInt32_def writeUint32_def writeInt64_def writeUint64_def
  writeDouble_def

lemma length_nat_le [simp]: "length (nat_le n v) = n"
  by (induction n arbitrary: v) auto

lemma le_nat_nat_le: "v < 256 ^ n \<Longrightarrow> le_nat (nat_le n v) = v"
proof (induction n arbitrary: v)
  case 0
  then show ?case by simp
next
  case (Suc n)
  then have "v div 256 < 256 ^ n" by (simp add: less_mult_imp_div_less mult.commute)
  with Suc.IH have "le_nat (nat_le n (v div 256)) = v div 256" by blast
  then show ?case by (simp add: unat_of_nat)
qed

lemma le_nat_less: "le_nat bs < 256 ^ length bs"
proof (induction bs)
  case Nil
  then show ?case by simp
next
  case (Cons b bs)
  then have "Suc (le_nat bs) \<le> 256 ^ length bs" by simp
  then have "256 * Suc (le_nat bs) \<le> 256 * 256 ^ length bs" by (rule mult_le_mono2)
  moreover have "le_nat (b # bs) < 256 * Suc (le_nat bs)" using unat_lt256 [of b] by simp
  ultimately have "le_nat (b # bs) < 256 * 256 ^ length bs" by (rule order.strict_trans2 [rotated])
  then show ?case by simp
qed

lemma nat_le_le_nat: "nat_le (length bs) (le_nat bs) = bs"
proof (induction bs)
  case Nil
  then show ?case by simp
next
  case (Cons b bs)
  have "(unat b + 256 * le_nat bs) mod 256 = unat b"
    using unat_lt256 [of b] by simp
  moreover have "(unat b + 256 * le_nat bs) div 256 = le_nat bs"
    using unat_lt256 [of b] by simp
  ultimately show ?case using Cons by simp
qed

text \<open>
  The contract that the marshalling code relies on, once for every width: a store writes
  \<open>width\<close> bytes, a load gives the stored value back, and the swapped load of the reversed
  bytes is the plain load.
\<close>

locale fixed_width_io =
  fixes width :: nat
    and rd :: "byte list \<Rightarrow> bool \<Rightarrow> 'a"
    and wr :: "'a \<Rightarrow> byte list"
  assumes wr_length: "length (wr v) = width"
    and rd_wr: "rd (wr v) False = v"
    and wr_rd: "length bs = width \<Longrightarrow> wr (rd bs False) = bs"
    and rd_take: "length bs \<ge> width \<Longrightarrow> rd bs swap = rd (take width bs) swap"
    and rd_swap: "length bs = width \<Longrightarrow> rd bs True = rd (rev bs) False"
begin

lemma rd_wr_append: "rd (wr v @ rest) False = v"
  using rd_take [of "wr v @ rest" False] by (simp add: wr_length rd_wr)

lemma rd_wr_swapped: "rd (rev (wr v)) True = v"
  using rd_swap [of "rev (wr v)"] by (simp add: wr_length rd_wr)

lemma wr_inj: "wr v = wr w \<Longrightarrow> v = w"
  by (metis rd_wr)

lemma rd_overwrite:
  assumes "p + width \<le> length buf"
  shows "rd (slice_at p width (overwrite p (wr v) buf)) False = v"
  using assms by (simp add: overwrite_def slice_at_def wr_length rd_wr min_def)

lemma wr_rd_swapped: "length bs = width \<Longrightarrow> wr (rd bs True) = rev bs"
  by (simp add: rd_swap wr_rd)

end

lemma take_eq_nths: "n \<le> length xs \<Longrightarrow> take n xs = map ((!) xs) [0..<n]"
  by (intro nth_equalityI) auto

lemma rev_take_nths:
  "2 \<le> length xs \<Longrightarrow> [xs ! 1, xs ! 0] = rev (take 2 xs)"
  "4 \<le> length xs \<Longrightarrow> [xs ! 3, xs ! 2, xs ! 1, xs ! 0] = rev (take 4 xs)"
  "8 \<le> length xs \<Longrightarrow>
   [xs ! 7, xs ! 6, xs ! 5, xs ! 4, xs ! 3, xs ! 2, xs ! 1, xs ! 0] = rev (take 8 xs)"
  by (simp_all only: take_eq_nths) (simp_all add: upt_rec numeral_eq_Suc)

lemma readUint16_eq:
  "2 \<le> length raw \<Longrightarrow>
   readUint16 raw swap = of_nat (le_nat ((if swap then rev else id) (take 2 raw)))"
  by (cases swap) (simp_all only: readUint16_def Let_def if_True if_False rev_take_nths(1), simp_all)

lemma readInt16_eq:
  "2 \<le> length raw \<Longrightarrow>
   readInt16 raw swap = of_nat (le_nat ((if swap then rev else id) (take 2 raw)))"
  by (cases swap) (simp_all only: readInt16_def Let_def if_True if_False rev_take_nths(1), simp_all)

lemma readUint32_eq:
  "4 \<le> length raw \<Longrightarrow>
   readUint32 raw swap = of_nat (le_nat ((if swap then rev else id) (take 4 raw)))"
  by (cases swap) (simp_all only: readUint32_def Let_def if_True if_False rev_take_nths(2), simp_all)

lemma readInt32_eq:
  "4 \<le> length raw \<Longrightarrow>
   readInt32 raw swap = of_nat (le_nat ((if swap then rev else id) (take 4 raw)))"
  by (cases swap) (simp_all only: readInt32_def Let_def if_True if_False rev_take_nths(2), simp_all)

lemma readUint64_eq:
  "8 \<le> length raw \<Longrightarrow>
   readUint64 raw swap = of_nat (le_nat ((if swap then rev else id) (take 8 raw)))"
  by (cases swap) (simp_all only: readUint64_def Let_def if_True if_False rev_take_nths(3), simp_all)

lemma readInt64_eq:
  "8 \<le> length raw \<Longrightarrow>
   readInt64 raw swap = of_nat (le_nat ((if swap then rev else id) (take 8 raw)))"
  by (cases swap) (simp_all only: readInt64_def Let_def if_True if_False rev_take_nths(3), simp_all)

lemma readDouble_eq:
  "8 \<le> length raw \<Longrightarrow>
   readDouble raw swap = of_nat (le_nat ((if swap then rev else id) (take 8 raw)))"
  by (cases swap) (simp_all only: readDouble_def Let_def if_True if_False rev_take_nths(3), simp_all)

lemmas basic_read_eq =
  readUint16_eq readInt16_eq readUint32_eq readInt32_eq readUint64_eq readInt64_eq readDouble_eq

lemma unat_lt16: "unat (w :: uint16) < 65536"
  using unsigned_less [of w, where 'a = nat] by simp

lemma unat_lt64: "unat (w :: uint64) < 18446744073709551616"
  using unsigned_less [of w, where 'a = nat] by simp

lemma le_nat_unat [simp]:
  "le_nat (nat_le 2 (unat (v :: uint16))) = unat v"
  "le_nat (nat_le 4 (unat (w :: uint32))) = unat w"
  "le_nat (nat_le 8 (unat (x :: uint64))) = unat x"
  using unat_lt16 [of v] unat_lt32 [of w] unat_lt64 [of x] by (simp_all add: le_nat_nat_le)

lemma nat_le_unat_le_nat [simp]:
  "length bs = 2 \<Longrightarrow> nat_le 2 (unat (of_nat (le_nat bs) :: uint16)) = bs"
  "length bs = 4 \<Longrightarrow> nat_le 4 (unat (of_nat (le_nat bs) :: uint32)) = bs"
  "length bs = 8 \<Longrightarrow> nat_le 8 (unat (of_nat (le_nat bs) :: uint64)) = bs"
  using le_nat_less [of bs] nat_le_le_nat [of bs] by (simp_all add: unat_of_nat)

interpretation io_u16: fixed_width_io 2 readUint16 writeUint16
  by unfold_locales (simp_all add: basic_read_eq basic_write_defs)

interpretation io_i16: fixed_width_io 2 readInt16 writeInt16
  by unfold_locales (simp_all add: basic_read_eq basic_write_defs)

interpretation io_u32: fixed_width_io 4 readUint32 writeUint32
  by unfold_locales (simp_all add: basic_read_eq basic_write_defs)

interpretation io_i32: fixed_width_io 4 readInt32 writeInt32
  by unfold_locales (simp_all add: basic_read_eq basic_write_defs)

interpretation io_u64: fixed_width_io 8 readUint64 writeUint64
  by unfold_locales (simp_all add: basic_read_eq basic_write_defs)

interpretation io_i64: fixed_width_io 8 readInt64 writeInt64
  by unfold_locales (simp_all add: basic_read_eq basic_write_defs)

interpretation io_double: fixed_width_io 8 readDouble writeDouble
  by unfold_locales (simp_all add: basic_read_eq basic_write_defs)

subsection \<open>Properties\<close>

text \<open>For the alignments of the wire format, the bit trick of align rounds a position up to the
  least multiple of the alignment, as long as the sum does not wrap.\<close>

theorem align_rounds_up:
  assumes "wire_alignment a" and "i + 8 \<le> 2 ^ 32"
  shows "a dvd align i a \<and> i \<le> align i a \<and> (\<forall>j. a dvd j \<and> i \<le> j \<longrightarrow> align i a \<le> j)"
proof -
  from assms have b: "i \<le> align i a" "align i a < i + a" "a dvd align i a"
    using align_bounds [of a i] by simp_all
  have "align i a \<le> j" if "a dvd j" "i \<le> j" for j
  proof -
    from that b obtain k l where kl: "j = a * k" "align i a = a * l" by (auto simp: dvd_def)
    with that b have "a * l < a * Suc k" by simp
    then have "l < Suc k" by (simp only: mult_less_cancel1)
    then have "l \<le> k" by simp
    with kl show ?thesis by simp
  qed
  with b show ?thesis by blast
qed

theorem align_rounds_up_witness: "align 5 4 \<le> 8 \<and> 5 \<le> align 5 4 \<and> 4 dvd align 5 4"
  using align_rounds_up [of 4 5] by (simp add: wire_alignment_def)

text \<open>C33: Every fixed-width value reads back as it was written, in front of any other data, and from
  the reversed bytes when the reader swaps the byte order.\<close>

theorem basic_values_roundtrip:
  "readInt16 (writeInt16 a @ r) False = a \<and> readInt16 (rev (writeInt16 a)) True = a \<and>
   readUint16 (writeUint16 b @ r) False = b \<and> readUint16 (rev (writeUint16 b)) True = b \<and>
   readInt32 (writeInt32 c @ r) False = c \<and> readInt32 (rev (writeInt32 c)) True = c \<and>
   readUint32 (writeUint32 d @ r) False = d \<and> readUint32 (rev (writeUint32 d)) True = d \<and>
   readInt64 (writeInt64 e @ r) False = e \<and> readInt64 (rev (writeInt64 e)) True = e \<and>
   readUint64 (writeUint64 f @ r) False = f \<and> readUint64 (rev (writeUint64 f)) True = f \<and>
   readDouble (writeDouble g @ r) False = g \<and> readDouble (rev (writeDouble g)) True = g"
  by (simp add: io_i16.rd_wr_append io_i16.rd_wr_swapped io_u16.rd_wr_append io_u16.rd_wr_swapped
      io_i32.rd_wr_append io_i32.rd_wr_swapped io_u32.rd_wr_append io_u32.rd_wr_swapped
      io_i64.rd_wr_append io_i64.rd_wr_swapped io_u64.rd_wr_append io_u64.rd_wr_swapped
      io_double.rd_wr_append io_double.rd_wr_swapped)

text \<open>zeroPad moves the position to the next aligned one, fills the gap with zeros and changes no
  other byte; isPaddingZero accepts exactly that gap.\<close>

theorem zeroPad_fills_gap:
  assumes "wire_alignment a" and "p + 8 \<le> 2 ^ 32" and "align p a \<le> length b"
  shows "zeroPad b a p = (take p b @ replicate (align p a - p) 0 @ drop (align p a) b, align p a) \<and>
    (isPaddingZero b p (align p a) \<longleftrightarrow>
      take (align p a - p) (drop p b) = replicate (align p a - p) 0)"
proof -
  have le: "p \<le> align p a" using assms(1,2) align_bounds(1) [of a p] by simp
  then have *: "fst (zeroPad b a p) = overwrite p (replicate (align p a - p) 0) b"
    using assms(3) by (rule zeroPad_fst)
  with le have "zeroPad b a p = (take p b @ replicate (align p a - p) 0 @ drop (align p a) b, align p a)"
    by (intro prod_eqI) (simp_all add: overwrite_def)
  moreover have "isPaddingZero b p (align p a) \<longleftrightarrow>
      take (align p a - p) (drop p b) = replicate (align p a - p) 0"
    using le assms(3) by (auto simp: isPaddingZero_def Let_def list_all_iff list_eq_iff_nth_eq)
      (metis add_diff_cancel_left' diff_less_mono le_add_diff_inverse)
  ultimately show ?thesis by blast
qed

theorem zeroPad_fills_gap_witness:
  "zeroPad [1, 2, 3, 4, 5, 6, 7, 8 :: byte] 4 5 = ([1, 2, 3, 4, 5, 0, 0, 0], 8) \<and>
   \<not> isPaddingZero [1, 2, 3, 4, 5, 6, 7, 8 :: byte] 5 8"
proof -
  have "align 5 4 = 8" by (simp add: align_cases)
  then show ?thesis
    using zeroPad_fills_gap [of 4 5 "[1, 2, 3, 4, 5, 6, 7, 8 :: byte]"]
    by (simp add: wire_alignment_def numeral_3_eq_3)
qed

end
