(* ===== verification/Dfer_Types.thy ===== *)
theory Dfer_Types
  imports Basic_Type_IO
begin

text \<open>
  The vocabulary that reader, writer and message share: the error codes of \<^verbatim>\<open>util/error.h\<close>, the
  \<^verbatim>\<open>cstring\<close> of \<^verbatim>\<open>util/types.h\<close>, the states, limits and type table of
  \<^verbatim>\<open>serialization/arguments.h\<close>, \<^verbatim>\<open>arguments_p.h\<close> and the top of \<^verbatim>\<open>arguments.cpp\<close>.
\<close>

subsection \<open>Error codes\<close>

datatype (plugins only: code size) error_code =
    NoError
  | NotAttachedToArguments | InvalidSignature | ReplacementDataIsShorter | MalformedMessageData
  | ReadWrongType | NotPrimitiveType | InvalidType | InvalidString | InvalidObjectPath
  | SignatureTooLong | ExcessiveNesting | CannotEndArgumentsHere | ArgumentsTooLong
  | NotSingleCompleteTypeInVariant | EmptyVariant | CannotEndVariantHere
  | EmptyStruct | CannotEndStructHere
  | NotSingleCompleteTypeInArray | TypeMismatchInSubsequentArrayIteration | CannotEndArrayHere
  | CannotEndArrayOrDictHere | TooFewTypesInArrayOrDict | InvalidStateToRestartEmptyArray
  | InvalidKeyTypeInDict | GreaterTwoTypesInDict | ArrayOrDictTooLong | StateNotSkippable
  | MissingBeginDictEntry | MisplacedBeginDictEntry | MissingEndDictEntry | MisplacedEndDictEntry
  | DetachedPendingReply | Timeout | MalformedReply
  | MessageType | MessageSender | MessageDestination | MessagePath | MessageInterface
  | MessageSignature | MessageMethod | MessageErrorName | MessageSerial | MessageReplySerial
  | MessageProtocolVersion
  | PeerNoSuchReceiver | PeerNoSuchPath | PeerNoSuchInterface | PeerNoSuchMethod
  | ArgumentTypeMismatch | PeerInvalidProperty | PeerNoSuchProperty | AccessDenied
  | AuthenticationFailed | RemoteDisconnect | LocalDisconnect | SendingTooManyUnixFds

definition isError :: "error_code \<Rightarrow> bool" where
  "isError c \<longleftrightarrow> c \<noteq> NoError"

subsection \<open>Strings handed over by pointer and length\<close>

text \<open>
  A \<^verbatim>\<open>cstring\<close> is a pointer and a length that does not count the terminator.  The pointer is
  modelled by the bytes that can be read from it up to the end of its memory block (\<open>None\<close> for
  the null pointer), so that a read behind the block is visible as \<open>None\<close> of \<open>cs_at\<close>.
\<close>

record cstring =
  cs_block :: "string option"
  cs_length :: nat

definition null_cstring :: cstring where
  "null_cstring = \<lparr>cs_block = None, cs_length = 0\<rparr>"

text \<open>A \<^verbatim>\<open>cstring\<close> made from a C string: the characters, then the terminating null.\<close>

definition cstring_of :: "string \<Rightarrow> cstring" where
  "cstring_of s = \<lparr>cs_block = Some (s @ [CHR 0x00]), cs_length = length s\<rparr>"

definition cs_at :: "cstring \<Rightarrow> nat \<Rightarrow> char option" where
  "cs_at cs i = (case cs_block cs of
       None \<Rightarrow> None
     | Some b \<Rightarrow> (if i < length b then Some (b ! i) else None))"

definition cs_chars :: "cstring \<Rightarrow> string" where
  "cs_chars cs = (case cs_block cs of None \<Rightarrow> [] | Some b \<Rightarrow> take (cs_length cs) b)"

lemma cs_of_simps [simp]:
  "cs_block (cstring_of s) = Some (s @ [CHR 0x00])"
  "cs_length (cstring_of s) = length s"
  "cs_chars (cstring_of s) = s"
  by (simp_all add: cstring_of_def cs_chars_def)

lemma cs_at_cstring_of:
  "cs_at (cstring_of s) i =
     (if i < length s then Some (s ! i) else if i = length s then Some (CHR 0x00) else None)"
  by (simp add: cs_at_def nth_append)

subsection \<open>Limits\<close>

definition MaxSignatureLength :: nat where "MaxSignatureLength = 255"
definition MaxArrayLength :: nat where "MaxArrayLength = 67108864"
definition MaxMessageLength :: nat where "MaxMessageLength = 134217728"

lemma limits_eq:
  "MaxArrayLength = 2 ^ 26" "MaxMessageLength = 2 ^ 27"
  by (simp_all add: MaxArrayLength_def MaxMessageLength_def)

lemmas limit_defs = MaxSignatureLength_def MaxArrayLength_def MaxMessageLength_def

subsection \<open>States of the reader and the writer\<close>

datatype (plugins only: code size) io_state =
    NotStarted | Finished | NeedMoreData | InvalidData
  | AnyData | DictKey
  | BeginArray | EndArray | BeginDict | EndDict | BeginStruct | EndStruct | BeginVariant | EndVariant
  | Boolean | Byte | Int16 | Uint16 | Int32 | Uint32 | Int64 | Uint64 | Double
  | String | ObjectPath | Signature | UnixFd

fun printableState :: "io_state \<Rightarrow> string" where
  "printableState NotStarted = ''NotStarted''"
| "printableState Finished = ''Finished''"
| "printableState NeedMoreData = ''NeedMoreData''"
| "printableState InvalidData = ''InvalidData''"
| "printableState AnyData = ''AnyData''"
| "printableState DictKey = ''DictKey''"
| "printableState BeginArray = ''BeginArray''"
| "printableState EndArray = ''EndArray''"
| "printableState BeginDict = ''BeginDict''"
| "printableState EndDict = ''EndDict''"
| "printableState BeginStruct = ''BeginStruct''"
| "printableState EndStruct = ''EndStruct''"
| "printableState BeginVariant = ''BeginVariant''"
| "printableState EndVariant = ''EndVariant''"
| "printableState Boolean = ''Boolean''"
| "printableState Byte = ''Byte''"
| "printableState Int16 = ''Int16''"
| "printableState Uint16 = ''Uint16''"
| "printableState Int32 = ''Int32''"
| "printableState Uint32 = ''Uint32''"
| "printableState Int64 = ''Int64''"
| "printableState Uint64 = ''Uint64''"
| "printableState Double = ''Double''"
| "printableState String = ''String''"
| "printableState ObjectPath = ''ObjectPath''"
| "printableState Signature = ''Signature''"
| "printableState UnixFd = ''UnixFd''"

subsection \<open>The type table\<close>

record type_info =
  ti_state :: io_state
  ti_alignment :: nat
  ti_isPrimitive :: bool
  ti_isString :: bool

definition type_row :: "io_state \<Rightarrow> nat \<Rightarrow> bool \<Rightarrow> bool \<Rightarrow> type_info" where
  "type_row s a p t = \<lparr>ti_state = s, ti_alignment = a, ti_isPrimitive = p, ti_isString = t\<rparr>"

definition typeInfo_low :: "type_info list" where
  "typeInfo_low =
     [type_row BeginStruct 8 False False,   \<comment> \<open>(\<close>
      type_row EndStruct 1 False False]     \<comment> \<open>)\<close>"

definition typeInfo_high :: "type_info list" where
  "typeInfo_high =
     [type_row BeginArray 4 False False,    \<comment> \<open>a\<close>
      type_row Boolean 4 True False,        \<comment> \<open>b\<close>
      type_row InvalidData 1 True False,    \<comment> \<open>c\<close>
      type_row Double 8 True False,         \<comment> \<open>d\<close>
      type_row InvalidData 1 True False,    \<comment> \<open>e\<close>
      type_row InvalidData 1 True False,    \<comment> \<open>f\<close>
      type_row Signature 1 False True,      \<comment> \<open>g\<close>
      type_row UnixFd 4 True False,         \<comment> \<open>h\<close>
      type_row Int32 4 True False,          \<comment> \<open>i\<close>
      type_row InvalidData 1 True False,    \<comment> \<open>j\<close>
      type_row InvalidData 1 True False,    \<comment> \<open>k\<close>
      type_row InvalidData 1 True False,    \<comment> \<open>l\<close>
      type_row InvalidData 1 True False,    \<comment> \<open>m\<close>
      type_row Int16 2 True False,          \<comment> \<open>n\<close>
      type_row ObjectPath 4 False True,     \<comment> \<open>o\<close>
      type_row InvalidData 1 True False,    \<comment> \<open>p\<close>
      type_row Uint16 2 True False,         \<comment> \<open>q\<close>
      type_row InvalidData 1 True False,    \<comment> \<open>r\<close>
      type_row String 4 False True,         \<comment> \<open>s\<close>
      type_row Uint64 8 True False,         \<comment> \<open>t\<close>
      type_row Uint32 4 True False,         \<comment> \<open>u\<close>
      type_row BeginVariant 1 False False,  \<comment> \<open>v\<close>
      type_row InvalidData 1 True False,    \<comment> \<open>w\<close>
      type_row Int64 8 True False,          \<comment> \<open>x\<close>
      type_row Byte 1 True False,           \<comment> \<open>y\<close>
      type_row InvalidData 1 True False,    \<comment> \<open>z\<close>
      type_row BeginDict 8 False False,     \<comment> \<open>{\<close>
      type_row InvalidData 1 True False,    \<comment> \<open>|\<close>
      type_row EndDict 1 False False]       \<comment> \<open>}\<close>"

text \<open>
  \<^verbatim>\<open>char\<close> is signed on the host.  An index outside of the two tables (excluded by assertions in
  debug builds) is \<open>None\<close>.
\<close>

definition signed_char :: "char \<Rightarrow> int" where
  "signed_char c = (let n = of_char c :: int in if n < 128 then n else n - 256)"

definition typeInfo :: "char \<Rightarrow> type_info option" where
  "typeInfo letterCode =
     (if signed_char letterCode \<le> signed_char (CHR '')'')
      then (let i = signed_char letterCode - signed_char (CHR ''('')
            in if 0 \<le> i then Some (typeInfo_low ! nat i) else None)
      else (let i = signed_char letterCode - signed_char (CHR ''a'')
            in if 0 \<le> i \<and> nat i < length typeInfo_high then Some (typeInfo_high ! nat i) else None))"

definition basic_type_letters :: string where
  "basic_type_letters = ''ybnqiuxtdsogh''"

lemma typeInfo_letters:
  "typeInfo (CHR ''('') = Some (type_row BeginStruct 8 False False)"
  "typeInfo (CHR '')'') = Some (type_row EndStruct 1 False False)"
  "typeInfo (CHR ''a'') = Some (type_row BeginArray 4 False False)"
  "typeInfo (CHR ''b'') = Some (type_row Boolean 4 True False)"
  "typeInfo (CHR ''d'') = Some (type_row Double 8 True False)"
  "typeInfo (CHR ''g'') = Some (type_row Signature 1 False True)"
  "typeInfo (CHR ''h'') = Some (type_row UnixFd 4 True False)"
  "typeInfo (CHR ''i'') = Some (type_row Int32 4 True False)"
  "typeInfo (CHR ''n'') = Some (type_row Int16 2 True False)"
  "typeInfo (CHR ''o'') = Some (type_row ObjectPath 4 False True)"
  "typeInfo (CHR ''q'') = Some (type_row Uint16 2 True False)"
  "typeInfo (CHR ''s'') = Some (type_row String 4 False True)"
  "typeInfo (CHR ''t'') = Some (type_row Uint64 8 True False)"
  "typeInfo (CHR ''u'') = Some (type_row Uint32 4 True False)"
  "typeInfo (CHR ''v'') = Some (type_row BeginVariant 1 False False)"
  "typeInfo (CHR ''x'') = Some (type_row Int64 8 True False)"
  "typeInfo (CHR ''y'') = Some (type_row Byte 1 True False)"
  "typeInfo (CHR ''{'') = Some (type_row BeginDict 8 False False)"
  "typeInfo (CHR ''}'') = Some (type_row EndDict 1 False False)"
  "typeInfo (CHR 0x00) = None"
  by (simp_all add: typeInfo_def signed_char_def typeInfo_low_def typeInfo_high_def)

lemma typeInfo_basic:
  "c \<in> set basic_type_letters \<Longrightarrow> \<exists>ti. typeInfo c = Some ti \<and> (ti_isPrimitive ti \<or> ti_isString ti)
     \<and> ti_state ti \<noteq> InvalidData \<and> wire_alignment (ti_alignment ti)"
  by (auto simp: basic_type_letters_def typeInfo_letters type_row_def wire_alignment_def)

lemma signed_char_letters:
  "signed_char (CHR ''('') = 40" "signed_char (CHR '')'') = 41" "signed_char (CHR ''a'') = 97"
  by (simp_all add: signed_char_def)

lemma length_typeInfo_low: "length typeInfo_low = 2"
  by (simp add: typeInfo_low_def)

lemma typeInfo_alignment:
  assumes "typeInfo c = Some ti"
  shows "wire_alignment (ti_alignment ti)"
proof -
  have "list_all (\<lambda>ti. wire_alignment (ti_alignment ti)) (typeInfo_low @ typeInfo_high)"
    by (simp add: typeInfo_low_def typeInfo_high_def type_row_def wire_alignment_def)
  moreover have "ti \<in> set (typeInfo_low @ typeInfo_high)"
    using assms
    by (auto simp: typeInfo_def Let_def signed_char_letters length_typeInfo_low
        split: if_splits intro!: nth_mem)
  ultimately show ?thesis unfolding list_all_iff by blast
qed

subsection \<open>Aggregate nesting\<close>

text \<open>
  The counters only move in steps of one and \<open>begin\<close> refuses beyond the limits, so they stay
  far from the range of \<^verbatim>\<open>uint32\<close>; a failed \<open>begin\<close> leaves its counter raised, as in the code.
\<close>

record nesting =
  n_array :: nat
  n_paren :: nat
  n_variant :: nat

definition no_nesting :: nesting where
  "no_nesting = \<lparr>n_array = 0, n_paren = 0, n_variant = 0\<rparr>"

definition n_total :: "nesting \<Rightarrow> nat" where
  "n_total n = n_array n + n_paren n + n_variant n"

definition arrayMax :: nat where "arrayMax = 32"
definition parenMax :: nat where "parenMax = 32"
definition totalMax :: nat where "totalMax = 64"

lemmas nest_limit_defs = arrayMax_def parenMax_def totalMax_def

definition nestBeginArray :: "nesting \<Rightarrow> bool \<times> nesting" where
  "nestBeginArray n = (let n' = n\<lparr>n_array := n_array n + 1\<rparr>
     in (n_array n' \<le> arrayMax \<and> n_total n' \<le> totalMax, n'))"

definition nestEndArray :: "nesting \<Rightarrow> nesting" where
  "nestEndArray n = n\<lparr>n_array := n_array n - 1\<rparr>"

definition nestBeginParen :: "nesting \<Rightarrow> bool \<times> nesting" where
  "nestBeginParen n = (let n' = n\<lparr>n_paren := n_paren n + 1\<rparr>
     in (n_paren n' \<le> parenMax \<and> n_total n' \<le> totalMax, n'))"

definition nestEndParen :: "nesting \<Rightarrow> nesting" where
  "nestEndParen n = n\<lparr>n_paren := n_paren n - 1\<rparr>"

definition nestBeginVariant :: "nesting \<Rightarrow> bool \<times> nesting" where
  "nestBeginVariant n = (let n' = n\<lparr>n_variant := n_variant n + 1\<rparr>
     in (n_total n' \<le> totalMax, n'))"

definition nestEndVariant :: "nesting \<Rightarrow> nesting" where
  "nestEndVariant n = n\<lparr>n_variant := n_variant n - 1\<rparr>"

lemmas nest_defs =
  nestBeginArray_def nestEndArray_def nestBeginParen_def nestEndParen_def
  nestBeginVariant_def nestEndVariant_def n_total_def no_nesting_def

lemma nest_end_begin [simp]:
  "nestEndArray (snd (nestBeginArray n)) = n"
  "nestEndParen (snd (nestBeginParen n)) = n"
  "nestEndVariant (snd (nestBeginVariant n)) = n"
  by (simp_all add: nest_defs Let_def)

definition isAligned :: "nat \<Rightarrow> nat \<Rightarrow> bool" where
  "isAligned value alignment =
     (and (of_nat value :: uint32) (of_nat alignment - 1) = 0)"

definition StructAlignment :: nat where "StructAlignment = 8"

end
