(* ===== verification/Var_Headers.thy ===== *)
theory Var_Headers
  imports Dfer_Types
begin

text \<open>
  \<^verbatim>\<open>VarHeaderStorage\<close> (\<^verbatim>\<open>serialization/message.cpp\<close>, \<^verbatim>\<open>message_p.h\<close>): the variable headers of a
  message in two arrays and a presence bitmap.  The lemmas show that the storage behaves as two
  independent maps from header fields to strings and to integers; the message code relies on the
  laws of the locale \<open>header_store\<close> only.
\<close>

subsection \<open>Header fields and where they are stored\<close>

datatype variable_header =
    PathHeader | InterfaceHeader | MethodHeader | ErrorNameHeader | ReplySerialHeader
  | DestinationHeader | SenderHeader | SignatureHeader | UnixFdsHeader

fun header_code :: "variable_header \<Rightarrow> nat" where
  "header_code PathHeader = 1"
| "header_code InterfaceHeader = 2"
| "header_code MethodHeader = 3"
| "header_code ErrorNameHeader = 4"
| "header_code ReplySerialHeader = 5"
| "header_code DestinationHeader = 6"
| "header_code SenderHeader = 7"
| "header_code SignatureHeader = 8"
| "header_code UnixFdsHeader = 9"

definition all_headers :: "variable_header list" where
  "all_headers = [PathHeader, InterfaceHeader, MethodHeader, ErrorNameHeader, ReplySerialHeader,
     DestinationHeader, SenderHeader, SignatureHeader, UnixFdsHeader]"

definition header_of_code :: "nat \<Rightarrow> variable_header option" where
  "header_of_code n = (if 1 \<le> n \<and> n \<le> 9 then Some (all_headers ! (n - 1)) else None)"

definition s_storageForHeader :: "byte list" where
  "s_storageForHeader = [0, 0x80, 0x81, 0x82, 0x83, 0, 0x84, 0x85, 0x86, 1]"

definition isStringHeader :: "variable_header \<Rightarrow> bool" where
  "isStringHeader field = (and (s_storageForHeader ! header_code field) 0x80 \<noteq> 0)"

definition indexOfHeader :: "variable_header \<Rightarrow> nat" where
  "indexOfHeader field = unat (and (s_storageForHeader ! header_code field) 0x7f)"

definition s_stringHeaderAtIndex :: "variable_header list" where
  "s_stringHeaderAtIndex = [PathHeader, InterfaceHeader, MethodHeader, ErrorNameHeader,
     DestinationHeader, SenderHeader, SignatureHeader]"

definition s_intHeaderAtIndex :: "variable_header list" where
  "s_intHeaderAtIndex = [ReplySerialHeader, UnixFdsHeader]"

lemma header_tables:
  "isStringHeader PathHeader" "isStringHeader InterfaceHeader" "isStringHeader MethodHeader"
  "isStringHeader ErrorNameHeader" "\<not> isStringHeader ReplySerialHeader"
  "isStringHeader DestinationHeader" "isStringHeader SenderHeader"
  "isStringHeader SignatureHeader" "\<not> isStringHeader UnixFdsHeader"
  "indexOfHeader PathHeader = 0" "indexOfHeader InterfaceHeader = 1"
  "indexOfHeader MethodHeader = 2" "indexOfHeader ErrorNameHeader = 3"
  "indexOfHeader ReplySerialHeader = 0" "indexOfHeader DestinationHeader = 4"
  "indexOfHeader SenderHeader = 5" "indexOfHeader SignatureHeader = 6"
  "indexOfHeader UnixFdsHeader = 1"
  by (simp_all add: isStringHeader_def indexOfHeader_def s_storageForHeader_def)

text \<open>Fields of the same kind have different places, and every place fits its array.\<close>

lemma indexOfHeader_inj:
  "isStringHeader f = isStringHeader g \<Longrightarrow> indexOfHeader f = indexOfHeader g \<longleftrightarrow> f = g"
  by (cases f; cases g; simp add: header_tables)

lemma indexOfHeader_less:
  "indexOfHeader f < (if isStringHeader f then 7 else 2)"
  by (cases f; simp add: header_tables)

lemma header_code_inj [simp]: "header_code f = header_code g \<longleftrightarrow> f = g"
  by (cases f; cases g; simp)

lemma header_code_less: "header_code f < 32"
  by (cases f; simp)

lemma header_of_code [simp]: "header_of_code (header_code f) = Some f"
  by (cases f; simp add: header_of_code_def all_headers_def)

subsection \<open>The storage\<close>

text \<open>A place for a string that holds no constructed string is \<open>None\<close>.\<close>

record var_headers =
  vh_strings :: "string option list"
  vh_ints :: "uint32 list"
  vh_bitmap :: uint32

definition VarHeaderStorage :: var_headers where
  "VarHeaderStorage = \<lparr>vh_strings = replicate 7 None, vh_ints = replicate 2 0, vh_bitmap = 0\<rparr>"

definition hasHeader :: "var_headers \<Rightarrow> variable_header \<Rightarrow> bool" where
  "hasHeader vh header = (and (vh_bitmap vh) (push_bit (header_code header) 1) \<noteq> 0)"

definition hasStringHeader :: "var_headers \<Rightarrow> variable_header \<Rightarrow> bool" where
  "hasStringHeader vh header = (hasHeader vh header \<and> isStringHeader header)"

definition hasIntHeader :: "var_headers \<Rightarrow> variable_header \<Rightarrow> bool" where
  "hasIntHeader vh header = (hasHeader vh header \<and> \<not> isStringHeader header)"

definition the_string :: "string option \<Rightarrow> string" where
  "the_string s = (case s of None \<Rightarrow> [] | Some v \<Rightarrow> v)"

definition vh_stringHeader :: "var_headers \<Rightarrow> variable_header \<Rightarrow> string" where
  "vh_stringHeader vh header =
     (if hasStringHeader vh header then the_string (vh_strings vh ! indexOfHeader header) else [])"

definition stringHeaderRaw :: "var_headers \<Rightarrow> variable_header \<Rightarrow> cstring" where
  "stringHeaderRaw vh header =
     (if hasHeader vh header then cstring_of (the_string (vh_strings vh ! indexOfHeader header))
      else null_cstring)"

definition vh_setStringHeader :: "variable_header \<Rightarrow> string \<Rightarrow> var_headers \<Rightarrow> var_headers" where
  "vh_setStringHeader header v vh =
     (if \<not> isStringHeader header then vh
      else (let idx = indexOfHeader header in
            if hasHeader vh header then vh\<lparr>vh_strings := (vh_strings vh)[idx := Some v]\<rparr>
            else vh\<lparr>vh_bitmap := or (vh_bitmap vh) (push_bit (header_code header) 1),
                    vh_strings := (vh_strings vh)[idx := Some v]\<rparr>))"

definition setStringHeader_deser ::
  "variable_header \<Rightarrow> cstring \<Rightarrow> var_headers \<Rightarrow> bool \<times> var_headers" where
  "setStringHeader_deser header v vh =
     (if hasHeader vh header then (False, vh)
      else (True, vh\<lparr>vh_bitmap := or (vh_bitmap vh) (push_bit (header_code header) 1),
                     vh_strings := (vh_strings vh)[indexOfHeader header := Some (cs_chars v)]\<rparr>))"

definition clearStringHeader :: "variable_header \<Rightarrow> var_headers \<Rightarrow> var_headers" where
  "clearStringHeader header vh =
     (if \<not> isStringHeader header then vh
      else if hasHeader vh header
      then vh\<lparr>vh_bitmap := and (vh_bitmap vh) (not (push_bit (header_code header) 1)),
              vh_strings := (vh_strings vh)[indexOfHeader header := None]\<rparr>
      else vh)"

definition vh_intHeader :: "var_headers \<Rightarrow> variable_header \<Rightarrow> uint32" where
  "vh_intHeader vh header = (if hasIntHeader vh header then vh_ints vh ! indexOfHeader header else 0)"

definition vh_setIntHeader :: "variable_header \<Rightarrow> uint32 \<Rightarrow> var_headers \<Rightarrow> var_headers" where
  "vh_setIntHeader header v vh =
     (if isStringHeader header then vh
      else vh\<lparr>vh_bitmap := or (vh_bitmap vh) (push_bit (header_code header) 1),
              vh_ints := (vh_ints vh)[indexOfHeader header := v]\<rparr>)"

definition setIntHeader_deser ::
  "variable_header \<Rightarrow> uint32 \<Rightarrow> var_headers \<Rightarrow> bool \<times> var_headers" where
  "setIntHeader_deser header v vh =
     (if hasHeader vh header then (False, vh)
      else (True, vh\<lparr>vh_bitmap := or (vh_bitmap vh) (push_bit (header_code header) 1),
                     vh_ints := (vh_ints vh)[indexOfHeader header := v]\<rparr>))"

definition clearIntHeader :: "variable_header \<Rightarrow> var_headers \<Rightarrow> var_headers" where
  "clearIntHeader header vh =
     (if isStringHeader header then vh
      else vh\<lparr>vh_bitmap := and (vh_bitmap vh) (not (push_bit (header_code header) 1))\<rparr>)"

text \<open>
  Copy construction and assignment go through all fields.  (The loops start at the value 0, which
  is no field: its bit is never set.)
\<close>

definition copyHeader :: "var_headers \<Rightarrow> variable_header \<Rightarrow> var_headers \<Rightarrow> var_headers" where
  "copyHeader other vh this =
     (if isStringHeader vh then vh_setStringHeader vh (vh_stringHeader other vh) this
      else vh_setIntHeader vh (vh_intHeader other vh) this)"

definition vh_copy_construct :: "var_headers \<Rightarrow> var_headers" where
  "vh_copy_construct other =
     fold (\<lambda>vh this. if hasHeader other vh then copyHeader other vh this else this)
       all_headers VarHeaderStorage"

definition vh_assign :: "var_headers \<Rightarrow> var_headers \<Rightarrow> var_headers" where
  "vh_assign other this =
     fold (\<lambda>vh this. if hasHeader other vh then copyHeader other vh this
             else if isStringHeader vh then clearStringHeader vh this else clearIntHeader vh this)
       all_headers this"

subsection \<open>The storage as two maps\<close>

text \<open>Arrays of their sizes, and a string in exactly the string places marked as present.\<close>

definition vh_wf :: "var_headers \<Rightarrow> bool" where
  "vh_wf vh \<longleftrightarrow> length (vh_strings vh) = 7 \<and> length (vh_ints vh) = 2 \<and>
     list_all (\<lambda>f. (vh_strings vh ! indexOfHeader f \<noteq> None) = hasHeader vh f) s_stringHeaderAtIndex"

definition string_headers :: "var_headers \<Rightarrow> variable_header \<Rightarrow> string option" where
  "string_headers vh f = (if hasStringHeader vh f then Some (vh_stringHeader vh f) else None)"

definition int_headers :: "var_headers \<Rightarrow> variable_header \<Rightarrow> uint32 option" where
  "int_headers vh f = (if hasIntHeader vh f then Some (vh_intHeader vh f) else None)"

lemma hasHeader_bit: "hasHeader vh f \<longleftrightarrow> bit (vh_bitmap vh) (header_code f)"
  using header_code_less [of f]
  by (simp add: hasHeader_def bit_iff_and_push_bit_not_eq_0)

lemma bitmap_simps [simp]:
  "bit (or b (2 ^ header_code f) :: uint32) (header_code g) \<longleftrightarrow> f = g \<or> bit b (header_code g)"
  "bit (and b (not (2 ^ header_code f)) :: uint32) (header_code g)
     \<longleftrightarrow> f \<noteq> g \<and> bit b (header_code g)"
  using header_code_less [of f] header_code_less [of g]
  by (auto simp: bit_simps)

lemma string_header_at: "f \<in> set s_stringHeaderAtIndex \<longleftrightarrow> isStringHeader f"
  by (cases f; simp add: header_tables s_stringHeaderAtIndex_def)

lemma vh_wf_iff:
  "vh_wf vh \<longleftrightarrow> length (vh_strings vh) = 7 \<and> length (vh_ints vh) = 2 \<and>
     (\<forall>f. isStringHeader f \<longrightarrow> (vh_strings vh ! indexOfHeader f \<noteq> None) = hasHeader vh f)"
  by (simp add: vh_wf_def list_all_iff string_header_at Ball_def)

lemma index_bounds [simp]:
  "isStringHeader f \<Longrightarrow> indexOfHeader f < 7" "\<not> isStringHeader f \<Longrightarrow> indexOfHeader f < 2"
  using indexOfHeader_less [of f] by simp_all

lemma nth_index_update:
  "length xs = 7 \<Longrightarrow> isStringHeader f \<Longrightarrow> isStringHeader g \<Longrightarrow>
     xs[indexOfHeader f := v] ! indexOfHeader g = (if f = g then v else xs ! indexOfHeader g)"
  "length ys = 2 \<Longrightarrow> \<not> isStringHeader f \<Longrightarrow> \<not> isStringHeader g \<Longrightarrow>
     ys[indexOfHeader f := u] ! indexOfHeader g = (if f = g then u else ys ! indexOfHeader g)"
  using indexOfHeader_inj [of f g] by (auto simp: nth_list_update)

lemmas vh_defs = vh_setStringHeader_def vh_setIntHeader_def clearStringHeader_def clearIntHeader_def
  setStringHeader_deser_def setIntHeader_deser_def

lemmas vh_views = string_headers_def int_headers_def hasStringHeader_def hasIntHeader_def
  vh_stringHeader_def vh_intHeader_def the_string_def

lemma vh_wf_empty [simp]: "vh_wf VarHeaderStorage"
  by (simp add: vh_wf_iff VarHeaderStorage_def hasHeader_bit)

lemma vh_wf_set [simp]:
  assumes "vh_wf vh"
  shows "vh_wf (vh_setStringHeader f v vh)" "vh_wf (vh_setIntHeader f u vh)"
    "vh_wf (clearStringHeader f vh)" "vh_wf (clearIntHeader f vh)"
    "isStringHeader f \<Longrightarrow> vh_wf (snd (setStringHeader_deser f s vh))"
    "\<not> isStringHeader f \<Longrightarrow> vh_wf (snd (setIntHeader_deser f u vh))"
  using assms by (auto simp: vh_wf_iff vh_defs hasHeader_bit nth_index_update Let_def)

lemma string_headers_empty [simp]: "string_headers VarHeaderStorage f = None"
  by (simp add: vh_views VarHeaderStorage_def hasHeader_bit)

lemma int_headers_empty [simp]: "int_headers VarHeaderStorage f = None"
  by (simp add: vh_views VarHeaderStorage_def hasHeader_bit)

lemma set_string_views:
  assumes "vh_wf vh" "isStringHeader f"
  shows "string_headers (vh_setStringHeader f v vh) = (string_headers vh)(f \<mapsto> v)"
    "int_headers (vh_setStringHeader f v vh) = int_headers vh"
  using assms
  by (auto simp: vh_wf_iff vh_defs vh_views hasHeader_bit nth_index_update Let_def fun_eq_iff)

lemma set_int_views:
  assumes "vh_wf vh" "\<not> isStringHeader f"
  shows "int_headers (vh_setIntHeader f v vh) = (int_headers vh)(f \<mapsto> v)"
    "string_headers (vh_setIntHeader f v vh) = string_headers vh"
  using assms
  by (auto simp: vh_wf_iff vh_defs vh_views hasHeader_bit nth_index_update Let_def fun_eq_iff)

lemma clear_string_views:
  assumes "vh_wf vh" "isStringHeader f"
  shows "string_headers (clearStringHeader f vh) = (string_headers vh)(f := None)"
    "int_headers (clearStringHeader f vh) = int_headers vh"
  using assms
  by (auto simp: vh_wf_iff vh_defs vh_views hasHeader_bit nth_index_update Let_def fun_eq_iff)

lemma clear_int_views:
  assumes "vh_wf vh" "\<not> isStringHeader f"
  shows "int_headers (clearIntHeader f vh) = (int_headers vh)(f := None)"
    "string_headers (clearIntHeader f vh) = string_headers vh"
  using assms
  by (auto simp: vh_wf_iff vh_defs vh_views hasHeader_bit nth_index_update Let_def fun_eq_iff)

subsection \<open>The interface the message code uses\<close>

text \<open>
  What a store of headers of one kind promises: a well-formed store looks like a partial map of the
  fields of that kind, and each operation changes it at its field only.
\<close>

locale header_store =
  fixes valid :: "'s \<Rightarrow> bool"
    and kind :: "'f \<Rightarrow> bool"
    and look :: "'s \<Rightarrow> 'f \<Rightarrow> 'v option"
    and ins :: "'f \<Rightarrow> 'v \<Rightarrow> 's \<Rightarrow> 's"
    and del :: "'f \<Rightarrow> 's \<Rightarrow> 's"
  assumes valid_ins: "valid s \<Longrightarrow> valid (ins f v s)"
    and valid_del: "valid s \<Longrightarrow> valid (del f s)"
    and look_ins: "valid s \<Longrightarrow> kind f \<Longrightarrow> look (ins f v s) = (look s)(f \<mapsto> v)"
    and look_del: "valid s \<Longrightarrow> kind f \<Longrightarrow> look (del f s) = (look s)(f := None)"
    and ins_other: "\<not> kind f \<Longrightarrow> ins f v s = s"
    and del_other: "\<not> kind f \<Longrightarrow> del f s = s"
begin

lemma look_ins_if:
  "valid s \<Longrightarrow> look (ins f v s) g = (if kind f \<and> f = g then Some v else look s g)"
  by (cases "kind f") (simp_all add: look_ins ins_other)

lemma look_del_if:
  "valid s \<Longrightarrow> look (del f s) g = (if kind f \<and> f = g then None else look s g)"
  by (cases "kind f") (simp_all add: look_del del_other)

lemma last_ins_wins: "valid s \<Longrightarrow> look (ins f v (ins f u s)) = look (ins f v s)"
  by (rule ext) (auto simp: look_ins_if valid_ins)

lemma ins_order: "valid s \<Longrightarrow> f \<noteq> g \<Longrightarrow> look (ins f v (ins g u s)) = look (ins g u (ins f v s))"
  by (rule ext) (auto simp: look_ins_if valid_ins)

text \<open>A set of fields, inserted or deleted one after the other from another store's contents.\<close>

definition transfer :: "('f \<Rightarrow> 'v option) \<Rightarrow> 'f \<Rightarrow> 's \<Rightarrow> 's" where
  "transfer m f s = (case m f of Some v \<Rightarrow> ins f v s | None \<Rightarrow> del f s)"

lemma valid_transfer: "valid s \<Longrightarrow> valid (transfer m f s)"
  by (simp add: transfer_def valid_ins valid_del split: option.split)

lemma look_transfer:
  "valid s \<Longrightarrow> look (transfer m f s) g = (if kind f \<and> f = g then m g else look s g)"
  by (auto simp: transfer_def look_ins_if look_del_if split: option.split)

lemma fold_transfer:
  "valid s \<Longrightarrow> valid (fold (transfer m) fs s) \<and>
     look (fold (transfer m) fs s) g = (if kind g \<and> g \<in> set fs then m g else look s g)"
  by (induction fs arbitrary: s) (auto simp: valid_transfer look_transfer)

end

interpretation str_store: header_store vh_wf isStringHeader string_headers
    vh_setStringHeader clearStringHeader
  by unfold_locales
    (simp_all add: set_string_views clear_string_views, simp_all add: vh_setStringHeader_def clearStringHeader_def)

interpretation int_store: header_store vh_wf "\<lambda>f. \<not> isStringHeader f" int_headers
    vh_setIntHeader clearIntHeader
  by unfold_locales
    (simp_all add: set_int_views clear_int_views, simp_all add: vh_setIntHeader_def clearIntHeader_def)

lemma string_headers_kind: "string_headers vh f \<noteq> None \<Longrightarrow> isStringHeader f"
  by (auto simp: string_headers_def hasStringHeader_def split: if_splits)

lemma int_headers_kind: "int_headers vh f \<noteq> None \<Longrightarrow> \<not> isStringHeader f"
  by (auto simp: int_headers_def hasIntHeader_def split: if_splits)

lemma string_headers_int_op:
  "vh_wf vh \<Longrightarrow> string_headers (vh_setIntHeader f v vh) = string_headers vh"
  "vh_wf vh \<Longrightarrow> string_headers (clearIntHeader f vh) = string_headers vh"
  by (cases "isStringHeader f"; simp add: set_int_views clear_int_views int_store.ins_other int_store.del_other)+

lemma int_headers_string_op:
  "vh_wf vh \<Longrightarrow> int_headers (vh_setStringHeader f v vh) = int_headers vh"
  "vh_wf vh \<Longrightarrow> int_headers (clearStringHeader f vh) = int_headers vh"
  by (cases "isStringHeader f"; simp add: set_string_views clear_string_views str_store.ins_other str_store.del_other)+

text \<open>One step of the assignment loop is a transfer in both stores.\<close>

definition assign_step :: "var_headers \<Rightarrow> variable_header \<Rightarrow> var_headers \<Rightarrow> var_headers" where
  "assign_step other f this =
     (if hasHeader other f then copyHeader other f this
      else if isStringHeader f then clearStringHeader f this else clearIntHeader f this)"

lemma assign_step_views:
  assumes "vh_wf this"
  shows "vh_wf (assign_step other f this)"
    "string_headers (assign_step other f this) g =
       (if f = g then string_headers other g else string_headers this g)"
    "int_headers (assign_step other f this) g =
       (if f = g then int_headers other g else int_headers this g)"
proof -
  have s: "isStringHeader f \<Longrightarrow> string_headers other f = (if hasHeader other f then Some (vh_stringHeader other f) else None)"
    "isStringHeader f \<Longrightarrow> int_headers other f = None" "isStringHeader f \<Longrightarrow> int_headers this f = None"
    "\<not> isStringHeader f \<Longrightarrow> int_headers other f = (if hasHeader other f then Some (vh_intHeader other f) else None)"
    "\<not> isStringHeader f \<Longrightarrow> string_headers other f = None" "\<not> isStringHeader f \<Longrightarrow> string_headers this f = None"
    by (simp_all add: string_headers_def int_headers_def hasStringHeader_def hasIntHeader_def)
  show "vh_wf (assign_step other f this)"
    using assms by (simp add: assign_step_def copyHeader_def)
  show "string_headers (assign_step other f this) g =
       (if f = g then string_headers other g else string_headers this g)"
    using assms s by (auto simp: assign_step_def copyHeader_def set_string_views clear_string_views
        string_headers_int_op)
  show "int_headers (assign_step other f this) g =
       (if f = g then int_headers other g else int_headers this g)"
    using assms s by (auto simp: assign_step_def copyHeader_def set_int_views clear_int_views
        int_headers_string_op)
qed

lemma fold_assign_step:
  assumes "vh_wf this"
  shows "vh_wf (fold (assign_step other) fs this) \<and>
    string_headers (fold (assign_step other) fs this) g =
      (if g \<in> set fs then string_headers other g else string_headers this g) \<and>
    int_headers (fold (assign_step other) fs this) g =
      (if g \<in> set fs then int_headers other g else int_headers this g)"
  using assms
  by (induction fs arbitrary: this) (auto simp: assign_step_views)

lemma all_headers_all [simp]: "f \<in> set all_headers"
  by (cases f; simp add: all_headers_def)

lemma vh_assign_fold: "vh_assign other this = fold (assign_step other) all_headers this"
  unfolding vh_assign_def assign_step_def ..

text \<open>C5: A header that was set is read back with its value, and no other header changes: setting
  and clearing string and integer headers act on two independent maps.\<close>

theorem header_storage_maps:
  assumes "vh_wf vh"
  shows "string_headers (vh_setStringHeader f v vh) =
           (if isStringHeader f then (string_headers vh)(f \<mapsto> v) else string_headers vh) \<and>
    int_headers (vh_setStringHeader f v vh) = int_headers vh \<and>
    int_headers (vh_setIntHeader f n vh) =
           (if isStringHeader f then int_headers vh else (int_headers vh)(f \<mapsto> n)) \<and>
    string_headers (vh_setIntHeader f n vh) = string_headers vh \<and>
    string_headers (clearStringHeader f vh) =
           (if isStringHeader f then (string_headers vh)(f := None) else string_headers vh) \<and>
    int_headers (clearStringHeader f vh) = int_headers vh \<and>
    int_headers (clearIntHeader f vh) =
           (if isStringHeader f then int_headers vh else (int_headers vh)(f := None)) \<and>
    string_headers (clearIntHeader f vh) = string_headers vh \<and>
    vh_wf (vh_setStringHeader f v vh) \<and> vh_wf (vh_setIntHeader f n vh) \<and>
    vh_wf (clearStringHeader f vh) \<and> vh_wf (clearIntHeader f vh)"
  using assms
  by (simp add: str_store.del_other int_store.del_other clear_string_views clear_int_views
      set_string_views set_int_views str_store.ins_other int_store.ins_other
      int_headers_string_op string_headers_int_op)

theorem header_storage_maps_witness:
  "string_headers (vh_setStringHeader PathHeader ''/a'' VarHeaderStorage) PathHeader = Some ''/a''"
  using header_storage_maps [OF vh_wf_empty, of PathHeader "''/a''"]
  by (simp add: header_tables)

text \<open>Assigning header storages makes the target hold exactly the headers of the source,
  whatever it held before.\<close>

theorem header_assign_copies:
  assumes "vh_wf this"
  shows "vh_wf (vh_assign other this) \<and>
    string_headers (vh_assign other this) = string_headers other \<and>
    int_headers (vh_assign other this) = int_headers other"
  using fold_assign_step [OF assms, of other all_headers]
  by (auto simp: vh_assign_fold fun_eq_iff)

theorem header_assign_copies_witness:
  "int_headers (vh_assign (vh_setIntHeader UnixFdsHeader 3 VarHeaderStorage)
      (vh_setStringHeader PathHeader ''/'' VarHeaderStorage)) UnixFdsHeader = Some 3"
  using header_assign_copies [of "vh_setStringHeader PathHeader ''/'' VarHeaderStorage"
      "vh_setIntHeader UnixFdsHeader 3 VarHeaderStorage"]
  by (simp add: set_int_views header_tables)

lemma deser_setters:
  assumes "vh_wf vh"
  shows "isStringHeader f \<Longrightarrow> setStringHeader_deser f s vh =
           (if hasHeader vh f then (False, vh) else (True, vh_setStringHeader f (cs_chars s) vh))"
    and "\<not> isStringHeader f \<Longrightarrow> setIntHeader_deser f n vh =
           (if hasHeader vh f then (False, vh) else (True, vh_setIntHeader f n vh))"
  by (simp_all add: vh_defs Let_def)

lemma vh_copy_construct_views:
  "vh_wf (vh_copy_construct other)"
  "string_headers (vh_copy_construct other) = string_headers other"
  "int_headers (vh_copy_construct other) = int_headers other"
proof -
  let ?step = "\<lambda>vh this. if hasHeader other vh then copyHeader other vh this else this"
  have "vh_wf (fold ?step fs this) \<and>
      string_headers (fold ?step fs this) g =
        (if g \<in> set fs \<and> hasHeader other g then string_headers other g else string_headers this g) \<and>
      int_headers (fold ?step fs this) g =
        (if g \<in> set fs \<and> hasHeader other g then int_headers other g else int_headers this g)"
    if "vh_wf this" for fs this g
    using that
  proof (induction fs arbitrary: this)
    case (Cons f fs)
    have "?step f this = (if hasHeader other f then assign_step other f this else this)"
      by (simp add: assign_step_def)
    with Cons show ?case by (auto simp: assign_step_views)
  qed simp
  from this [OF vh_wf_empty, of all_headers, folded vh_copy_construct_def]
  have v: "vh_wf (vh_copy_construct other)"
    "string_headers (vh_copy_construct other) g = (if hasHeader other g then string_headers other g else None)"
    "int_headers (vh_copy_construct other) g = (if hasHeader other g then int_headers other g else None)" for g
    by simp_all
  then show "vh_wf (vh_copy_construct other)"
    "string_headers (vh_copy_construct other) = string_headers other"
    "int_headers (vh_copy_construct other) = int_headers other"
    by (simp_all add: fun_eq_iff string_headers_def [of other] int_headers_def [of other]
        hasStringHeader_def hasIntHeader_def)
qed

end
