(* ===== verification/Signature_Check.thy ===== *)
theory Signature_Check
  imports Dfer_Types
begin

text \<open>
  The validators of \<^verbatim>\<open>serialization/arguments.cpp\<close>: strings, object paths and type signatures.

  A validator returns \<open>None\<close> when the code would read behind the memory block that its
  argument points into.  The signature parser works on the remaining characters; a read at
  remaining length 0 sees the terminating null that \<open>isSignatureValid\<close> has checked.  On
  failure the parser leaves its position and the nesting counters where they are at that
  moment, as the code does.
\<close>

subsection \<open>Strings and object paths\<close>

definition strlen :: "string \<Rightarrow> nat" where
  "strlen b = length (takeWhile (\<lambda>c. c \<noteq> CHR 0x00) b)"

definition isStringValid :: "cstring \<Rightarrow> bool option" where
  "isStringValid string =
     (case cs_block string of
        None \<Rightarrow> Some False
      | Some b \<Rightarrow>
          if MaxArrayLength \<le> u32 (cs_length string + 1) then Some False
          else (case cs_at string (cs_length string) of
                  None \<Rightarrow> None
                | Some c \<Rightarrow> if c \<noteq> CHR 0x00 then Some False
                            else Some (strlen b = cs_length string)))"

definition isObjectNameLetter :: "char \<Rightarrow> bool" where
  "isObjectNameLetter c \<longleftrightarrow>
     (signed_char (CHR ''a'') \<le> signed_char c \<and> signed_char c \<le> signed_char (CHR ''z'')) \<or>
     c = CHR ''_'' \<or>
     (signed_char (CHR ''A'') \<le> signed_char c \<and> signed_char c \<le> signed_char (CHR ''Z'')) \<or>
     (signed_char (CHR ''0'') \<le> signed_char c \<and> signed_char c \<le> signed_char (CHR ''9''))"

text \<open>The loop of \<^verbatim>\<open>isObjectPathValid\<close> over the letters from index 1 on.\<close>

fun objectPathLoop :: "char \<Rightarrow> string \<Rightarrow> bool" where
  "objectPathLoop prevLetter [] = (prevLetter \<noteq> CHR ''/'')"
| "objectPathLoop prevLetter (currentLetter # rest) =
     (if prevLetter = CHR ''/'' then
        (if \<not> isObjectNameLetter currentLetter then False
         else objectPathLoop currentLetter rest)
      else
        (if currentLetter \<noteq> CHR ''/'' \<and> \<not> isObjectNameLetter currentLetter then False
         else objectPathLoop currentLetter rest))"

definition isObjectPathValid :: "cstring \<Rightarrow> bool option" where
  "isObjectPathValid path =
     (case cs_block path of
        None \<Rightarrow> Some False
      | Some b \<Rightarrow>
          if MaxArrayLength \<le> u32 (cs_length path + 1) then Some False
          else (case cs_at path (cs_length path) of
                  None \<Rightarrow> None
                | Some c \<Rightarrow>
                    if c \<noteq> CHR 0x00 then Some False
                    else (let prevLetter = b ! 0
                          in if prevLetter \<noteq> CHR ''/'' then Some False
                             else if cs_length path = 1 then Some True
                             else Some (objectPathLoop prevLetter (tl (cs_chars path))))))"

fun elementLoop :: "cstring \<Rightarrow> nat list \<Rightarrow> bool option" where
  "elementLoop pathElement [] = Some True"
| "elementLoop pathElement (i # is) =
     (case cs_at pathElement i of
        None \<Rightarrow> None
      | Some c \<Rightarrow> if \<not> isObjectNameLetter c then Some False else elementLoop pathElement is)"

definition isObjectPathElementValid :: "cstring \<Rightarrow> bool option" where
  "isObjectPathElementValid pathElement =
     (if cs_length pathElement = 0 then Some False
      else elementLoop pathElement [0..<cs_length pathElement])"

subsection \<open>Signatures\<close>

text \<open>The character at the parse position.\<close>

definition cur :: "string \<Rightarrow> char" where
  "cur s = (case s of [] \<Rightarrow> CHR 0x00 | c # _ \<Rightarrow> c)"

definition chopFirst :: "string \<Rightarrow> string" where
  "chopFirst s = tl s"

lemma cur_simps [simp]: "cur [] = CHR 0x00" "cur (c # s) = c"
  by (simp_all add: cur_def)

lemma chopFirst_Cons [simp]: "chopFirst (c # s) = s"
  by (simp add: chopFirst_def)

definition parseBasicType :: "string \<Rightarrow> bool \<times> string" where
  "parseBasicType s =
     (if length s = 0 then (False, s)
      else if cur s \<in> set basic_type_letters then (True, chopFirst s)
      else (False, s))"

lemma chopFirst_length: "cur s = c \<Longrightarrow> c \<noteq> CHR 0x00 \<Longrightarrow> length (chopFirst s) < length s"
  by (cases s) auto

lemma parseBasicType_length: "parseBasicType s = (ok, s') \<Longrightarrow> length s' \<le> length s"
  by (cases s) (auto simp: parseBasicType_def split: if_splits)

text \<open>
  The second function is the \<^verbatim>\<open>while\<close> loop in the struct case.  Its test that the position has
  advanced only serves the termination proof; \<open>parseStructBody_eq\<close> below shows that it is
  always passed.
\<close>

function (sequential)
  parseSingleCompleteType :: "string \<Rightarrow> nesting \<Rightarrow> bool \<times> string \<times> nesting" and
  parseStructBody :: "string \<Rightarrow> nesting \<Rightarrow> bool \<Rightarrow> bool \<times> string \<times> nesting"
where
  "parseSingleCompleteType s nest =
     (if cur s \<in> set basic_type_letters then (True, chopFirst s, nest)
      else if cur s = CHR ''v'' then
        (case nestBeginVariant nest of (ok, nest1) \<Rightarrow>
           if \<not> ok then (False, s, nest1)
           else (True, chopFirst s, nestEndVariant nest1))
      else if cur s = CHR ''('' then
        (case nestBeginParen nest of (ok, nest1) \<Rightarrow>
           if \<not> ok then (False, s, nest1)
           else (case parseStructBody (chopFirst s) nest1 True of (isEmptyStruct, s2, nest2) \<Rightarrow>
             if length s2 = 0 \<or> cur s2 \<noteq> CHR '')'' \<or> isEmptyStruct then (False, s2, nest2)
             else (True, chopFirst s2, nestEndParen nest2)))
      else if cur s = CHR ''a'' then
        (case nestBeginArray nest of (ok, nest1) \<Rightarrow>
           if \<not> ok then (False, s, nest1)
           else (let s1 = chopFirst s in
             if cur s1 = CHR ''{'' then
               (case nestBeginParen nest1 of (ok, nest2) \<Rightarrow>
                  if \<not> ok \<or> length s1 < 4 then (False, s1, nest2)
                  else (case parseBasicType (chopFirst s1) of (ok, s3) \<Rightarrow>
                    if \<not> ok then (False, s3, nest2)
                    else (case parseSingleCompleteType s3 nest2 of (ok, s4, nest3) \<Rightarrow>
                      if \<not> ok then (False, s4, nest3)
                      else if length s4 = 0 \<or> cur s4 \<noteq> CHR ''}'' then (False, s4, nest3)
                      else (True, chopFirst s4, nestEndArray (nestEndParen nest3)))))
             else
               (case parseSingleCompleteType s1 nest1 of (ok, s2, nest2) \<Rightarrow>
                  if \<not> ok then (False, s2, nest2)
                  else (True, s2, nestEndArray nest2))))
      else (False, s, nest))"
| "parseStructBody s nest isEmptyStruct =
     (case parseSingleCompleteType s nest of (ok, s', nest') \<Rightarrow>
        if ok then
          (if length s' < length s then parseStructBody s' nest' False else (False, s', nest'))
        else (isEmptyStruct, s', nest'))"
  by pat_completeness auto
termination
  by (relation "measure (case_sum (\<lambda>(s, _). 2 * length s) (\<lambda>(s, _). Suc (2 * length s)))")
    (fastforce dest: chopFirst_length parseBasicType_length [OF sym])+

declare parseSingleCompleteType.simps [simp del] parseStructBody.simps [simp del]

datatype signature_type = MethodSignature | VariantSignature

function (sequential) methodSignatureLoop :: "string \<Rightarrow> nesting \<Rightarrow> bool \<times> nesting" where
  "methodSignatureLoop s nest =
     (if length s = 0 then (True, nest)
      else (case parseSingleCompleteType s nest of (ok, s', nest') \<Rightarrow>
        if \<not> ok then (False, nest')
        else if length s' < length s then methodSignatureLoop s' nest' else (False, nest')))"
  by pat_completeness auto
termination
  by (relation "measure (\<lambda>(s, _). length s)") auto

declare methodSignatureLoop.simps [simp del]

text \<open>The body of \<^verbatim>\<open>isSignatureValid\<close> behind its first check, with the counters at its end.\<close>

definition checkSignature :: "string \<Rightarrow> signature_type \<Rightarrow> bool \<times> nesting" where
  "checkSignature s type =
     (if type = VariantSignature then
        (if length s = 0 then (False, no_nesting)
         else (case parseSingleCompleteType s no_nesting of (ok, s', nest) \<Rightarrow>
           if \<not> ok then (False, nest)
           else if length s' \<noteq> 0 then (False, nest)
           else (True, nest)))
      else methodSignatureLoop s no_nesting)"

definition isSignatureValid :: "cstring \<Rightarrow> signature_type \<Rightarrow> bool option" where
  "isSignatureValid signature type =
     (case cs_block signature of
        None \<Rightarrow> Some False
      | Some b \<Rightarrow>
          (case cs_at signature (cs_length signature) of
             None \<Rightarrow> None
           | Some c \<Rightarrow> if c \<noteq> CHR 0x00 then Some False
                       else Some (fst (checkSignature (cs_chars signature) type))))"

text \<open>The three assertions before the final \<^verbatim>\<open>return true\<close>.\<close>

definition closingAssertions :: "nesting \<Rightarrow> bool" where
  "closingAssertions nest \<longleftrightarrow> n_array nest = 0 \<and> n_paren nest = 0 \<and> n_variant nest = 0"

subsection \<open>Monotonicity and progress of the parser\<close>

definition nest_le :: "nesting \<Rightarrow> nesting \<Rightarrow> bool" where
  "nest_le m n \<longleftrightarrow> n_array m \<le> n_array n \<and> n_paren m \<le> n_paren n \<and> n_variant m \<le> n_variant n"

lemma nest_le_refl [simp]: "nest_le n n"
  by (simp add: nest_le_def)

lemma nest_le_trans: "nest_le a b \<Longrightarrow> nest_le b c \<Longrightarrow> nest_le a c"
  by (simp add: nest_le_def)

lemma nest_le_antisym: "nest_le a b \<Longrightarrow> nest_le b a \<Longrightarrow> a = b"
  by (simp add: nest_le_def)

lemma nest_eq_iff:
  "m = (n::nesting) \<longleftrightarrow> n_array m = n_array n \<and> n_paren m = n_paren n \<and> n_variant m = n_variant n"
  by (cases m; cases n) auto

lemma nest_begin_facts:
  "nestBeginArray n = (ok, m) \<Longrightarrow> nest_le n m \<and> m \<noteq> n \<and> n_array m = Suc (n_array n) \<and> n_paren m = n_paren n \<and> n_variant m = n_variant n"
  "nestBeginParen n = (ok, m) \<Longrightarrow> nest_le n m \<and> m \<noteq> n \<and> n_array m = n_array n \<and> n_paren m = Suc (n_paren n) \<and> n_variant m = n_variant n"
  "nestBeginVariant n = (ok, m) \<Longrightarrow> nest_le n m \<and> m \<noteq> n \<and> n_array m = n_array n \<and> n_paren m = n_paren n \<and> n_variant m = Suc (n_variant n)"
  by (auto simp: nestBeginArray_def nestBeginParen_def nestBeginVariant_def nest_le_def Let_def nest_eq_iff)

lemma nest_end_simps [simp]:
  "n_array (nestEndArray n) = n_array n - 1" "n_paren (nestEndArray n) = n_paren n" "n_variant (nestEndArray n) = n_variant n"
  "n_array (nestEndParen n) = n_array n" "n_paren (nestEndParen n) = n_paren n - 1" "n_variant (nestEndParen n) = n_variant n"
  "n_array (nestEndVariant n) = n_array n" "n_paren (nestEndVariant n) = n_paren n" "n_variant (nestEndVariant n) = n_variant n - 1"
  by (simp_all add: nest_defs)

lemma cur_in_length: "cur s \<in> set basic_type_letters \<Longrightarrow> length (chopFirst s) < length s"
  by (cases s) (auto simp: basic_type_letters_def)

lemma parse_cases:
  assumes "parseSingleCompleteType s n = (ok, s', n')"
  obtains
    (basic) "cur s \<in> set basic_type_letters" "ok" "s' = chopFirst s" "n' = n"
  | (variant) "cur s = CHR ''v''" "fst (nestBeginVariant n)" "ok" "s' = chopFirst s" "n' = n"
  | (too_deep) "\<not> ok" "s' = s" "nest_le n n'" "n' \<noteq> n"
  | (struct) n1 e s2 n2 where "cur s = CHR ''(''" "nestBeginParen n = (True, n1)"
      "parseStructBody (chopFirst s) n1 True = (e, s2, n2)"
      "ok \<longleftrightarrow> length s2 \<noteq> 0 \<and> cur s2 = CHR '')'' \<and> \<not> e"
      "s' = (if ok then chopFirst s2 else s2)" "n' = (if ok then nestEndParen n2 else n2)"
  | (no_key) "\<not> ok" "length s' < length s" "nest_le n n'" "n' \<noteq> n"
  | (dict) n1 n2 s3 s4 n3 okV where "cur s = CHR ''a''" "cur (chopFirst s) = CHR ''{''"
      "nestBeginArray n = (True, n1)" "nestBeginParen n1 = (True, n2)"
      "parseBasicType (chopFirst (chopFirst s)) = (True, s3)"
      "parseSingleCompleteType s3 n2 = (okV, s4, n3)"
      "ok \<longleftrightarrow> okV \<and> length s4 \<noteq> 0 \<and> cur s4 = CHR ''}''"
      "s' = (if ok then chopFirst s4 else s4)"
      "n' = (if ok then nestEndArray (nestEndParen n3) else n3)"
  | (array) n1 n2 where "cur s = CHR ''a''" "cur (chopFirst s) \<noteq> CHR ''{''"
      "nestBeginArray n = (True, n1)" "parseSingleCompleteType (chopFirst s) n1 = (ok, s', n2)"
      "n' = (if ok then nestEndArray n2 else n2)"
  | (other) "\<not> ok" "s' = s" "n' = n"
proof -
  consider (b) "cur s \<in> set basic_type_letters"
    | (v) "cur s \<notin> set basic_type_letters" "cur s = CHR ''v''"
    | (p) "cur s \<notin> set basic_type_letters" "cur s = CHR ''(''"
    | (a) "cur s \<notin> set basic_type_letters" "cur s = CHR ''a''"
    | (o) "cur s \<notin> set basic_type_letters" "cur s \<noteq> CHR ''v''" "cur s \<noteq> CHR ''(''" "cur s \<noteq> CHR ''a''"
    by blast
  then show thesis
  proof cases
    case b
    with assms show thesis by (intro basic) (simp_all add: parseSingleCompleteType.simps [of s n])
  next
    case v
    obtain b n1 where n1: "nestBeginVariant n = (b, n1)" by force
    then have "nestEndVariant n1 = n"
      using nest_begin_facts(3) [OF n1] by (simp add: nest_eq_iff)
    with v assms n1 show thesis
      using nest_begin_facts(3) [OF n1]
      by (cases b; intro variant too_deep)
        (auto simp: parseSingleCompleteType.simps [of s n])
  next
    case p
    obtain b n1 where n1: "nestBeginParen n = (b, n1)" by force
    show thesis
    proof (cases b)
      case True
      obtain e s2 n2 where e2: "parseStructBody (chopFirst s) n1 True = (e, s2, n2)" by (rule prod_cases3)
      with p assms n1 True e2 show thesis
        by (intro struct [of n1 e s2 n2]) (auto simp: parseSingleCompleteType.simps [of s n] split: if_splits)
    next
      case False
      with p assms n1 show thesis
        by (intro too_deep) (auto simp: parseSingleCompleteType.simps [of s n] dest: nest_begin_facts)
    qed
  next
    case a
    obtain b n1 where n1: "nestBeginArray n = (b, n1)" by force
    show thesis
    proof (cases b)
      case False
      with a assms n1 show thesis
        by (intro too_deep) (auto simp: parseSingleCompleteType.simps [of s n] dest: nest_begin_facts)
    next
      case b: True
      show thesis
      proof (cases "cur (chopFirst s) = CHR ''{''")
        case brace: True
        obtain b2 n2 where n2: "nestBeginParen n1 = (b2, n2)" by force
        obtain b3 s3 where s3: "parseBasicType (chopFirst (chopFirst s)) = (b3, s3)" by force
        obtain okV s4 n3 where s4: "parseSingleCompleteType s3 n2 = (okV, s4, n3)" by (rule prod_cases3)
        note f = nest_begin_facts(1) [OF n1] nest_begin_facts(2) [OF n2]
        from f have le: "nest_le n n2" "n2 \<noteq> n" by (auto simp: nest_le_def)
        have len: "length (chopFirst s) < length s" "length (chopFirst (chopFirst s)) < length (chopFirst s)"
          using a brace by (auto intro: chopFirst_length)
        show thesis
        proof (cases "b2 \<and> 4 \<le> length (chopFirst s) \<and> b3")
          case True
          with a b brace assms n1 n2 s3 s4 show thesis
            by (intro dict [of n1 n2 s3 okV s4 n3])
              (auto simp: parseSingleCompleteType.simps [of s n] Let_def split: if_splits)
        next
          case False
          with a b brace assms n1 n2 s3 s4 have "\<not> ok" "n' = n2" "s' = chopFirst s \<or> s' = s3"
            by (auto simp: parseSingleCompleteType.simps [of s n] Let_def split: if_splits)
          with le len parseBasicType_length [OF s3] show thesis
            by (intro no_key) auto
        qed
      next
        case no_brace: False
        obtain okE s2 n2 where e2: "parseSingleCompleteType (chopFirst s) n1 = (okE, s2, n2)"
          by (rule prod_cases3)
        have "parseSingleCompleteType s n =
            (if \<not> okE then (False, s2, n2) else (True, s2, nestEndArray n2))"
          using a b no_brace n1 e2 by (simp add: parseSingleCompleteType.simps [of s n] Let_def)
        with a b no_brace assms n1 e2 show thesis
          by (intro array [of n1 n2]) (auto split: if_splits)
      qed
    qed
  next
    case o
    with assms show thesis by (intro other) (simp_all add: parseSingleCompleteType.simps [of s n])
  qed
qed


lemma parse_body_mono:
  assumes step: "\<And>t m ok t' m'. length t < k \<Longrightarrow> parseSingleCompleteType t m = (ok, t', m') \<Longrightarrow>
      nest_le m m' \<and> length t' \<le> length t \<and> (ok \<longrightarrow> length t' < length t)"
    and "length s < k" and "parseStructBody s n e = (e', s', n')"
  shows "nest_le n n' \<and> length s' \<le> length s"
  using assms(2,3)
proof (induction "length s" arbitrary: s n e rule: less_induct)
  case less
  obtain ok t m where t: "parseSingleCompleteType s n = (ok, t, m)" by (rule prod_cases3)
  note st = step [OF less.prems(1) t]
  show ?case
  proof (cases ok)
    case True
    with less.prems t st have "parseStructBody t m False = (e', s', n')"
      by (simp add: parseStructBody.simps [of s])
    with less.hyps [of t m False] less.prems(1) st True show ?thesis by (auto intro: nest_le_trans)
  next
    case False
    with less.prems t st show ?thesis by (simp add: parseStructBody.simps [of s])
  qed
qed

lemma parse_mono:
  "parseSingleCompleteType s n = (ok, s', n') \<Longrightarrow>
     nest_le n n' \<and> length s' \<le> length s \<and> (ok \<longrightarrow> length s' < length s) \<and> (\<not> ok \<and> n' = n \<longrightarrow> s' = s)"
proof (induction "length s" arbitrary: s n ok s' n' rule: less_induct)
  case less
  have IH: "nest_le m m' \<and> length t' \<le> length t \<and> (b \<longrightarrow> length t' < length t)"
    if "length t < length s" "parseSingleCompleteType t m = (b, t', m')" for t m b t' m'
    using less.hyps [OF that] by blast
  from less.prems show ?case
  proof (cases rule: parse_cases)
    case (struct n1 e s2 n2)
    then have "length (chopFirst s) < length s" by (auto intro: chopFirst_length)
    with parse_body_mono [where k = "length s", OF IH _ struct(3)] have body: "nest_le n1 n2" "length s2 < length s" by auto
    then have "ok \<longrightarrow> length (chopFirst s2) < length s"
      using struct(4) by (auto dest: chopFirst_length)
    with body struct nest_begin_facts(2) [OF struct(2)] show ?thesis
      by (auto simp: nest_le_def nest_eq_iff)
  next
    case (dict n1 n2 s3 s4 n3 okV)
    then have "length s3 < length s"
      using chopFirst_length [of s] chopFirst_length [of "chopFirst s"] parseBasicType_length by fastforce
    with IH dict(6) have v: "nest_le n2 n3" "length s4 < length s" by fastforce+
    then have "ok \<longrightarrow> length (chopFirst s4) < length s"
      using dict(7) by (auto dest: chopFirst_length)
    with v dict nest_begin_facts(1) [OF dict(3)] nest_begin_facts(2) [OF dict(4)] show ?thesis
      by (auto simp: nest_le_def nest_eq_iff)
  next
    case (array n1 n2)
    then have "length (chopFirst s) < length s" by (auto intro: chopFirst_length)
    with IH array(4) have "nest_le n1 n2" "length s' < length s" by fastforce+
    with array nest_begin_facts(1) [OF array(3)] show ?thesis
      by (auto simp: nest_le_def nest_eq_iff)
  qed (auto dest: cur_in_length chopFirst_length)
qed

lemma parse_body_mono':
  assumes "parseStructBody s n e = (e', s', n')"
  shows "nest_le n n' \<and> length s' \<le> length s"
  using parse_body_mono [of "Suc (length s)" s, OF _ _ assms] parse_mono by blast

text \<open>Without the termination test: the loops of the code.\<close>

lemma parseStructBody_eq:
  "parseStructBody s nest isEmptyStruct =
     (case parseSingleCompleteType s nest of (ok, s', nest') \<Rightarrow>
        if ok then parseStructBody s' nest' False else (isEmptyStruct, s', nest'))"
  by (subst parseStructBody.simps) (auto split: prod.split dest: parse_mono)

lemma methodSignatureLoop_eq:
  "methodSignatureLoop s nest =
     (if length s = 0 then (True, nest)
      else (case parseSingleCompleteType s nest of (ok, s', nest') \<Rightarrow>
        if \<not> ok then (False, nest') else methodSignatureLoop s' nest'))"
  by (subst methodSignatureLoop.simps) (auto split: prod.split dest: parse_mono)

subsection \<open>The grammar of type signatures\<close>

datatype dbus_type =
    TBasic char
  | TVariant
  | TArray dbus_type
  | TDict char dbus_type
  | TStruct "dbus_type list"

fun sig_of :: "dbus_type \<Rightarrow> string" where
  "sig_of (TBasic c) = [c]"
| "sig_of TVariant = ''v''"
| "sig_of (TArray t) = CHR ''a'' # sig_of t"
| "sig_of (TDict k t) = CHR ''a'' # CHR ''{'' # k # sig_of t @ ''}''"
| "sig_of (TStruct ts) = CHR ''('' # concat (map sig_of ts) @ '')''"

text \<open>A type that is well-formed and stays within the nesting limits, below given aggregates.\<close>

fun type_fits :: "nesting \<Rightarrow> dbus_type \<Rightarrow> bool" where
  "type_fits n (TBasic c) = (c \<in> set basic_type_letters)"
| "type_fits n TVariant = fst (nestBeginVariant n)"
| "type_fits n (TArray t) = (fst (nestBeginArray n) \<and> type_fits (snd (nestBeginArray n)) t)"
| "type_fits n (TDict k t) =
     (fst (nestBeginArray n) \<and> fst (nestBeginParen (snd (nestBeginArray n))) \<and>
      k \<in> set basic_type_letters \<and> type_fits (snd (nestBeginParen (snd (nestBeginArray n)))) t)"
| "type_fits n (TStruct ts) =
     (fst (nestBeginParen n) \<and> ts \<noteq> [] \<and> list_all (type_fits (snd (nestBeginParen n))) ts)"

lemma cur_split: "cur s = c \<Longrightarrow> c \<noteq> CHR 0x00 \<Longrightarrow> s = c # chopFirst s"
  by (cases s) auto

lemma cur_in_split: "cur s \<in> set basic_type_letters \<Longrightarrow> s = cur s # chopFirst s"
  by (cases s) (auto simp: basic_type_letters_def)

lemma parseBasicType_True:
  "parseBasicType s = (True, s') \<Longrightarrow> cur s \<in> set basic_type_letters \<and> s = cur s # s'"
  by (cases s) (auto simp: parseBasicType_def split: if_splits)

lemma parse_body_sound:
  assumes step: "\<And>t t' m. length t < k \<Longrightarrow> parseSingleCompleteType t m = (True, t', m) \<Longrightarrow>
      \<exists>ty. type_fits m ty \<and> t = sig_of ty @ t'"
    and "length s < k" and "parseStructBody s n e = (e', s', n)"
  shows "\<exists>ts. list_all (type_fits n) ts \<and> s = concat (map sig_of ts) @ s' \<and> (e' \<longleftrightarrow> e \<and> ts = [])"
  using assms(2,3)
proof (induction "length s" arbitrary: s e rule: less_induct)
  case less
  obtain ok t m where t: "parseSingleCompleteType s n = (ok, t, m)" by (rule prod_cases3)
  note mono = parse_mono [OF t]
  show ?case
  proof (cases ok)
    case True
    with less.prems t have body: "parseStructBody t m False = (e', s', n)"
      by (simp add: parseStructBody_eq [of s])
    with mono have m: "m = n" using parse_body_mono' nest_le_antisym by blast
    with True t less.prems(1) obtain ty where ty: "type_fits n ty" "s = sig_of ty @ t"
      using step [of s n t] by auto
    from less.hyps [of t False] body m mono True less.prems(1) obtain ts where
      "list_all (type_fits n) ts" "t = concat (map sig_of ts) @ s'" "\<not> e'" by auto
    with ty show ?thesis by (intro exI [of _ "ty # ts"]) auto
  next
    case False
    with less.prems t have "s' = t" "m = n" "e' = e" by (auto simp: parseStructBody_eq [of s])
    with mono False show ?thesis by (intro exI [of _ "[]"]) auto
  qed
qed

lemma nest_end_eq:
  "nest_le m k \<Longrightarrow> nestBeginParen n = (b, m) \<Longrightarrow> nestEndParen k = n \<longleftrightarrow> k = m"
  "nest_le m k \<Longrightarrow> nestBeginArray n = (b, m) \<Longrightarrow> nestEndArray k = n \<longleftrightarrow> k = m"
  by (auto dest!: nest_begin_facts simp: nest_eq_iff nest_le_def)

lemma parse_sound:
  "parseSingleCompleteType s n = (True, s', n) \<Longrightarrow> \<exists>ty. type_fits n ty \<and> s = sig_of ty @ s'"
proof (induction "length s" arbitrary: s n s' rule: less_induct)
  case less
  from less.prems show ?case
  proof (cases rule: parse_cases)
    case basic
    then show ?thesis
      using cur_in_split by (intro exI [of _ "TBasic (cur s)"]) auto
  next
    case variant
    then show ?thesis
      using cur_split [of s] by (intro exI [of _ TVariant]) auto
  next
    case (struct n1 e s2 n2)
    then have len: "length (chopFirst s) < length s" by (auto intro: chopFirst_length)
    from struct parse_body_mono' [OF struct(3)] have "n2 = n1"
      using nest_end_eq(1) [of n1 n2 n True] by simp
    with struct(3) parse_body_sound [OF less.hyps len] obtain ts where
      "list_all (type_fits n1) ts" "chopFirst s = concat (map sig_of ts) @ s2" "e \<longleftrightarrow> ts = []"
      by blast
    with struct cur_split [of s] cur_split [of s2] show ?thesis
      by (intro exI [of _ "TStruct ts"]) auto
  next
    case (dict n1 n2 s3 s4 n3 okV)
    have s: "s = CHR ''a'' # CHR ''{'' # cur (chopFirst (chopFirst s)) # s3"
      using dict(1,2) cur_split [of s] cur_split [of "chopFirst s"] parseBasicType_True [OF dict(5)]
      by simp
    have len: "length s3 < length s" by (subst s) simp
    from dict parse_mono [OF dict(6)] have "nest_le n2 n3" by simp
    with dict(4,9) nest_begin_facts(1) [OF dict(3)] nest_begin_facts(2) [OF dict(4)] have "n3 = n2"
      by (auto simp: nest_eq_iff nest_le_def)
    with less.hyps [OF len] dict obtain ty where "type_fits n2 ty" "s3 = sig_of ty @ s4" by auto
    with dict s cur_split [of s4] parseBasicType_True [OF dict(5)] show ?thesis
      by (intro exI [of _ "TDict (cur (chopFirst (chopFirst s))) ty"]) auto
  next
    case (array n1 n2)
    then have len: "length (chopFirst s) < length s" by (auto intro: chopFirst_length)
    from array parse_mono [OF array(4)] have "n2 = n1"
      using nest_end_eq(2) [of n1 n2 n True] by simp
    with less.hyps [OF len] array(4) obtain ty where
      "type_fits n1 ty" "chopFirst s = sig_of ty @ s'" by blast
    with array cur_split [of s] show ?thesis by (intro exI [of _ "TArray ty"]) auto
  qed auto
qed

lemma sig_of_nonempty: "sig_of t \<noteq> []"
  by (cases t) auto

lemma sig_of_first: "type_fits n t \<Longrightarrow> cur (sig_of t @ rest) \<noteq> CHR ''{'' \<and> cur (sig_of t @ rest) \<noteq> CHR '')''"
  by (cases t) (auto simp: basic_type_letters_def)

lemma parse_complete:
  "type_fits n t \<Longrightarrow> parseSingleCompleteType (sig_of t @ rest) n = (True, rest, n)"
proof (induction n t arbitrary: rest rule: type_fits.induct)
  case (1 n c)
  then show ?case by (simp add: parseSingleCompleteType.simps)
next
  case (2 n)
  then show ?case
    using nest_end_begin(3) [of n]
    by (cases "nestBeginVariant n")
      (simp add: parseSingleCompleteType.simps [of "CHR ''v'' # rest"] basic_type_letters_def)
next
  case (3 n t)
  obtain n1 where n1: "nestBeginArray n = (True, n1)" and "type_fits n1 t"
    using "3.prems" by (cases "nestBeginArray n") auto
  with "3.IH" sig_of_first [of n1 t rest] nest_end_begin(1) [of n] show ?case
    by (simp add: parseSingleCompleteType.simps [of "CHR ''a'' # _"] basic_type_letters_def Let_def)
next
  case (4 n k t)
  obtain n1 n2 where n1: "nestBeginArray n = (True, n1)" and n2: "nestBeginParen n1 = (True, n2)"
      and k: "k \<in> set basic_type_letters" and t: "type_fits n2 t"
    using "4.prems" by (cases "nestBeginArray n"; cases "nestBeginParen (snd (nestBeginArray n))") auto
  have v: "parseSingleCompleteType (sig_of t @ CHR ''}'' # rest) n2 = (True, CHR ''}'' # rest, n2)"
    using "4.IH" n1 n2 t by simp
  define s1 where "s1 = CHR ''{'' # k # sig_of t @ CHR ''}'' # rest"
  have s1: "cur s1 = CHR ''{''" "chopFirst s1 = k # sig_of t @ CHR ''}'' # rest" "\<not> length s1 < 4"
    using sig_of_nonempty [of t] by (cases "sig_of t"; simp add: s1_def)+
  have b: "parseBasicType (k # sig_of t @ CHR ''}'' # rest) = (True, sig_of t @ CHR ''}'' # rest)"
    using k by (simp add: parseBasicType_def)
  have "nestEndArray (nestEndParen n2) = n"
    using n1 n2 nest_end_begin(1) [of n] nest_end_begin(2) [of n1] by simp
  then have "parseSingleCompleteType (CHR ''a'' # s1) n = (True, rest, n)"
    using n1 n2 v b s1
    by (simp add: parseSingleCompleteType.simps [of "CHR ''a'' # _"] basic_type_letters_def)
  then show ?case by (simp add: s1_def)
next
  case (5 n ts)
  let ?n1 = "snd (nestBeginParen n)"
  have body: "parseStructBody (concat (map sig_of us) @ CHR '')'' # rest) ?n1 e =
      (e \<and> us = [], CHR '')'' # rest, ?n1)" if "set us \<subseteq> set ts" for us e
    using that
  proof (induction us arbitrary: e)
    case Nil
    show ?case by (simp add: parseStructBody_eq [of "CHR '')'' # _"] parseSingleCompleteType.simps basic_type_letters_def)
  next
    case (Cons u us)
    then have "parseSingleCompleteType (sig_of u @ concat (map sig_of us) @ CHR '')'' # rest) ?n1 = (True, concat (map sig_of us) @ CHR '')'' # rest, ?n1)"
      using "5.IH" [of u] "5.prems" by (auto simp: list_all_iff)
    with Cons show ?case by (simp add: parseStructBody_eq [of "sig_of u @ _"])
  qed
  obtain n1 where n1: "nestBeginParen n = (True, n1)" and "ts \<noteq> []"
    using "5.prems" by (cases "nestBeginParen n") auto
  then show ?case
    using body [of ts True] nest_end_begin(2) [of n]
    by (simp add: parseSingleCompleteType.simps [of "CHR ''('' # _"] basic_type_letters_def)
qed

lemma nest_zero: "closingAssertions n \<longleftrightarrow> n = no_nesting"
  by (simp add: closingAssertions_def nest_eq_iff no_nesting_def)

lemma methodSignatureLoop_mono: "methodSignatureLoop s n = (ok, n') \<Longrightarrow> nest_le n n'"
proof (induction s n arbitrary: ok n' rule: methodSignatureLoop.induct)
  case (1 s n)
  obtain b t m where t: "parseSingleCompleteType s n = (b, t, m)" by (rule prod_cases3)
  note mono = parse_mono [OF t]
  show ?case
  proof (cases "length s = 0 \<or> \<not> b")
    case True
    with "1.prems" t mono show ?thesis by (auto simp: methodSignatureLoop_eq [of s n] split: if_splits)
  next
    case False
    with "1.prems" t have "methodSignatureLoop t m = (ok, n')"
      by (auto simp: methodSignatureLoop_eq [of s n])
    with "1.IH" [OF _ t [symmetric] refl _ _] False mono show ?thesis
      by (auto intro: nest_le_trans)
  qed
qed

lemma methodSignatureLoop_sound:
  "methodSignatureLoop s n = (True, n) \<Longrightarrow>
   \<exists>ts. list_all (type_fits n) ts \<and> s = concat (map sig_of ts)"
proof (induction "length s" arbitrary: s rule: less_induct)
  case less
  show ?case
  proof (cases "length s = 0")
    case True
    then show ?thesis by (intro exI [of _ "[]"]) simp
  next
    case False
    obtain b t m where t: "parseSingleCompleteType s n = (b, t, m)" by (rule prod_cases3)
    with less.prems False have b: b and loop: "methodSignatureLoop t m = (True, n)"
      by (auto simp: methodSignatureLoop_eq [of s] split: if_splits)
    with t parse_mono [OF t] methodSignatureLoop_mono [OF loop] have "m = n"
      using nest_le_antisym by blast
    with parse_sound [of s n t] t b obtain ty where ty: "type_fits n ty" "s = sig_of ty @ t" by auto
    from less.hyps [of t] loop \<open>m = n\<close> parse_mono [OF t] b obtain ts where
      "list_all (type_fits n) ts" "t = concat (map sig_of ts)" by auto
    with ty show ?thesis by (intro exI [of _ "ty # ts"]) simp
  qed
qed

lemma methodSignatureLoop_complete:
  "list_all (type_fits n) ts \<Longrightarrow> methodSignatureLoop (concat (map sig_of ts)) n = (True, n)"
proof (induction ts)
  case Nil
  then show ?case by (simp add: methodSignatureLoop_eq)
next
  case (Cons t ts)
  then show ?case
    using sig_of_nonempty [of t] parse_complete [of n t "concat (map sig_of ts)"]
    by (subst methodSignatureLoop_eq) simp
qed

lemma signature_check_complete:
  "list_all (type_fits no_nesting) ts \<Longrightarrow>
     checkSignature (concat (map sig_of ts)) MethodSignature = (True, no_nesting)"
  "type_fits no_nesting t \<Longrightarrow> checkSignature (sig_of t) VariantSignature = (True, no_nesting)"
  using parse_complete [of no_nesting t "[]"] sig_of_nonempty [of t]
  by (simp_all add: checkSignature_def methodSignatureLoop_complete)

lemma signature_check_sound:
  "checkSignature s MethodSignature = (True, no_nesting) \<Longrightarrow>
     \<exists>ts. list_all (type_fits no_nesting) ts \<and> s = concat (map sig_of ts)"
  "checkSignature s VariantSignature = (True, no_nesting) \<Longrightarrow>
     \<exists>t. type_fits no_nesting t \<and> s = sig_of t"
  by (auto simp: checkSignature_def methodSignatureLoop_sound split: if_splits prod.splits
      dest: parse_sound)

lemma isSignatureValid_cstring_of:
  "isSignatureValid (cstring_of s) ty = Some (fst (checkSignature s ty))"
  by (simp add: isSignatureValid_def cs_at_cstring_of)

subsection \<open>What the signature check accepts\<close>

text \<open>C2: The signature check accepts and its closing assertions hold exactly on the
  concatenations of well-formed D-Bus types within the nesting limits.\<close>

theorem signature_exact:
  "(case checkSignature s MethodSignature of (ok, nest) \<Rightarrow> ok \<and> closingAssertions nest) \<longleftrightarrow>
   (\<exists>ts. list_all (type_fits no_nesting) ts \<and> s = concat (map sig_of ts))"
  using signature_check_complete(1) signature_check_sound(1) [of s]
  by (auto simp: nest_zero split: prod.split)

text \<open>Every sequence of well-formed types within the nesting limits is a valid signature.\<close>

theorem signature_complete_valid:
  assumes "list_all (type_fits no_nesting) ts"
  shows "isSignatureValid (cstring_of (concat (map sig_of ts))) MethodSignature = Some True"
  using signature_check_complete(1) [OF assms] by (simp add: isSignatureValid_cstring_of)

theorem signature_complete_valid_witness:
  "isSignatureValid (cstring_of ''a{sv}(ii)'') MethodSignature = Some True"
  using signature_complete_valid
    [of "[TDict (CHR ''s'') TVariant, TStruct [TBasic (CHR ''i''), TBasic (CHR ''i'')]]"]
  by (simp add: nest_defs nest_limit_defs basic_type_letters_def)

lemmas parse_step = parseSingleCompleteType.simps parseStructBody.simps

lemma check_ia: "checkSignature ''(ia)'' MethodSignature = (True, \<lparr>n_array = 1, n_paren = 0, n_variant = 0\<rparr>)"
  by (simp add: checkSignature_def methodSignatureLoop.simps parse_step basic_type_letters_def nest_defs
     nest_limit_defs chopFirst_def Let_def)

text \<open>A struct whose last member is an array without element type is accepted, although
  it is no signature of the grammar, and the closing assertions of the check fail on it.\<close>

theorem dangling_array_accepted:
  "isSignatureValid (cstring_of ''(ia)'') MethodSignature = Some True \<and>
   \<not> (\<exists>ts. list_all (type_fits no_nesting) ts \<and> ''(ia)'' = concat (map sig_of ts)) \<and>
   \<not> closingAssertions (snd (checkSignature ''(ia)'' MethodSignature))"
  using signature_check_complete(1) check_ia
  by (auto simp: isSignatureValid_cstring_of closingAssertions_def no_nesting_def)

subsection \<open>What the path and string checks accept\<close>

definition path_element :: "string \<Rightarrow> bool" where
  "path_element e \<longleftrightarrow> e \<noteq> [] \<and> list_all isObjectNameLetter e"

definition join_path :: "string list \<Rightarrow> string" where
  "join_path es = concat (map (\<lambda>e. CHR ''/'' # e) es)"

lemma slash_no_letter [simp]: "\<not> isObjectNameLetter (CHR ''/'')"
  by (simp add: isObjectNameLetter_def signed_char_def)

lemma join_path_simps [simp]:
  "join_path [] = []" "join_path (e # es) = CHR ''/'' # e @ join_path es"
  by (simp_all add: join_path_def)

lemma objectPathLoop_iff:
  "objectPathLoop c rest \<longleftrightarrow>
   (\<exists>w es. (c = CHR ''/'' \<longrightarrow> w \<noteq> []) \<and> list_all isObjectNameLetter w \<and> list_all path_element es \<and>
      rest = w @ join_path es)"
proof (induction rest arbitrary: c)
  case Nil
  show ?case by (auto intro!: exI [of _ "[]"])
next
  case (Cons d rest)
  show ?case
  proof (cases "d = CHR ''/''")
    case True
    have "(\<exists>w es. (c = CHR ''/'' \<longrightarrow> w \<noteq> []) \<and> list_all isObjectNameLetter w \<and> list_all path_element es \<and>
      d # rest = w @ join_path es) \<longleftrightarrow> c \<noteq> CHR ''/'' \<and>
      (\<exists>w es. w \<noteq> [] \<and> list_all isObjectNameLetter w \<and> list_all path_element es \<and> rest = w @ join_path es)"
      (is "?L \<longleftrightarrow> ?R")
    proof
      assume ?L
      then obtain w es where w: "c = CHR ''/'' \<longrightarrow> w \<noteq> []" "list_all isObjectNameLetter w"
        "list_all path_element es" "d # rest = w @ join_path es" by blast
      with True have "w = []" by (cases w) auto
      with w True obtain e es' where "es = e # es'" by (cases es) auto
      with w True \<open>w = []\<close> show ?R by (auto simp: path_element_def)
    next
      assume ?R
      then obtain w es where "c \<noteq> CHR ''/''" "w \<noteq> []" "list_all isObjectNameLetter w" "list_all path_element es" "rest = w @ join_path es"
        by blast
      with True show ?L by (intro exI [of _ "[]"] exI [of _ "w # es"]) (simp add: path_element_def)
    qed
    with True Cons.IH [of d] show ?thesis by simp
  next
    case False
    have "(\<exists>w es. (c = CHR ''/'' \<longrightarrow> w \<noteq> []) \<and> list_all isObjectNameLetter w \<and> list_all path_element es \<and>
      d # rest = w @ join_path es) \<longleftrightarrow> isObjectNameLetter d \<and>
      (\<exists>w es. list_all isObjectNameLetter w \<and> list_all path_element es \<and> rest = w @ join_path es)"
      (is "?L \<longleftrightarrow> ?R")
    proof
      assume ?L
      then obtain w es where w: "list_all isObjectNameLetter w"
        "list_all path_element es" "d # rest = w @ join_path es" by blast
      with False obtain w' where "w = d # w'" by (cases w; cases es) auto
      with w show ?R by auto
    next
      assume ?R
      then obtain w es where "isObjectNameLetter d" "list_all isObjectNameLetter w" "list_all path_element es" "rest = w @ join_path es"
        by blast
      then show ?L by (intro exI [of _ "d # w"] exI [of _ "es"]) simp
    qed
    with False Cons.IH [of d] show ?thesis by simp
  qed
qed

text \<open>C34: Up to the length limit, the valid object paths are the root and the joins of
  nonempty lists of path elements.\<close>

theorem object_path_exact:
  assumes "length p + 1 < MaxArrayLength"
  shows "isObjectPathValid (cstring_of p) = Some
    (p = ''/'' \<or> (\<exists>es. es \<noteq> [] \<and> list_all path_element es \<and> p = join_path es))"
proof (cases p)
  case Nil
  moreover have "es \<noteq> [] \<Longrightarrow> [] \<noteq> join_path es" for es by (cases es) auto
  ultimately show ?thesis
    using assms by (auto simp: isObjectPathValid_def cs_at_cstring_of MaxArrayLength_def)
next
  case (Cons c q)
  have "u32 (Suc (Suc (length q))) < MaxArrayLength" using assms Cons by (simp add: MaxArrayLength_def)
  moreover have "(\<exists>es. es \<noteq> [] \<and> list_all path_element es \<and> c # q = join_path es) \<longleftrightarrow>
     c = CHR ''/'' \<and> objectPathLoop (CHR ''/'') q"
     (is "?L \<longleftrightarrow> ?R")
  proof
    assume ?L
    then obtain es where "es \<noteq> []" "list_all path_element es" "c # q = join_path es" by blast
    then show ?R by (cases es) (auto simp: objectPathLoop_iff path_element_def)
  next
    assume ?R
    then obtain w es where "c = CHR ''/''" "w \<noteq> []" "list_all isObjectNameLetter w" "list_all path_element es"
      "q = w @ join_path es" by (auto simp: objectPathLoop_iff)
    then show ?L by (intro exI [of _ "w # es"]) (simp add: path_element_def)
  qed
  ultimately show ?thesis using Cons
    by (auto simp: isObjectPathValid_def cs_at_cstring_of nth_append)
qed

lemma strlen_eq: "strlen (s @ [CHR 0x00]) = length s \<longleftrightarrow> CHR 0x00 \<notin> set s"
  unfolding strlen_def by (induction s) auto

text \<open>A null-terminated string is valid exactly if it holds no null character and stays
  below the length limit.\<close>

theorem string_valid_exact:
  assumes "length s < 2 ^ 32 - 1"
  shows "isStringValid (cstring_of s) = Some (CHR 0x00 \<notin> set s \<and> length s + 1 < MaxArrayLength)"
  using assms by (simp add: isStringValid_def cs_at_cstring_of strlen_eq not_le)

text \<open>A string or object path of length \<open>2 ^ 32 - 1\<close> passes the length limit, because the sum
  in the comparison wraps to 0, and the check then reads behind the block.\<close>

theorem length_check_wraps:
  assumes "length b < 2 ^ 32 - 1"
  shows "isStringValid \<lparr>cs_block = Some b, cs_length = 2 ^ 32 - 1\<rparr> = None \<and>
         isObjectPathValid \<lparr>cs_block = Some b, cs_length = 2 ^ 32 - 1\<rparr> = None"
  using assms by (simp add: isStringValid_def isObjectPathValid_def cs_at_def u32_def MaxArrayLength_def)

lemma elementLoop_list_all:
  "\<forall>i \<in> set is. i < length e \<Longrightarrow>
   elementLoop (cstring_of e) is = Some (list_all (\<lambda>i. isObjectNameLetter (e ! i)) is)"
  by (induction "is") (auto simp: cs_at_cstring_of)

text \<open>A path element is valid exactly if it is a nonempty list of name letters.\<close>

theorem path_element_exact: "isObjectPathElementValid (cstring_of e) = Some (path_element e)"
proof -
  have "list_all (\<lambda>i. isObjectNameLetter (e ! i)) [0..<length e] = list_all isObjectNameLetter e"
    by (simp add: list_all_length list_all_iff)
  then show ?thesis
    by (simp add: isObjectPathElementValid_def elementLoop_list_all path_element_def)
qed

theorem object_path_exact_witness:
  "isObjectPathValid (cstring_of ''/a/b'') = Some
    (''/a/b'' = ''/'' \<or> (\<exists>es. es \<noteq> [] \<and> list_all path_element es \<and> ''/a/b'' = join_path es))"
  by (rule object_path_exact) (simp add: MaxArrayLength_def)

theorem string_valid_exact_witness:
  "isStringValid (cstring_of ''abc'') = Some True"
  using string_valid_exact [of "''abc''"] by (simp add: MaxArrayLength_def)

theorem length_check_wraps_witness:
  "isStringValid \<lparr>cs_block = Some ''x'', cs_length = 2 ^ 32 - 1\<rparr> = None"
  using length_check_wraps [of "''x''"] by simp

end
