(* ===== verification/Arguments_Obj.thy ===== *)
theory Arguments_Obj
  imports Signature_Check
begin

text \<open>
  The \<^verbatim>\<open>Arguments\<close> value class (\<^verbatim>\<open>serialization/arguments_p.h\<close>, \<^verbatim>\<open>arguments.cpp\<close>): the private
  data, the deep copy of \<^verbatim>\<open>initFrom\<close>, construction and assignment.

  An \<^verbatim>\<open>Arguments\<close> is a handle: \<open>None\<close> is the moved-from instance with a null d-pointer.  Memory
  is modelled by its contents: \<open>a_memOwnership\<close> is the \<^verbatim>\<open>malloc\<close>ed block that the instance
  frees.  An operation whose execution leaves the memory it may touch returns \<open>None\<close>.
\<close>

record arguments =
  a_data :: "byte list"
  a_isByteSwapped :: bool
  a_memOwnership :: "byte list option"
  a_signature :: cstring
  a_fileDescriptors :: "int list"
  a_error :: error_code

definition empty_arguments :: arguments where
  "empty_arguments = \<lparr>a_data = [], a_isByteSwapped = False, a_memOwnership = None,
     a_signature = null_cstring, a_fileDescriptors = [], a_error = NoError\<rparr>"

text \<open>The two constructors that take existing memory; the first has no file descriptors.\<close>

definition new_arguments_fds ::
  "byte list option \<Rightarrow> cstring \<Rightarrow> byte list \<Rightarrow> int list \<Rightarrow> bool \<Rightarrow> arguments" where
  "new_arguments_fds memOwnership signature data fileDescriptors isByteSwapped =
     empty_arguments\<lparr>a_isByteSwapped := isByteSwapped, a_memOwnership := memOwnership,
       a_signature := signature, a_data := data, a_fileDescriptors := fileDescriptors\<rparr>"

definition new_arguments ::
  "byte list option \<Rightarrow> cstring \<Rightarrow> byte list \<Rightarrow> bool \<Rightarrow> arguments" where
  "new_arguments memOwnership signature data isByteSwapped =
     empty_arguments\<lparr>a_isByteSwapped := isByteSwapped, a_memOwnership := memOwnership,
       a_signature := signature, a_data := data\<rparr>"

text \<open>
  \<^verbatim>\<open>initFrom\<close>.  The new block holds the signature with its terminator, padding up to a multiple
  of 8, and the data; \<open>junk\<close> is what \<^verbatim>\<open>malloc\<close> left in the block.  \<open>None\<close>: the copy reads
  through a null pointer or behind the other signature's block, or writes behind the new block.
\<close>

definition initFrom :: "(nat \<Rightarrow> byte) \<Rightarrow> arguments \<Rightarrow> arguments option" where
  "initFrom junk other =
     (let sigLength = cs_length (a_signature other);
          dataLength = length (a_data other);
          alignedSigLength = (if sigLength \<noteq> 0 then align (u32 (sigLength + 1)) 8 else 0);
          fullLength = u32 (alignedSigLength + dataLength);
          copied = other\<lparr>a_memOwnership := None\<rparr>
      in if fullLength \<noteq> 0 then
           (let block = map junk [0..<fullLength] in
            case cs_block (a_signature other) of
              None \<Rightarrow> None
            | Some sig \<Rightarrow>
                if length sig < u32 (sigLength + 1) \<or> fullLength < u32 (sigLength + 1) then None
                else
                  (let block1 = overwrite 0 (map byte_of (take (u32 (sigLength + 1)) sig)) block;
                       (block2, bufferPos) = zeroPad block1 8 (u32 (sigLength + 1))
                   in if fullLength < bufferPos \<or> fullLength < alignedSigLength + dataLength then None
                      else (let block3 = overwrite alignedSigLength (a_data other) block2 in
                        Some (copied\<lparr>a_memOwnership := Some block3,
                          a_signature := \<lparr>cs_block = Some (map char_of_byte block3),
                                          cs_length = sigLength\<rparr>\<rparr>))))
         else Some (copied\<lparr>a_signature := \<lparr>cs_block = None, cs_length = sigLength\<rparr>\<rparr>))"

subsection \<open>Handles: moving, copying, assigning\<close>

type_synonym arguments_handle = "arguments option"

text \<open>The new handle and the moved-from handle.\<close>

definition args_move_construct :: "arguments_handle \<Rightarrow> arguments_handle \<times> arguments_handle" where
  "args_move_construct other = (other, None)"

definition args_move_assign ::
  "arguments_handle \<Rightarrow> arguments_handle \<Rightarrow> arguments_handle \<times> arguments_handle" where
  "args_move_assign this other =
     (let (temp, other') = args_move_construct other in (temp, other'))"

definition args_copy_construct ::
  "(nat \<Rightarrow> byte) \<Rightarrow> arguments_handle \<Rightarrow> arguments_handle option" where
  "args_copy_construct junk other =
     (case other of None \<Rightarrow> Some None | Some o' \<Rightarrow> map_option Some (initFrom junk o'))"

text \<open>
  Copy assignment between distinct instances, with the block that the target owned before and
  that nobody owns or frees afterwards (\<^verbatim>\<open>initFrom\<close> overwrites \<^verbatim>\<open>m_memOwnership\<close>).
\<close>

definition args_copy_assign ::
  "(nat \<Rightarrow> byte) \<Rightarrow> arguments_handle \<Rightarrow> arguments_handle \<Rightarrow>
     (arguments_handle \<times> byte list option) option" where
  "args_copy_assign junk this other =
     (case (this, other) of
        (Some t, Some o') \<Rightarrow>
          map_option (\<lambda>c. (Some c, a_memOwnership t)) (initFrom junk o')
      | _ \<Rightarrow> map_option (\<lambda>temp. (temp, None)) (args_copy_construct junk other))"

subsection \<open>What a copy preserves\<close>

text \<open>An instance whose signature is a readable null-terminated string of sane length.\<close>

definition args_readable :: "arguments \<Rightarrow> bool" where
  "args_readable a \<longleftrightarrow>
     (\<exists>s rest. cs_block (a_signature a) = Some (s @ CHR 0x00 # rest) \<and>
        cs_length (a_signature a) = length s) \<and>
     cs_length (a_signature a) + length (a_data a) + 16 < 2 ^ 32"

lemma initFrom_ok:
  assumes readable: "args_readable a" and nonempty: "cs_length (a_signature a) \<noteq> 0"
  obtains c block where "initFrom junk a = Some c" "a_memOwnership c = Some block"
    "cs_chars (a_signature c) = cs_chars (a_signature a)"
    "cs_at (a_signature c) (cs_length (a_signature c)) = Some (CHR 0x00)"
    "cs_length (a_signature c) = cs_length (a_signature a)"
    "a_data c = a_data a" "a_isByteSwapped c = a_isByteSwapped a"
    "a_fileDescriptors c = a_fileDescriptors a" "a_error c = a_error a"
    "drop (align (cs_length (a_signature a) + 1) 8) block = a_data a"
proof -
  obtain s rest where s: "cs_block (a_signature a) = Some (s @ CHR 0x00 # rest)"
      "cs_length (a_signature a) = length s" and len: "length s + length (a_data a) + 16 < 2 ^ 32"
    using readable by (auto simp: args_readable_def)
  define n where "n = length s"
  define m where "m = length (a_data a)"
  define k where "k = align (n + 1) 8"
  have k: "n + 1 \<le> k" "k < n + 9"
    using align_bounds(1,2) [of 8 "n + 1"] len
    by (auto simp: k_def n_def wire_alignment_def)
  have u: "u32 (n + 1) = n + 1" "u32 (k + m) = k + m" "n + 1 < 2 ^ 32"
    using len k by (simp_all add: n_def m_def)
  define block where "block = map junk [0..<k + m]"
  define b1 where "b1 = overwrite 0 (map byte_of (s @ [CHR 0x00])) block"
  have b1: "length b1 = k + m" using k by (simp add: b1_def block_def n_def)
  have z: "zeroPad b1 8 (n + 1) = (overwrite (n + 1) (replicate (k - (n + 1)) 0) b1, k)"
    using zeroPad_fst [of "n + 1" 8 b1] k b1 by (simp add: k_def prod_eq_iff)
  define b2 where "b2 = overwrite (n + 1) (replicate (k - (n + 1)) 0) b1"
  have b2: "length b2 = k + m" "take (n + 1) b2 = map byte_of (s @ [CHR 0x00])"
    using b1 k by (simp_all add: b2_def) (simp add: b1_def overwrite_def n_def)
  define b3 where "b3 = overwrite k (a_data a) b2"
  have b3: "take (n + 1) b3 = map byte_of (s @ [CHR 0x00])" "drop k b3 = a_data a"
    using b2 k by (simp_all add: b3_def overwrite_def m_def)
  let ?c = "a\<lparr>a_memOwnership := Some b3,
      a_signature := \<lparr>cs_block = Some (map char_of_byte b3), cs_length = n\<rparr>\<rparr>"
  have init: "initFrom junk a = Some ?c"
  proof -
    have f: "align (Suc n) 8 = k" "map junk [0..<k + m] = block"
        "overwrite 0 (map byte_of s @ [byte_of (CHR 0x00)]) block = b1"
        "zeroPad b1 8 (Suc n) = (b2, k)" "overwrite k (a_data a) b2 = b3"
        "length (a_data a) = m" "cs_length (a_signature a) = n" "length s = n"
        "u32 (Suc n) = Suc n" "\<not> k + m < k"
      using z u by (simp_all add: k_def block_def b1_def b2_def b3_def m_def n_def s)
    show ?thesis
      using nonempty u(2) k by (simp add: initFrom_def Let_def s(1) f)
  qed
  have "take n b3 = take n (take (n + 1) b3)" by simp
  also have "\<dots> = map byte_of s" by (simp only: b3(1)) (simp add: n_def)
  finally have "take n b3 = map byte_of s" .
  moreover have "n < length b3" "b3 ! n = 0"
  proof -
    show "n < length b3" using arg_cong [of _ _ length, OF b3(1)] by (simp add: n_def split: if_splits)
    have "b3 ! n = take (n + 1) b3 ! n" by simp
    then show "b3 ! n = 0" by (simp only: b3(1)) (simp add: n_def nth_append)
  qed
  ultimately have "cs_chars (a_signature ?c) = s" "cs_at (a_signature ?c) n = Some (CHR 0x00)"
    by (simp_all add: cs_chars_def cs_at_def take_map char_of_byte_def char_of_def)
  with init s b3 show thesis
    by (intro that [of ?c b3]) (simp_all add: cs_chars_def n_def k_def)
qed

text \<open>Copying an Arguments with a readable nonempty signature gives an instance of its own
  memory with the same signature, data, byte order, file descriptors and error, and does not
  leave the memory involved.\<close>

theorem copy_preserves_contents:
  assumes "args_readable a" and "cs_length (a_signature a) \<noteq> 0"
  shows "\<exists>c. args_copy_construct junk (Some a) = Some (Some c) \<and>
     cs_chars (a_signature c) = cs_chars (a_signature a) \<and>
     isSignatureValid (a_signature c) ty = isSignatureValid (a_signature a) ty \<and>
     a_data c = a_data a \<and> a_isByteSwapped c = a_isByteSwapped a \<and>
     a_fileDescriptors c = a_fileDescriptors a \<and> a_error c = a_error a \<and>
     a_memOwnership c \<noteq> None"
proof -
  obtain c block where c: "initFrom junk a = Some c" "a_memOwnership c = Some block"
    "cs_chars (a_signature c) = cs_chars (a_signature a)"
    "cs_at (a_signature c) (cs_length (a_signature c)) = Some (CHR 0x00)"
    "a_data c = a_data a" "a_isByteSwapped c = a_isByteSwapped a"
    "a_fileDescriptors c = a_fileDescriptors a" "a_error c = a_error a"
    by (rule initFrom_ok [OF assms])
  have a: "cs_at (a_signature a) (cs_length (a_signature a)) = Some (CHR 0x00)"
    using assms(1) by (auto simp: args_readable_def cs_at_def nth_append)
  have "isSignatureValid (a_signature c) ty = isSignatureValid (a_signature a) ty"
    using c(3,4) a by (auto simp: isSignatureValid_def cs_at_def split: option.splits)
  with c show ?thesis by (intro exI [of _ c]) (simp add: args_copy_construct_def)
qed

theorem copy_preserves_contents_witness:
  "\<exists>c. args_copy_construct (\<lambda>_. 7) (Some (new_arguments None (cstring_of ''y'') [42] False)) = Some (Some c) \<and>
     a_data c = [42]"
proof -
  have "args_readable (new_arguments None (cstring_of ''y'') [42] False)"
    unfolding args_readable_def
    by (intro conjI exI [of _ "''y''"] exI [of _ "[]"])
      (simp_all add: new_arguments_def empty_arguments_def)
  from copy_preserves_contents [OF this, of "\<lambda>_. 7" MethodSignature] show ?thesis
    by (auto simp: new_arguments_def empty_arguments_def)
qed

text \<open>Copying an Arguments that has data but no signature dereferences the null signature
  pointer.\<close>

theorem copy_without_signature_faults:
  assumes "0 < length data" and "length data < 2 ^ 32"
  shows "args_copy_construct junk (Some (new_arguments own null_cstring data swapped)) = None"
  using assms
  by (simp add: args_copy_construct_def new_arguments_def empty_arguments_def null_cstring_def
      initFrom_def)

theorem copy_without_signature_faults_witness:
  "args_copy_construct (\<lambda>_. 0) (Some (new_arguments None null_cstring [1, 2] False)) = None"
  by (rule copy_without_signature_faults) simp_all

text \<open>Assigning over an instance that owns memory drops that memory without freeing it.\<close>

lemma copy_assign_leaks:
  assumes "a_memOwnership t = Some block" and "initFrom junk a = Some c"
  shows "args_copy_assign junk (Some t) (Some a) = Some (Some c, Some block)"
  using assms by (simp add: args_copy_assign_def)

end
