(* ===== verification/Writer_Model.thy ===== *)
theory Writer_Model
  imports Arguments_Obj
begin

text \<open>
  \<^verbatim>\<open>Arguments::Writer\<close> (\<^verbatim>\<open>serialization/argumentswriter.cpp\<close>): the data buffer with its reserved
  signature space, the queue of data chunks inside variants, and the state machine that checks the
  sequence of calls.  The signature under construction lies inside the data buffer; the model keeps
  its offset \<open>w_sigptr\<close> from the start of the buffer, as the code does when it reallocates.

  \<open>w_junk i\<close> is what the allocator leaves at position \<open>i\<close> of fresh memory.  \<open>w_fault\<close> is set when an
  execution accesses memory outside of the buffer, an empty stack or queue, or loops forever in the
  computation of the new capacity.  Assertions are those of a release build, that is, none.
\<close>

subsection \<open>State\<close>

datatype writer_union =
    WNone
  | WByte byte
  | WBoolean bool
  | WInt16 int16
  | WUint16 uint16
  | WInt32 int32
  | WUint32 uint32
  | WInt64 int64
  | WUint64 uint64
  | WDouble double
  | WString cstring

text \<open>Members read after another one was stored: only the low bytes of \<^verbatim>\<open>Uint64\<close> are used that way.\<close>

definition u_Byte :: "writer_union \<Rightarrow> byte option" where
  "u_Byte u = (case u of WByte v \<Rightarrow> Some v | WUint64 v \<Rightarrow> Some (ucast v) | _ \<Rightarrow> None)"
definition u_Boolean :: "writer_union \<Rightarrow> bool option" where
  "u_Boolean u = (case u of WBoolean v \<Rightarrow> Some v | WUint64 v \<Rightarrow> Some ((ucast v :: byte) \<noteq> 0) | _ \<Rightarrow> None)"
definition u_Int16 :: "writer_union \<Rightarrow> int16 option" where
  "u_Int16 u = (case u of WInt16 v \<Rightarrow> Some v | WUint64 v \<Rightarrow> Some (ucast v) | _ \<Rightarrow> None)"
definition u_Uint16 :: "writer_union \<Rightarrow> uint16 option" where
  "u_Uint16 u = (case u of WUint16 v \<Rightarrow> Some v | WUint64 v \<Rightarrow> Some (ucast v) | _ \<Rightarrow> None)"
definition u_Int32 :: "writer_union \<Rightarrow> int32 option" where
  "u_Int32 u = (case u of WInt32 v \<Rightarrow> Some v | WUint64 v \<Rightarrow> Some (ucast v) | _ \<Rightarrow> None)"
definition u_Uint32 :: "writer_union \<Rightarrow> uint32 option" where
  "u_Uint32 u = (case u of WUint32 v \<Rightarrow> Some v | WUint64 v \<Rightarrow> Some (ucast v) | _ \<Rightarrow> None)"
definition u_Int64 :: "writer_union \<Rightarrow> int64 option" where
  "u_Int64 u = (case u of WInt64 v \<Rightarrow> Some v | WUint64 v \<Rightarrow> Some v | _ \<Rightarrow> None)"
definition u_Uint64 :: "writer_union \<Rightarrow> uint64 option" where
  "u_Uint64 u = (case u of WUint64 v \<Rightarrow> Some v | _ \<Rightarrow> None)"
definition u_Double :: "writer_union \<Rightarrow> double option" where
  "u_Double u = (case u of WDouble v \<Rightarrow> Some v | WUint64 v \<Rightarrow> Some v | _ \<Rightarrow> None)"
definition u_String :: "writer_union \<Rightarrow> cstring option" where
  "u_String u = (case u of WString s \<Rightarrow> Some s | _ \<Rightarrow> None)"

lemmas union_defs = u_Byte_def u_Boolean_def u_Int16_def u_Uint16_def u_Int32_def u_Uint32_def
  u_Int64_def u_Uint64_def u_Double_def u_String_def

text \<open>An entry of the queue: two bits of alignment exponent, six bits of size or code.\<close>

record queued_data =
  q_alignmentExponent :: nat
  q_size :: nat

definition LargestSize :: nat where "LargestSize = 60"
definition ArrayLengthFieldCode :: nat where "ArrayLengthFieldCode = 61"
definition ArrayLengthEndMark :: nat where "ArrayLengthEndMark = 62"
definition VariantSignatureCode :: nat where "VariantSignatureCode = 63"

lemmas size_code_defs =
  LargestSize_def ArrayLengthFieldCode_def ArrayLengthEndMark_def VariantSignatureCode_def

definition alignLog :: "nat list" where
  "alignLog = [0, 0, 1, 0, 2, 0, 0, 0, 3]"

definition queuedDataInfo :: "nat \<Rightarrow> nat \<Rightarrow> queued_data" where
  "queuedDataInfo alignment nbytes = \<lparr>q_alignmentExponent = alignLog ! alignment, q_size = nbytes mod 64\<rparr>"

definition q_alignment :: "queued_data \<Rightarrow> nat" where
  "q_alignment q = 2 ^ q_alignmentExponent q"

datatype writer_aggregate =
    WArray nat nat        \<comment> \<open>containedTypeBegin, lengthFieldPosition\<close>
  | WDict nat nat         \<comment> \<open>containedTypeBegin, lengthFieldPosition\<close>
  | WStruct nat           \<comment> \<open>containedTypeBegin\<close>
  | WVariant nat nat      \<comment> \<open>prevSignatureOffset, prevSignaturePosition\<close>

fun writer_aggregateType :: "writer_aggregate \<Rightarrow> io_state" where
  "writer_aggregateType (WArray _ _) = BeginArray"
| "writer_aggregateType (WDict _ _) = BeginDict"
| "writer_aggregateType (WStruct _) = BeginStruct"
| "writer_aggregateType (WVariant _ _) = BeginVariant"

record writer =
  w_elemsBeforeNil :: nat
  w_posBeforeVariant :: nat
  w_nesting :: nesting
  w_sigptr :: nat
  w_siglen :: nat
  w_sigpos :: nat
  w_data :: "byte list"
  w_capacity :: nat
  w_datapos :: nat
  w_nil :: nat
  w_fds :: "int list"
  w_error :: error_code
  w_stack :: "writer_aggregate list"
  w_queue :: "queued_data list"
  w_state :: io_state
  w_u :: writer_union
  w_junk :: "nat \<Rightarrow> byte"
  w_fault :: bool

definition InitialDataCapacity :: nat where "InitialDataCapacity = 512"
definition SignatureReservedSpace :: nat where "SignatureReservedSpace = 264"

lemmas writer_space_defs = InitialDataCapacity_def SignatureReservedSpace_def

definition newWriter :: "(nat \<Rightarrow> byte) \<Rightarrow> writer" where
  "newWriter junk = \<lparr>w_elemsBeforeNil = 0, w_posBeforeVariant = 0, w_nesting = no_nesting,
     w_sigptr = 1, w_siglen = 0, w_sigpos = 0, w_data = map junk [0..<InitialDataCapacity],
     w_capacity = InitialDataCapacity, w_datapos = SignatureReservedSpace, w_nil = 0, w_fds = [],
     w_error = NoError, w_stack = [], w_queue = [], w_state = AnyData, w_u = WNone,
     w_junk = junk, w_fault = False\<rparr>"

definition w_fail :: "error_code \<Rightarrow> writer \<Rightarrow> writer" where
  "w_fail code w = w\<lparr>w_state := InvalidData, w_error := code\<rparr>"

definition w_undefined :: "writer \<Rightarrow> writer" where
  "w_undefined w = w\<lparr>w_state := InvalidData, w_fault := True\<rparr>"

subsection \<open>Access to the buffer\<close>

definition w_poke :: "nat \<Rightarrow> byte list \<Rightarrow> writer \<Rightarrow> writer" where
  "w_poke p bs w =
     (if p + length bs \<le> length (w_data w) then w\<lparr>w_data := overwrite p bs (w_data w)\<rparr>
      else w_undefined w)"

definition w_peek :: "writer \<Rightarrow> nat \<Rightarrow> byte option" where
  "w_peek w p = (if p < length (w_data w) then Some (w_data w ! p) else None)"

definition w_zeroPad :: "nat \<Rightarrow> writer \<Rightarrow> writer" where
  "w_zeroPad alignment w =
     (case zeroPad (w_data w) alignment (w_datapos w) of
        (data, pos) \<Rightarrow>
          (if pos \<le> length (w_data w) then w\<lparr>w_data := data, w_datapos := pos\<rparr> else w_undefined w))"

text \<open>
  The loop that doubles the capacity.  It runs at most 33 times: after 32 doublings the 32 bit
  counter is zero and stays zero, so that the loop does not end (\<open>None\<close>).
\<close>

fun doubleCapacity :: "nat \<Rightarrow> nat \<Rightarrow> nat \<Rightarrow> nat option" where
  "doubleCapacity 0 needed newCapacity = None"
| "doubleCapacity (Suc n) needed newCapacity =
     (let c = u32 (newCapacity * 2) in if c < needed then doubleCapacity n needed c else Some c)"

definition reserveData :: "nat \<Rightarrow> writer \<Rightarrow> writer" where
  "reserveData size0 w =
     (let needed = u32 (size0 + 16) in
      if needed \<le> w_capacity w then w
      else (case doubleCapacity 33 needed (w_capacity w) of
              None \<Rightarrow> w_undefined w
            | Some newCapacity \<Rightarrow>
                (let w1 = w\<lparr>w_data := w_data w @ map (w_junk w) [length (w_data w)..<newCapacity],
                            w_capacity := newCapacity\<rparr>
                 in if MaxMessageLength * 3 < newCapacity then w_fail ArgumentsTooLong w1 else w1)))"

definition insideVariant :: "writer \<Rightarrow> bool" where
  "insideVariant w = (w_queue w \<noteq> [])"

definition maybeQueueData :: "nat \<Rightarrow> nat \<Rightarrow> writer \<Rightarrow> writer" where
  "maybeQueueData alignment nbytes w =
     (if insideVariant w then w\<lparr>w_queue := w_queue w @ [queuedDataInfo alignment nbytes]\<rparr> else w)"

text \<open>The chunk sizes under which bulk data of length \<open>l\<close> is queued.\<close>

function chunkSizes :: "nat \<Rightarrow> nat list" where
  "chunkSizes l = (if l = 0 then [] else (let c = min l LargestSize in c # chunkSizes (l - c)))"
  by pat_completeness auto
termination by (relation "measure id") (auto simp: LargestSize_def)

declare chunkSizes.simps [simp del]

definition appendBulkData :: "byte list \<Rightarrow> writer \<Rightarrow> writer" where
  "appendBulkData data w =
     (let w1 = w_poke (w_datapos w) data w;
          w2 = w1\<lparr>w_datapos := u32 (w_datapos w1 + length data)\<rparr>
      in if insideVariant w2
         then w2\<lparr>w_queue := w_queue w2 @ map (queuedDataInfo 1) (chunkSizes (length data))\<rparr>
         else w2)"

definition alignData :: "nat \<Rightarrow> writer \<Rightarrow> writer" where
  "alignData alignment w = w_zeroPad alignment (maybeQueueData alignment 0 w)"

subsection \<open>Writing single values\<close>

text \<open>The bytes of a primitive value, with the file descriptors after it.\<close>

definition primitiveBytes :: "io_state \<Rightarrow> writer \<Rightarrow> (byte list \<times> int list) option" where
  "primitiveBytes type w =
     (let u = w_u w; plain = map_option (\<lambda>bs. (bs, w_fds w)) in
      case type of
        Boolean \<Rightarrow> plain (map_option (\<lambda>b. writeUint32 (if b then 1 else 0)) (u_Boolean u))
      | Byte \<Rightarrow> plain (map_option (\<lambda>b. [b]) (u_Byte u))
      | Int16 \<Rightarrow> plain (map_option writeInt16 (u_Int16 u))
      | Uint16 \<Rightarrow> plain (map_option writeUint16 (u_Uint16 u))
      | Int32 \<Rightarrow> plain (map_option writeInt32 (u_Int32 u))
      | Uint32 \<Rightarrow> plain (map_option writeUint32 (u_Uint32 u))
      | Int64 \<Rightarrow> plain (map_option writeInt64 (u_Int64 u))
      | Uint64 \<Rightarrow> plain (map_option writeUint64 (u_Uint64 u))
      | Double \<Rightarrow> plain (map_option writeDouble (u_Double u))
      | UnixFd \<Rightarrow>
          map_option (\<lambda>fd. (writeUint32 (of_nat (length (w_fds w))),
                            if w_nil w = 0 then w_fds w @ [sint fd] else w_fds w)) (u_Int32 u)
      | _ \<Rightarrow> None)"

definition is_primitive_state :: "io_state \<Rightarrow> bool" where
  "is_primitive_state s \<longleftrightarrow>
     s \<in> {Boolean, Byte, Int16, Uint16, Int32, Uint32, Int64, Uint64, Double, UnixFd}"

definition doWritePrimitiveType :: "io_state \<Rightarrow> nat \<Rightarrow> writer \<Rightarrow> writer" where
  "doWritePrimitiveType type alignAndSize w =
     (let w1 = w_zeroPad alignAndSize w in
      if \<not> is_primitive_state type then w_fail InvalidType w1
      else (case primitiveBytes type w1 of
              None \<Rightarrow> w_undefined w1
            | Some (bs, fds) \<Rightarrow>
                (let w2 = w_poke (w_datapos w1) bs (w1\<lparr>w_fds := fds\<rparr>)
                 in maybeQueueData alignAndSize alignAndSize
                      (w2\<lparr>w_datapos := u32 (w_datapos w2 + alignAndSize)\<rparr>))))"

text \<open>The validation in front of \<^verbatim>\<open>doWriteString\<close>: the error of the string, if any.\<close>

definition writeStringError :: "io_state \<Rightarrow> cstring \<Rightarrow> error_code option" where
  "writeStringError type cs =
     (let code = (\<lambda>e. map_option (\<lambda>ok. if ok then NoError else e)) in
      if type = String then code InvalidString (isStringValid cs)
      else if type = ObjectPath then code InvalidObjectPath (isObjectPathValid cs)
      else if type = Signature then code InvalidSignature (isSignatureValid cs MethodSignature)
      else Some NoError)"

definition doWriteString :: "io_state \<Rightarrow> nat \<Rightarrow> writer \<Rightarrow> writer" where
  "doWriteString type lengthPrefixSize w =
     (case u_String (w_u w) of
        None \<Rightarrow> w_undefined w
      | Some str \<Rightarrow>
          (case writeStringError type str of
             None \<Rightarrow> w_undefined w
           | Some e \<Rightarrow>
               if e \<noteq> NoError then w_fail e w
               else (let len = cs_length str;
                         w1 = w_zeroPad lengthPrefixSize (reserveData (u32 (w_datapos w + len)) w);
                         prefix = (if lengthPrefixSize = 1 then [of_nat len]
                                   else writeUint32 (of_nat len));
                         w2 = w_poke (w_datapos w1) prefix w1;
                         w3 = maybeQueueData lengthPrefixSize lengthPrefixSize
                                (w2\<lparr>w_datapos := u32 (w_datapos w2 + lengthPrefixSize)\<rparr>)
                     in case cs_block str of
                          None \<Rightarrow> w_undefined w3
                        | Some b \<Rightarrow>
                            if length b < u32 (len + 1) then w_undefined w3
                            else appendBulkData (map byte_of (take (u32 (len + 1)) b)) w3)))"

subsection \<open>advanceState\<close>

text \<open>
  The \<^verbatim>\<open>switch\<close> over the innermost aggregate: what may follow, and where the signature is rewound
  for the next element.  The flag is \<^verbatim>\<open>isWritingSignature\<close>; \<open>Inl\<close>: the method returns.
\<close>

definition advanceEnclosing ::
  "io_state \<Rightarrow> bool \<Rightarrow> bool \<Rightarrow> writer \<Rightarrow> writer + writer \<times> bool" where
  "advanceEnclosing newState isBasic isWritingSignature w =
     (case w_stack w of
        WVariant _ _ # _ \<Rightarrow>
          (if 1 \<le> w_sigpos w \<and> newState \<noteq> EndVariant
           then Inl (w_fail NotSingleCompleteTypeInVariant w) else Inr (w, isWritingSignature))
      | WArray containedTypeBegin _ # _ \<Rightarrow>
          (if u32 (containedTypeBegin + 1) \<le> w_sigpos w \<and> newState \<noteq> EndArray
           then Inr (w\<lparr>w_sigpos := containedTypeBegin\<rparr>, False) else Inr (w, isWritingSignature))
      | WDict containedTypeBegin _ # _ \<Rightarrow>
          (if w_sigpos w = containedTypeBegin \<and> \<not> isBasic
           then Inl (w_fail InvalidKeyTypeInDict w)
           else if u32 (containedTypeBegin + 2) \<le> w_sigpos w \<and> newState \<noteq> EndDict
           then Inr ((alignData StructAlignment w)\<lparr>w_sigpos := containedTypeBegin,
                                                   w_state := DictKey\<rparr>, False)
           else Inr (w, isWritingSignature))
      | _ \<Rightarrow> Inr (w, isWritingSignature))"

text \<open>Comparing a repeated portion of the signature; the position moves past the letter compared.\<close>

fun matchSignature :: "string \<Rightarrow> writer \<Rightarrow> writer + writer" where
  "matchSignature [] w = Inr w"
| "matchSignature (c # cs) w =
     (case w_peek w (w_sigptr w + w_sigpos w) of
        None \<Rightarrow> Inl (w_undefined w)
      | Some b \<Rightarrow>
          (let w1 = w\<lparr>w_sigpos := u32 (w_sigpos w + 1)\<rparr>
           in if char_of_byte b = c then matchSignature cs w1
              else Inl (w_fail TypeMismatchInSubsequentArrayIteration w1)))"

definition advanceSignature :: "string \<Rightarrow> bool \<Rightarrow> writer \<Rightarrow> writer + writer" where
  "advanceSignature fragment isWritingSignature w =
     (if isWritingSignature
      then (let w1 = w_poke (w_sigptr w + w_sigpos w) (map byte_of fragment) w
            in Inr (w1\<lparr>w_sigpos := u32 (w_sigpos w1 + length fragment),
                       w_siglen := u32 (w_siglen w1 + length fragment)\<rparr>))
      else if w_siglen w < u32 (w_sigpos w + length fragment)
      then Inl (w_fail TypeMismatchInSubsequentArrayIteration w)
      else matchSignature fragment w)"

definition enterStruct :: "nat \<Rightarrow> writer \<Rightarrow> writer" where
  "enterStruct alignment w =
     (let (ok, nest) = nestBeginParen (w_nesting w); w1 = w\<lparr>w_nesting := nest\<rparr>
      in if \<not> ok then w_fail ExcessiveNesting w1
         else alignData alignment (w1\<lparr>w_stack := WStruct (w_sigpos w1) # w_stack w1\<rparr>))"

definition leaveStruct :: "writer \<Rightarrow> writer" where
  "leaveStruct w =
     (case w_stack w of
        [] \<Rightarrow> w_fail CannotEndStructHere w
      | WStruct containedTypeBegin # rest \<Rightarrow>
          (if u32 (containedTypeBegin + 1) < w_sigpos w
           then w\<lparr>w_nesting := nestEndParen (w_nesting w), w_stack := rest\<rparr>
           else w_fail EmptyStruct w)
      | _ \<Rightarrow> w_fail EmptyStruct w)"

definition enterVariant :: "writer \<Rightarrow> writer" where
  "enterVariant w =
     (let (ok, nest) = nestBeginVariant (w_nesting w); w1 = w\<lparr>w_nesting := nest\<rparr>
      in if \<not> ok then w_fail ExcessiveNesting w1
         else
           (let w2 = w_poke (w_sigptr w1 - 1) [of_nat (w_siglen w1)] w1;
                w3 = (if insideVariant w2 then w2 else w2\<lparr>w_posBeforeVariant := w_datapos w2\<rparr>);
                w4 = w3\<lparr>w_stack := WVariant (w_sigptr w3) (w_sigpos w3) # w_stack w3,
                        w_queue := w_queue w3 @ [queuedDataInfo 1 VariantSignatureCode]\<rparr>;
                newDataPosition = u32 (w_datapos w4 + SignatureReservedSpace);
                w5 = reserveData newDataPosition w4
            in w5\<lparr>w_sigptr := w_datapos w5 + 1, w_siglen := 0, w_sigpos := 0,
                  w_datapos := newDataPosition\<rparr>))"

text \<open>A \<^verbatim>\<open>char\<close> converted to \<^verbatim>\<open>uint32\<close>: it is signed, so that values from 128 on are sign-extended.\<close>

definition char_to_uint32 :: "byte \<Rightarrow> nat" where
  "char_to_uint32 b = (if unat b < 128 then unat b else 2 ^ 32 - 256 + unat b)"

subsection \<open>flushQueuedData\<close>

text \<open>
  The single pass over the queue that closes the gaps reserved for variant signatures and fills in
  array lengths, inside the same buffer.  \<open>fs_lengths\<close> is the stack of (lengthFieldPosition,
  dataStartPosition).
\<close>

datatype flush_result = FlushOk | FlushTooLong | FlushFault

record flush_state =
  fs_buffer :: "byte list"
  fs_in :: nat
  fs_out :: nat
  fs_lengths :: "(nat \<times> nat) list"

definition flushPad :: "nat \<Rightarrow> flush_state \<Rightarrow> flush_state option" where
  "flushPad alignment s =
     (case zeroPad (fs_buffer s) alignment (fs_out s) of
        (buffer, outPos) \<Rightarrow>
          (if outPos \<le> length (fs_buffer s)
           then Some (s\<lparr>fs_buffer := buffer, fs_in := align (fs_in s) alignment, fs_out := outPos\<rparr>)
           else None))"

definition flushMove :: "nat \<Rightarrow> flush_state \<Rightarrow> flush_state option" where
  "flushMove n s =
     (if fs_in s + n \<le> length (fs_buffer s) \<and> fs_out s + n \<le> length (fs_buffer s)
      then Some (s\<lparr>fs_buffer := overwrite (fs_out s) (slice_at (fs_in s) n (fs_buffer s)) (fs_buffer s),
                   fs_in := u32 (fs_in s + n), fs_out := u32 (fs_out s + n)\<rparr>)
      else None)"

definition flushVariantSignature :: "flush_state \<Rightarrow> flush_state option" where
  "flushVariantSignature s =
     (if fs_in s < length (fs_buffer s)
      then (let n = u32 (unat (fs_buffer s ! fs_in s) + 1) in
            if fs_in s + n \<le> length (fs_buffer s) \<and> fs_out s + n < length (fs_buffer s)
            then Some (s\<lparr>fs_buffer := (overwrite (fs_out s) (slice_at (fs_in s) n (fs_buffer s))
                                         (fs_buffer s))[fs_out s + n := 0],
                         fs_out := u32 (fs_out s + n + 1),
                         fs_in := u32 (fs_in s + SignatureReservedSpace)\<rparr>)
            else None)
      else None)"

text \<open>One iteration; \<open>next\<close> is the following entry of the queue, if there is one.\<close>

definition flushStep ::
  "queued_data \<Rightarrow> queued_data option \<Rightarrow> flush_state \<Rightarrow> flush_result \<times> flush_state" where
  "flushStep ei following s =
     (let lift = (\<lambda>r. case r of None \<Rightarrow> (FlushFault, s) | Some s' \<Rightarrow> (FlushOk, s')) in
      if q_size ei = 0 then lift (flushPad (q_alignment ei) s)
      else if q_size ei = ArrayLengthFieldCode then
        lift (Option.bind (flushPad (q_alignment ei) s) (\<lambda>s1.
          case following of
            None \<Rightarrow> None
          | Some q \<Rightarrow>
              map_option (\<lambda>s2. s2\<lparr>fs_lengths := (fs_out s1, fs_out s2) # fs_lengths s2\<rparr>)
                (flushPad (q_alignment q) (s1\<lparr>fs_in := u32 (fs_in s1 + 4), fs_out := u32 (fs_out s1 + 4)\<rparr>))))
      else if q_size ei = ArrayLengthEndMark then
        (case fs_lengths s of
           [] \<Rightarrow> (FlushFault, s)
         | (lengthFieldPosition, dataStartPosition) # rest \<Rightarrow>
             (let arrayLength = sub32 (fs_out s) dataStartPosition in
              if MaxArrayLength < arrayLength then (FlushTooLong, s)
              else if length (fs_buffer s) < lengthFieldPosition + 4 then (FlushFault, s)
              else (FlushOk, s\<lparr>fs_buffer := overwrite lengthFieldPosition (writeUint32 (of_nat arrayLength))
                                              (fs_buffer s),
                              fs_lengths := rest\<rparr>)))
      else if q_size ei = VariantSignatureCode then lift (flushVariantSignature s)
      else lift (Option.bind (flushPad (q_alignment ei) s) (flushMove (q_size ei))))"

fun flushLoop :: "queued_data list \<Rightarrow> flush_state \<Rightarrow> flush_result \<times> flush_state" where
  "flushLoop [] s = (FlushOk, s)"
| "flushLoop (ei # rest) s =
     (case flushStep ei (case rest of [] \<Rightarrow> None | q # _ \<Rightarrow> Some q) s of
        (FlushOk, s') \<Rightarrow> flushLoop rest s'
      | result \<Rightarrow> result)"

definition flushQueuedData :: "writer \<Rightarrow> writer" where
  "flushQueuedData w =
     (case flushLoop (w_queue w) \<lparr>fs_buffer = w_data w, fs_in = w_posBeforeVariant w,
                                  fs_out = w_posBeforeVariant w, fs_lengths = []\<rparr> of
        (result, s) \<Rightarrow>
          (let w1 = w\<lparr>w_data := fs_buffer s, w_datapos := fs_out s, w_queue := []\<rparr>
           in (case result of
                 FlushOk \<Rightarrow> w1
               | FlushTooLong \<Rightarrow> w_fail ArrayOrDictTooLong w1
               | FlushFault \<Rightarrow> w_undefined w1)))"

subsection \<open>The switch over aggregates\<close>

definition leaveVariant :: "writer \<Rightarrow> writer" where
  "leaveVariant w =
     (case w_stack w of
        WVariant prevSignatureOffset prevSignaturePosition # rest \<Rightarrow>
          (let w1 = w\<lparr>w_nesting := nestEndVariant (w_nesting w)\<rparr> in
           if w_nil w1 = 0 \<and> w_sigpos w1 = 0 then w_fail EmptyVariant w1
           else
             (let w2 = w_poke (w_sigptr w1 - 1) [of_nat (w_sigpos w1)] w1 in
              case w_peek w2 (prevSignatureOffset - 1) of
                None \<Rightarrow> w_undefined w2
              | Some b \<Rightarrow>
                  (let w3 = w2\<lparr>w_sigptr := prevSignatureOffset, w_siglen := char_to_uint32 b,
                               w_sigpos := prevSignaturePosition, w_stack := rest\<rparr>
                   in if w_sigptr w3 = 1 then flushQueuedData w3 else w3)))
      | _ \<Rightarrow> w_fail CannotEndVariantHere w)"

definition enterArray :: "io_state \<Rightarrow> writer \<Rightarrow> writer" where
  "enterArray newState w =
     (let (ok, nest) = nestBeginArray (w_nesting w); w1 = w\<lparr>w_nesting := nest\<rparr> in
      if \<not> ok then w_fail ExcessiveNesting w1
      else
        (let (ok2, nest2) = (if newState = BeginDict then nestBeginParen (w_nesting w1)
                             else (True, w_nesting w1));
             w2 = w1\<lparr>w_nesting := nest2\<rparr>
         in if \<not> ok2 then w_fail ExcessiveNesting w2
            else
              (let containedTypeBegin = w_sigpos w2;
                   w3 = w_zeroPad 4 w2;
                   w4 = w_poke (w_datapos w3) (writeUint32 0) w3;
                   lengthFieldPosition = w_datapos w4;
                   w5 = maybeQueueData 4 ArrayLengthFieldCode
                          (w4\<lparr>w_datapos := u32 (w_datapos w4 + 4)\<rparr>);
                   w6 = (if newState = BeginDict
                         then (alignData StructAlignment w5)\<lparr>w_state := DictKey\<rparr> else w5)
               in w6\<lparr>w_stack := (if newState = BeginDict
                                 then WDict containedTypeBegin lengthFieldPosition
                                 else WArray containedTypeBegin lengthFieldPosition) # w_stack w6\<rparr>)))"

text \<open>Leaving the outermost empty array: its data is thrown away, here and in the queue.\<close>

definition dropNilData :: "nat \<Rightarrow> writer \<Rightarrow> writer" where
  "dropNilData arrayDataStart w =
     (if w_nil w = 0 then w
      else (let w1 = w\<lparr>w_nil := w_nil w - 1\<rparr> in
            if w_nil w1 \<noteq> 0 then w1
            else (let w2 = w1\<lparr>w_datapos := arrayDataStart\<rparr> in
                  if \<not> insideVariant w2 then w2
                  else if length (w_queue w2) < w_elemsBeforeNil w2 \<or> w_elemsBeforeNil w2 = 0
                  then w_undefined w2
                  else (let q = take (w_elemsBeforeNil w2) (w_queue w2)
                        in w2\<lparr>w_queue := butlast q @ [last q\<lparr>q_size := 0\<rparr>]\<rparr>))))"

definition leaveArray :: "io_state \<Rightarrow> writer \<Rightarrow> writer" where
  "leaveArray newState w =
     (let isDict = (newState = EndDict);
          close = (\<lambda>containedTypeBegin lengthFieldPosition rest.
            if w_sigpos w < u32 (containedTypeBegin + (if isDict then 3 else 1))
            then w_fail TooFewTypesInArrayOrDict w
            else
              (let w1 = (if isDict then w\<lparr>w_nesting := nestEndParen (w_nesting w)\<rparr> else w);
                   w2 = w1\<lparr>w_nesting := nestEndArray (w_nesting w1)\<rparr>
               in case (if isDict then Some StructAlignment
                        else map_option ti_alignment (Option.bind
                               (map_option char_of_byte (w_peek w2 (w_sigptr w2 + containedTypeBegin)))
                               typeInfo)) of
                    None \<Rightarrow> w_undefined w2
                  | Some contentAlign \<Rightarrow>
                      (let arrayDataStart = align (u32 (lengthFieldPosition + 4)) contentAlign;
                           w3 = dropNilData arrayDataStart w2
                       in if insideVariant w3
                          then w3\<lparr>w_queue := w_queue w3 @ [queuedDataInfo 1 ArrayLengthEndMark],
                                  w_stack := rest\<rparr>
                          else (let arrayLength = sub32 (w_datapos w3) arrayDataStart in
                                if MaxArrayLength < arrayLength then w_fail ArrayOrDictTooLong w3
                                else (w_poke lengthFieldPosition (writeUint32 (of_nat arrayLength)) w3)
                                       \<lparr>w_stack := rest\<rparr>))))
      in case w_stack w of
           [] \<Rightarrow> w_fail CannotEndArrayHere w
         | WArray ctb fieldPos # rest \<Rightarrow> if isDict then w_fail CannotEndArrayOrDictHere w else close ctb fieldPos rest
         | WDict ctb fieldPos # rest \<Rightarrow> if isDict then close ctb fieldPos rest else w_fail CannotEndArrayOrDictHere w
         | _ \<Rightarrow> w_fail CannotEndArrayOrDictHere w)"

definition w_advanceAggregate :: "io_state \<Rightarrow> nat \<Rightarrow> writer \<Rightarrow> writer" where
  "w_advanceAggregate newState alignment w =
     (case newState of
        BeginStruct \<Rightarrow> enterStruct alignment w
      | EndStruct \<Rightarrow> leaveStruct w
      | BeginVariant \<Rightarrow> enterVariant w
      | EndVariant \<Rightarrow> leaveVariant w
      | BeginDict \<Rightarrow> enterArray newState w
      | BeginArray \<Rightarrow> enterArray newState w
      | EndDict \<Rightarrow> leaveArray newState w
      | EndArray \<Rightarrow> leaveArray newState w
      | _ \<Rightarrow> w_fail InvalidType w)"

text \<open>The data written for a type whose signature has been accepted.\<close>

definition advanceData :: "io_state \<Rightarrow> type_info \<Rightarrow> writer \<Rightarrow> writer" where
  "advanceData newState ty w =
     (if ti_isPrimitive ty then doWritePrimitiveType newState (ti_alignment ty) w
      else if ti_isString ty then
        (if w_nil w = 0 then doWriteString newState (ti_alignment ty) w
         else alignData (ti_alignment ty) w)
      else w_advanceAggregate newState (ti_alignment ty) w)"

definition w_advanceState :: "string \<Rightarrow> io_state \<Rightarrow> writer \<Rightarrow> writer" where
  "w_advanceState signatureFragment newState w0 =
     (case (case signatureFragment of
              [] \<Rightarrow> Some \<lparr>ti_state = NotStarted, ti_alignment = 1, ti_isPrimitive = False, ti_isString = False\<rparr>
            | c # _ \<Rightarrow> typeInfo c) of
        None \<Rightarrow> w_undefined w0
      | Some ty \<Rightarrow>
          (let w1 = reserveData (w_datapos w0) w0 in
           if w_state w1 = InvalidData then w1
           else
             (let w = w1\<lparr>w_state := AnyData\<rparr>;
                  isWritingSignature = (w_sigpos w = w_siglen w)
              in if isWritingSignature \<and> MaxSignatureLength < u32 (w_sigpos w + length signatureFragment)
                 then w_fail SignatureTooLong w
                 else (case advanceEnclosing newState (ti_isPrimitive ty \<or> ti_isString ty)
                              isWritingSignature w of
                         Inl w' \<Rightarrow> w'
                       | Inr (w2, isWriting) \<Rightarrow>
                           (case advanceSignature signatureFragment isWriting w2 of
                              Inl w' \<Rightarrow> w'
                            | Inr w3 \<Rightarrow> advanceData newState ty w3)))))"

end
