(* ===== verification/Writer_Ops.thy ===== *)
theory Writer_Ops
  imports Writer_Model
begin

text \<open>
  The calls of \<^verbatim>\<open>Arguments::Writer\<close> that a client makes: single values, aggregates, primitive
  arrays, the observers, \<^verbatim>\<open>finish\<close>, and copying.  All values go through \<open>w_advanceState\<close>.
\<close>

subsection \<open>Single values\<close>

definition writeBoolean :: "bool \<Rightarrow> writer \<Rightarrow> writer" where
  "writeBoolean b w = w_advanceState ''b'' Boolean (w\<lparr>w_u := WBoolean b\<rparr>)"
definition writeByte :: "byte \<Rightarrow> writer \<Rightarrow> writer" where
  "writeByte b w = w_advanceState ''y'' Byte (w\<lparr>w_u := WByte b\<rparr>)"
definition w_writeInt16 :: "int16 \<Rightarrow> writer \<Rightarrow> writer" where
  "w_writeInt16 i w = w_advanceState ''n'' Int16 (w\<lparr>w_u := WInt16 i\<rparr>)"
definition w_writeUint16 :: "uint16 \<Rightarrow> writer \<Rightarrow> writer" where
  "w_writeUint16 i w = w_advanceState ''q'' Uint16 (w\<lparr>w_u := WUint16 i\<rparr>)"
definition w_writeInt32 :: "int32 \<Rightarrow> writer \<Rightarrow> writer" where
  "w_writeInt32 i w = w_advanceState ''i'' Int32 (w\<lparr>w_u := WInt32 i\<rparr>)"
definition w_writeUint32 :: "uint32 \<Rightarrow> writer \<Rightarrow> writer" where
  "w_writeUint32 i w = w_advanceState ''u'' Uint32 (w\<lparr>w_u := WUint32 i\<rparr>)"
definition w_writeInt64 :: "int64 \<Rightarrow> writer \<Rightarrow> writer" where
  "w_writeInt64 i w = w_advanceState ''x'' Int64 (w\<lparr>w_u := WInt64 i\<rparr>)"
definition w_writeUint64 :: "uint64 \<Rightarrow> writer \<Rightarrow> writer" where
  "w_writeUint64 i w = w_advanceState ''t'' Uint64 (w\<lparr>w_u := WUint64 i\<rparr>)"
definition w_writeDouble :: "double \<Rightarrow> writer \<Rightarrow> writer" where
  "w_writeDouble v w = w_advanceState ''d'' Double (w\<lparr>w_u := WDouble v\<rparr>)"
definition writeString :: "cstring \<Rightarrow> writer \<Rightarrow> writer" where
  "writeString str w = w_advanceState ''s'' String (w\<lparr>w_u := WString str\<rparr>)"
definition writeObjectPath :: "cstring \<Rightarrow> writer \<Rightarrow> writer" where
  "writeObjectPath objectPath w = w_advanceState ''o'' ObjectPath (w\<lparr>w_u := WString objectPath\<rparr>)"
definition writeSignature :: "cstring \<Rightarrow> writer \<Rightarrow> writer" where
  "writeSignature signature w = w_advanceState ''g'' Signature (w\<lparr>w_u := WString signature\<rparr>)"
definition writeUnixFd :: "int32 \<Rightarrow> writer \<Rightarrow> writer" where
  "writeUnixFd fd w = w_advanceState ''h'' UnixFd (w\<lparr>w_u := WInt32 fd\<rparr>)"

lemmas writer_value_defs =
  writeBoolean_def writeByte_def w_writeInt16_def w_writeUint16_def w_writeInt32_def
  w_writeUint32_def w_writeInt64_def w_writeUint64_def w_writeDouble_def writeString_def
  writeObjectPath_def writeSignature_def writeUnixFd_def

subsection \<open>Aggregates\<close>

datatype array_option = NonEmptyArray | WriteTypesOfEmptyArray | RestartEmptyArrayToWriteTypes

text \<open>The array or dict that \<^verbatim>\<open>RestartEmptyArrayToWriteTypes\<close> finds on top of the stack.\<close>

definition restartable :: "io_state \<Rightarrow> writer \<Rightarrow> bool" where
  "restartable beginWhat w =
     (case w_stack w of
        WArray containedTypeBegin _ # _ \<Rightarrow> beginWhat = BeginArray \<and> w_sigpos w = containedTypeBegin
      | WDict containedTypeBegin _ # _ \<Rightarrow> beginWhat = BeginDict \<and> w_sigpos w = containedTypeBegin
      | _ \<Rightarrow> False)"

definition beginArrayOrDict :: "io_state \<Rightarrow> array_option \<Rightarrow> writer \<Rightarrow> writer" where
  "beginArrayOrDict beginWhat option w =
     (if option = RestartEmptyArrayToWriteTypes
      then (if \<not> restartable beginWhat w then w_fail InvalidStateToRestartEmptyArray w
            else if w_nil w = 0
            then w\<lparr>w_nil := 1,
                   w_elemsBeforeNil := sub32 (u32 (length (w_queue w) + 2))
                                         (if beginWhat = BeginDict then 2 else 1)\<rparr>
            else w)
      else
        (let isEmpty = (option \<noteq> NonEmptyArray \<or> w_nil w \<noteq> 0);
             w1 = (if isEmpty
                   then (if w_nil w = 0
                         then w\<lparr>w_nil := 1, w_elemsBeforeNil := u32 (length (w_queue w) + 2)\<rparr>
                         else w\<lparr>w_nil := w_nil w + 1\<rparr>)
                   else w)
         in if beginWhat = BeginArray then w_advanceState ''a'' beginWhat w1
            else w_advanceState ''a{'' beginWhat w1))"

definition w_beginArray :: "array_option \<Rightarrow> writer \<Rightarrow> writer" where
  "w_beginArray option w = beginArrayOrDict BeginArray option w"
definition w_endArray :: "writer \<Rightarrow> writer" where
  "w_endArray w = w_advanceState [] EndArray w"
definition w_beginDict :: "array_option \<Rightarrow> writer \<Rightarrow> writer" where
  "w_beginDict option w = beginArrayOrDict BeginDict option w"
definition w_endDict :: "writer \<Rightarrow> writer" where
  "w_endDict w = w_advanceState ''}'' EndDict w"
definition w_beginStruct :: "writer \<Rightarrow> writer" where
  "w_beginStruct w = w_advanceState ''('' BeginStruct w"
definition w_endStruct :: "writer \<Rightarrow> writer" where
  "w_endStruct w = w_advanceState '')'' EndStruct w"
definition w_beginVariant :: "writer \<Rightarrow> writer" where
  "w_beginVariant w = w_advanceState ''v'' BeginVariant w"
definition w_endVariant :: "writer \<Rightarrow> writer" where
  "w_endVariant w = w_advanceState [] EndVariant w"

lemmas writer_aggregate_defs =
  w_beginArray_def w_endArray_def w_beginDict_def w_endDict_def w_beginStruct_def w_endStruct_def
  w_beginVariant_def w_endVariant_def

subsection \<open>The fast path for message headers\<close>

definition writeVariantForMessageHeader :: "char \<Rightarrow> writer \<Rightarrow> writer" where
  "writeVariantForMessageHeader sig w =
     (let w1 = (w_poke (w_sigptr w + 3) [byte_of (CHR ''v'')] w)\<lparr>w_siglen := 4, w_sigpos := 4\<rparr>;
          w2 = reserveData (w_datapos w1) w1;
          w3 = w_poke (w_datapos w2) [1, byte_of sig, 0] w2
      in w3\<lparr>w_datapos := u32 (w_datapos w3 + 3)\<rparr>)"

definition fixupAfterWriteVariantForMessageHeader :: "writer \<Rightarrow> writer" where
  "fixupAfterWriteVariantForMessageHeader w = w\<lparr>w_siglen := 4, w_sigpos := 4\<rparr>"

subsection \<open>Primitive arrays\<close>

definition letterForPrimitiveIoState :: "io_state \<Rightarrow> char" where
  "letterForPrimitiveIoState ios =
     (case ios of
        Boolean \<Rightarrow> CHR ''b'' | Byte \<Rightarrow> CHR ''y'' | Int16 \<Rightarrow> CHR ''n'' | Uint16 \<Rightarrow> CHR ''q''
      | Int32 \<Rightarrow> CHR ''i'' | Uint32 \<Rightarrow> CHR ''u'' | Int64 \<Rightarrow> CHR ''x'' | Uint64 \<Rightarrow> CHR ''t''
      | Double \<Rightarrow> CHR ''d'' | _ \<Rightarrow> CHR ''c'')"

definition writePrimitiveArray :: "io_state \<Rightarrow> byte list \<Rightarrow> writer \<Rightarrow> writer" where
  "writePrimitiveArray type data w =
     (let letterCode = letterForPrimitiveIoState type in
      if letterCode = CHR ''c'' then w_fail NotPrimitiveType w
      else if MaxArrayLength < length data then w_fail ArrayOrDictTooLong w
      else (case typeInfo letterCode of
              None \<Rightarrow> w_undefined w
            | Some elementType \<Rightarrow>
                if \<not> isAligned (length data) (ti_alignment elementType)
                then w_fail CannotEndArrayOrDictHere w
                else
                  (let w1 = w_beginArray (if data \<noteq> [] then NonEmptyArray else WriteTypesOfEmptyArray) w;
                       w2 = w_advanceState [letterCode] (ti_state elementType) (w1\<lparr>w_u := WUint64 0\<rparr>)
                   in if data = [] then w_endArray w2
                      else
                        (let w3 = w2\<lparr>w_datapos := sub32 (w_datapos w2) (ti_alignment elementType)\<rparr>;
                             w4 = (if insideVariant w3
                                   then w3\<lparr>w_queue := butlast (w_queue w3)
                                             @ [queuedDataInfo (ti_alignment elementType) 0]\<rparr>
                                   else w3);
                             w5 = reserveData (u32 (w_datapos w4 + length data)) w4
                         in w_endArray (appendBulkData data w5)))))"

subsection \<open>Observers\<close>

definition writer_isValid :: "writer \<Rightarrow> bool" where
  "writer_isValid w = (\<not> isError (w_error w))"
definition writer_error :: "writer \<Rightarrow> error_code" where
  "writer_error w = w_error w"
definition writer_stateString :: "writer \<Rightarrow> string" where
  "writer_stateString w = printableState (w_state w)"
definition w_isInsideEmptyArray :: "writer \<Rightarrow> bool" where
  "w_isInsideEmptyArray w = (0 < w_nil w)"
definition w_currentSignaturePosition :: "writer \<Rightarrow> nat" where
  "w_currentSignaturePosition w = w_sigpos w"

text \<open>The signature so far, with the writer after a terminating null has been stored behind it.\<close>

definition w_currentSignature :: "writer \<Rightarrow> cstring \<times> writer" where
  "w_currentSignature w =
     (let w1 = w_poke (w_sigptr w + w_siglen w) [0] w
      in (\<lparr>cs_block = Some (map char_of_byte (drop (w_sigptr w1) (w_data w1))),
           cs_length = w_siglen w1\<rparr>, w1))"

definition w_aggregateStack :: "writer \<Rightarrow> io_state list" where
  "w_aggregateStack w = map writer_aggregateType (rev (w_stack w))"
definition w_aggregateDepth :: "writer \<Rightarrow> nat" where
  "w_aggregateDepth w = length (w_stack w)"
definition w_currentAggregate :: "writer \<Rightarrow> io_state" where
  "w_currentAggregate w = (case w_stack w of [] \<Rightarrow> NotStarted | a # _ \<Rightarrow> writer_aggregateType a)"

definition peekSerializedData :: "writer \<Rightarrow> byte list" where
  "peekSerializedData w =
     (if writer_isValid w \<and> w_state w \<noteq> InvalidData \<and> n_total (w_nesting w) = 0
      then slice_at SignatureReservedSpace (sub32 (w_datapos w) SignatureReservedSpace) (w_data w)
      else [])"

definition w_fileDescriptors :: "writer \<Rightarrow> int list" where
  "w_fileDescriptors w = w_fds w"

subsection \<open>finish\<close>

text \<open>The Arguments, and the writer, whose buffer now belongs to the Arguments.\<close>

definition w_finish :: "writer \<Rightarrow> arguments \<times> writer" where
  "w_finish w =
     (if w_state w = InvalidData then (empty_arguments\<lparr>a_error := w_error w\<rparr>, w)
      else if n_total (w_nesting w) \<noteq> 0
      then (let w1 = w_fail CannotEndArgumentsHere w in (empty_arguments\<lparr>a_error := w_error w1\<rparr>, w1))
      else
        (let w1 = w\<lparr>w_siglen := w_sigpos w\<rparr>;
             w2 = w_poke (w_sigptr w1 + w_siglen w1) [0] w1;
             dataSize = sub32 (w_datapos w2) SignatureReservedSpace
         in if MaxMessageLength < dataSize
            then (let w3 = w_fail ArgumentsTooLong w2 in (empty_arguments\<lparr>a_error := w_error w3\<rparr>, w3))
            else
              (let (args, w3) =
                 (if dataSize = 0 then (empty_arguments, w2)
                  else (empty_arguments\<lparr>a_memOwnership := Some (w_data w2),
                          a_signature := \<lparr>cs_block = Some (map char_of_byte (drop 1 (w_data w2))),
                                          cs_length = w_siglen w2\<rparr>,
                          a_data := slice_at SignatureReservedSpace dataSize (w_data w2)\<rparr>,
                        w2\<lparr>w_data := []\<rparr>))
               in (args\<lparr>a_fileDescriptors := w_fds w3\<rparr>, w3\<lparr>w_fds := [], w_state := Finished\<rparr>))))"

subsection \<open>Copying\<close>

text \<open>
  The copy constructor and the assignment of the private data: a new buffer of the same capacity
  into which the written part is copied.  \<open>None\<close>: the buffer to copy has gone (after \<^verbatim>\<open>finish\<close>).
\<close>

definition writer_copy :: "(nat \<Rightarrow> byte) \<Rightarrow> writer \<Rightarrow> writer option" where
  "writer_copy junk other =
     (if length (w_data other) < w_datapos other then None
      else Some (other\<lparr>w_data := take (w_datapos other) (w_data other)
                                   @ map junk [w_datapos other..<w_capacity other],
                       w_junk := junk\<rparr>))"

text \<open>Handles: the moved-from writer has a null private pointer.\<close>

definition writer_move_construct :: "writer option \<Rightarrow> writer option \<times> writer option" where
  "writer_move_construct other = (other, None)"

definition writer_copy_construct :: "(nat \<Rightarrow> byte) \<Rightarrow> writer option \<Rightarrow> writer option option" where
  "writer_copy_construct junk other =
     (case other of None \<Rightarrow> Some None | Some o' \<Rightarrow> map_option Some (writer_copy junk o'))"

end
