(* ===== verification/Reader_Model.thy ===== *)
theory Reader_Model
  imports Arguments_Obj
begin

text \<open>
  \<^verbatim>\<open>Arguments::Reader\<close> (\<^verbatim>\<open>serialization/argumentsreader.cpp\<close>, \<^verbatim>\<open>arguments.h\<close>): the state machine
  that walks over serialized data along its signature.

  The record holds the private data of the class together with the two members outside of it.
  \<open>r_stack\<close> has the innermost aggregate (\<^verbatim>\<open>back()\<close>) first.  \<open>r_fault\<close> is set when the execution
  leaves defined behaviour: a read outside of the data, of a signature or of the type table.
  Assertions are those of a release build, that is, none.
\<close>

subsection \<open>State\<close>

text \<open>
  Where a signature or string pointer of the reader points: the signature of the Arguments, the
  data at an offset, the static empty string of variants in empty arrays, or nowhere.
\<close>

datatype pointer = NullPtr | SigPtr | DataPtr nat | EmptyStrPtr | WildPtr

text \<open>The union \<^verbatim>\<open>m_u\<close>, by the member that was stored last.\<close>

datatype data_union =
    UNone
  | UByte byte
  | UBoolean bool
  | UInt16 int16
  | UUint16 uint16
  | UInt32 int32
  | UUint32 uint32
  | UInt64 int64
  | UUint64 uint64
  | UDouble double
  | UString pointer nat

datatype reader_aggregate =
    RArray nat nat              \<comment> \<open>dataEnd, containedTypeBegin\<close>
  | RDict nat nat               \<comment> \<open>dataEnd, containedTypeBegin\<close>
  | RStruct
  | RVariant pointer nat nat    \<comment> \<open>prevSignature (pointer, length), prevSignaturePosition\<close>

fun reader_aggregateType :: "reader_aggregate \<Rightarrow> io_state" where
  "reader_aggregateType (RArray _ _) = BeginArray"
| "reader_aggregateType (RDict _ _) = BeginDict"
| "reader_aggregateType RStruct = BeginStruct"
| "reader_aggregateType (RVariant _ _ _) = BeginVariant"

record reader =
  r_args :: "arguments option"
  r_signature :: pointer
  r_siglen :: nat
  r_sigpos :: nat
  r_data :: "byte list"
  r_datapos :: nat
  r_nil :: nat
  r_error :: error_code
  r_nesting :: nesting
  r_stack :: "reader_aggregate list"
  r_state :: io_state
  r_u :: data_union
  r_fault :: bool

definition r_fail :: "error_code \<Rightarrow> reader \<Rightarrow> reader" where
  "r_fail code r = r\<lparr>r_state := InvalidData, r_error := code\<rparr>"

definition r_undefined :: "reader \<Rightarrow> reader" where
  "r_undefined r = r\<lparr>r_state := InvalidData, r_fault := True\<rparr>"

definition r_swapped :: "reader \<Rightarrow> bool" where
  "r_swapped r = (case r_args r of None \<Rightarrow> False | Some a \<Rightarrow> a_isByteSwapped a)"

definition r_fds :: "reader \<Rightarrow> int list" where
  "r_fds r = (case r_args r of None \<Rightarrow> [] | Some a \<Rightarrow> a_fileDescriptors a)"

text \<open>The memory that a pointer of the reader can read.\<close>

definition r_block :: "reader \<Rightarrow> pointer \<Rightarrow> string option" where
  "r_block r p = (case p of
       NullPtr \<Rightarrow> None
     | SigPtr \<Rightarrow> (case r_args r of None \<Rightarrow> None | Some a \<Rightarrow> cs_block (a_signature a))
     | DataPtr i \<Rightarrow> Some (map char_of_byte (drop i (r_data r)))
     | EmptyStrPtr \<Rightarrow> Some [CHR 0x00]
     | WildPtr \<Rightarrow> None)"

definition r_cstring :: "reader \<Rightarrow> pointer \<Rightarrow> nat \<Rightarrow> cstring" where
  "r_cstring r p n = \<lparr>cs_block = r_block r p, cs_length = n\<rparr>"

definition r_sig_at :: "reader \<Rightarrow> nat \<Rightarrow> char option" where
  "r_sig_at r i = cs_at (r_cstring r (r_signature r) (r_siglen r)) i"

text \<open>\<open>n\<close> bytes at the data position, if they are there.\<close>

definition r_bytes :: "reader \<Rightarrow> nat \<Rightarrow> byte list option" where
  "r_bytes r n =
     (if r_datapos r + n \<le> length (r_data r) then Some (slice_at (r_datapos r) n (r_data r)) else None)"

subsection \<open>Reading single values\<close>

definition doReadPrimitiveType :: "reader \<Rightarrow> reader" where
  "doReadPrimitiveType r =
     (let swap = r_swapped r in
      case r_state r of
        Boolean \<Rightarrow>
          (case r_bytes r 4 of None \<Rightarrow> r_undefined r
           | Some bs \<Rightarrow>
               (let num = readUint32 bs swap; r1 = r\<lparr>r_u := UBoolean (num = 1)\<rparr>
                in if num \<le> 1 then r1 else r_fail MalformedMessageData r1))
      | Byte \<Rightarrow>
          (case r_bytes r 1 of None \<Rightarrow> r_undefined r | Some bs \<Rightarrow> r\<lparr>r_u := UByte (bs ! 0)\<rparr>)
      | Int16 \<Rightarrow>
          (case r_bytes r 2 of None \<Rightarrow> r_undefined r | Some bs \<Rightarrow> r\<lparr>r_u := UInt16 (readInt16 bs swap)\<rparr>)
      | Uint16 \<Rightarrow>
          (case r_bytes r 2 of None \<Rightarrow> r_undefined r | Some bs \<Rightarrow> r\<lparr>r_u := UUint16 (readUint16 bs swap)\<rparr>)
      | Int32 \<Rightarrow>
          (case r_bytes r 4 of None \<Rightarrow> r_undefined r | Some bs \<Rightarrow> r\<lparr>r_u := UInt32 (readInt32 bs swap)\<rparr>)
      | Uint32 \<Rightarrow>
          (case r_bytes r 4 of None \<Rightarrow> r_undefined r | Some bs \<Rightarrow> r\<lparr>r_u := UUint32 (readUint32 bs swap)\<rparr>)
      | Int64 \<Rightarrow>
          (case r_bytes r 8 of None \<Rightarrow> r_undefined r | Some bs \<Rightarrow> r\<lparr>r_u := UInt64 (readInt64 bs swap)\<rparr>)
      | Uint64 \<Rightarrow>
          (case r_bytes r 8 of None \<Rightarrow> r_undefined r | Some bs \<Rightarrow> r\<lparr>r_u := UUint64 (readUint64 bs swap)\<rparr>)
      | Double \<Rightarrow>
          (case r_bytes r 8 of None \<Rightarrow> r_undefined r | Some bs \<Rightarrow> r\<lparr>r_u := UDouble (readDouble bs swap)\<rparr>)
      | UnixFd \<Rightarrow>
          (case r_bytes r 4 of None \<Rightarrow> r_undefined r
           | Some bs \<Rightarrow>
               (let index = unat (readUint32 bs swap)
                in if r_nil r = 0 then
                     (if index < length (r_fds r)
                      then r\<lparr>r_u := UInt32 (word_of_int (r_fds r ! index))\<rparr>
                      else r_fail MalformedMessageData r)
                   else r\<lparr>r_u := UInt32 (word_of_int (-1))\<rparr>))
      | _ \<Rightarrow> r_fail MalformedMessageData r)"

text \<open>The check of the string just located, by the state that selects its type.\<close>

definition stringCheck :: "io_state \<Rightarrow> cstring \<Rightarrow> bool option" where
  "stringCheck st cs =
     (if st = String then isStringValid cs
      else if st = ObjectPath then isObjectPathValid cs
      else if st = Signature then isSignatureValid cs MethodSignature
      else Some False)"

definition doReadString :: "nat \<Rightarrow> reader \<Rightarrow> reader" where
  "doReadString lengthPrefixSize r =
     (case r_bytes r lengthPrefixSize of
        None \<Rightarrow> r_undefined r
      | Some bs \<Rightarrow>
          (let stringLength =
             (if lengthPrefixSize = 1 then u32 (1 + unat (bs ! 0))
              else u32 (1 + unat (readUint32 bs (r_swapped r))))
           in if lengthPrefixSize \<noteq> 1 \<and> MaxArrayLength \<le> u32 (stringLength + 1)
              then r_fail MalformedMessageData r
              else (let r1 = r\<lparr>r_datapos := u32 (r_datapos r + lengthPrefixSize)\<rparr>
                in if length (r_data r1) < u32 (r_datapos r1 + stringLength)
                   then r1\<lparr>r_state := NeedMoreData\<rparr>
                   else (let p = DataPtr (r_datapos r1); len = sub32 stringLength 1;
                             r2 = r1\<lparr>r_u := UString p len,
                                      r_datapos := u32 (r_datapos r1 + stringLength)\<rparr>
                     in case stringCheck (r_state r2) (r_cstring r2 p len) of
                          None \<Rightarrow> r_undefined r2
                        | Some isValidString \<Rightarrow>
                            if isValidString then r2 else r_fail MalformedMessageData r2))))"

subsection \<open>advanceState\<close>

text \<open>The label \<^verbatim>\<open>out_needMoreData\<close>.\<close>

definition outNeedMoreData :: "nat \<Rightarrow> nat \<Rightarrow> reader \<Rightarrow> reader" where
  "outNeedMoreData savedSignaturePosition savedDataPosition r =
     (if n_array (r_nesting r) \<noteq> 0 then r_fail MalformedMessageData r
      else r\<lparr>r_state := NeedMoreData, r_sigpos := savedSignaturePosition,
             r_datapos := savedDataPosition\<rparr>)"

text \<open>
  The first part of \<^verbatim>\<open>advanceState\<close>: step to the next signature letter and see whether an
  aggregate or the whole argument list is about to be closed.  \<open>Inl\<close>: the method returns.
\<close>

definition advanceClosing :: "reader \<Rightarrow> reader + reader" where
  "advanceClosing r0 =
     (let r = r0\<lparr>r_sigpos := u32 (r_sigpos r0 + 1)\<rparr> in
      case r_stack r of
        [] \<Rightarrow> (if r_siglen r \<le> r_sigpos r then Inl (r\<lparr>r_state := Finished\<rparr>) else Inr r)
      | RStruct # _ \<Rightarrow> Inr r
      | RVariant _ _ _ # _ \<Rightarrow>
          (if r_siglen r \<le> r_sigpos r then Inl (r\<lparr>r_state := EndVariant\<rparr>) else Inr r)
      | RArray dataEnd containedTypeBegin # _ \<Rightarrow>
          (if containedTypeBegin < r_sigpos r then
             (if r_nil r = 0 \<and> r_datapos r < dataEnd
              then Inr (r\<lparr>r_sigpos := containedTypeBegin\<rparr>)
              else if r_datapos r = dataEnd then Inl (r\<lparr>r_state := EndArray\<rparr>)
              else Inl (r_fail MalformedMessageData r))
           else Inr r)
      | RDict dataEnd containedTypeBegin # _ \<Rightarrow>
          (if u32 (containedTypeBegin + 1) < r_sigpos r then
             (if r_nil r = 0 \<and> r_datapos r < dataEnd
              then Inr (r\<lparr>r_datapos := align (r_datapos r) 8, r_sigpos := containedTypeBegin\<rparr>)
              else Inl (r\<lparr>r_state := EndDict\<rparr>))
           else Inr r))"

text \<open>
  The second part: look up the type, skip padding and read single values.  \<open>Inl\<close>: the method
  returns; \<open>Inr\<close>: an aggregate is to be opened or closed.
\<close>

definition advanceValue :: "nat \<Rightarrow> nat \<Rightarrow> reader \<Rightarrow> reader + reader" where
  "advanceValue savedSig savedData r =
     (case Option.bind (r_sig_at r (r_sigpos r)) typeInfo of
        None \<Rightarrow> Inl (r_undefined r)
      | Some ty \<Rightarrow>
          (let r1 = r\<lparr>r_state := ti_state ty\<rparr> in
           if r_state r1 = InvalidData then Inl (r_fail MalformedMessageData r1)
           else if r_nil r1 = 0 then
             (let padStart = r_datapos r1;
                  r2 = r1\<lparr>r_datapos := align (r_datapos r1) (ti_alignment ty)\<rparr>
              in if length (r_data r2) < r_datapos r2 then Inl (outNeedMoreData savedSig savedData r2)
                 else if \<not> isPaddingZero (r_data r2) padStart (r_datapos r2)
                      then Inl (r_fail MalformedMessageData r2)
                 else if ti_isPrimitive ty \<or> ti_isString ty then
                   (if length (r_data r2) < u32 (r_datapos r2 + ti_alignment ty)
                    then Inl (outNeedMoreData savedSig savedData r2)
                    else if ti_isPrimitive ty
                    then (let r3 = doReadPrimitiveType r2
                          in Inl (r3\<lparr>r_datapos := u32 (r_datapos r3 + ti_alignment ty)\<rparr>))
                    else (let r3 = doReadString (ti_alignment ty) r2
                          in if r_state r3 = NeedMoreData
                             then Inl (outNeedMoreData savedSig savedData r3)
                             else Inl r3))
                 else Inr r2)
           else if ti_isPrimitive ty \<or> ti_isString ty then Inl r1
           else Inr r1))"

definition openStruct :: "reader \<Rightarrow> reader" where
  "openStruct r =
     (let (ok, nest) = nestBeginParen (r_nesting r); r1 = r\<lparr>r_nesting := nest\<rparr>
      in if ok then r1 else r_fail MalformedMessageData r1)"

definition openVariant :: "nat \<Rightarrow> nat \<Rightarrow> reader \<Rightarrow> reader" where
  "openVariant savedSig savedData r =
     (let enter = (\<lambda>p len r. let (ok, nest) = nestBeginVariant (r_nesting r);
                                 r1 = r\<lparr>r_nesting := nest\<rparr>
                  in if ok then r1\<lparr>r_u := UString p len\<rparr> else r_fail MalformedMessageData r1)
      in if r_nil r \<noteq> 0 then enter EmptyStrPtr 0 r
         else if length (r_data r) \<le> r_datapos r then outNeedMoreData savedSig savedData r
         else (let len = unat (r_data r ! r_datapos r);
                   start = u32 (r_datapos r + 1);
                   r1 = r\<lparr>r_datapos := u32 (start + len + 1)\<rparr>
           in if length (r_data r1) < r_datapos r1 then outNeedMoreData savedSig savedData r1
              else (case isSignatureValid (r_cstring r1 (DataPtr start) len) VariantSignature of
                      None \<Rightarrow> r_undefined r1
                    | Some ok \<Rightarrow> if ok then enter (DataPtr start) len r1
                                else r_fail MalformedMessageData r1)))"

definition openArray :: "nat \<Rightarrow> nat \<Rightarrow> reader \<Rightarrow> reader" where
  "openArray savedSig savedData r =
     (case (if r_nil r = 0
            then (if length (r_data r) < u32 (r_datapos r + 4)
                  then Inl (outNeedMoreData savedSig savedData r)
                  else (case r_bytes r 4 of
                          None \<Rightarrow> Inl (r_undefined r)
                        | Some bs \<Rightarrow>
                            (let n = unat (readUint32 bs (r_swapped r))
                             in if n \<le> MaxArrayLength
                                then Inr (n, r\<lparr>r_datapos := u32 (r_datapos r + 4)\<rparr>)
                                else Inl (r_fail MalformedMessageData r))))
            else Inr (0, r)) of
        Inl r' \<Rightarrow> r'
      | Inr (arrayLength, r1) \<Rightarrow>
          (case r_sig_at r1 (u32 (r_sigpos r1 + 1)) of
             None \<Rightarrow> r_undefined r1
           | Some c \<Rightarrow>
               (let r2 = (if c = CHR ''{'' then r1\<lparr>r_state := BeginDict\<rparr> else r1) in
                case (if r_nil r2 = 0 then
                        (case (if r_state r2 = BeginDict then Some StructAlignment
                               else map_option ti_alignment (typeInfo c)) of
                           None \<Rightarrow> Inl (r_undefined r2)
                         | Some alignment \<Rightarrow>
                             (let padStart = r_datapos r2;
                                  r3 = r2\<lparr>r_datapos := align (r_datapos r2) alignment\<rparr>;
                                  dataEnd = u32 (r_datapos r3 + arrayLength)
                              in if \<not> isPaddingZero (r_data r3) padStart (r_datapos r3)
                                 then Inl (r_fail MalformedMessageData r3)
                                 else if length (r_data r3) < dataEnd
                                 then Inl (outNeedMoreData savedSig savedData r3)
                                 else Inr (dataEnd, r3)))
                      else Inr (r_datapos r2, r2)) of
                  Inl r' \<Rightarrow> r'
                | Inr (dataEnd, r3) \<Rightarrow>
                    (let (ok, nest) = nestBeginArray (r_nesting r3); r4 = r3\<lparr>r_nesting := nest\<rparr>
                     in if \<not> ok then r_fail MalformedMessageData r4
                        else if r_state r4 = BeginDict then
                          (let (ok, nest) = nestBeginParen (r_nesting r4); r5 = r4\<lparr>r_nesting := nest\<rparr>
                           in if \<not> ok then r_fail MalformedMessageData r5
                              else r5\<lparr>r_u := UUint32 (of_nat dataEnd)\<rparr>)
                        else r4\<lparr>r_u := UUint32 (of_nat dataEnd)\<rparr>))))"

text \<open>The third part of \<^verbatim>\<open>advanceState\<close>, its \<^verbatim>\<open>switch\<close> over aggregates.\<close>

definition advanceAggregate :: "nat \<Rightarrow> nat \<Rightarrow> reader \<Rightarrow> reader" where
  "advanceAggregate savedSig savedData r =
     (case r_state r of
        BeginStruct \<Rightarrow> openStruct r
      | EndStruct \<Rightarrow> r
      | BeginVariant \<Rightarrow> openVariant savedSig savedData r
      | BeginArray \<Rightarrow> openArray savedSig savedData r
      | _ \<Rightarrow> r)"

definition advanceState :: "reader \<Rightarrow> reader" where
  "advanceState r =
     (if r_state r = InvalidData then r
      else (case advanceClosing r of
              Inl r' \<Rightarrow> r'
            | Inr r1 \<Rightarrow>
                (case advanceValue (r_sigpos r) (r_datapos r) r1 of
                   Inl r' \<Rightarrow> r'
                 | Inr r2 \<Rightarrow> advanceAggregate (r_sigpos r) (r_datapos r) r2)))"

subsection \<open>Construction and replacement of the data\<close>

definition newReader :: "arguments option \<Rightarrow> reader" where
  "newReader args = \<lparr>r_args = args, r_signature = NullPtr, r_siglen = 0, r_sigpos = 2 ^ 32 - 1,
     r_data = [], r_datapos = 0, r_nil = 0, r_error = NoError, r_nesting = no_nesting,
     r_stack = [], r_state = NotStarted, r_u = UNone, r_fault = False\<rparr>"

definition beginRead :: "reader \<Rightarrow> reader" where
  "beginRead r =
     (case r_args r of
        None \<Rightarrow> r_fail NotAttachedToArguments r
      | Some a \<Rightarrow>
          (let r1 = r\<lparr>r_signature := (if cs_block (a_signature a) = None then NullPtr else SigPtr),
                      r_siglen := cs_length (a_signature a), r_data := a_data a\<rparr>
           in if r_siglen r1 = 0 then advanceState r1
              else (case isSignatureValid (a_signature a) MethodSignature of
                      None \<Rightarrow> r_undefined r1
                    | Some ok \<Rightarrow> if ok then advanceState r1 else r_fail InvalidSignature r1)))"

definition Reader :: "arguments \<Rightarrow> reader" where
  "Reader al = beginRead (newReader (Some al))"

text \<open>Adding the distance of the two data blocks to a pointer: only right for pointers into the data.\<close>

definition shiftPointer :: "pointer \<Rightarrow> pointer" where
  "shiftPointer p = (case p of DataPtr i \<Rightarrow> DataPtr i | _ \<Rightarrow> WildPtr)"

text \<open>
  The loop of \<^verbatim>\<open>replaceData\<close> over the aggregate stack, outermost first: all stored signatures of
  variants but the first are shifted.
\<close>

fun shiftVariants :: "bool \<Rightarrow> reader_aggregate list \<Rightarrow> bool \<times> reader_aggregate list" where
  "shiftVariants isMainSignature [] = (isMainSignature, [])"
| "shiftVariants isMainSignature (RVariant p n pos # rest) =
     (let (m, rest') = shiftVariants False rest
      in (m, RVariant (if isMainSignature then p else shiftPointer p) n pos # rest'))"
| "shiftVariants isMainSignature (a # rest) =
     (let (m, rest') = shiftVariants isMainSignature rest in (m, a # rest'))"

definition replaceData :: "byte list \<Rightarrow> reader \<Rightarrow> reader" where
  "replaceData data r =
     (if length data < r_datapos r then r_fail ReplacementDataIsShorter r
      else (let (isMainSignature, stack) = shiftVariants True (rev (r_stack r));
                r1 = r\<lparr>r_stack := rev stack,
                       r_signature := (if isMainSignature then r_signature r
                                       else shiftPointer (r_signature r)),
                       r_data := data\<rparr>
        in if r_state r1 = NeedMoreData then advanceState r1 else r1))"

end
