(* ===== verification/Reader_Ops.thy ===== *)
theory Reader_Ops
  imports Reader_Model
begin

text \<open>
  The operations of \<^verbatim>\<open>Arguments::Reader\<close> that a client calls between the calls of \<^verbatim>\<open>advanceState\<close>:
  entering, leaving and skipping aggregates, the \<^verbatim>\<open>read...\<close> functions, the primitive array fast
  path, and the observers.
\<close>

datatype empty_array_option = SkipIfEmpty | ReadTypesOnlyIfEmpty

subsection \<open>Observers\<close>

definition reader_isValid :: "reader \<Rightarrow> bool" where
  "reader_isValid r = (r_args r \<noteq> None)"

definition reader_error :: "reader \<Rightarrow> error_code" where
  "reader_error r = r_error r"

definition reader_stateString :: "reader \<Rightarrow> string" where
  "reader_stateString r = printableState (r_state r)"

definition isInsideEmptyArray :: "reader \<Rightarrow> bool" where
  "isInsideEmptyArray r = (0 < r_nil r)"

definition currentSignature :: "reader \<Rightarrow> cstring" where
  "currentSignature r = r_cstring r (r_signature r) (r_siglen r)"

definition currentSignaturePosition :: "reader \<Rightarrow> nat" where
  "currentSignaturePosition r = r_sigpos r"

definition reader_isFinished :: "reader \<Rightarrow> bool" where
  "reader_isFinished r = (r_state r = Finished)"

definition reader_isError :: "reader \<Rightarrow> bool" where
  "reader_isError r = (r_state r = InvalidData \<or> r_state r = NeedMoreData)"

definition aggregateStack :: "reader \<Rightarrow> io_state list" where
  "aggregateStack r = map reader_aggregateType (rev (r_stack r))"

definition aggregateDepth :: "reader \<Rightarrow> nat" where
  "aggregateDepth r = length (r_stack r)"

definition currentAggregate :: "reader \<Rightarrow> io_state" where
  "currentAggregate r = (case r_stack r of [] \<Rightarrow> NotStarted | a # _ \<Rightarrow> reader_aggregateType a)"

definition isDictKey :: "reader \<Rightarrow> bool" where
  "isDictKey r = (case r_stack r of
       RDict _ containedTypeBegin # _ \<Rightarrow> r_sigpos r = containedTypeBegin
     | _ \<Rightarrow> False)"

text \<open>
  The signature from the current position on; \<open>None\<close> when its memory cannot be read.
\<close>

definition r_remaining :: "reader \<Rightarrow> string option" where
  "r_remaining r =
     (case r_block r (r_signature r) of
        None \<Rightarrow> None
      | Some b \<Rightarrow>
          (let n = sub32 (r_siglen r) (r_sigpos r)
           in if r_sigpos r + n < length b then Some (take n (drop (r_sigpos r) b)) else None))"

definition currentSingleCompleteTypeSignature :: "reader \<Rightarrow> string option" where
  "currentSingleCompleteTypeSignature r =
     (case r_remaining r of
        None \<Rightarrow> None
      | Some s \<Rightarrow>
          (case parseSingleCompleteType s no_nesting of
             (ok, rest, _) \<Rightarrow> Some (if ok then take (length s - length rest) s else [])))"

subsection \<open>Reading single values\<close>

text \<open>
  Each function returns the member of the union of its type and advances.  \<open>None\<close>: another member
  was stored last, which the C++ code would reinterpret.
\<close>

definition reader_readByte :: "reader \<Rightarrow> byte option \<times> reader" where
  "reader_readByte r = ((case r_u r of UByte v \<Rightarrow> Some v | _ \<Rightarrow> None), advanceState r)"
definition reader_readBoolean :: "reader \<Rightarrow> bool option \<times> reader" where
  "reader_readBoolean r = ((case r_u r of UBoolean v \<Rightarrow> Some v | _ \<Rightarrow> None), advanceState r)"
definition reader_readInt16 :: "reader \<Rightarrow> int16 option \<times> reader" where
  "reader_readInt16 r = ((case r_u r of UInt16 v \<Rightarrow> Some v | _ \<Rightarrow> None), advanceState r)"
definition reader_readUint16 :: "reader \<Rightarrow> uint16 option \<times> reader" where
  "reader_readUint16 r = ((case r_u r of UUint16 v \<Rightarrow> Some v | _ \<Rightarrow> None), advanceState r)"
definition reader_readInt32 :: "reader \<Rightarrow> int32 option \<times> reader" where
  "reader_readInt32 r = ((case r_u r of UInt32 v \<Rightarrow> Some v | _ \<Rightarrow> None), advanceState r)"
definition reader_readUint32 :: "reader \<Rightarrow> uint32 option \<times> reader" where
  "reader_readUint32 r = ((case r_u r of UUint32 v \<Rightarrow> Some v | _ \<Rightarrow> None), advanceState r)"
definition reader_readInt64 :: "reader \<Rightarrow> int64 option \<times> reader" where
  "reader_readInt64 r = ((case r_u r of UInt64 v \<Rightarrow> Some v | _ \<Rightarrow> None), advanceState r)"
definition reader_readUint64 :: "reader \<Rightarrow> uint64 option \<times> reader" where
  "reader_readUint64 r = ((case r_u r of UUint64 v \<Rightarrow> Some v | _ \<Rightarrow> None), advanceState r)"
definition reader_readDouble :: "reader \<Rightarrow> double option \<times> reader" where
  "reader_readDouble r = ((case r_u r of UDouble v \<Rightarrow> Some v | _ \<Rightarrow> None), advanceState r)"
definition reader_readString :: "reader \<Rightarrow> cstring option \<times> reader" where
  "reader_readString r =
     ((case r_u r of UString p n \<Rightarrow> Some (r_cstring r p n) | _ \<Rightarrow> None), advanceState r)"
definition reader_readObjectPath :: "reader \<Rightarrow> cstring option \<times> reader" where
  "reader_readObjectPath r =
     ((case r_u r of UString p n \<Rightarrow> Some (r_cstring r p n) | _ \<Rightarrow> None), advanceState r)"
definition reader_readSignature :: "reader \<Rightarrow> cstring option \<times> reader" where
  "reader_readSignature r =
     ((case r_u r of UString p n \<Rightarrow> Some (r_cstring r p n) | _ \<Rightarrow> None), advanceState r)"
definition reader_readUnixFd :: "reader \<Rightarrow> int32 option \<times> reader" where
  "reader_readUnixFd r = ((case r_u r of UInt32 v \<Rightarrow> Some v | _ \<Rightarrow> None), advanceState r)"

lemmas reader_read_defs =
  reader_readByte_def reader_readBoolean_def reader_readInt16_def reader_readUint16_def
  reader_readInt32_def reader_readUint32_def reader_readInt64_def reader_readUint64_def
  reader_readDouble_def reader_readString_def reader_readObjectPath_def reader_readSignature_def
  reader_readUnixFd_def

subsection \<open>Arrays and dicts\<close>

text \<open>The union member \<^verbatim>\<open>m_u.Uint32\<close> in the states \<^verbatim>\<open>BeginArray\<close> and \<^verbatim>\<open>BeginDict\<close>: the end of the data.\<close>

definition u_dataEnd :: "reader \<Rightarrow> nat option" where
  "u_dataEnd r = (case r_u r of UUint32 v \<Rightarrow> Some (unat v) | _ \<Rightarrow> None)"

definition skipArrayOrDictSignature :: "bool \<Rightarrow> reader \<Rightarrow> reader" where
  "skipArrayOrDictSignature isDict r0 =
     (let r1 = r0\<lparr>r_nesting := nestEndArray (r_nesting r0)\<rparr>;
          r = (if isDict then r1\<lparr>r_nesting := nestEndParen (r_nesting r1),
                                 r_sigpos := sub32 (r_sigpos r1) 1\<rparr> else r1)
      in case r_remaining r of
           None \<Rightarrow> r_undefined r
         | Some remainingSig \<Rightarrow>
             (case parseSingleCompleteType remainingSig (r_nesting r) of
                (ok, rest, nest) \<Rightarrow>
                  (let r2 = r\<lparr>r_nesting := nest\<rparr> in
                   if \<not> ok then r_fail MalformedMessageData r2
                   else (let r3 = r2\<lparr>r_sigpos := sub32 (sub32 (r_siglen r2) (length rest)) 1,
                                     r_nesting := snd (nestBeginArray (r_nesting r2))\<rparr>
                         in if isDict
                            then r3\<lparr>r_nesting := snd (nestBeginParen (r_nesting r3)),
                                    r_sigpos := sub32 (r_sigpos r3) 1\<rparr>
                            else r3))))"

text \<open>
  \<^verbatim>\<open>skipArrayOrDict\<close> does not look at the outcome of \<^verbatim>\<open>skipArrayOrDictSignature\<close>: \<^verbatim>\<open>advanceState\<close>
  returns at once in state \<^verbatim>\<open>InvalidData\<close>.
\<close>

definition skipArrayOrDict :: "bool \<Rightarrow> reader \<Rightarrow> reader" where
  "skipArrayOrDict isDict r =
     (case u_dataEnd r of
        None \<Rightarrow> r_undefined r
      | Some dataEnd \<Rightarrow>
          (let r1 = (skipArrayOrDictSignature isDict r)\<lparr>r_datapos := dataEnd\<rparr>;
               r2 = (if isDict then r1\<lparr>r_nesting := nestEndParen (r_nesting r1),
                                       r_sigpos := u32 (r_sigpos r1 + 1)\<rparr> else r1)
           in advanceState (r2\<lparr>r_nesting := nestEndArray (r_nesting r2)\<rparr>)))"

text \<open>What \<^verbatim>\<open>beginArray\<close> and \<^verbatim>\<open>beginDict\<close> do after their state checks.\<close>

definition reader_beginArray :: "empty_array_option \<Rightarrow> reader \<Rightarrow> bool \<times> reader" where
  "reader_beginArray option r =
     (if r_state r \<noteq> BeginArray then (False, r_fail ReadWrongType r)
      else (case u_dataEnd r of
              None \<Rightarrow> (False, r_undefined r)
            | Some dataEnd \<Rightarrow>
                (let r1 = r\<lparr>r_stack := RArray dataEnd (u32 (r_sigpos r + 1)) # r_stack r\<rparr>;
                     arrayLength = sub32 dataEnd (r_datapos r1);
                     r2 = (if arrayLength = 0 then r1\<lparr>r_nil := u32 (r_nil r1 + 1)\<rparr> else r1);
                     r3 = (if r_nil r2 \<noteq> 0 \<and> option = SkipIfEmpty
                           then skipArrayOrDictSignature False r2 else r2);
                     r4 = advanceState r3
                 in (r_nil r4 = 0, r4))))"

definition reader_beginDict :: "empty_array_option \<Rightarrow> reader \<Rightarrow> bool \<times> reader" where
  "reader_beginDict option r0 =
     (if r_state r0 \<noteq> BeginDict then (False, r_fail ReadWrongType r0)
      else (let r = r0\<lparr>r_sigpos := u32 (r_sigpos r0 + 1)\<rparr> in
            case u_dataEnd r of
              None \<Rightarrow> (False, r_undefined r)
            | Some dataEnd \<Rightarrow>
                (let r1 = r\<lparr>r_stack := RDict dataEnd (u32 (r_sigpos r + 1)) # r_stack r\<rparr>;
                     arrayLength = sub32 dataEnd (r_datapos r1);
                     r2 = (if arrayLength = 0 then r1\<lparr>r_nil := u32 (r_nil r1 + 1)\<rparr> else r1);
                     r3 = (if r_nil r2 \<noteq> 0 \<and> option = SkipIfEmpty
                           then skipArrayOrDictSignature True r2 else r2);
                     r4 = advanceState r3
                 in (r_nil r4 = 0, r4))))"

definition skipArray :: "reader \<Rightarrow> reader" where
  "skipArray r = (if r_state r \<noteq> BeginArray then r_fail ReadWrongType r else skipArrayOrDict False r)"

definition skipDict :: "reader \<Rightarrow> reader" where
  "skipDict r =
     (if r_state r \<noteq> BeginDict then r_fail ReadWrongType r
      else skipArrayOrDict True (r\<lparr>r_sigpos := u32 (r_sigpos r + 1)\<rparr>))"

definition r_leaveNil :: "reader \<Rightarrow> reader" where
  "r_leaveNil r = (if r_nil r \<noteq> 0 then r\<lparr>r_nil := r_nil r - 1\<rparr> else r)"

definition reader_endArray :: "reader \<Rightarrow> reader" where
  "reader_endArray r =
     (if r_state r \<noteq> EndArray then r_fail ReadWrongType r
      else advanceState (r_leaveNil (r\<lparr>r_sigpos := sub32 (r_sigpos r) 1,
             r_nesting := nestEndArray (r_nesting r), r_stack := tl (r_stack r)\<rparr>)))"

definition reader_endDict :: "reader \<Rightarrow> reader" where
  "reader_endDict r =
     (if r_state r \<noteq> EndDict then r_fail ReadWrongType r
      else advanceState (r_leaveNil (r\<lparr>
             r_nesting := nestEndArray (nestEndParen (r_nesting r)), r_stack := tl (r_stack r)\<rparr>)))"

definition primitiveElementType :: "reader \<Rightarrow> type_info option" where
  "primitiveElementType r = Option.bind (r_sig_at r (u32 (r_sigpos r + 1))) typeInfo"

definition readPrimitiveArray :: "reader \<Rightarrow> (io_state \<times> byte list) \<times> reader" where
  "readPrimitiveArray r =
     (if r_state r \<noteq> BeginArray then ((InvalidData, []), r)
      else (case (primitiveElementType r, u_dataEnd r) of
              (Some elementType, Some dataEnd) \<Rightarrow>
                (if \<not> ti_isPrimitive elementType \<or> ti_state elementType = Boolean
                    \<or> ti_state elementType = UnixFd then ((InvalidData, []), r)
                 else if r_swapped r \<and> ti_state elementType \<noteq> Byte then ((InvalidData, []), r)
                 else (let size = sub32 dataEnd (r_datapos r) in
                       if \<not> isAligned size (ti_alignment elementType) then ((InvalidData, []), r)
                       else (case r_bytes r size of
                               None \<Rightarrow> ((InvalidData, []), r_undefined r)
                             | Some chunk \<Rightarrow>
                                 ((ti_state elementType, chunk),
                                  advanceState (r\<lparr>r_sigpos := u32 (r_sigpos r + 1), r_datapos := dataEnd,
                                     r_state := EndArray, r_nesting := nestEndArray (r_nesting r)\<rparr>)))))
            | _ \<Rightarrow> ((InvalidData, []), r_undefined r)))"

definition peekPrimitiveArray :: "empty_array_option \<Rightarrow> reader \<Rightarrow> io_state option" where
  "peekPrimitiveArray option r =
     (if r_state r \<noteq> BeginArray then Some InvalidData
      else (case u_dataEnd r of
              None \<Rightarrow> None
            | Some dataEnd \<Rightarrow>
                (if option = SkipIfEmpty \<and> sub32 dataEnd (r_datapos r) = 0 then Some BeginArray
                 else (case primitiveElementType r of
                         None \<Rightarrow> None
                       | Some elementType \<Rightarrow>
                           (if \<not> ti_isPrimitive elementType \<or> ti_state elementType = Boolean
                               \<or> ti_state elementType = UnixFd then Some BeginArray
                            else if r_swapped r \<and> ti_state elementType \<noteq> Byte then Some BeginArray
                            else Some (ti_state elementType))))))"

subsection \<open>Structs and variants\<close>

definition reader_beginStruct :: "reader \<Rightarrow> reader" where
  "reader_beginStruct r =
     (if r_state r \<noteq> BeginStruct then r_fail ReadWrongType r
      else advanceState (r\<lparr>r_stack := RStruct # r_stack r\<rparr>))"

definition reader_endStruct :: "reader \<Rightarrow> reader" where
  "reader_endStruct r =
     (if r_state r \<noteq> EndStruct then r_fail ReadWrongType r
      else advanceState (r\<lparr>r_nesting := nestEndParen (r_nesting r), r_stack := tl (r_stack r)\<rparr>))"

definition reader_beginVariant :: "reader \<Rightarrow> reader" where
  "reader_beginVariant r =
     (if r_state r \<noteq> BeginVariant then r_fail ReadWrongType r
      else (case r_u r of
              UString p n \<Rightarrow>
                advanceState (r\<lparr>r_stack := RVariant (r_signature r) (r_siglen r) (r_sigpos r) # r_stack r,
                                r_signature := p, r_siglen := n, r_sigpos := 2 ^ 32 - 1\<rparr>)
            | _ \<Rightarrow> r_undefined r))"

definition reader_endVariant :: "reader \<Rightarrow> reader" where
  "reader_endVariant r =
     (if r_state r \<noteq> EndVariant then r_fail ReadWrongType r
      else (case r_stack r of
              RVariant p n pos # rest \<Rightarrow>
                advanceState (r\<lparr>r_nesting := nestEndVariant (r_nesting r), r_signature := p,
                                r_siglen := n, r_sigpos := pos, r_stack := rest\<rparr>)
            | _ \<Rightarrow> r_undefined (r\<lparr>r_nesting := nestEndVariant (r_nesting r)\<rparr>)))"

subsection \<open>Skipping\<close>

text \<open>
  One iteration of the loop of \<^verbatim>\<open>skipCurrentElement\<close>: the new state, nesting level and \<open>isDone\<close>.
\<close>

definition skipStep :: "reader \<Rightarrow> int \<Rightarrow> reader \<times> int \<times> bool" where
  "skipStep r nestingLevel =
     (let (r1, level, isDone) =
        (case r_state r of
           Finished \<Rightarrow> (r, nestingLevel, True)
         | BeginStruct \<Rightarrow> (reader_beginStruct r, nestingLevel + 1, False)
         | EndStruct \<Rightarrow> (reader_endStruct r, nestingLevel - 1, False)
         | BeginVariant \<Rightarrow> (reader_beginVariant r, nestingLevel + 1, False)
         | EndVariant \<Rightarrow> (reader_endVariant r, nestingLevel - 1, False)
         | BeginArray \<Rightarrow> (skipArray r, nestingLevel, False)
         | EndArray \<Rightarrow> (reader_endArray r, nestingLevel, False)
         | BeginDict \<Rightarrow> (skipDict r, nestingLevel, False)
         | EndDict \<Rightarrow> (reader_endDict r, nestingLevel, False)
         | Boolean \<Rightarrow> (snd (reader_readBoolean r), nestingLevel, False)
         | Byte \<Rightarrow> (snd (reader_readByte r), nestingLevel, False)
         | Int16 \<Rightarrow> (snd (reader_readInt16 r), nestingLevel, False)
         | Uint16 \<Rightarrow> (snd (reader_readUint16 r), nestingLevel, False)
         | Int32 \<Rightarrow> (snd (reader_readInt32 r), nestingLevel, False)
         | Uint32 \<Rightarrow> (snd (reader_readUint32 r), nestingLevel, False)
         | Int64 \<Rightarrow> (snd (reader_readInt64 r), nestingLevel, False)
         | Uint64 \<Rightarrow> (snd (reader_readUint64 r), nestingLevel, False)
         | Double \<Rightarrow> (snd (reader_readDouble r), nestingLevel, False)
         | String \<Rightarrow> (snd (reader_readString r), nestingLevel, False)
         | ObjectPath \<Rightarrow> (snd (reader_readObjectPath r), nestingLevel, False)
         | Signature \<Rightarrow> (snd (reader_readSignature r), nestingLevel, False)
         | UnixFd \<Rightarrow> (snd (reader_readUnixFd r), nestingLevel, False)
         | InvalidData \<Rightarrow> (r, nestingLevel, True)
         | _ \<Rightarrow> (r_fail StateNotSkippable r, nestingLevel, True))
      in (r1, level, isDone \<or> level = 0))"

partial_function (option) skipLoop :: "reader \<Rightarrow> int \<Rightarrow> reader option" where
  "skipLoop r nestingLevel =
     (case skipStep r nestingLevel of
        (r', level, isDone) \<Rightarrow> if isDone then Some r' else skipLoop r' level)"

declare skipLoop.simps [code]

definition skipCurrentElement :: "reader \<Rightarrow> reader option" where
  "skipCurrentElement r = skipLoop r 0"

definition skipStruct :: "reader \<Rightarrow> reader option" where
  "skipStruct r =
     (if r_state r \<noteq> BeginStruct then Some (r_fail ReadWrongType r) else skipCurrentElement r)"

definition skipVariant :: "reader \<Rightarrow> reader option" where
  "skipVariant r =
     (if r_state r \<noteq> BeginVariant then Some (r_fail ReadWrongType r) else skipCurrentElement r)"

subsection \<open>The client's calls\<close>

text \<open>
  A call of the public interface that changes the reader, as a step.  A skipping call is one if it returns.  Copies of a
  reader are the same value; assigning another reader makes the object that other reader, and is no step of this one.
\<close>

inductive reader_call :: "reader \<Rightarrow> reader \<Rightarrow> bool" where
  call_byte: "reader_call r (snd (reader_readByte r))"
| call_boolean: "reader_call r (snd (reader_readBoolean r))"
| call_int16: "reader_call r (snd (reader_readInt16 r))"
| call_uint16: "reader_call r (snd (reader_readUint16 r))"
| call_int32: "reader_call r (snd (reader_readInt32 r))"
| call_uint32: "reader_call r (snd (reader_readUint32 r))"
| call_int64: "reader_call r (snd (reader_readInt64 r))"
| call_uint64: "reader_call r (snd (reader_readUint64 r))"
| call_double: "reader_call r (snd (reader_readDouble r))"
| call_string: "reader_call r (snd (reader_readString r))"
| call_objectPath: "reader_call r (snd (reader_readObjectPath r))"
| call_signature: "reader_call r (snd (reader_readSignature r))"
| call_unixFd: "reader_call r (snd (reader_readUnixFd r))"
| call_beginArray: "reader_call r (snd (reader_beginArray option r))"
| call_skipArray: "reader_call r (skipArray r)"
| call_endArray: "reader_call r (reader_endArray r)"
| call_primitiveArray: "reader_call r (snd (readPrimitiveArray r))"
| call_beginDict: "reader_call r (snd (reader_beginDict option r))"
| call_skipDict: "reader_call r (skipDict r)"
| call_endDict: "reader_call r (reader_endDict r)"
| call_beginStruct: "reader_call r (reader_beginStruct r)"
| call_endStruct: "reader_call r (reader_endStruct r)"
| call_beginVariant: "reader_call r (reader_beginVariant r)"
| call_endVariant: "reader_call r (reader_endVariant r)"
| call_skipStruct: "skipStruct r = Some r' \<Longrightarrow> reader_call r r'"
| call_skipVariant: "skipVariant r = Some r' \<Longrightarrow> reader_call r r'"
| call_skipCurrentElement: "skipCurrentElement r = Some r' \<Longrightarrow> reader_call r r'"
| call_replaceData: "reader_call r (replaceData data r)"

lemma advanceState_invalid: "r_state r = InvalidData \<Longrightarrow> advanceState r = r"
  by (simp add: advanceState_def)

lemma r_fail_state [simp]:
  "r_state (r_fail e r) = InvalidData" "r_error (r_fail e r) = e" "r_fault (r_fail e r) = r_fault r"
  by (simp_all add: r_fail_def)

lemma r_undefined_state [simp]:
  "r_state (r_undefined r) = InvalidData" "r_fault (r_undefined r)"
  by (simp_all add: r_undefined_def)

lemmas reader_op_defs = reader_read_defs reader_beginArray_def skipArray_def reader_endArray_def
  readPrimitiveArray_def reader_beginDict_def skipDict_def reader_endDict_def reader_beginStruct_def
  reader_endStruct_def reader_beginVariant_def reader_endVariant_def

lemma skip_invalid: "r_state r = InvalidData \<Longrightarrow> skipCurrentElement r = Some r"
  by (simp add: skipCurrentElement_def skipLoop.simps [of r] skipStep_def)

lemma invalid_step: "reader_call r r' \<Longrightarrow> r_state r = InvalidData \<Longrightarrow> r_state r' = InvalidData"
  by (cases rule: reader_call.cases)
    (auto simp: reader_op_defs skipStruct_def skipVariant_def skip_invalid advanceState_invalid replaceData_def Let_def
      split: prod.split)

text \<open>C26: Once a reader has met invalid data it stays in that state through every sequence of calls of the public
  interface: reading, entering, leaving and skipping aggregates, skipping elements, and replacing the data.  A skipping
  call returns at once in that state.  (Assigning another reader to the object is not a call on this one.)\<close>

theorem reader_invalid_is_final:
  assumes "reader_call\<^sup>*\<^sup>* r r'" and "r_state r = InvalidData"
  shows "r_state r' = InvalidData \<and> skipCurrentElement r' = Some r'"
proof -
  have "r_state r' = InvalidData"
    using assms by (induction rule: rtranclp_induct) (simp_all add: invalid_step)
  then show ?thesis by (simp add: skip_invalid)
qed

theorem reader_invalid_is_final_witness:
  "r_state (the (skipStruct (reader_endArray (snd (reader_readByte (r_fail InvalidSignature (newReader None))))))) = InvalidData"
proof -
  let ?r = "r_fail InvalidSignature (newReader None)"
  let ?r1 = "reader_endArray (snd (reader_readByte ?r))"
  have steps: "reader_call\<^sup>*\<^sup>* ?r ?r1" by (auto intro: rtranclp.intros reader_call.intros)
  have "r_state ?r1 = InvalidData" using reader_invalid_is_final [OF steps] by simp
  then have "skipStruct ?r1 = Some (r_fail ReadWrongType ?r1)" by (simp add: skipStruct_def)
  then have "reader_call ?r1 (the (skipStruct ?r1))" by (intro call_skipStruct) simp
  with steps have "reader_call\<^sup>*\<^sup>* ?r (the (skipStruct ?r1))" by (rule rtranclp.rtrancl_into_rtrancl)
  from reader_invalid_is_final [OF this] show ?thesis by simp
qed

end
