(* ===== verification/Message_Model.thy ===== *)
theory Message_Model
  imports Var_Headers Writer_Ops Reader_Ops
begin

text \<open>
  \<^verbatim>\<open>Message\<close> and \<^verbatim>\<open>MessagePrivate\<close> (\<^verbatim>\<open>serialization/message.cpp\<close>, \<^verbatim>\<open>message_p.h\<close>): the data of a
  message, its accessors, and the buffer.

  \<open>m_buffer\<close> is the \<^verbatim>\<open>chunk\<close> by its contents (the null chunk is the empty list); \<open>m_junk i\<close> is what
  the allocator leaves at position \<open>i\<close>.  The listener fields record whether the message is
  registered with its transport, \<open>m_notifications\<close> counts the calls of the completion listener, and
  \<open>m_closed\<close> lists the file descriptors closed.  \<open>m_fault\<close> is set when an execution accesses memory
  outside of the buffer, or forms a view that is not backed by it.
\<close>

subsection \<open>State\<close>

datatype message_state = Empty | Serialized | Sending | Receiving

definition InvalidMessage :: nat where "InvalidMessage = 0"
definition MethodCallMessage :: nat where "MethodCallMessage = 1"
definition MethodReturnMessage :: nat where "MethodReturnMessage = 2"
definition ErrorMessage :: nat where "ErrorMessage = 3"
definition SignalMessage :: nat where "SignalMessage = 4"

lemmas message_type_defs = InvalidMessage_def MethodCallMessage_def MethodReturnMessage_def
  ErrorMessage_def SignalMessage_def

definition NoReplyExpectedFlag :: byte where "NoReplyExpectedFlag = 1"
definition NoAutoStartServiceFlag :: byte where "NoAutoStartServiceFlag = 2"
definition NoAllowInteractiveAuthorizationFlag :: byte where "NoAllowInteractiveAuthorizationFlag = 4"

lemmas message_flag_defs =
  NoReplyExpectedFlag_def NoAutoStartServiceFlag_def NoAllowInteractiveAuthorizationFlag_def

record message =
  m_buffer :: "byte list"
  m_bufferPos :: nat
  m_isByteSwapped :: bool
  m_state :: message_state
  m_messageType :: nat
  m_flags :: byte
  m_protocolVersion :: byte
  m_dirty :: bool
  m_headerLength :: nat
  m_headerPadding :: nat
  m_bodyLength :: nat
  m_serial :: uint32
  m_error :: error_code
  m_mainArguments :: arguments
  m_varHeaders :: var_headers
  m_readListening :: bool
  m_writeListening :: bool
  m_notifications :: nat
  m_closed :: "int list"
  m_junk :: "nat \<Rightarrow> byte"
  m_fault :: bool

definition Message :: "(nat \<Rightarrow> byte) \<Rightarrow> message" where
  "Message junk = \<lparr>m_buffer = [], m_bufferPos = 0, m_isByteSwapped = False, m_state = Empty,
     m_messageType = InvalidMessage, m_flags = 0, m_protocolVersion = 1, m_dirty = True,
     m_headerLength = 0, m_headerPadding = 0, m_bodyLength = 0, m_serial = 0, m_error = NoError,
     m_mainArguments = empty_arguments, m_varHeaders = VarHeaderStorage, m_readListening = False,
     m_writeListening = False, m_notifications = 0, m_closed = [], m_junk = junk, m_fault = False\<rparr>"

text \<open>\<^verbatim>\<open>m_state >= FirstIoState\<close>\<close>

definition inIoState :: "message \<Rightarrow> bool" where
  "inIoState m = (m_state m = Sending \<or> m_state m = Receiving)"

subsection \<open>Headers\<close>

text \<open>The value, with the result stored through \<^verbatim>\<open>isPresent\<close>.\<close>

definition msg_stringHeader :: "variable_header \<Rightarrow> message \<Rightarrow> string \<times> bool" where
  "msg_stringHeader header m =
     (let exists = hasStringHeader (m_varHeaders m) header
      in (if exists then vh_stringHeader (m_varHeaders m) header else [], exists))"

definition msg_setStringHeader :: "variable_header \<Rightarrow> string \<Rightarrow> message \<Rightarrow> message" where
  "msg_setStringHeader header v m =
     (if header = SignatureHeader then m
      else m\<lparr>m_dirty := True, m_varHeaders := vh_setStringHeader header v (m_varHeaders m)\<rparr>)"

definition msg_intHeader :: "variable_header \<Rightarrow> message \<Rightarrow> uint32 \<times> bool" where
  "msg_intHeader header m =
     (vh_intHeader (m_varHeaders m) header, hasIntHeader (m_varHeaders m) header)"

definition msg_setIntHeader :: "variable_header \<Rightarrow> uint32 \<Rightarrow> message \<Rightarrow> message" where
  "msg_setIntHeader header v m =
     m\<lparr>m_dirty := True, m_varHeaders := vh_setIntHeader header v (m_varHeaders m)\<rparr>"

definition path :: "message \<Rightarrow> string" where
  "path m = fst (msg_stringHeader PathHeader m)"
definition setPath :: "string \<Rightarrow> message \<Rightarrow> message" where
  "setPath p m = msg_setStringHeader PathHeader p m"
definition interface :: "message \<Rightarrow> string" where
  "interface m = fst (msg_stringHeader InterfaceHeader m)"
definition setInterface :: "string \<Rightarrow> message \<Rightarrow> message" where
  "setInterface i m = msg_setStringHeader InterfaceHeader i m"
definition methodName :: "message \<Rightarrow> string" where
  "methodName m = fst (msg_stringHeader MethodHeader m)"
definition setMethod :: "string \<Rightarrow> message \<Rightarrow> message" where
  "setMethod n m = msg_setStringHeader MethodHeader n m"
definition errorName :: "message \<Rightarrow> string" where
  "errorName m = fst (msg_stringHeader ErrorNameHeader m)"
definition setErrorName :: "string \<Rightarrow> message \<Rightarrow> message" where
  "setErrorName n m = msg_setStringHeader ErrorNameHeader n m"
definition replySerial :: "message \<Rightarrow> uint32" where
  "replySerial m = fst (msg_intHeader ReplySerialHeader m)"
definition setReplySerial :: "uint32 \<Rightarrow> message \<Rightarrow> message" where
  "setReplySerial s m = msg_setIntHeader ReplySerialHeader s m"
definition destination :: "message \<Rightarrow> string" where
  "destination m = fst (msg_stringHeader DestinationHeader m)"
definition setDestination :: "string \<Rightarrow> message \<Rightarrow> message" where
  "setDestination d m = msg_setStringHeader DestinationHeader d m"
definition sender :: "message \<Rightarrow> string" where
  "sender m = fst (msg_stringHeader SenderHeader m)"
definition setSender :: "string \<Rightarrow> message \<Rightarrow> message" where
  "setSender s m = msg_setStringHeader SenderHeader s m"
definition msg_signature :: "message \<Rightarrow> string" where
  "msg_signature m = fst (msg_stringHeader SignatureHeader m)"
definition unixFdCount :: "message \<Rightarrow> uint32" where
  "unixFdCount m = fst (msg_intHeader UnixFdsHeader m)"

lemmas message_header_defs = path_def setPath_def interface_def setInterface_def methodName_def
  setMethod_def errorName_def setErrorName_def replySerial_def setReplySerial_def destination_def
  setDestination_def sender_def setSender_def msg_signature_def unixFdCount_def
  msg_stringHeader_def msg_setStringHeader_def msg_intHeader_def msg_setIntHeader_def

subsection \<open>Type, flags and serial\<close>

definition expectsReply :: "message \<Rightarrow> bool" where
  "expectsReply m = (and (m_flags m) NoReplyExpectedFlag = 0)"

definition setExpectsReply :: "bool \<Rightarrow> message \<Rightarrow> message" where
  "setExpectsReply expects m =
     m\<lparr>m_flags := (if expects then and (m_flags m) (not NoReplyExpectedFlag)
                  else or (m_flags m) NoReplyExpectedFlag)\<rparr>"

definition autoStartService :: "message \<Rightarrow> bool" where
  "autoStartService m = (and (m_flags m) NoAutoStartServiceFlag = 0)"

definition setAutoStartService :: "bool \<Rightarrow> message \<Rightarrow> message" where
  "setAutoStartService autoStart m =
     m\<lparr>m_flags := (if autoStart then and (m_flags m) (not NoAutoStartServiceFlag)
                  else or (m_flags m) NoAutoStartServiceFlag)\<rparr>"

definition interactiveAuthorizationAllowed :: "message \<Rightarrow> bool" where
  "interactiveAuthorizationAllowed m = (and (m_flags m) NoAllowInteractiveAuthorizationFlag = 0)"

definition setInteractiveAuthorizationAllowed :: "bool \<Rightarrow> message \<Rightarrow> message" where
  "setInteractiveAuthorizationAllowed allowInteractive m =
     m\<lparr>m_flags := (if allowInteractive
                  then and (m_flags m) (not NoAllowInteractiveAuthorizationFlag)
                  else or (m_flags m) NoAllowInteractiveAuthorizationFlag)\<rparr>"

definition setType :: "nat \<Rightarrow> message \<Rightarrow> message" where
  "setType type m =
     (if m_messageType m = type then m
      else setExpectsReply (type = MethodCallMessage) (m\<lparr>m_dirty := True, m_messageType := type\<rparr>))"

text \<open>A serialized message is patched in place.\<close>

definition setSerial :: "uint32 \<Rightarrow> message \<Rightarrow> message" where
  "setSerial serial m0 =
     (let m = m0\<lparr>m_serial := serial\<rparr> in
      if m_state m = Serialized \<and> \<not> m_dirty m
      then (if 12 \<le> length (m_buffer m)
            then m\<lparr>m_buffer := overwrite 8 (writeUint32 (m_serial m)) (m_buffer m)\<rparr>
            else m\<lparr>m_fault := True\<rparr>)
      else m\<lparr>m_dirty := True\<rparr>)"

definition setArguments :: "arguments \<Rightarrow> message \<Rightarrow> message" where
  "setArguments args m =
     (let m1 = m\<lparr>m_dirty := True, m_error := a_error args\<rparr>;
          fdCount = length (a_fileDescriptors args);
          vh1 = (if fdCount \<noteq> 0 then vh_setIntHeader UnixFdsHeader (of_nat fdCount) (m_varHeaders m1)
                 else clearIntHeader UnixFdsHeader (m_varHeaders m1));
          vh2 = (if cs_length (a_signature args) \<noteq> 0
                 then vh_setStringHeader SignatureHeader (cs_chars (a_signature args)) vh1
                 else clearStringHeader SignatureHeader vh1)
      in m1\<lparr>m_varHeaders := vh2, m_mainArguments := args\<rparr>)"

subsection \<open>Messages for the common purposes\<close>

definition setCall :: "string \<Rightarrow> string \<Rightarrow> string \<Rightarrow> message \<Rightarrow> message" where
  "setCall p i n m = setMethod n (setInterface i (setPath p (setType MethodCallMessage m)))"

definition setCall_noInterface :: "string \<Rightarrow> string \<Rightarrow> message \<Rightarrow> message" where
  "setCall_noInterface p n m = setMethod n (setPath p (setType MethodCallMessage m))"

definition setReplyTo :: "message \<Rightarrow> message \<Rightarrow> message" where
  "setReplyTo call m =
     setReplySerial (m_serial call) (setDestination (sender call) (setType MethodReturnMessage m))"

definition setErrorReplyTo :: "message \<Rightarrow> string \<Rightarrow> message \<Rightarrow> message" where
  "setErrorReplyTo call name m =
     setReplySerial (m_serial call)
       (setDestination (sender call) (setErrorName name (setType ErrorMessage m)))"

definition setSignal :: "string \<Rightarrow> string \<Rightarrow> string \<Rightarrow> message \<Rightarrow> message" where
  "setSignal p i n m = setMethod n (setInterface i (setPath p (setType SignalMessage m)))"

definition createCall :: "(nat \<Rightarrow> byte) \<Rightarrow> string \<Rightarrow> string \<Rightarrow> string \<Rightarrow> message" where
  "createCall junk p i n = setCall p i n (Message junk)"
definition createCall_noInterface :: "(nat \<Rightarrow> byte) \<Rightarrow> string \<Rightarrow> string \<Rightarrow> message" where
  "createCall_noInterface junk p n = setCall_noInterface p n (Message junk)"
definition createReplyTo :: "(nat \<Rightarrow> byte) \<Rightarrow> message \<Rightarrow> message" where
  "createReplyTo junk call = setReplyTo call (Message junk)"
definition createErrorReplyTo :: "(nat \<Rightarrow> byte) \<Rightarrow> message \<Rightarrow> string \<Rightarrow> message" where
  "createErrorReplyTo junk call name = setErrorReplyTo call name (Message junk)"
definition createSignal :: "(nat \<Rightarrow> byte) \<Rightarrow> string \<Rightarrow> string \<Rightarrow> string \<Rightarrow> message" where
  "createSignal junk p i n = setSignal p i n (Message junk)"

subsection \<open>The buffer\<close>

definition nextPowerOf2 :: "uint32 \<Rightarrow> uint32" where
  "nextPowerOf2 x0 =
     (let x = x0 - 1;
          x = or x (drop_bit 1 x);
          x = or x (drop_bit 2 x);
          x = or x (drop_bit 4 x);
          x = or x (drop_bit 8 x);
          x = or x (drop_bit 16 x)
      in x + 1)"

text \<open>
  Up to 256 bytes the block comes from a cache and is not copied (a release build does not check
  that the old length is 0); above that, the old contents are kept.
\<close>

definition reserveBuffer :: "nat \<Rightarrow> message \<Rightarrow> message" where
  "reserveBuffer newLen m =
     (let oldLen = length (m_buffer m) in
      if newLen \<le> oldLen then m
      else if newLen \<le> 256 then m\<lparr>m_buffer := map (m_junk m) [0..<256]\<rparr>
      else (let n = unat (nextPowerOf2 (of_nat newLen))
            in m\<lparr>m_buffer := take n (m_buffer m) @ map (m_junk m) [oldLen..<n]\<rparr>))"

definition clearBuffer :: "message \<Rightarrow> message" where
  "clearBuffer m = (if m_buffer m \<noteq> [] then m\<lparr>m_buffer := [], m_bufferPos := 0\<rparr> else m)"

definition msg_clear :: "bool \<Rightarrow> message \<Rightarrow> message" where
  "msg_clear onlyReleaseResources m0 =
     (let m = clearBuffer m0;
          m1 = m\<lparr>m_closed := m_closed m @ a_fileDescriptors (m_mainArguments m)\<rparr>
      in if onlyReleaseResources then m1
         else m1\<lparr>m_state := Empty, m_mainArguments := empty_arguments,
                 m_varHeaders := vh_assign VarHeaderStorage (m_varHeaders m1)\<rparr>)"

definition argUnixFds :: "message \<Rightarrow> int list" where
  "argUnixFds m = a_fileDescriptors (m_mainArguments m)"

definition setArgUnixFds :: "int list \<Rightarrow> message \<Rightarrow> message" where
  "setArgUnixFds fds m =
     m\<lparr>m_mainArguments := (m_mainArguments m)\<lparr>a_fileDescriptors := fds\<rparr>\<rparr>"

text \<open>
  Copying.  \<open>dup\<close> is the system call.  \<open>None\<close>: the copy of the Arguments fails.  The new message is
  not registered with any transport.
\<close>

definition message_copy ::
  "(int \<Rightarrow> int) \<Rightarrow> (nat \<Rightarrow> byte) \<Rightarrow> message \<Rightarrow> message option" where
  "message_copy dup junk other =
     map_option
       (\<lambda>args.
          (let m = other\<lparr>m_mainArguments := args, m_buffer := [],
                        m_varHeaders := vh_copy_construct (m_varHeaders other),
                        m_readListening := False, m_writeListening := False, m_notifications := 0,
                        m_closed := [], m_junk := junk\<rparr>
           in if m_buffer other \<noteq> []
              then setArgUnixFds (map dup (argUnixFds other)) (m\<lparr>m_buffer := m_buffer other\<rparr>)
              else m))
       (initFrom junk (m_mainArguments other))"

subsection \<open>The size of the buffer\<close>

text \<open>After the steps of \<open>nextPowerOf2\<close>, a bit is set if one of the next \<open>w\<close> bits was.\<close>

definition smeared :: "nat \<Rightarrow> uint32 \<Rightarrow> uint32 \<Rightarrow> bool" where
  "smeared w y x \<longleftrightarrow> (\<forall>k. bit x k \<longleftrightarrow> (\<exists>j. k \<le> j \<and> j < k + w \<and> bit y j))"

lemma smeared_step:
  assumes "smeared w y x"
  shows "smeared (w + w) y (or x (drop_bit w x))"
proof -
  have "bit (drop_bit w x) k = bit x (w + k)" for k by (simp add: bit_drop_bit_eq)
  then have "bit (or x (drop_bit w x)) k \<longleftrightarrow>
      (\<exists>j. k \<le> j \<and> j < k + w \<and> bit y j) \<or> (\<exists>j. w + k \<le> j \<and> j < w + k + w \<and> bit y j)" for k
    using assms by (simp add: smeared_def bit_or_iff)
  moreover have "(\<exists>j. k \<le> j \<and> j < k + w \<and> bit y j) \<or> (\<exists>j. w + k \<le> j \<and> j < w + k + w \<and> bit y j)
      \<longleftrightarrow> (\<exists>j. k \<le> j \<and> j < k + (w + w) \<and> bit y j)" for k
  proof
    assume "\<exists>j. k \<le> j \<and> j < k + (w + w) \<and> bit y j"
    then obtain j where "k \<le> j" "j < k + (w + w)" "bit y j" by blast
    then show "(\<exists>j. k \<le> j \<and> j < k + w \<and> bit y j) \<or> (\<exists>j. w + k \<le> j \<and> j < w + k + w \<and> bit y j)"
      by (cases "j < k + w") (auto intro!: exI [of _ j])
  next
    assume "(\<exists>j. k \<le> j \<and> j < k + w \<and> bit y j) \<or> (\<exists>j. w + k \<le> j \<and> j < w + k + w \<and> bit y j)"
    then obtain j where "k \<le> j" "j < k + (w + w)" "bit y j"
    proof (elim disjE exE conjE)
      fix j assume "k \<le> j" "j < k + w" "bit y j"
      then show thesis by (intro that) simp_all
    next
      fix j assume "w + k \<le> j" "j < w + k + w" "bit y j"
      then show thesis by (intro that) simp_all
    qed
    then show "\<exists>j. k \<le> j \<and> j < k + (w + w) \<and> bit y j" by blast
  qed
  ultimately show ?thesis by (simp add: smeared_def)
qed

lemma smeared_mask:
  assumes "smeared 32 y x" and "bit y n" and "\<And>j. n < j \<Longrightarrow> \<not> bit y j"
  shows "x = mask (Suc n)"
proof (rule bit_word_eqI)
  fix k assume "k < LENGTH(32)"
  have "n < 32" using assms(2) bit_imp_le_length by fastforce
  with assms \<open>k < LENGTH(32)\<close> show "bit x k \<longleftrightarrow> bit (mask (Suc n) :: uint32) k"
    using not_le_imp_less [of k n] order.strict_trans2 [of n k]
    by (fastforce simp: smeared_def bit_mask_iff less_Suc_eq_le)
qed

lemma highest_bit:
  assumes "y \<noteq> (0 :: uint32)"
  obtains n where "bit y n" "n < 32" "\<And>j. n < j \<Longrightarrow> \<not> bit y j" "2 ^ n \<le> unat y" "unat y < 2 ^ Suc n"
proof -
  have ex: "\<exists>n. bit y n" using assms by (auto intro: bit_eqI)
  have fin: "finite {n. bit y n}"
    by (rule finite_subset [of _ "{..<32}"]) (use bit_imp_le_length in fastforce)+
  define n where "n = Max {n. bit y n}"
  have n: "bit y n" "\<And>j. n < j \<Longrightarrow> \<not> bit y j"
    using ex fin Max_in [of "{n. bit y n}"] Max_ge [of "{n. bit y n}"] by (auto simp: n_def)
  have n32: "n < 32" using n(1) bit_imp_le_length by fastforce
  have bn: "bit (unat y) k = bit y k" for k
    by (simp add: bit_unsigned_iff)
  have "unat y = take_bit (Suc n) (unat y)"
    by (rule bit_eqI) (auto simp: bit_take_bit_iff bn, metis n(2) not_less_eq)
  then have lt: "unat y < 2 ^ Suc n" by (metis take_bit_nat_less_exp)
  have "unat y div 2 ^ n \<noteq> 0"
  proof
    assume "unat y div 2 ^ n = 0"
    then have "\<not> bit (unat y) n" by (simp add: bit_iff_odd)
    with bn n(1) show False by simp
  qed
  then have "2 ^ n \<le> unat y" by (simp add: div_eq_0_iff not_less)
  with n n32 lt that show ?thesis by blast
qed

lemma nextPowerOf2_power:
  assumes "1 < unat x" and "unat x \<le> 2 ^ 31"
  obtains n where "unat (nextPowerOf2 x) = 2 ^ n" "unat x \<le> 2 ^ n" "2 ^ n < 2 * unat x"
proof -
  define y where "y = x - 1"
  have uy: "unat y = unat x - 1" using assms(1) by (simp add: y_def unat_sub_if')
  with assms(1) have "y \<noteq> 0" by auto
  then obtain n where n: "bit y n" "n < 32" "\<And>j. n < j \<Longrightarrow> \<not> bit y j" "2 ^ n \<le> unat y" "unat y < 2 ^ Suc n"
    by (rule highest_bit) blast
  have "smeared 1 y y" by (auto simp: smeared_def le_less_Suc_eq)
  define x1 where "x1 = or y (drop_bit 1 y)"
  define x2 where "x2 = or x1 (drop_bit 2 x1)"
  define x4 where "x4 = or x2 (drop_bit 4 x2)"
  define x8 where "x8 = or x4 (drop_bit 8 x4)"
  define x16 where "x16 = or x8 (drop_bit 16 x8)"
  have "smeared 2 y x1" using smeared_step [OF \<open>smeared 1 y y\<close>] by (simp add: x1_def numeral_2_eq_2)
  then have "smeared 4 y x2" using smeared_step [of 2 y x1] by (simp add: x2_def)
  then have "smeared 8 y x4" using smeared_step [of 4 y x2] by (simp add: x4_def)
  then have "smeared 16 y x8" using smeared_step [of 8 y x4] by (simp add: x8_def)
  then have "smeared 32 y x16" using smeared_step [of 16 y x8] by (simp add: x16_def)
  then have "x16 = mask (Suc n)" using n(1,3) by (rule smeared_mask)
  moreover have "nextPowerOf2 x = x16 + 1"
    unfolding nextPowerOf2_def Let_def y_def x1_def x2_def x4_def x8_def x16_def ..
  ultimately have "nextPowerOf2 x = mask (Suc n) + 1" by simp
  moreover have "n < 31"
  proof -
    have "(2::nat) ^ n < 2 ^ 31" using n(4) uy assms by linarith
    then show ?thesis by (rule power_less_imp_less_exp [rotated]) simp
  qed
  moreover have "unat ((2 :: uint32) ^ Suc n) = 2 ^ Suc n"
  proof -
    have "(2 :: nat) ^ Suc n < 2 ^ 32"
      using \<open>n < 31\<close> by (intro power_strict_increasing) simp_all
    then show ?thesis using unat_of_nat_u32 [of "2 ^ Suc n"] by simp
  qed
  ultimately have "unat (nextPowerOf2 x) = 2 ^ Suc n"
    by (simp add: mask_eq_exp_minus_1)
  moreover have "unat x \<le> 2 ^ Suc n" "2 ^ Suc n < 2 * unat x" using n(4,5) uy assms(1) by simp_all
  ultimately show ?thesis using that by blast
qed


lemma reserveBuffer_sizes:
  assumes "n \<le> 2 ^ 31"
  shows "n \<le> length (m_buffer (reserveBuffer n m)) \<and>
    length (m_buffer (reserveBuffer n m)) \<le> max (length (m_buffer m)) (max 256 (2 * n)) \<and>
    (m_buffer m = [] \<or> 256 < n \<longrightarrow>
      take (length (m_buffer m)) (m_buffer (reserveBuffer n m)) = m_buffer m)"
proof -
  let ?p = "unat (nextPowerOf2 (of_nat n))"
  have p: "n \<le> ?p \<and> ?p \<le> 2 * n" if "256 < n"
  proof -
    have "unat (of_nat n :: uint32) = n" using assms by (simp add: unat_of_nat_u32)
    with that assms nextPowerOf2_power [of "of_nat n"] show ?thesis
      by (metis less_imp_le less_numeral_extra(4) less_trans one_less_numeral_iff semiring_norm(76))
  qed
  show ?thesis using p by (auto simp: reserveBuffer_def Let_def)
qed

text \<open>C35: After reserving n bytes the buffer has at least n bytes, it is at most twice as large as asked
  for above the minimum of 256, and everything that it held before is kept, if it was empty or the
  request is for more than 256 bytes.\<close>

theorem reserveBuffer_capacity:
  assumes "n \<le> 2 ^ 31"
  shows "n \<le> length (m_buffer (reserveBuffer n m)) \<and>
    length (m_buffer (reserveBuffer n m)) \<le> max (length (m_buffer m)) (max 256 (2 * n)) \<and>
    (m_buffer m = [] \<or> 256 < n \<longrightarrow>
      take (length (m_buffer m)) (m_buffer (reserveBuffer n m)) = m_buffer m)"
  using assms by (rule reserveBuffer_sizes)

theorem reserveBuffer_capacity_witness:
  "300 \<le> length (m_buffer (reserveBuffer 300 (Message (\<lambda>_. 0))))"
  using reserveBuffer_capacity [of 300] by simp

end
