(* ===== verification/Message_Serial.thy ===== *)
theory Message_Serial
  imports Message_Model
begin

text \<open>
  Serialization and deserialization of messages (\<^verbatim>\<open>serialization/message.cpp\<close>): the fixed headers,
  the variable headers (written and read as Arguments of signature \<^verbatim>\<open>a(yv)\<close>), the whole message,
  and the handles of the \<^verbatim>\<open>Message\<close> class.
\<close>

subsection \<open>Required headers\<close>

definition s_properFixedHeaderLength :: nat where "s_properFixedHeaderLength = 12"
definition s_extendedFixedHeaderLength :: nat where "s_extendedFixedHeaderLength = 16"

lemmas fixed_length_defs = s_properFixedHeaderLength_def s_extendedFixedHeaderLength_def

definition checkRequiredHeaders :: "message \<Rightarrow> error_code" where
  "checkRequiredHeaders m =
     (let vh = m_varHeaders m;
          callHeaders =
            (if \<not> hasStringHeader vh PathHeader then MessagePath
             else if \<not> hasStringHeader vh MethodHeader then MessageMethod else NoError);
          replyHeaders = (if \<not> hasIntHeader vh ReplySerialHeader then MessageReplySerial else NoError)
      in if m_serial m = 0 then MessageSerial
         else if m_protocolVersion m \<noteq> 1 then MessageProtocolVersion
         else if m_messageType m = SignalMessage
         then (if \<not> hasStringHeader vh InterfaceHeader then MessageInterface else callHeaders)
         else if m_messageType m = MethodCallMessage then callHeaders
         else if m_messageType m = ErrorMessage
         then (if \<not> hasStringHeader vh ErrorNameHeader then MessageErrorName else replyHeaders)
         else if m_messageType m = MethodReturnMessage then replyHeaders
         else MessageType)"

definition requiredHeadersPresent :: "message \<Rightarrow> bool \<times> message" where
  "requiredHeadersPresent m =
     (let m1 = m\<lparr>m_error := checkRequiredHeaders m\<rparr> in (\<not> isError (m_error m1), m1))"

subsection \<open>Fixed headers\<close>

definition s_thisMachineEndianness :: byte where
  "s_thisMachineEndianness = byte_of (CHR ''l'')"

definition serializeFixedHeaders :: "message \<Rightarrow> message" where
  "serializeFixedHeaders m =
     (if length (m_buffer m) < 12 then m\<lparr>m_fault := True\<rparr>
      else m\<lparr>m_buffer := overwrite 0
               ([s_thisMachineEndianness, of_nat (m_messageType m), m_flags m, m_protocolVersion m]
                 @ writeUint32 (of_nat (m_bodyLength m)) @ writeUint32 (m_serial m)) (m_buffer m)\<rparr>)"

definition deserializeFixedHeaders :: "message \<Rightarrow> bool \<times> message" where
  "deserializeFixedHeaders m =
     (if length (m_buffer m) < 16 then (False, m\<lparr>m_fault := True\<rparr>)
      else
        (let buf = m_buffer m; endianness = buf ! 0 in
         if endianness \<noteq> byte_of (CHR ''l'') \<and> endianness \<noteq> byte_of (CHR ''B'') then (False, m)
         else
           (let swap = (endianness \<noteq> s_thisMachineEndianness);
                bodyLength = unat (readUint32 (slice_at 4 4 buf) swap);
                serial = readUint32 (slice_at 8 4 buf) swap;
                varArrayLength = unat (readUint32 (slice_at 12 4 buf) swap);
                unpaddedHeaderLength = u32 (s_extendedFixedHeaderLength + varArrayLength);
                headerLength = align unpaddedHeaderLength 8
            in (u32 (headerLength + bodyLength) \<le> MaxMessageLength,
                m\<lparr>m_isByteSwapped := swap, m_messageType := unat (buf ! 1), m_flags := buf ! 2,
                  m_protocolVersion := buf ! 3, m_bodyLength := bodyLength, m_serial := serial,
                  m_headerLength := headerLength,
                  m_headerPadding := sub32 headerLength unpaddedHeaderLength\<rparr>))))"

subsection \<open>Writing the variable headers\<close>

definition doVarHeaderPrologue :: "variable_header \<Rightarrow> writer \<Rightarrow> writer" where
  "doVarHeaderPrologue field w = writeByte (of_nat (header_code field)) (w_beginStruct w)"

definition stringHeaderErrors :: "variable_header \<Rightarrow> error_code" where
  "stringHeaderErrors field =
     (case field of
        PathHeader \<Rightarrow> MessagePath | InterfaceHeader \<Rightarrow> MessageInterface | MethodHeader \<Rightarrow> MessageMethod
      | ErrorNameHeader \<Rightarrow> MessageErrorName | DestinationHeader \<Rightarrow> MessageDestination
      | SenderHeader \<Rightarrow> MessageSender | _ \<Rightarrow> MessageSignature)"

definition writeStringVarHeader :: "variable_header \<Rightarrow> string \<Rightarrow> writer \<Rightarrow> writer" where
  "writeStringVarHeader field str w =
     (let w1 = doVarHeaderPrologue field w;
          w2 = (if field = PathHeader
                then writeObjectPath (cstring_of str) (writeVariantForMessageHeader (CHR ''o'') w1)
                else if field = SignatureHeader
                then writeSignature (cstring_of str) (writeVariantForMessageHeader (CHR ''g'') w1)
                else writeString (cstring_of str) (writeVariantForMessageHeader (CHR ''s'') w1))
      in w_endStruct (fixupAfterWriteVariantForMessageHeader w2))"

definition writeIntVarHeader :: "variable_header \<Rightarrow> uint32 \<Rightarrow> writer \<Rightarrow> writer" where
  "writeIntVarHeader field v w =
     w_endStruct (fixupAfterWriteVariantForMessageHeader
       (w_writeUint32 v (writeVariantForMessageHeader (CHR ''u'') (doVarHeaderPrologue field w))))"

text \<open>The loop over the string headers; \<open>Inl\<close>: the error of the first header refused.\<close>

fun writeStringVarHeaders ::
  "var_headers \<Rightarrow> variable_header list \<Rightarrow> writer \<Rightarrow> error_code + writer" where
  "writeStringVarHeaders vh [] w = Inr w"
| "writeStringVarHeaders vh (field # rest) w =
     (if hasHeader vh field
      then (let w1 = writeStringVarHeader field (the_string (vh_strings vh ! indexOfHeader field)) w
            in if isError (writer_error w1) then Inl (stringHeaderErrors field)
               else writeStringVarHeaders vh rest w1)
      else writeStringVarHeaders vh rest w)"

fun writeIntVarHeaders :: "var_headers \<Rightarrow> variable_header list \<Rightarrow> writer \<Rightarrow> writer" where
  "writeIntVarHeaders vh [] w = w"
| "writeIntVarHeaders vh (field # rest) w =
     writeIntVarHeaders vh rest
       (if hasHeader vh field then writeIntVarHeader field (vh_ints vh ! indexOfHeader field) w else w)"

definition serializeVariableHeaders :: "message \<Rightarrow> arguments \<times> message" where
  "serializeVariableHeaders m =
     (case writeStringVarHeaders (m_varHeaders m) s_stringHeaderAtIndex
             (w_beginArray NonEmptyArray (newWriter (m_junk m))) of
        Inl e \<Rightarrow> (empty_arguments, m\<lparr>m_error := e\<rparr>)
      | Inr w \<Rightarrow>
          (let w1 = w_endArray (writeIntVarHeaders (m_varHeaders m) s_intHeaderAtIndex w)
           in (fst (w_finish w1), m)))"

subsection \<open>serialize\<close>

text \<open>
  The part of \<^verbatim>\<open>serialize\<close> that lays out the message, once the header Arguments are there: the
  copies into the buffer, and what surrounds them.  The first eight bytes of the header data are the
  array length and padding that is cut out.
\<close>

definition placeParts :: "byte list \<Rightarrow> nat \<Rightarrow> nat \<Rightarrow> byte list \<Rightarrow> byte list \<Rightarrow> byte list" where
  "placeParts headerData unalignedHeaderLength headerLength body buf =
     (let buf1 = overwrite 12 (take 4 headerData) buf;
          buf2 = overwrite 16 (drop 8 headerData) buf1;
          buf3 = overwrite unalignedHeaderLength (replicate (headerLength - unalignedHeaderLength) 0) buf2
      in overwrite headerLength body buf3)"

definition layoutBuffer :: "byte list \<Rightarrow> nat \<Rightarrow> message \<Rightarrow> bool \<times> message" where
  "layoutBuffer headerData unalignedHeaderLength m =
     (if length headerData < 8 \<or> length (m_buffer m) < 16 + (length headerData - 8)
         \<or> length (m_buffer m) < m_headerLength m + m_bodyLength m
      then (False, m\<lparr>m_fault := True\<rparr>)
      else (True, m\<lparr>m_buffer := take (u32 (m_headerLength m + m_bodyLength m))
                      (placeParts headerData unalignedHeaderLength (m_headerLength m)
                         (a_data (m_mainArguments m)) (m_buffer m)),
                    m_bufferPos := 0, m_dirty := False, m_state := Serialized\<rparr>))"

definition layoutMessage :: "byte list \<Rightarrow> message \<Rightarrow> bool \<times> message" where
  "layoutMessage headerData m =
     (let unalignedHeaderLength = u32 (s_properFixedHeaderLength + length headerData - 4);
          m1 = m\<lparr>m_headerLength := align unalignedHeaderLength 8,
                 m_bodyLength := length (a_data (m_mainArguments m))\<rparr>;
          messageLength = u32 (m_headerLength m1 + m_bodyLength m1)
      in if MaxMessageLength < messageLength then (False, m1\<lparr>m_error := ArgumentsTooLong\<rparr>)
         else layoutBuffer headerData unalignedHeaderLength
                (serializeFixedHeaders (reserveBuffer messageLength m1)))"

definition serialize :: "message \<Rightarrow> bool \<times> message" where
  "serialize m0 =
     (if (m_state m0 = Serialized \<or> m_state m0 = Sending) \<and> \<not> m_dirty m0 then (True, m0)
      else if inIoState m0 then (False, m0)
      else
        (let m = clearBuffer m0 in
         if isError (m_error m) then (False, m)
         else (case requiredHeadersPresent m of
                 (present, m1) \<Rightarrow>
                   if \<not> present then (False, m1)
                   else (case serializeVariableHeaders m1 of
                           (headerArgs, m2) \<Rightarrow>
                             if a_data headerArgs = [] then (False, m2)
                             else layoutMessage (a_data headerArgs) m2))))"

definition serializeAndView :: "message \<Rightarrow> byte list \<times> message" where
  "serializeAndView m = (case serialize m of (ok, m1) \<Rightarrow> (if ok then m_buffer m1 else [], m1))"

definition save :: "message \<Rightarrow> byte list \<times> message" where
  "save m = (case serialize m of (ok, m1) \<Rightarrow> (if ok then m_buffer m1 else [], m1))"

subsection \<open>Reading the variable headers\<close>

text \<open>
  The value of one header: its type is checked, and it must not have occurred before.  \<open>None\<close>: the
  call returns false.
\<close>

definition readVarHeaderValue ::
  "variable_header \<Rightarrow> reader \<times> var_headers \<Rightarrow> (reader \<times> var_headers) option" where
  "readVarHeaderValue field s =
     (case s of (r, vh) \<Rightarrow>
        (let str = (\<lambda>(v, r1). case v of
                None \<Rightarrow> None
              | Some cs \<Rightarrow> (case setStringHeader_deser field cs vh of
                              (ok, vh1) \<Rightarrow> if ok then Some (r1, vh1) else None))
         in if isStringHeader field then
              (if field = PathHeader then
                 (if r_state r = ObjectPath then str (reader_readObjectPath r) else None)
               else if field = SignatureHeader then
                 (if r_state r = Signature then str (reader_readSignature r) else None)
               else (if r_state r = String then str (reader_readString r) else None))
            else (if r_state r = Uint32
                  then (case reader_readUint32 r of
                          (None, _) \<Rightarrow> None
                        | (Some v, r1) \<Rightarrow> (case setIntHeader_deser field v vh of
                                             (ok, vh1) \<Rightarrow> if ok then Some (r1, vh1) else None))
                  else None)))"

text \<open>
  One header.  The field code is read without looking at the state of the reader; when the reader is
  not at a byte it is in state \<^verbatim>\<open>InvalidData\<close>, so that the method returns false whatever the code is.
  A refused header leaves the storage as it was.
\<close>

definition readVarHeader :: "reader \<times> var_headers \<Rightarrow> (reader \<times> var_headers) option" where
  "readVarHeader s =
     (case s of (r, vh) \<Rightarrow>
        (case reader_readByte (reader_beginStruct r) of
           (None, _) \<Rightarrow> None
         | (Some headerField, r1) \<Rightarrow>
             (case header_of_code (unat headerField) of
                None \<Rightarrow> None
              | Some field \<Rightarrow>
                  (case readVarHeaderValue field (reader_beginVariant r1, vh) of
                     None \<Rightarrow> None
                   | Some (r2, vh1) \<Rightarrow>
                       Some (reader_endStruct (reader_endVariant r2), vh1)))))"

text \<open>
  The loop.  The outer option is \<open>None\<close> if it does not end; the flag is false if the method returned
  false from inside the loop, with the headers stored until then.
\<close>

partial_function (option) readVarHeaders ::
  "reader \<Rightarrow> var_headers \<Rightarrow> (bool \<times> reader \<times> var_headers) option" where
  "readVarHeaders r vh =
     (if r_state r = BeginStruct
      then (case readVarHeader (r, vh) of
              None \<Rightarrow> Some (False, r, vh)
            | Some (r1, vh1) \<Rightarrow> readVarHeaders r1 vh1)
      else Some (True, r, vh))"

declare readVarHeaders.simps [code]

text \<open>
  The view on the header data with the fake first integer.  When the header length has wrapped
  around to less than it must be, the view is not backed by the buffer (\<open>m_fault\<close>).
\<close>

definition headerView :: "message \<Rightarrow> byte list option" where
  "headerView m =
     (let n = u32 (sub32 (sub32 (m_headerLength m) (m_headerPadding m)) s_properFixedHeaderLength + 4)
      in if 8 + n \<le> length (m_buffer m) then Some (slice_at 8 n (m_buffer m)) else None)"

definition deserializeVariableHeaders :: "message \<Rightarrow> (bool \<times> message) option" where
  "deserializeVariableHeaders m =
     (case headerView m of
        None \<Rightarrow> Some (False, m\<lparr>m_fault := True\<rparr>)
      | Some headerData \<Rightarrow>
          (let argList = new_arguments None (cstring_of ''ia(yv)'') headerData (m_isByteSwapped m);
               r = Reader argList
           in if r_state r \<noteq> Int32 then Some (False, m)
              else
                (let r1 = snd (reader_readInt32 r) in
                 if r_state r1 \<noteq> BeginArray then Some (False, m)
                 else
                   (case readVarHeaders (snd (reader_beginArray SkipIfEmpty r1)) (m_varHeaders m) of
                      None \<Rightarrow> None
                    | Some (ok, r2, vh) \<Rightarrow>
                        (let m1 = m\<lparr>m_varHeaders := vh\<rparr> in
                         if \<not> ok then Some (False, m1)
                         else if \<not> list_all (\<lambda>i. m_buffer m1 ! i = 0)
                                   [sub32 (m_headerLength m1) (m_headerPadding m1)..<m_headerLength m1]
                         then Some (False, m1)
                         else Some (reader_isFinished (reader_endArray r2), m1))))))"

subsection \<open>Loading\<close>

definition deserializeAndTake :: "byte list \<Rightarrow> message \<Rightarrow> message option" where
  "deserializeAndTake memOwnership m0 =
     (if inIoState m0 then Some m0
      else
        (let m = (clearBuffer (m0\<lparr>m_headerLength := 0, m_bodyLength := 0\<rparr>))
                   \<lparr>m_buffer := memOwnership, m_bufferPos := length memOwnership\<rparr>;
             refuse = (\<lambda>m. msg_clear False
                        (if isError (m_error m) then m else m\<lparr>m_error := MalformedReply\<rparr>))
         in if length (m_buffer m) < s_extendedFixedHeaderLength then Some (refuse m)
            else (case deserializeFixedHeaders m of (ok, m1) \<Rightarrow>
              if \<not> ok \<or> length (m_buffer m1) < m_headerLength m1 then Some (refuse m1)
              else (case deserializeVariableHeaders m1 of
                      None \<Rightarrow> None
                    | Some (ok2, m2) \<Rightarrow>
                        if \<not> ok2 \<or> length (m_buffer m2) \<noteq> u32 (m_headerLength m2 + m_bodyLength m2)
                        then Some (refuse m2)
                        else
                          (let bodyData = slice_at (m_headerLength m2) (m_bodyLength m2) (m_buffer m2)
                           in Some (m2\<lparr>m_mainArguments := new_arguments None
                                          (stringHeaderRaw (m_varHeaders m2) SignatureHeader)
                                          bodyData (m_isByteSwapped m2),
                                       m_state := Serialized\<rparr>))))))"

definition load :: "byte list \<Rightarrow> message \<Rightarrow> message option" where
  "load data m = (if inIoState m \<or> data = [] then Some m else deserializeAndTake data m)"

subsection \<open>Handles\<close>

type_synonym message_handle = "message option"

text \<open>
  A moved-from \<^verbatim>\<open>Message\<close> has a null private pointer.  The results are the new and the old handle;
  the outer \<open>None\<close> is a dereference of that null pointer.
\<close>

definition message_move_construct ::
  "message_handle \<Rightarrow> (message_handle \<times> message_handle) option" where
  "message_move_construct other = (case other of None \<Rightarrow> None | Some d \<Rightarrow> Some (Some d, None))"

definition message_move_assign ::
  "message_handle \<Rightarrow> message_handle \<Rightarrow> message_handle \<times> message_handle" where
  "message_move_assign this other = (other, None)"

definition message_copy_construct ::
  "(int \<Rightarrow> int) \<Rightarrow> (nat \<Rightarrow> byte) \<Rightarrow> message_handle \<Rightarrow> message_handle option" where
  "message_copy_construct dup junk other =
     (case other of None \<Rightarrow> Some None | Some d \<Rightarrow> map_option Some (message_copy dup junk d))"

definition message_copy_assign ::
  "(int \<Rightarrow> int) \<Rightarrow> (nat \<Rightarrow> byte) \<Rightarrow> message_handle \<Rightarrow> message_handle \<Rightarrow> message_handle option" where
  "message_copy_assign dup junk this other = message_copy_construct dup junk other"

end
