(* ===== verification/Message_IO.thy ===== *)
theory Message_IO
  imports Message_Serial
begin

text \<open>
  Sending and receiving of messages (\<^verbatim>\<open>serialization/message.cpp\<close>).  The transport is a parameter:
  the list of its answers, one for each call of \<^verbatim>\<open>read\<close> or \<^verbatim>\<open>write\<close>.  A transport keeps the
  contract of \<^verbatim>\<open>itransport.h\<close> to return no more than \<^verbatim>\<open>maxSize\<close> bytes; more is a fault.
\<close>

datatype io_status = IO_OK | RemoteClosed | LocalClosed | PayloadError | InternalError

record read_answer =
  ra_status :: io_status
  ra_bytes :: "byte list"
  ra_fds :: "int list"
  ra_isOpen :: bool           \<comment> \<open>\<^verbatim>\<open>isOpen()\<close> after the call\<close>

record write_answer =
  wa_status :: io_status
  wa_length :: nat

definition notifyCompletionListener :: "message \<Rightarrow> message" where
  "notifyCompletionListener m = m\<lparr>m_notifications := m_notifications m + 1\<rparr>"

subsection \<open>Receiving\<close>

definition receive :: "message \<Rightarrow> message" where
  "receive m =
     (if inIoState m then m
      else m\<lparr>m_readListening := True, m_state := Receiving, m_headerLength := 0, m_bodyLength := 0\<rparr>)"

definition isReceiving :: "message \<Rightarrow> bool" where
  "isReceiving m = (m_state m = Receiving)"

text \<open>How much the next read may return.\<close>

definition readMax :: "message \<Rightarrow> nat" where
  "readMax m =
     (if m_headerLength m = 0 then sub32 s_extendedFixedHeaderLength (m_bufferPos m)
      else sub32 (u32 (m_headerLength m + m_bodyLength m)) (m_bufferPos m))"

definition headersDone :: "message \<Rightarrow> bool" where
  "headersDone m = (0 < m_headerLength m \<and> m_headerLength m \<le> m_bufferPos m)"

text \<open>The bytes and file descriptors of one answer are stored.\<close>

definition acceptRead :: "nat \<Rightarrow> read_answer \<Rightarrow> message \<Rightarrow> message" where
  "acceptRead n a m0 =
     (let m = (if m_bufferPos m0 = 0 then setArgUnixFds (argUnixFds m0 @ ra_fds a) m0 else m0)
      in if n < length (ra_bytes a) \<or> length (m_buffer m) < m_bufferPos m + length (ra_bytes a)
         then m\<lparr>m_fault := True\<rparr>
         else m\<lparr>m_buffer := overwrite (m_bufferPos m) (ra_bytes a) (m_buffer m),
                m_bufferPos := u32 (m_bufferPos m + length (ra_bytes a))\<rparr>)"

text \<open>Deserialization of the headers once they are there; the flag: it went well.\<close>

definition receiveHeaders :: "message \<Rightarrow> (bool \<times> message) option" where
  "receiveHeaders m =
     (case (if m_headerLength m = 0 \<and> s_extendedFixedHeaderLength \<le> m_bufferPos m
            then deserializeFixedHeaders m else (True, m)) of
        (ok, m1) \<Rightarrow>
          if \<not> ok then Some (False, m1)
          else if headersDone m1 then
            (case deserializeVariableHeaders m1 of
               None \<Rightarrow> None
             | Some (ok2, m2) \<Rightarrow>
                 Some (ok2 \<and> unat (vh_intHeader (m_varHeaders m2) UnixFdsHeader) = length (argUnixFds m2),
                       m2))
          else Some (True, m1))"

text \<open>Completion: the body becomes the main Arguments, which also take the file descriptors.\<close>

definition completeReceive :: "message \<Rightarrow> message" where
  "completeReceive m =
     (let body = slice_at (m_headerLength m) (m_bodyLength m) (m_buffer m);
          m1 = m\<lparr>m_state := Serialized,
                 m_mainArguments := new_arguments_fds None
                   (stringHeaderRaw (m_varHeaders m) SignatureHeader) body (argUnixFds m)
                   (m_isByteSwapped m),
                 m_readListening := False\<rparr>
      in notifyCompletionListener
           (if length (m_buffer m) < m_headerLength m + m_bodyLength m then m1\<lparr>m_fault := True\<rparr> else m1))"

text \<open>One iteration of the loop: the new message, the status to return, and whether the loop is left.\<close>

definition canReadStep :: "read_answer \<Rightarrow> message \<Rightarrow> (message \<times> io_status \<times> bool) option" where
  "canReadStep a m0 =
     (let n = readMax m0;
          m = reserveBuffer (u32 (m_bufferPos m0 + n)) m0;
          done_before = headersDone m;
          m1 = acceptRead n a m
      in case (if done_before then Some (True, m1) else receiveHeaders m1) of
           None \<Rightarrow> None
         | Some (ok, m2) \<Rightarrow>
             Some (if \<not> ok then (m2\<lparr>m_error := MalformedReply\<rparr>, RemoteClosed, True)
                   else if 0 < m_headerLength m2 \<and> u32 (m_headerLength m2 + m_bodyLength m2) \<le> m_bufferPos m2
                   then (completeReceive m2, IO_OK, True)
                   else if \<not> ra_isOpen a then (m2, RemoteClosed, True)
                   else (m2, IO_OK, ra_status a \<noteq> IO_OK)))"

fun canReadLoop :: "read_answer list \<Rightarrow> message \<Rightarrow> (message \<times> io_status) option" where
  "canReadLoop [] m = None"
| "canReadLoop (a # answers) m =
     (case canReadStep a m of
        None \<Rightarrow> None
      | Some (m1, ret, leave) \<Rightarrow> if leave then Some (m1, ret) else canReadLoop answers m1)"

definition failReceive :: "message \<Rightarrow> message" where
  "failReceive m =
     (let m1 = (msg_clear False m)\<lparr>m_readListening := False\<rparr>
      in notifyCompletionListener
           (if isError (m_error m1) then m1 else m1\<lparr>m_error := RemoteDisconnect\<rparr>))"

text \<open>\<open>None\<close>: the list of answers is too short for this call.\<close>

definition handleTransportCanRead ::
  "read_answer list \<Rightarrow> message \<Rightarrow> (message \<times> io_status) option" where
  "handleTransportCanRead answers m =
     (if m_state m \<noteq> Receiving then Some (m, InternalError)
      else map_option (\<lambda>(m1, ret). (if ret \<noteq> IO_OK then failReceive m1 else m1, ret))
             (canReadLoop answers m))"

subsection \<open>Sending\<close>

definition send :: "message \<Rightarrow> message" where
  "send m =
     (case serialize m of (ok, m1) \<Rightarrow>
        if \<not> ok then
          (let m2 = m1\<lparr>m_state := Serialized\<rparr>
           in if isError (m_error m2) then m2 else m2\<lparr>m_error := MalformedReply\<rparr>)
        else if m_state m1 \<noteq> Sending then m1\<lparr>m_writeListening := True, m_state := Sending\<rparr>
        else m1)"

definition isSending :: "message \<Rightarrow> bool" where
  "isSending m = (m_state m = Sending)"

text \<open>
  The loop writes the rest of the buffer until it is empty.  \<open>supportedFds\<close> is what the transport can
  pass.  The result has the sequence of byte strings handed to the transport.  \<open>None\<close>: too few answers.
\<close>

fun canWriteLoop ::
  "nat \<Rightarrow> write_answer list \<Rightarrow> message \<Rightarrow> byte list list \<Rightarrow>
     (message \<times> io_status \<times> byte list list) option" where
  "canWriteLoop supportedFds answers m written =
     (let toWrite = drop (m_bufferPos m) (m_buffer m);
          fdCount = length (a_fileDescriptors (m_mainArguments m))
      in if toWrite = [] then
           Some (notifyCompletionListener (m\<lparr>m_state := Serialized, m_writeListening := False\<rparr>), IO_OK, written)
         else if m_bufferPos m = 0 \<and> fdCount \<noteq> 0 \<and> supportedFds < fdCount then
           Some (m\<lparr>m_error := SendingTooManyUnixFds, m_state := Serialized, m_writeListening := False\<rparr>,
                 PayloadError, written)
         else (case answers of
                 [] \<Rightarrow> None
               | a # rest \<Rightarrow>
                   if wa_status a \<noteq> IO_OK then
                     Some (notifyCompletionListener (m\<lparr>m_error := RemoteDisconnect, m_state := Serialized,
                                                       m_writeListening := False\<rparr>), RemoteClosed, written)
                   else canWriteLoop supportedFds rest
                          (m\<lparr>m_bufferPos := u32 (m_bufferPos m + wa_length a)\<rparr>)
                          (written @ [take (wa_length a) toWrite])))"

definition handleTransportCanWrite ::
  "nat \<Rightarrow> write_answer list \<Rightarrow> message \<Rightarrow> (message \<times> io_status \<times> byte list list) option" where
  "handleTransportCanWrite supportedFds answers m =
     (if m_state m \<noteq> Sending then Some (m, InternalError, [])
      else canWriteLoop supportedFds answers m [])"

subsection \<open>Fixed headers\<close>

lemma slice_at_overwrite_inside:
  "p \<le> q \<Longrightarrow> q + n \<le> p + length bs \<Longrightarrow> p + length bs \<le> length buf \<Longrightarrow>
     slice_at q n (overwrite p bs buf) = slice_at (q - p) n bs"
  by (auto simp: slice_at_def overwrite_def drop_append take_append min_def)

text \<open>C17: The fixed headers that a message writes are read back as they were, whatever the rest of
  the buffer holds, when type, flags and version fit their byte.\<close>

theorem fixed_headers_roundtrip:
  assumes "16 \<le> length (m_buffer m)" and "m_messageType m < 256" and "m_bodyLength m < 2 ^ 32"
  shows "(case deserializeFixedHeaders (serializeFixedHeaders m) of (_, m') \<Rightarrow>
    m_messageType m' = m_messageType m \<and> m_flags m' = m_flags m \<and>
    m_protocolVersion m' = m_protocolVersion m \<and> m_bodyLength m' = m_bodyLength m \<and>
    m_serial m' = m_serial m \<and> \<not> m_isByteSwapped m' \<and> m_fault m' = m_fault m)"
proof -
  define bs where "bs = [s_thisMachineEndianness, of_nat (m_messageType m), m_flags m, m_protocolVersion m]
                 @ writeUint32 (of_nat (m_bodyLength m)) @ writeUint32 (m_serial m)"
  have bs: "length bs = 12" by (simp add: bs_def io_u32.wr_length)
  define buf where "buf = overwrite 0 bs (m_buffer m)"
  have len: "length buf = length (m_buffer m)" using bs assms(1) by (simp add: buf_def)
  have at: "buf ! 0 = s_thisMachineEndianness" "buf ! 1 = of_nat (m_messageType m)" "buf ! 2 = m_flags m"
    "buf ! 3 = m_protocolVersion m"
    using bs assms(1) by (simp_all add: buf_def nth_overwrite) (simp_all add: bs_def)
  have sl: "slice_at 4 4 buf = writeUint32 (of_nat (m_bodyLength m))" "slice_at 8 4 buf = writeUint32 (m_serial m)"
    using bs assms(1)
    by (simp_all add: buf_def slice_at_overwrite_inside) (simp_all add: bs_def slice_at_def io_u32.wr_length)
  have ser: "serializeFixedHeaders m = m\<lparr>m_buffer := buf\<rparr>"
    using assms(1) by (simp add: serializeFixedHeaders_def buf_def bs_def)
  have body: "unat (of_nat (m_bodyLength m) :: uint32) = m_bodyLength m"
    using assms(3) by (simp add: unat_of_nat_u32)
  have type: "unat (of_nat (m_messageType m) :: byte) = m_messageType m"
    using assms(2) by (simp add: unat_of_nat)
  show ?thesis
    using assms(1) len at sl type body
    by (simp add: ser deserializeFixedHeaders_def Let_def io_u32.rd_wr s_thisMachineEndianness_def)
qed

theorem fixed_headers_roundtrip_witness:
  "m_serial (snd (deserializeFixedHeaders (serializeFixedHeaders
     ((Message (\<lambda>_. 0))\<lparr>m_buffer := replicate 16 0, m_serial := 77\<rparr>)))) = 77"
  using fixed_headers_roundtrip [of "(Message (\<lambda>_. 0))\<lparr>m_buffer := replicate 16 0, m_serial := 77\<rparr>"]
  by (simp add: Message_def message_type_defs split: prod.splits)

subsection \<open>Required headers\<close>

text \<open>C18: A message passes the check exactly if it has a serial, protocol version 1, a valid type and
  the headers that the D-Bus specification requires for this type.\<close>

theorem required_headers_exact:
  "checkRequiredHeaders m = NoError \<longleftrightarrow>
     m_serial m \<noteq> 0 \<and> m_protocolVersion m = 1 \<and>
     (let s = string_headers (m_varHeaders m); i = int_headers (m_varHeaders m) in
      m_messageType m = MethodCallMessage \<and> s PathHeader \<noteq> None \<and> s MethodHeader \<noteq> None \<or>
      m_messageType m = MethodReturnMessage \<and> i ReplySerialHeader \<noteq> None \<or>
      m_messageType m = ErrorMessage \<and> s ErrorNameHeader \<noteq> None \<and> i ReplySerialHeader \<noteq> None \<or>
      m_messageType m = SignalMessage \<and> s PathHeader \<noteq> None \<and> s InterfaceHeader \<noteq> None \<and>
        s MethodHeader \<noteq> None)"
  by (auto simp: checkRequiredHeaders_def Let_def message_type_defs string_headers_def int_headers_def)

subsection \<open>Serializing again\<close>

lemma serialize_done:
  "m_state m = Serialized \<or> m_state m = Sending \<Longrightarrow> \<not> m_dirty m \<Longrightarrow> serialize m = (True, m)"
  by (simp add: serialize_def)

lemma layoutMessage_True:
  assumes "layoutMessage h m = (True, m')"
  shows "m_state m' = Serialized" "\<not> m_dirty m'"
proof -
  have "layoutBuffer h u m2 = (True, m') \<Longrightarrow> m_state m' = Serialized \<and> \<not> m_dirty m'" for u m2
    by (auto simp: layoutBuffer_def split: if_splits)
  with assms show "m_state m' = Serialized" "\<not> m_dirty m'"
    by (auto simp: layoutMessage_def Let_def simp del: message.update_convs split: if_splits)
qed

lemma serialize_True:
  assumes "serialize m = (True, m')"
  shows "m_state m' = Serialized \<or> m_state m' = Sending" "\<not> m_dirty m'"
  using assms layoutMessage_True
  by (auto simp: serialize_def Let_def split: if_splits prod.splits)

text \<open>A message that failed to serialize because a required header is missing or refused stays
  unserializable: supplying the header afterwards does not help, because the error is kept.\<close>

theorem serialize_error_is_final:
  assumes "serialize m = (False, m')" and "isError (m_error m')" and "\<not> inIoState m'"
    and "m_dirty m'"
  shows "fst (serialize (msg_setStringHeader f v m')) = False \<and>
    fst (serialize (setSerial n m')) = False"
  using assms
  by (simp add: serialize_def Let_def msg_setStringHeader_def setSerial_def inIoState_def clearBuffer_def)

theorem serialize_error_is_final_witness:
  "fst (serialize (setSerial 1 (snd (serialize (createCall (\<lambda>_. 0) ''/a'' ''b.c'' ''d''))))) = False"
proof -
  let ?m = "createCall (\<lambda>_. 0) ''/a'' ''b.c'' ''d''"
  have dirty: "m_dirty ?m" "m_serial ?m = 0" "m_state ?m = Empty" "m_error ?m = NoError" "m_buffer ?m = []"
    by (simp_all add: createCall_def setCall_def setMethod_def setInterface_def setPath_def
        msg_setStringHeader_def setType_def setExpectsReply_def Message_def message_type_defs)
  then have s: "serialize ?m = (False, ?m\<lparr>m_error := MessageSerial\<rparr>)"
    by (simp add: serialize_def inIoState_def clearBuffer_def requiredHeadersPresent_def
        checkRequiredHeaders_def isError_def)
  show ?thesis
    using serialize_error_is_final [OF s, of PathHeader "[]" 1] dirty
    by (simp add: s isError_def inIoState_def)
qed

text \<open>Changing a flag of a message that is already serialized has no effect on what is sent: the
  setters do not mark the message as changed, so that the old buffer is used.\<close>

theorem flag_change_after_serialize_lost:
  assumes "serialize m = (True, m1)"
  shows "fst (save (setAutoStartService b m1)) = m_buffer m1 \<and>
    fst (save (setExpectsReply b m1)) = m_buffer m1 \<and>
    fst (save (setInteractiveAuthorizationAllowed b m1)) = m_buffer m1"
  using serialize_True [OF assms]
  by (simp add: save_def serialize_done setAutoStartService_def setExpectsReply_def
      setInteractiveAuthorizationAllowed_def)

theorem flag_change_after_serialize_lost_witness:
  "fst (save (setExpectsReply False (Message (\<lambda>_. 0)
     \<lparr>m_state := Serialized, m_dirty := False, m_buffer := [1, 2]\<rparr>))) = [1, 2]"
  using flag_change_after_serialize_lost [OF serialize_done, of "Message (\<lambda>_. 0)
     \<lparr>m_state := Serialized, m_dirty := False, m_buffer := [1, 2]\<rparr>" False]
  by simp

subsection \<open>What is handed to the transport\<close>

text \<open>The contract of \<^verbatim>\<open>ITransport::write\<close>: no answer claims more bytes than were offered.\<close>

fun answersFit :: "nat \<Rightarrow> write_answer list \<Rightarrow> bool" where
  "answersFit n [] = True"
| "answersFit n (a # rest) = (wa_length a \<le> n \<and> answersFit (n - wa_length a) rest)"

declare canWriteLoop.simps [simp del]

lemma canWriteLoop_written:
  assumes "canWriteLoop k answers m written = Some (m', IO_OK, ws)"
    and "m_bufferPos m \<le> length (m_buffer m)" and "length (m_buffer m) < 2 ^ 32"
    and "answersFit (length (m_buffer m) - m_bufferPos m) answers"
  shows "concat ws = concat written @ drop (m_bufferPos m) (m_buffer m) \<and> m_state m' = Serialized \<and>
    \<not> m_writeListening m' \<and> m_notifications m' = m_notifications m + 1"
  using assms
proof (induction answers arbitrary: m written)
  case Nil
  then show ?case
    by (auto simp: canWriteLoop.simps [of k "[]"] Let_def notifyCompletionListener_def split: if_splits)
next
  case (Cons a answers)
  show ?case
  proof (cases "drop (m_bufferPos m) (m_buffer m) = [] \<or> wa_status a \<noteq> IO_OK \<or>
      m_bufferPos m = 0 \<and> length (a_fileDescriptors (m_mainArguments m)) \<noteq> 0 \<and>
      k < length (a_fileDescriptors (m_mainArguments m))")
    case True
    with Cons.prems show ?thesis
      by (auto simp: canWriteLoop.simps [of k "a # answers"] Let_def notifyCompletionListener_def split: if_splits)
  next
    case False
    let ?m = "m\<lparr>m_bufferPos := u32 (m_bufferPos m + wa_length a)\<rparr>"
    let ?w = "written @ [take (wa_length a) (drop (m_bufferPos m) (m_buffer m))]"
    from False Cons.prems(1) have rec: "canWriteLoop k answers ?m ?w = Some (m', IO_OK, ws)"
      by (simp add: canWriteLoop.simps [of k "a # answers"] Let_def split: if_splits)
    have le: "m_bufferPos m + wa_length a \<le> length (m_buffer m)"
      using Cons.prems(2,4) by auto
    with Cons.prems(3) have p: "m_bufferPos ?m = m_bufferPos m + wa_length a"
      "m_bufferPos m + wa_length a \<le> length (m_buffer m)" by simp_all
    have "take (wa_length a) (drop (m_bufferPos m) (m_buffer m)) @ drop (m_bufferPos m + wa_length a) (m_buffer m)
        = drop (m_bufferPos m) (m_buffer m)"
      by (metis append_take_drop_id drop_drop add.commute)
    with Cons.IH [OF rec] p Cons.prems(3,4) show ?thesis by simp
  qed
qed

text \<open>When sending completes, the byte strings handed to the transport are together exactly the
  serialized message, in order, however the transport split the writes; the message leaves the state
  of sending and its listener is told once.\<close>

theorem sent_bytes_are_message:
  assumes "handleTransportCanWrite k answers m = Some (m', IO_OK, ws)"
    and "m_state m = Sending" and "m_bufferPos m = 0" and "length (m_buffer m) < 2 ^ 32"
    and "answersFit (length (m_buffer m)) answers"
  shows "concat ws = m_buffer m \<and> m_state m' = Serialized \<and> \<not> m_writeListening m' \<and>
    m_notifications m' = m_notifications m + 1"
proof -
  from assms(1,2) have "canWriteLoop k answers m [] = Some (m', IO_OK, ws)"
    by (simp add: handleTransportCanWrite_def)
  from canWriteLoop_written [OF this] assms(3-5) show ?thesis by simp
qed

definition example_sending :: message where
  "example_sending = (Message (\<lambda>_. 0))\<lparr>m_buffer := [1, 2, 3], m_state := Sending\<rparr>"

theorem sent_bytes_are_message_witness:
  "\<exists>m' ws. handleTransportCanWrite 0 [\<lparr>wa_status = IO_OK, wa_length = 2\<rparr>, \<lparr>wa_status = IO_OK, wa_length = 1\<rparr>]
      example_sending = Some (m', IO_OK, ws) \<and> concat ws = [1, 2, 3]"
proof -
  let ?a = "[\<lparr>wa_status = IO_OK, wa_length = 2\<rparr>, \<lparr>wa_status = IO_OK, wa_length = 1\<rparr>]"
  have run: "\<exists>m' ws. handleTransportCanWrite 0 ?a example_sending = Some (m', IO_OK, ws)"
    by (simp add: handleTransportCanWrite_def example_sending_def Message_def canWriteLoop.simps Let_def
        empty_arguments_def)
  then obtain m' ws where r: "handleTransportCanWrite 0 ?a example_sending = Some (m', IO_OK, ws)" by blast
  from sent_bytes_are_message [OF r] have "concat ws = [1, 2, 3]"
    by (simp add: example_sending_def Message_def)
  with r show ?thesis by blast
qed

text \<open>A transport that takes no bytes without an error, as the socket transports do when they would
  block, keeps the sending loop busy: no number of such answers makes the call return.\<close>

theorem blocked_send_spins:
  assumes "m_state m = Sending" and "m_bufferPos m < length (m_buffer m)" and "length (m_buffer m) < 2 ^ 32"
    and "length (a_fileDescriptors (m_mainArguments m)) \<le> k"
  shows "handleTransportCanWrite k (replicate n \<lparr>wa_status = IO_OK, wa_length = 0\<rparr>) m = None"
proof -
  have "canWriteLoop k (replicate n \<lparr>wa_status = IO_OK, wa_length = 0\<rparr>) m ws = None" for ws
    using assms
  proof (induction n arbitrary: ws)
    case 0
    then show ?case by (simp add: canWriteLoop.simps [of k "[]"] Let_def)
  next
    case (Suc n)
    have same: "m\<lparr>m_bufferPos := u32 (m_bufferPos m + 0)\<rparr> = m"
      using assms by (simp add: u32_id [OF less_trans])
    from Suc same show ?case
      by (simp add: canWriteLoop.simps [of k "_ # _"] Let_def)
  qed
  with assms(1) show ?thesis by (simp add: handleTransportCanWrite_def)
qed

theorem blocked_send_spins_witness:
  "handleTransportCanWrite 0 (replicate 1000 \<lparr>wa_status = IO_OK, wa_length = 0\<rparr>) example_sending = None"
  by (rule blocked_send_spins) (simp_all add: example_sending_def Message_def empty_arguments_def)

definition wrapping_header :: "byte list" where
  "wrapping_header = [108, 1, 0, 1,  0, 0, 0, 128,  1, 0, 0, 0,  240, 255, 255, 127]"

lemma deserialize_wrapping_header:
  assumes "take 16 (m_buffer m) = wrapping_header"
  shows "\<exists>m1. deserializeFixedHeaders m = (True, m1) \<and> m_headerLength m1 = 2147483648 \<and>
    m_bodyLength m1 = 2147483648 \<and> m_buffer m1 = m_buffer m \<and> m_bufferPos m1 = m_bufferPos m \<and>
    m_notifications m1 = m_notifications m \<and> m_error m1 = m_error m"
proof -
  let ?b = "m_buffer m"
  have len: "16 \<le> length ?b" using arg_cong [OF assms, of length] by (simp add: wrapping_header_def)
  have nth: "?b ! i = wrapping_header ! i" if "i < 16" for i
    using arg_cong [OF assms, of "\<lambda>l. l ! i"] that by simp
  have sl: "slice_at 4 4 ?b = [0, 0, 0, 128]" "slice_at 12 4 ?b = [240, 255, 255, 127]" "?b ! 0 = 108"
    using len by (auto simp: slice_at_def nth take_Suc_conv_app_nth numeral_eq_Suc wrapping_header_def
        intro!: nth_equalityI simp: less_Suc_eq)
  have rd: "unat (readUint32 [0, 0, 0, 128] False) = 2147483648"
    "unat (readUint32 [240, 255, 255, 127] False) = 2147483632"
    by (simp_all add: basic_read_eq unat_of_nat_u32 u32_def)
  have e: "s_thisMachineEndianness = 108" "byte_of (CHR ''l'') = 108" "byte_of (CHR ''B'') = 66"
    by (simp_all add: s_thisMachineEndianness_def byte_of_def)
  have al: "align 2147483648 8 = 2147483648"
    by (rule align_aligned) (simp_all add: wire_alignment_def)
  have u: "u32 (s_extendedFixedHeaderLength + 2147483632) = 2147483648" "u32 4294967296 = 0"
    by (simp_all add: fixed_length_defs u32_def)
  show ?thesis
    using len unfolding deserializeFixedHeaders_def Let_def
    by (simp add: sl rd e al u MaxMessageLength_def)
qed

text \<open>C36: The check of the message length adds header and body length in 32 bits.  Sixteen bytes from
  the peer whose lengths are two gigabytes each pass it and complete the message at once: the receiver
  is notified of a message whose body lies far outside of the buffer.\<close>

theorem wrapped_length_completes_message:
  "\<exists>m'. handleTransportCanRead
       [\<lparr>ra_status = IO_OK, ra_bytes = wrapping_header, ra_fds = [], ra_isOpen = True\<rparr>]
       (receive (Message junk)) = Some (m', IO_OK) \<and>
     m_notifications m' = 1 \<and> m_error m' = NoError \<and> m_fault m' \<and>
     length (m_buffer m') < m_headerLength m' + m_bodyLength m'"
proof -
  define a where "a = \<lparr>ra_status = IO_OK, ra_bytes = wrapping_header, ra_fds = [], ra_isOpen = True\<rparr>"
  define m0 where "m0 = receive (Message junk)"
  have m0: "m_state m0 = Receiving" "m_headerLength m0 = 0" "m_bufferPos m0 = 0" "m_buffer m0 = []"
    "m_notifications m0 = 0" "m_error m0 = NoError" "m_junk m0 = junk"
    by (simp_all add: m0_def receive_def Message_def inIoState_def)
  have wl: "length wrapping_header = 16" by (simp add: wrapping_header_def)
  define m1 where "m1 = reserveBuffer (u32 (m_bufferPos m0 + readMax m0)) m0"
  have rm: "readMax m0 = 16" by (simp add: readMax_def m0 fixed_length_defs)
  have m1: "m1 = m0\<lparr>m_buffer := map junk [0..<256]\<rparr>"
    by (simp add: m1_def rm m0 reserveBuffer_def)
  define m2 where "m2 = acceptRead 16 a m1"
  have m2: "take 16 (m_buffer m2) = wrapping_header" "m_bufferPos m2 = 16" "length (m_buffer m2) = 256"
    "m_headerLength m2 = 0" "m_notifications m2 = 0" "m_error m2 = NoError"
    using wl take_overwrite_all [of 0 "map junk [0..<256]" wrapping_header]
    by (simp_all add: m2_def acceptRead_def m1 m0 a_def setArgUnixFds_def Let_def)
  from deserialize_wrapping_header [OF m2(1)] m2 obtain m3 where
    m3: "deserializeFixedHeaders m2 = (True, m3)" "m_headerLength m3 = 2147483648" "m_bodyLength m3 = 2147483648"
      "length (m_buffer m3) = 256" "m_bufferPos m3 = 16" "m_notifications m3 = 0" "m_error m3 = NoError"
    by auto
  have "receiveHeaders m2 = Some (True, m3)"
    by (simp add: receiveHeaders_def m2 m3 headersDone_def fixed_length_defs)
  then have step: "canReadStep a m0 = Some (completeReceive m3, IO_OK, True)"
    unfolding canReadStep_def Let_def m1_def [symmetric]
    unfolding rm m2_def [symmetric]
    by (simp add: headersDone_def m1 m0 m3 u32_def)
  then have "handleTransportCanRead [a] m0 = Some (completeReceive m3, IO_OK)"
    by (simp add: handleTransportCanRead_def m0)
  moreover have "m_notifications (completeReceive m3) = 1" "m_error (completeReceive m3) = NoError"
    "m_fault (completeReceive m3)" "m_buffer (completeReceive m3) = m_buffer m3"
    "m_headerLength (completeReceive m3) = m_headerLength m3" "m_bodyLength (completeReceive m3) = m_bodyLength m3"
    by (simp_all add: completeReceive_def notifyCompletionListener_def Let_def m3)
  ultimately show ?thesis
    unfolding a_def [symmetric] m0_def [symmetric] by (intro exI [of _ "completeReceive m3"]) (simp add: m3)
qed

end
