(* ===== verification/String_Tools.thy ===== *)
theory String_Tools
  imports Dfer_Prelude
begin

text \<open>
  The string helpers of \<^verbatim>\<open>transport/stringtools.h\<close> and \<^verbatim>\<open>stringtools.cpp\<close>, with what they use of the
  standard streams: decimal output and input of integers, \<^verbatim>\<open>getline\<close> with a delimiter, and hexadecimal
  digits.  \<^verbatim>\<open>sha1Hex\<close> is not modelled, its SHA-1 code is taken over from elsewhere.
\<close>

subsection \<open>Decimal numbers\<close>

fun show_digits :: "nat \<Rightarrow> nat \<Rightarrow> string" where
  "show_digits 0 n = []"
| "show_digits (Suc k) n =
     (if n < 10 then [char_of (48 + n)] else show_digits k (n div 10) @ [char_of (48 + n mod 10)])"

text \<open>Decimal output of integers; a number has at most as many digits as its value.\<close>

definition show_nat :: "nat \<Rightarrow> string" where
  "show_nat n = show_digits (Suc n) n"

definition show_int :: "int \<Rightarrow> string" where
  "show_int i = (if i < 0 then ''-'' @ show_nat (nat (- i)) else show_nat (nat i))"

definition dfToString :: "int \<Rightarrow> string" where
  "dfToString value = show_int value"

definition is_space :: "char \<Rightarrow> bool" where
  "is_space c \<longleftrightarrow> c = CHR '' '' \<or> (9 \<le> (of_char c :: nat) \<and> (of_char c :: nat) \<le> 13)"

definition is_digit :: "char \<Rightarrow> bool" where
  "is_digit c \<longleftrightarrow> 48 \<le> (of_char c :: nat) \<and> (of_char c :: nat) \<le> 57"

definition digits_value :: "string \<Rightarrow> nat" where
  "digits_value ds = foldl (\<lambda>v c. 10 * v + (of_char c - 48)) 0 ds"

definition int_max :: int where "int_max = 2147483647"
definition int_min :: int where "int_min = - 2147483648"

text \<open>
  \<^verbatim>\<open>dfFromString<int>\<close>: success, and what the variable holds afterwards.  Extraction skips white space;
  when nothing is left after it the variable keeps its \<open>old\<close> value, without digits it becomes 0, and
  outside of the range of \<^verbatim>\<open>int\<close> the nearest bound.  All characters must have been used.
\<close>

definition dfFromString :: "string \<Rightarrow> int \<Rightarrow> bool \<times> int" where
  "dfFromString s old =
     (let s1 = dropWhile is_space s in
      if s1 = [] then (False, old)
      else (let signed = (hd s1 = CHR ''-'' \<or> hd s1 = CHR ''+'');
                s2 = (if signed then tl s1 else s1);
                ds = takeWhile is_digit s2;
                v = (if hd s1 = CHR ''-'' then - int (digits_value ds) else int (digits_value ds))
            in if ds = [] then (False, 0)
               else if int_max < v then (False, int_max)
               else if v < int_min then (False, int_min)
               else (dropWhile is_digit s2 = [], v)))"

subsection \<open>Splitting\<close>

fun getline_parts :: "char \<Rightarrow> string \<Rightarrow> string \<Rightarrow> string list" where
  "getline_parts delimiter part [] = (if part = [] then [] else [rev part])"
| "getline_parts delimiter part (c # s) =
     (if c = delimiter then rev part # getline_parts delimiter [] s
      else getline_parts delimiter (c # part) s)"

definition split :: "string \<Rightarrow> char \<Rightarrow> bool \<Rightarrow> string list" where
  "split s delimiter keepEmptyParts =
     filter (\<lambda>part. keepEmptyParts \<or> part \<noteq> []) (getline_parts delimiter [] s)"

subsection \<open>Hexadecimal encoding\<close>

definition hex_digit :: "nat \<Rightarrow> char" where
  "hex_digit n = (if n < 10 then char_of (48 + n) else char_of (87 + n))"

definition hexEncode :: "string \<Rightarrow> string" where
  "hexEncode s = concat (map (\<lambda>c. (let b = byte_of c
     in [hex_digit (unat (drop_bit 4 b)), hex_digit (unat (and b 15))])) s)"

subsection \<open>Reading back what was printed\<close>

lemma of_char_char_of: "n < 256 \<Longrightarrow> (of_char (char_of n) :: nat) = n"
  by simp

lemma is_digit_char_of [simp]: "n < 10 \<Longrightarrow> is_digit (char_of (48 + n :: nat))"
  by (simp add: is_digit_def)

lemma digits_value_snoc [simp]:
  "digits_value (ds @ [c]) = 10 * digits_value ds + (of_char c - 48)"
  by (simp add: digits_value_def)

lemma show_digits_value:
  "n < k \<Longrightarrow> digits_value (show_digits k n) = n \<and> list_all is_digit (show_digits k n) \<and>
     show_digits k n \<noteq> []"
proof (induction k arbitrary: n)
  case (Suc k)
  show ?case
  proof (cases "n < 10")
    case True
    then show ?thesis using digits_value_snoc [of "[]" "char_of (48 + n)"] by (simp add: digits_value_def)
  next
    case False
    with Suc.prems have "n div 10 < k" by linarith
    with Suc.IH [OF this] False show ?thesis by simp
  qed
qed simp

lemma show_nat_value:
  "digits_value (show_nat n) = n" "list_all is_digit (show_nat n)" "show_nat n \<noteq> []"
  using show_digits_value [of n "Suc n"] by (simp_all add: show_nat_def)

lemma is_digit_not: "is_digit c \<Longrightarrow> \<not> is_space c \<and> c \<noteq> CHR ''-'' \<and> c \<noteq> CHR ''+'' \<and> c \<noteq> CHR '','' \<and> c \<noteq> CHR ''=''"
  by (auto simp: is_digit_def is_space_def)

lemma dropWhile_id: "xs = [] \<or> \<not> P (hd xs) \<Longrightarrow> dropWhile P xs = xs"
  by (cases xs) simp_all

lemma number_read_back:
  assumes "int_min \<le> i" and "i \<le> int_max"
  shows "dfFromString (dfToString i) old = (True, i)"
proof -
  note v = show_nat_value
  have hd: "is_digit (hd (show_nat n))" for n using v(2,3) [of n] by (cases "show_nat n") simp_all
  have t: "takeWhile is_digit (show_nat n) = show_nat n" "dropWhile is_digit (show_nat n) = []" for n
    using v(2) [of n] by (simp_all add: list_all_iff)
  have pos: "dropWhile is_space (show_nat n) = show_nat n" for n
    using is_digit_not [OF hd [of n]] by (intro dropWhile_id) simp
  have neg: "\<not> is_space (CHR ''-'')" by (simp add: is_space_def)
  show ?thesis
  proof (cases "i < 0")
    case True
    with assms show ?thesis
      by (simp add: dfFromString_def dfToString_def show_int_def Let_def neg t v(1,3) v(2) [unfolded list_all_iff])
  next
    case False
    with assms is_digit_not [OF hd, of "nat i"] show ?thesis
      by (simp add: dfFromString_def dfToString_def show_int_def Let_def pos t v(1,3) v(2) [unfolded list_all_iff] int_min_def)
  qed
qed

text \<open>Every value of an int that is printed is read back: with success and with the same value.\<close>

theorem number_roundtrip:
  assumes "int_min \<le> i" and "i \<le> int_max"
  shows "dfFromString (dfToString i) old = (True, i)"
  using assms by (rule number_read_back)

theorem number_roundtrip_witness: "dfFromString (dfToString (- 65535)) 7 = (True, - 65535)"
  using number_roundtrip [of "- 65535" 7] by (simp add: int_min_def int_max_def)

subsection \<open>Hexadecimal digits determine the string\<close>

definition hex_value :: "char \<Rightarrow> nat" where
  "hex_value c = (let n = of_char c in if n < 58 then n - 48 else n - 87)"

fun hexDecode :: "string \<Rightarrow> string" where
  "hexDecode (a # b # s) = char_of (16 * hex_value a + hex_value b) # hexDecode s"
| "hexDecode _ = []"

lemma hex_value_digit [simp]: "n < 16 \<Longrightarrow> hex_value (hex_digit n) = n"
  by (auto simp: hex_value_def hex_digit_def Let_def)

lemma byte_nibbles: "unat (drop_bit 4 (b :: byte)) = unat b div 16" "unat (and b 15) = unat b mod 16"
proof -
  show "unat (drop_bit 4 b) = unat b div 16"
    unfolding unat_drop_bit_eq by (simp add: drop_bit_eq_div)
  have "and b 15 = take_bit 4 b" by (simp add: take_bit_eq_mask mask_eq_exp_minus_1)
  then have "unat (and b 15) = take_bit 4 (unat b)" by (simp only: unsigned_take_bit_eq)
  then show "unat (and b 15) = unat b mod 16" by (simp add: take_bit_eq_mod)
qed

text \<open>Hexadecimal encoding doubles the length and can be undone.\<close>

theorem hex_roundtrip: "hexDecode (hexEncode s) = s \<and> length (hexEncode s) = 2 * length s"
proof (induction s)
  case (Cons c s)
  have "(of_char c :: nat) < 16 * 16" by simp
  then have "(of_char c :: nat) div 16 < 16" by (rule less_mult_imp_div_less)
  then show ?case using Cons by (simp add: hexEncode_def Let_def byte_nibbles)
qed (simp add: hexEncode_def)

end
