(* ===== verification/Arguments_Walk.thy ===== *)
theory Arguments_Walk
  imports Reader_Ops Writer_Ops String_Tools
begin

text \<open>
  The two functions of \<^verbatim>\<open>serialization/arguments.cpp\<close> that walk over serialized data with a reader:
  \<^verbatim>\<open>copyOneElement\<close>, which replays one element on a writer, and \<^verbatim>\<open>prettyPrint\<close>.
\<close>

subsection \<open>copyOneElement\<close>

text \<open>
  In an empty array the reader stores nothing in its union, so that the \<^verbatim>\<open>read...\<close> functions return
  stale bits; \<open>stale\<close> and \<open>staleString\<close> stand for them.
\<close>

definition or_stale :: "'a option \<Rightarrow> 'a \<Rightarrow> 'a" where
  "or_stale v d = (case v of None \<Rightarrow> d | Some x \<Rightarrow> x)"

definition copyOneElement ::
  "uint64 \<Rightarrow> cstring \<Rightarrow> reader \<Rightarrow> writer \<Rightarrow> reader \<times> writer" where
  "copyOneElement stale staleString r w =
     (case r_state r of
        BeginStruct \<Rightarrow> (reader_beginStruct r, w_beginStruct w)
      | EndStruct \<Rightarrow> (reader_endStruct r, w_endStruct w)
      | BeginVariant \<Rightarrow> (reader_beginVariant r, w_beginVariant w)
      | EndVariant \<Rightarrow> (reader_endVariant r, w_endVariant w)
      | BeginArray \<Rightarrow>
          (case peekPrimitiveArray SkipIfEmpty r of
             None \<Rightarrow> (r_undefined r, w)
           | Some primitiveType \<Rightarrow>
               if primitiveType \<noteq> BeginArray
               then (let ((type, data), r') = readPrimitiveArray r in (r', writePrimitiveArray type data w))
               else (let (hasData, r') = reader_beginArray ReadTypesOnlyIfEmpty r
                     in (r', w_beginArray (if hasData then NonEmptyArray else WriteTypesOfEmptyArray) w)))
      | EndArray \<Rightarrow> (reader_endArray r, w_endArray w)
      | BeginDict \<Rightarrow>
          (let (hasData, r') = reader_beginDict ReadTypesOnlyIfEmpty r
           in (r', w_beginDict (if hasData then NonEmptyArray else WriteTypesOfEmptyArray) w))
      | EndDict \<Rightarrow> (reader_endDict r, w_endDict w)
      | Byte \<Rightarrow> (let (v, r') = reader_readByte r in (r', writeByte (or_stale v (ucast stale)) w))
      | Boolean \<Rightarrow>
          (let (v, r') = reader_readBoolean r
           in (r', writeBoolean (or_stale v ((ucast stale :: byte) \<noteq> 0)) w))
      | Int16 \<Rightarrow> (let (v, r') = reader_readInt16 r in (r', w_writeInt16 (or_stale v (ucast stale)) w))
      | Uint16 \<Rightarrow> (let (v, r') = reader_readUint16 r in (r', w_writeUint16 (or_stale v (ucast stale)) w))
      | Int32 \<Rightarrow> (let (v, r') = reader_readInt32 r in (r', w_writeInt32 (or_stale v (ucast stale)) w))
      | Uint32 \<Rightarrow> (let (v, r') = reader_readUint32 r in (r', w_writeUint32 (or_stale v (ucast stale)) w))
      | Int64 \<Rightarrow> (let (v, r') = reader_readInt64 r in (r', w_writeInt64 (or_stale v stale) w))
      | Uint64 \<Rightarrow> (let (v, r') = reader_readUint64 r in (r', w_writeUint64 (or_stale v stale) w))
      | Double \<Rightarrow> (let (v, r') = reader_readDouble r in (r', w_writeDouble (or_stale v stale) w))
      | String \<Rightarrow> (let (v, r') = reader_readString r in (r', writeString (or_stale v staleString) w))
      | ObjectPath \<Rightarrow>
          (let (v, r') = reader_readObjectPath r in (r', writeObjectPath (or_stale v staleString) w))
      | Signature \<Rightarrow>
          (let (v, r') = reader_readSignature r in (r', writeSignature (or_stale v staleString) w))
      | UnixFd \<Rightarrow> (let (v, r') = reader_readUnixFd r in (r', writeUnixFd (or_stale v (ucast stale)) w))
      | _ \<Rightarrow> (r, w))"

subsection \<open>prettyPrint\<close>

definition newline :: string where "newline = [CHR 0x0A]"
definition quote_mark :: string where "quote_mark = [CHR 0x22]"

definition printMaybeNilProlog :: "string \<Rightarrow> bool \<Rightarrow> string \<Rightarrow> string" where
  "printMaybeNilProlog nestingPrefix isNil typeName =
     nestingPrefix @ typeName @ '': '' @ (if isNil then ''<nil>'' @ newline else [])"

definition printMaybeNil :: "string \<Rightarrow> bool \<Rightarrow> string option \<Rightarrow> string \<Rightarrow> string" where
  "printMaybeNil nestingPrefix isNil shown typeName =
     printMaybeNilProlog nestingPrefix isNil typeName @
       (if isNil then [] else or_stale shown ''?'' @ newline)"

definition printMaybeNil_cstring :: "string \<Rightarrow> bool \<Rightarrow> cstring option \<Rightarrow> string \<Rightarrow> string" where
  "printMaybeNil_cstring nestingPrefix isNil cstr typeName =
     printMaybeNilProlog nestingPrefix isNil typeName @
       (if isNil then []
        else quote_mark @ or_stale (map_option cs_chars cstr) ''?'' @ quote_mark @ newline)"

definition strEndsWith :: "string \<Rightarrow> string \<Rightarrow> bool" where
  "strEndsWith str ending =
     (if length ending \<le> length str then drop (length str - length ending) str = ending else False)"

record printer =
  p_reader :: reader
  p_prefix :: string
  p_out :: string
  p_inEmptyArray :: bool

text \<open>Outcomes of an iteration; \<open>PThrows\<close>: a \<^verbatim>\<open>resize\<close> to a negative length.\<close>

datatype print_step = PNext printer | PDone string | PThrows

definition dropEnd :: "nat \<Rightarrow> string \<Rightarrow> string option" where
  "dropEnd n s = (if n \<le> length s then Some (take (length s - n) s) else None)"

text \<open>The switch between key and value of dict entries at the start of an iteration.\<close>

definition adjustPrefix :: "printer \<Rightarrow> printer" where
  "adjustPrefix p =
     (let prefix = (if isDictKey (p_reader p) \<and> strEndsWith (p_prefix p) ''V ''
                    then take (length (p_prefix p) - 2) (p_prefix p) else p_prefix p);
          prefix' = (if strEndsWith prefix ''{ '' then prefix @ ''K ''
                     else if strEndsWith prefix ''K '' then take (length prefix - 2) prefix @ ''V ''
                     else prefix)
      in p\<lparr>p_prefix := prefix'\<rparr>)"

definition printBegin :: "string \<Rightarrow> string \<Rightarrow> reader \<Rightarrow> printer \<Rightarrow> print_step" where
  "printBegin what mark r p =
     PNext (p\<lparr>p_reader := r, p_out := p_out p @ p_prefix p @ ''begin '' @ what @ newline,
              p_prefix := p_prefix p @ mark\<rparr>)"

definition printEnd :: "string \<Rightarrow> nat \<Rightarrow> reader \<Rightarrow> printer \<Rightarrow> print_step" where
  "printEnd what n r p =
     (case dropEnd n (p_prefix p) of
        None \<Rightarrow> PThrows
      | Some prefix \<Rightarrow>
          PNext (p\<lparr>p_reader := r, p_prefix := prefix,
                   p_out := p_out p @ prefix @ ''end '' @ what @ newline\<rparr>))"

definition printByteArray :: "byte list \<Rightarrow> string" where
  "printByteArray bytes =
     ''array of bytes [ '' @ concat (case map (show_nat \<circ> unat) bytes of
        [] \<Rightarrow> [] | b # bs \<Rightarrow> b # concat (map (\<lambda>x. ['', '', x]) bs)) @ '' ]'' @ newline"

text \<open>A single value: what it looks like, and the reader after it.\<close>

definition printValue ::
  "(double \<Rightarrow> string) \<Rightarrow> printer \<Rightarrow> (string \<times> reader) option" where
  "printValue showDouble p =
     (let r = p_reader p; nil = p_inEmptyArray p;
          num = (\<lambda>name shown r'. Some (printMaybeNil (p_prefix p) nil shown name, r'));
          str = (\<lambda>name v r'. Some (printMaybeNil_cstring (p_prefix p) nil v name, r'))
      in case r_state r of
           Boolean \<Rightarrow>
             (let (v, r') = reader_readBoolean r
              in Some (p_prefix p @ ''bool: '' @
                   (if nil then ''<nil>'' else if v = Some True then ''true'' else ''false'') @ newline, r'))
         | Byte \<Rightarrow> (let (v, r') = reader_readByte r in num ''byte'' (map_option (show_nat \<circ> unat) v) r')
         | Int16 \<Rightarrow> (let (v, r') = reader_readInt16 r in num ''int16'' (map_option (show_int \<circ> sint) v) r')
         | Uint16 \<Rightarrow> (let (v, r') = reader_readUint16 r in num ''uint16'' (map_option (show_nat \<circ> unat) v) r')
         | Int32 \<Rightarrow> (let (v, r') = reader_readInt32 r in num ''int32'' (map_option (show_int \<circ> sint) v) r')
         | Uint32 \<Rightarrow> (let (v, r') = reader_readUint32 r in num ''uint32'' (map_option (show_nat \<circ> unat) v) r')
         | Int64 \<Rightarrow> (let (v, r') = reader_readInt64 r in num ''int64'' (map_option (show_int \<circ> sint) v) r')
         | Uint64 \<Rightarrow> (let (v, r') = reader_readUint64 r in num ''uint64'' (map_option (show_nat \<circ> unat) v) r')
         | Double \<Rightarrow> (let (v, r') = reader_readDouble r in num ''double'' (map_option showDouble v) r')
         | String \<Rightarrow> (let (v, r') = reader_readString r in str ''string'' v r')
         | ObjectPath \<Rightarrow> (let (v, r') = reader_readObjectPath r in str ''object path'' v r')
         | Signature \<Rightarrow> (let (v, r') = reader_readSignature r in str ''type signature'' v r')
         | UnixFd \<Rightarrow>
             (let (v, r') = reader_readUnixFd r in num ''file descriptor'' (map_option (show_int \<circ> sint) v) r')
         | _ \<Rightarrow> None)"

definition printStep :: "(double \<Rightarrow> string) \<Rightarrow> printer \<Rightarrow> print_step" where
  "printStep showDouble p0 =
     (let p = adjustPrefix p0; r = p_reader p in
      case r_state r of
        Finished \<Rightarrow> PDone (p_out p)
      | BeginStruct \<Rightarrow> printBegin ''struct'' ''( '' (reader_beginStruct r) p
      | EndStruct \<Rightarrow> printEnd ''struct'' 2 (reader_endStruct r) p
      | BeginVariant \<Rightarrow> printBegin ''variant'' ''* '' (reader_beginVariant r) p
      | EndVariant \<Rightarrow> printEnd ''variant'' 2 (reader_endVariant r) p
      | BeginArray \<Rightarrow>
          (if peekPrimitiveArray SkipIfEmpty r = Some Byte
           then (let ((_, bytes), r') = readPrimitiveArray r
                 in PNext (p\<lparr>p_reader := r', p_inEmptyArray := isInsideEmptyArray r',
                             p_out := p_out p @ p_prefix p @ printByteArray bytes\<rparr>))
           else (let (hasData, r') = reader_beginArray ReadTypesOnlyIfEmpty r
                 in printBegin ''array'' ''[ '' r' (p\<lparr>p_inEmptyArray := \<not> hasData\<rparr>)))
      | EndArray \<Rightarrow>
          (let r' = reader_endArray r
           in printEnd ''array'' 2 r' (p\<lparr>p_inEmptyArray := isInsideEmptyArray r'\<rparr>))
      | BeginDict \<Rightarrow>
          (let (hasData, r') = reader_beginDict ReadTypesOnlyIfEmpty r
           in printBegin ''dict'' ''{ '' r' (p\<lparr>p_inEmptyArray := \<not> hasData\<rparr>))
      | EndDict \<Rightarrow>
          (let r' = reader_endDict r
           in printEnd ''dict'' 4 r' (p\<lparr>p_inEmptyArray := isInsideEmptyArray r'\<rparr>))
      | _ \<Rightarrow>
          (case printValue showDouble p of
             Some (text, r') \<Rightarrow> PNext (p\<lparr>p_reader := r', p_out := p_out p @ text\<rparr>)
           | None \<Rightarrow> PDone (''<error: '' @ reader_stateString r @ ''>'' @ newline)))"

text \<open>\<open>None\<close>: the loop does not end, or throws.\<close>

partial_function (option) printLoop :: "(double \<Rightarrow> string) \<Rightarrow> printer \<Rightarrow> string option" where
  "printLoop showDouble p =
     (case printStep showDouble p of
        PNext p' \<Rightarrow> printLoop showDouble p'
      | PDone s \<Rightarrow> Some s
      | PThrows \<Rightarrow> None)"

declare printLoop.simps [code]

definition args_prettyPrint :: "(double \<Rightarrow> string) \<Rightarrow> arguments \<Rightarrow> string option" where
  "args_prettyPrint showDouble a =
     printLoop showDouble \<lparr>p_reader = Reader a, p_prefix = [], p_out = [], p_inEmptyArray = False\<rparr>"

end
