(* ===== verification/Message_Print.thy ===== *)
theory Message_Print
  imports Message_Model Arguments_Walk
begin

text \<open>
  The printed form of a message (\<^verbatim>\<open>Message::prettyPrint\<close> of \<^verbatim>\<open>serialization/message.cpp\<close>): its type, the headers that
  are present, and its arguments.
\<close>

definition stringHeaderPrinters :: "(variable_header \<times> string) list" where
  "stringHeaderPrinters =
     [(PathHeader, ''path''), (InterfaceHeader, ''interface''), (MethodHeader, ''method''),
      (ErrorNameHeader, ''error name''), (DestinationHeader, ''destination''), (SenderHeader, ''sender''),
      (SignatureHeader, ''signature'')]"

definition intHeaderPrinters :: "(variable_header \<times> string) list" where
  "intHeaderPrinters = [(ReplySerialHeader, ''reply serial''), (UnixFdsHeader, ''#unix fds'')]"

definition printableMessageTypes :: "string list" where
  "printableMessageTypes = [[], ''Method call'', ''Method return'', ''Method error return'', ''Signal'']"

definition printStringHeader :: "message \<Rightarrow> variable_header \<times> string \<Rightarrow> string" where
  "printStringHeader m = (\<lambda>(field, name).
     let (str, isPresent) = msg_stringHeader field m
     in if isPresent then ''; '' @ name @ '': '' @ quote_mark @ str @ quote_mark else [])"

definition printIntHeader :: "message \<Rightarrow> variable_header \<times> string \<Rightarrow> string" where
  "printIntHeader m = (\<lambda>(field, name).
     let (intValue, isPresent) = msg_intHeader field m
     in if isPresent then ''; '' @ name @ '': '' @ show_nat (unat intValue) else [])"

text \<open>\<open>None\<close>, when printing the arguments does not end or throws.\<close>

definition message_prettyPrint :: "(double \<Rightarrow> string) \<Rightarrow> message \<Rightarrow> string option" where
  "message_prettyPrint showDouble m =
     (if 1 \<le> m_messageType m \<and> m_messageType m < length printableMessageTypes then
        map_option (\<lambda>args. printableMessageTypes ! m_messageType m @
            concat (map (printStringHeader m) stringHeaderPrinters) @ concat (map (printIntHeader m) intHeaderPrinters) @
            newline @ args)
          (args_prettyPrint showDouble (m_mainArguments m))
      else Some (''Invalid message.'' @ newline))"

text \<open>Every header is printed, and read from the storage that it has.\<close>

lemma printers_complete:
  "field \<in> fst ` set stringHeaderPrinters \<longleftrightarrow> isStringHeader field"
  "field \<in> fst ` set intHeaderPrinters \<longleftrightarrow> \<not> isStringHeader field"
  by (cases field; simp add: stringHeaderPrinters_def intHeaderPrinters_def header_tables)+

text \<open>The printed form begins with the type, and shows the value of each header that is set, between quotation marks.\<close>

lemma string_header_printed:
  assumes "message_prettyPrint showDouble m = Some s" "m_messageType m \<in> {1..<5}"
    "(field, name) \<in> set stringHeaderPrinters" "hasStringHeader (m_varHeaders m) field"
  shows "\<exists>before after. s = printableMessageTypes ! m_messageType m @ before @
    ''; '' @ name @ '': '' @ quote_mark @ vh_stringHeader (m_varHeaders m) field @ quote_mark @ after"
proof -
  obtain xs ys where h: "stringHeaderPrinters = xs @ (field, name) # ys" using assms(3) by (meson split_list)
  have "concat (map (printStringHeader m) stringHeaderPrinters) =
      concat (map (printStringHeader m) xs) @ printStringHeader m (field, name) @ concat (map (printStringHeader m) ys)"
    unfolding h by simp
  moreover have "printStringHeader m (field, name) =
      ''; '' @ name @ '': '' @ quote_mark @ vh_stringHeader (m_varHeaders m) field @ quote_mark"
    using assms(4) by (simp add: printStringHeader_def msg_stringHeader_def)
  ultimately show ?thesis using assms(1,2)
    by (auto simp: message_prettyPrint_def printableMessageTypes_def)
qed

end
