(* ===== verification/Connect_Address.thy ===== *)
theory Connect_Address
  imports String_Tools
begin

text \<open>
  Bus and peer addresses (\<^verbatim>\<open>connection/connectaddress.cpp\<close>): the address object, the parser and the
  printer of address strings, and the search for the session bus.  Environment variables, files and
  the entry in the user database are parameters; the Windows parts are not modelled.
\<close>

subsection \<open>Addresses\<close>

datatype (plugins only: code size) address_type =
    NoneType | UnixPath | UnixDir | RuntimeDir | TmpDir | AbstractUnixPath | Tcp | Tcp4 | Tcp6

datatype role = NoneRole | BusClient | PeerClient | PeerServer

datatype standard_bus = SystemBus | SessionBus

record connect_address =
  ca_addrType :: address_type
  ca_role :: role
  ca_path :: string
  ca_hostname :: string
  ca_port :: int
  ca_guid :: string

definition isSomeTcpType :: "address_type \<Rightarrow> bool" where
  "isSomeTcpType t \<longleftrightarrow> t = Tcp \<or> t = Tcp4 \<or> t = Tcp6"

definition ConnectAddress :: connect_address where
  "ConnectAddress = \<lparr>ca_addrType = NoneType, ca_role = NoneRole, ca_path = [], ca_hostname = [],
     ca_port = - 1, ca_guid = []\<rparr>"

text \<open>\<^verbatim>\<open>operator==\<close>.\<close>

definition sameAddress :: "connect_address \<Rightarrow> connect_address \<Rightarrow> bool" where
  "sameAddress a b =
     (if ca_addrType a \<noteq> ca_addrType b \<or> ca_role a \<noteq> ca_role b \<or> ca_guid a \<noteq> ca_guid b then False
      else if isSomeTcpType (ca_addrType a) then ca_port a = ca_port b
      else ca_path a = ca_path b)"

definition isServerOnly :: "connect_address \<Rightarrow> bool" where
  "isServerOnly a =
     (case ca_addrType a of
        UnixDir \<Rightarrow> True | RuntimeDir \<Rightarrow> True | TmpDir \<Rightarrow> True
      | Tcp \<Rightarrow> ca_port a = - 1
      | _ \<Rightarrow> False)"

subsection \<open>Parsing\<close>

text \<open>The bits of \<^verbatim>\<open>UniqueCheck\<close>, and \<^verbatim>\<open>claim\<close> with the new set of claimed bits.\<close>

definition PathKey :: uint32 where "PathKey = 1"
definition HostKey :: uint32 where "HostKey = 2"
definition PortKey :: uint32 where "PortKey = 4"
definition FamilyKey :: uint32 where "FamilyKey = 8"
definition GuidKey :: uint32 where "GuidKey = 16"

lemmas key_defs = PathKey_def HostKey_def PortKey_def FamilyKey_def GuidKey_def

definition claim :: "uint32 \<Rightarrow> uint32 \<Rightarrow> bool \<times> uint32" where
  "claim key m = (and m key = 0, or m key)"

definition find_from :: "char \<Rightarrow> nat \<Rightarrow> string \<Rightarrow> nat option" where
  "find_from c start s =
     (let i = start + length (takeWhile (\<lambda>x. x \<noteq> c) (drop start s))
      in if i < length s then Some i else None)"

text \<open>
  One key with its value: whether the loop goes on, the claimed bits and the address as it is then,
  also after a refusal.
\<close>

definition pathKeyType :: "string \<Rightarrow> address_type" where
  "pathKeyType key =
     (if key = ''path'' then UnixPath
      else if key = ''abstract'' then AbstractUnixPath
      else if key = ''dir'' then UnixDir
      else if key = ''tmpdir'' then TmpDir
      else if key = ''runtime'' then RuntimeDir
      else NoneType)"

definition setKeyValue ::
  "string \<Rightarrow> string \<Rightarrow> uint32 \<Rightarrow> connect_address \<Rightarrow> bool \<times> uint32 \<times> connect_address" where
  "setKeyValue key value m a =
     (let newAddressType = pathKeyType key in
      if newAddressType = RuntimeDir \<and> value \<noteq> ''yes'' then (False, m, a)
      else if newAddressType \<noteq> NoneType then
        (let (ok, m1) = claim PathKey m in
         if \<not> ok then (False, m1, a)
         else if ca_addrType a \<noteq> UnixPath then (False, m1, a)
         else (let a1 = a\<lparr>ca_addrType := newAddressType\<rparr>
               in (True, m1, a1\<lparr>ca_path := (if newAddressType = RuntimeDir then [] else value)\<rparr>)))
      else if key = ''host'' then
        (let (ok, m1) = claim HostKey m in
         if \<not> ok then (False, m1, a)
         else if \<not> isSomeTcpType (ca_addrType a) then (False, m1, a)
         else (True, m1, a\<lparr>ca_hostname := value\<rparr>))
      else if key = ''port'' then
        (let (ok, m1) = claim PortKey m in
         if \<not> ok then (False, m1, a)
         else if \<not> isSomeTcpType (ca_addrType a) then (False, m1, a)
         else (let (convertOk, n) = dfFromString value (ca_port a); a1 = a\<lparr>ca_port := n\<rparr>
               in if \<not> convertOk \<or> ca_port a1 < 1 \<or> ca_port a1 > 65535 then (False, m1, a1)
                  else (True, m1, a1)))
      else if key = ''family'' then
        (let (ok, m1) = claim FamilyKey m in
         if \<not> ok then (False, m1, a)
         else if ca_addrType a \<noteq> Tcp then (False, m1, a)
         else if value = ''ipv4'' then (True, m1, a\<lparr>ca_addrType := Tcp4\<rparr>)
         else if value = ''ipv6'' then (True, m1, a\<lparr>ca_addrType := Tcp6\<rparr>)
         else (False, m1, a))
      else if key = ''guid'' then
        (let (ok, m1) = claim GuidKey m in
         if \<not> ok then (False, m1, a) else (True, m1, a\<lparr>ca_guid := value\<rparr>))
      else (False, m, a))"

function keyValueLoop ::
  "string \<Rightarrow> nat \<Rightarrow> uint32 \<Rightarrow> connect_address \<Rightarrow> bool \<times> uint32 \<times> connect_address" where
  "keyValueLoop addr keyStart m a =
     (if keyStart < length addr then
        (let valueEnd = (case find_from (CHR '','') keyStart addr of None \<Rightarrow> length addr | Some i \<Rightarrow> i) in
         case find_from (CHR ''='') keyStart addr of
           None \<Rightarrow> (False, m, a)
         | Some keyEnd \<Rightarrow>
             (if keyEnd = keyStart then (False, m, a)
              else (let valueStart = keyEnd + 1 in
                if valueEnd \<le> valueStart then (False, m, a)
                else (case setKeyValue (slice_at keyStart (keyEnd - keyStart) addr)
                             (slice_at valueStart (valueEnd - valueStart) addr) m a of
                        (ok, m1, a1) \<Rightarrow>
                          if ok then keyValueLoop addr (valueEnd + 1) m1 a1 else (False, m1, a1)))))
      else (True, m, a))"
  by pat_completeness auto
termination
  by (relation "measure (\<lambda>(addr, keyStart, _). length addr - keyStart)")
    (auto simp: find_from_def Let_def split: if_splits option.splits)

declare keyValueLoop.simps [simp del]

definition methodType :: "string \<Rightarrow> address_type" where
  "methodType method =
     (if method = ''unix'' then UnixPath
      else if method = ''unixexec'' then UnixPath
      else if method = ''tcp'' then Tcp
      else NoneType)"

definition finalCheck :: "uint32 \<Rightarrow> connect_address \<Rightarrow> bool" where
  "finalCheck m a =
     (if ca_addrType a = UnixPath \<or> ca_addrType a = AbstractUnixPath then ca_path a \<noteq> []
      else if isSomeTcpType (ca_addrType a) then \<not> fst (claim HostKey m)
      else True)"

definition setAddressFromString :: "string \<Rightarrow> connect_address \<Rightarrow> bool \<times> connect_address" where
  "setAddressFromString addr a0 =
     (let a = a0\<lparr>ca_addrType := NoneType, ca_path := [], ca_port := - 1, ca_guid := []\<rparr> in
      case find_from (CHR '':'') 0 addr of
        None \<Rightarrow> (False, a)
      | Some kvListStart \<Rightarrow>
          (if kvListStart = 0 then (False, a)
           else (let method = slice_at 0 kvListStart addr in
             if methodType method = NoneType then (False, a)
             else (case keyValueLoop addr (kvListStart + 1) 0 (a\<lparr>ca_addrType := methodType method\<rparr>) of
                     (ok, m, a1) \<Rightarrow> (ok \<and> finalCheck m a1, a1)))))"

subsection \<open>Printing\<close>

definition toString :: "connect_address \<Rightarrow> string" where
  "toString a =
     (let guidPart = (if ca_guid a \<noteq> [] then '',guid='' @ ca_guid a else []);
          port = dfToString (ca_port a)
      in case ca_addrType a of
           UnixPath \<Rightarrow> ''unix:path='' @ ca_path a @ guidPart
         | AbstractUnixPath \<Rightarrow> ''unix:abstract='' @ ca_path a @ guidPart
         | UnixDir \<Rightarrow> ''unix:dir='' @ ca_path a @ guidPart
         | TmpDir \<Rightarrow> ''unix:tmpdir='' @ ca_path a @ guidPart
         | RuntimeDir \<Rightarrow> ''unix:runtime=yes'' @ guidPart
         | Tcp \<Rightarrow> ''tcp:host=localhost,port='' @ port @ guidPart
         | Tcp4 \<Rightarrow> ''tcp:host=localhost,family=ipv4,port='' @ port @ guidPart
         | Tcp6 \<Rightarrow> ''tcp:host=localhost,family=ipv6,port='' @ port @ guidPart
         | NoneType \<Rightarrow> [])"

subsection \<open>The session bus\<close>

text \<open>The first word of a stream, as \<^verbatim>\<open>operator>>\<close> reads it.\<close>

definition firstWord :: "string \<Rightarrow> string" where
  "firstWord s = takeWhile (\<lambda>c. \<not> is_space c) (dropWhile is_space s)"

text \<open>
  \<open>getenv\<close> gives the environment, \<open>files\<close> the readable files, \<open>pw_dir\<close> the home directory of the user
  database.  A home directory that is nowhere to be found is a null pointer: \<open>None\<close>.
\<close>

definition homeDir :: "(string \<Rightarrow> string option) \<Rightarrow> string option \<Rightarrow> string option" where
  "homeDir getenv pw_dir = (case getenv ''HOME'' of None \<Rightarrow> pw_dir | Some home \<Rightarrow> Some home)"

definition machineUuid :: "(string \<Rightarrow> string option) \<Rightarrow> string" where
  "machineUuid files =
     foldl (\<lambda>uuid name. if uuid \<noteq> [] then uuid
              else (case files name of None \<Rightarrow> [] | Some s \<Rightarrow> firstWord s))
       [] [''/var/lib/dbus/machine-id'', ''/etc/machine-id'']"

definition sessionInfoFile ::
  "(string \<Rightarrow> string option) \<Rightarrow> (string \<Rightarrow> string option) \<Rightarrow> string option \<Rightarrow> string option" where
  "sessionInfoFile getenv files pw_dir =
     (let uuid = machineUuid files in
      if length uuid \<noteq> 32 then Some []
      else (case getenv ''DISPLAY'' of
              None \<Rightarrow> Some []
            | Some display \<Rightarrow>
                (if CHR '':'' \<notin> set display then Some []
                 else map_option
                   (\<lambda>home. home @ ''/.dbus/session-bus/'' @ uuid @ ''-'' @
                      rev (takeWhile (\<lambda>c. c \<noteq> CHR '':'') (rev display)))
                   (homeDir getenv pw_dir))))"

text \<open>
  The \<^verbatim>\<open>getline\<close> loop over the session file.  At the end of the file \<^verbatim>\<open>getline\<close> empties the string only
  if the last line ended in a newline; otherwise the last line stays in it.
\<close>

definition busAddressPrefix :: string where
  "busAddressPrefix = ''DBUS_SESSION_BUS_ADDRESS=''"

function sessionFileLoop :: "string \<Rightarrow> string" where
  "sessionFileLoop rest =
     (if rest = [] then []
      else (let line = takeWhile (\<lambda>c. c \<noteq> CHR 0x0A) rest;
                behind = dropWhile (\<lambda>c. c \<noteq> CHR 0x0A) rest
            in if take (length busAddressPrefix) line = busAddressPrefix
               then drop (length busAddressPrefix) line
               else if behind = [] then line
               else sessionFileLoop (tl behind)))"
  by pat_completeness auto
termination
proof (relation "measure length", simp)
  fix rest :: string and line behind
  assume "behind = dropWhile (\<lambda>c. c \<noteq> CHR 0x0A) rest" "behind \<noteq> []"
  then have "length (tl behind) < length behind" "length behind \<le> length rest"
    by (simp_all add: length_dropWhile_le)
  then show "(tl behind, rest) \<in> measure length" by simp
qed

declare sessionFileLoop.simps [simp del]

definition fetchSessionBusInfo ::
  "(string \<Rightarrow> string option) \<Rightarrow> (string \<Rightarrow> string option) \<Rightarrow> string option \<Rightarrow> string option" where
  "fetchSessionBusInfo getenv files pw_dir =
     (case getenv ''DBUS_SESSION_BUS_ADDRESS'' of
        Some envAddress \<Rightarrow> Some envAddress
      | None \<Rightarrow> map_option (\<lambda>name. case files name of None \<Rightarrow> [] | Some s \<Rightarrow> sessionFileLoop s)
                  (sessionInfoFile getenv files pw_dir))"

definition ConnectAddress_bus ::
  "(string \<Rightarrow> string option) \<Rightarrow> (string \<Rightarrow> string option) \<Rightarrow> string option \<Rightarrow> standard_bus \<Rightarrow>
     connect_address option" where
  "ConnectAddress_bus getenv files pw_dir bus =
     (let a = ConnectAddress\<lparr>ca_role := BusClient\<rparr> in
      case bus of
        SessionBus \<Rightarrow> map_option (\<lambda>s. snd (setAddressFromString s a)) (fetchSessionBusInfo getenv files pw_dir)
      | SystemBus \<Rightarrow> Some (a\<lparr>ca_addrType := UnixPath, ca_path := ''/var/run/dbus/system_bus_socket''\<rparr>))"

subsection \<open>The parser in terms of the parts of the string\<close>

text \<open>
  Reference: the method before the first colon, then the parts between commas (a comma at the very end
  is ignored), each a key and a value around its first equals sign, both of them nonempty.
\<close>

fun setParts :: "string list \<Rightarrow> uint32 \<Rightarrow> connect_address \<Rightarrow> bool \<times> uint32 \<times> connect_address" where
  "setParts [] m a = (True, m, a)"
| "setParts (part # parts) m a =
     (let key = takeWhile (\<lambda>c. c \<noteq> CHR ''='') part; value = drop (length key + 1) part in
      if key = [] \<or> value = [] then (False, m, a)
      else (case setKeyValue key value m a of
              (ok, m1, a1) \<Rightarrow> if ok then setParts parts m1 a1 else (False, m1, a1)))"

definition parseAddress :: "string \<Rightarrow> connect_address \<Rightarrow> bool \<times> connect_address" where
  "parseAddress addr a0 =
     (let a = a0\<lparr>ca_addrType := NoneType, ca_path := [], ca_port := - 1, ca_guid := []\<rparr>;
          method = takeWhile (\<lambda>c. c \<noteq> CHR '':'') addr
      in if CHR '':'' \<notin> set addr \<or> methodType method = NoneType then (False, a)
         else (case setParts (split (drop (length method + 1) addr) (CHR '','') True) 0
                     (a\<lparr>ca_addrType := methodType method\<rparr>) of
                 (ok, m, a1) \<Rightarrow> (ok \<and> finalCheck m a1, a1)))"

lemma split_rec:
  "split s c True =
     (if s = [] then [] else takeWhile (\<lambda>x. x \<noteq> c) s # split (tl (dropWhile (\<lambda>x. x \<noteq> c) s)) c True)"
proof -
  have "getline_parts c p s =
      (if s = [] \<and> p = [] then []
       else (rev p @ takeWhile (\<lambda>x. x \<noteq> c) s) # getline_parts c [] (tl (dropWhile (\<lambda>x. x \<noteq> c) s)))" for p
    by (induction s arbitrary: p) auto
  from this [of "[]"] show ?thesis by (simp add: split_def)
qed

lemma takeWhile_less: "length (takeWhile (\<lambda>x. x \<noteq> c) s) < length s \<longleftrightarrow> c \<in> set s"
  by (induction s) auto

lemma find_from_drop:
  "find_from c i s = (if c \<in> set (drop i s) then Some (i + length (takeWhile (\<lambda>x. x \<noteq> c) (drop i s))) else None)"
proof (cases "i \<le> length s")
  case True
  have "length (takeWhile (\<lambda>x. x \<noteq> c) (drop i s)) < length (drop i s) \<longleftrightarrow> c \<in> set (drop i s)"
    by (rule takeWhile_less)
  with True show ?thesis by (auto simp: find_from_def Let_def)
qed (simp add: find_from_def Let_def)

lemma takeWhile_in_prefix:
  assumes "d \<in> set (takeWhile (\<lambda>x. x \<noteq> c) s)"
  shows "takeWhile (\<lambda>x. x \<noteq> d) (takeWhile (\<lambda>x. x \<noteq> c) s) = takeWhile (\<lambda>x. x \<noteq> d) s"
  using assms by (induction s) (auto split: if_splits)

lemma takeWhile_not_in_prefix:
  assumes "d \<notin> set (takeWhile (\<lambda>x. x \<noteq> c) s)"
  shows "length (takeWhile (\<lambda>x. x \<noteq> c) s) \<le> length (takeWhile (\<lambda>x. x \<noteq> d) s)"
  using assms by (induction s) (auto split: if_splits)

lemma keyValueLoop_parts:
  "keyValueLoop addr i m a = setParts (split (drop i addr) (CHR '','') True) m a"
proof (induction "length addr - i" arbitrary: i m a rule: less_induct)
  case less
  let ?s = "drop i addr"
  let ?part = "takeWhile (\<lambda>x. x \<noteq> CHR '','') ?s"
  let ?key = "takeWhile (\<lambda>c. c \<noteq> CHR ''='') ?part"
  show ?case
  proof (cases "i < length addr")
    case False
    then show ?thesis by (simp add: keyValueLoop.simps [of addr i] split_rec)
  next
    case True
    define valueEnd where
      "valueEnd = (case find_from (CHR '','') i addr of None \<Rightarrow> length addr | Some j \<Rightarrow> j)"
    have ve: "valueEnd = i + length ?part"
    proof (cases "CHR '','' \<in> set ?s")
      case False
      then have "?part = ?s" by (auto simp: takeWhile_eq_all_conv)
      then have "length ?part = length addr - i" by (metis length_drop)
      with False True show ?thesis by (simp add: valueEnd_def find_from_drop)
    qed (simp add: valueEnd_def find_from_drop)
    have tail: "tl (dropWhile (\<lambda>x. x \<noteq> CHR '','') ?s) = drop (valueEnd + 1) addr"
      by (simp add: ve dropWhile_eq_drop drop_Suc [symmetric] tl_drop add.commute)
    have parts: "split ?s (CHR '','') True = ?part # split (drop (valueEnd + 1) addr) (CHR '','') True"
      using True by (subst split_rec) (simp add: tail)
    have part: "slice_at i (valueEnd - i) addr = ?part"
      using takeWhile_eq_take [of "\<lambda>x. x \<noteq> CHR '',''" ?s] by (simp add: slice_at_def ve)
    show ?thesis
    proof (cases "CHR ''='' \<in> set ?part")
      case False
      then have key: "?key = ?part" by (auto simp: takeWhile_eq_all_conv)
      have "find_from (CHR ''='') i addr = None \<or>
          (\<exists>k. find_from (CHR ''='') i addr = Some k \<and> valueEnd \<le> k)"
        using takeWhile_not_in_prefix [OF False] by (auto simp: find_from_drop ve)
      then show ?thesis
        using True unfolding keyValueLoop.simps [of addr i] parts
        by (auto simp: key Let_def valueEnd_def [symmetric])
    next
      case True
      then have in_s: "CHR ''='' \<in> set ?s" by (auto dest: set_takeWhileD)
      have k: "find_from (CHR ''='') i addr = Some (i + length ?key)"
        using in_s takeWhile_in_prefix [OF True] by (simp add: find_from_drop)
      have key: "slice_at i (length ?key) addr = ?key"
        using takeWhile_in_prefix [OF True] takeWhile_eq_take [of "\<lambda>x. x \<noteq> CHR ''=''" ?s]
        by (simp add: slice_at_def)
      have len: "length ?key < length ?part"
        using True by (simp only: takeWhile_less)
      have val_eq: "slice_at (i + length ?key + 1) (valueEnd - (i + length ?key + 1)) addr = drop (length ?key + 1) ?part"
      proof -
        have "drop (length ?key + 1) (slice_at i (valueEnd - i) addr) =
            slice_at (i + length ?key + 1) (valueEnd - (i + length ?key + 1)) addr"
          by (simp add: slice_at_def drop_take add.commute add.left_commute)
        then show ?thesis unfolding part by simp
      qed
      have empty: "drop (length ?key + 1) ?part = [] \<longleftrightarrow> valueEnd \<le> i + length ?key + 1"
        using len by (auto simp: ve)
      have "keyValueLoop addr (valueEnd + 1) m' a' =
          setParts (split (drop (valueEnd + 1) addr) (CHR '','') True) m' a'" for m' a'
        using \<open>i < length addr\<close> by (intro less) (simp add: ve)
      then show ?thesis
        using \<open>i < length addr\<close> k key val_eq empty unfolding keyValueLoop.simps [of addr i] parts
        by (simp add: Let_def valueEnd_def [symmetric] split: prod.split)
    qed
  qed
qed

lemma address_parser_eq: "setAddressFromString addr a = parseAddress addr a"
proof -
  let ?m = "takeWhile (\<lambda>c. c \<noteq> CHR '':'') addr"
  have m: "slice_at 0 (length ?m) addr = ?m"
    using takeWhile_eq_take [of "\<lambda>c. c \<noteq> CHR '':''" addr] by (simp add: slice_at_def)
  have "methodType [] = NoneType" by (simp add: methodType_def)
  then show ?thesis
    by (auto simp: setAddressFromString_def parseAddress_def find_from_drop m keyValueLoop_parts Let_def)
qed

text \<open>C9: The index-based parser computes what the reference does on the parts of the address string:
  the same answer and, also when it refuses the string, the same address.\<close>

theorem address_parser_reference: "setAddressFromString addr a = parseAddress addr a"
  by (rule address_parser_eq)

subsection \<open>Printing and parsing\<close>

text \<open>The addresses that \<^verbatim>\<open>toString\<close> can express: there is no escaping of commas.\<close>

definition printable_address :: "connect_address \<Rightarrow> bool" where
  "printable_address a \<longleftrightarrow> ca_addrType a \<noteq> NoneType \<and> CHR '','' \<notin> set (ca_guid a) \<and>
     (if isSomeTcpType (ca_addrType a) then 1 \<le> ca_port a \<and> ca_port a \<le> 65535
      else if ca_addrType a = RuntimeDir then ca_path a = []
      else ca_path a \<noteq> [] \<and> CHR '','' \<notin> set (ca_path a))"

lemma span_char:
  "c \<notin> set s \<Longrightarrow> takeWhile (\<lambda>x. x \<noteq> c) (s @ c # r) = s"
  "c \<notin> set s \<Longrightarrow> dropWhile (\<lambda>x. x \<noteq> c) (s @ c # r) = c # r"
  "c \<notin> set s \<Longrightarrow> takeWhile (\<lambda>x. x \<noteq> c) s = s" "c \<notin> set s \<Longrightarrow> dropWhile (\<lambda>x. x \<noteq> c) s = []"
  by (induction s) auto

lemma split_Nil [simp]: "split [] c True = []"
  by (simp add: split_def)

lemma split_single: "CHR '','' \<notin> set s \<Longrightarrow> s \<noteq> [] \<Longrightarrow> split s (CHR '','') True = [s]"
  by (subst split_rec) (simp add: span_char)

lemma split_comma:
  "CHR '','' \<notin> set s \<Longrightarrow> split (s @ CHR '','' # rest) (CHR '','') True = s # split rest (CHR '','') True"
  by (subst split_rec) (simp add: span_char)

definition guid_parts :: "string \<Rightarrow> string list" where
  "guid_parts g = (if g = [] then [] else [''guid='' @ g])"

lemma split_guid:
  assumes "CHR '','' \<notin> set s" and "s \<noteq> []" and "CHR '','' \<notin> set g"
  shows "split (s @ (if g \<noteq> [] then '',guid='' @ g else [])) (CHR '','') True = s # guid_parts g"
  using assms split_comma [OF assms(1), of "''guid='' @ g"] split_single [of "''guid='' @ g"] split_single [OF assms(1,2)]
  by (simp add: guid_parts_def)

lemma port_text:
  assumes "1 \<le> n"
  shows "CHR '','' \<notin> set (dfToString n)" "dfToString n \<noteq> []"
  using assms show_nat_value [of "nat n"] is_digit_not
  by (auto simp: dfToString_def show_int_def list_all_iff)

lemma claim_steps:
  "claim PathKey 0 = (True, 1)" "claim HostKey 0 = (True, 2)" "claim PortKey 2 = (True, 6)"
  "claim FamilyKey 2 = (True, 10)" "claim PortKey 10 = (True, 14)" "claim GuidKey 1 = (True, 17)"
  "claim GuidKey 6 = (True, 22)" "claim GuidKey 14 = (True, 30)"
  "fst (claim HostKey 6) = False" "fst (claim HostKey 22) = False" "fst (claim HostKey 14) = False"
  "fst (claim HostKey 30) = False"
  by (simp_all add: claim_def key_defs)

lemma setParts_guid:
  assumes "snd (claim GuidKey m) = m2" and "fst (claim GuidKey m)"
  shows "setParts (guid_parts g) m a = (True, (if g = [] then m else m2), (if g = [] then a else a\<lparr>ca_guid := g\<rparr>))"
proof -
  have "claim GuidKey m = (True, m2)" using assms by (metis prod.collapse)
  then show ?thesis by (simp add: guid_parts_def setKeyValue_def pathKeyType_def)
qed

lemma address_read_back:
  assumes "printable_address a"
  shows "\<exists>b'. setAddressFromString (toString a) b = (True, b') \<and>
     sameAddress b' (a\<lparr>ca_role := ca_role b\<rparr>)"
proof -
  have guid: "CHR '','' \<notin> set (ca_guid a)" using assms by (simp add: printable_address_def)
  show ?thesis
  proof (cases "isSomeTcpType (ca_addrType a)")
    case True
    then have p: "1 \<le> ca_port a" "ca_port a \<le> 65535" using assms by (simp_all add: printable_address_def)
    then have port: "dfFromString (dfToString (ca_port a)) n = (True, ca_port a)" for n
      by (intro number_read_back) (simp_all add: int_min_def int_max_def)
    note s = split_guid [of "''port='' @ dfToString (ca_port a)" "ca_guid a", simplified]
    from True have "ca_addrType a = Tcp \<or> ca_addrType a = Tcp4 \<or> ca_addrType a = Tcp6"
      by (simp add: isSomeTcpType_def)
    then show ?thesis
      using p guid port_text [OF p(1)] s
        split_comma [of "''host=localhost''"] split_comma [of "''family=ipv4''"] split_comma [of "''family=ipv6''"]
      by (elim disjE; simp add: address_parser_eq parseAddress_def toString_def methodType_def setKeyValue_def
          pathKeyType_def claim_steps port isSomeTcpType_def setParts_guid finalCheck_def sameAddress_def)
  next
    case False
    then have "ca_addrType a = UnixPath \<or> ca_addrType a = UnixDir \<or> ca_addrType a = RuntimeDir \<or>
        ca_addrType a = TmpDir \<or> ca_addrType a = AbstractUnixPath"
      using assms by (cases "ca_addrType a") (simp_all add: printable_address_def isSomeTcpType_def)
    then show ?thesis
      using False assms guid
        split_guid [of "''path='' @ ca_path a" "ca_guid a"] split_guid [of "''abstract='' @ ca_path a" "ca_guid a"]
        split_guid [of "''dir='' @ ca_path a" "ca_guid a"] split_guid [of "''tmpdir='' @ ca_path a" "ca_guid a"]
        split_guid [of "''runtime=yes''" "ca_guid a"]
      by (elim disjE; simp add: address_parser_eq parseAddress_def toString_def methodType_def setKeyValue_def
          pathKeyType_def claim_steps isSomeTcpType_def setParts_guid finalCheck_def sameAddress_def
          printable_address_def)
  qed
qed

text \<open>C30: A printable address is parsed back from its string into an equal address (the role is not part
  of the string and stays as it was), whatever the target held before.\<close>

theorem address_roundtrip:
  assumes "printable_address a"
  shows "\<exists>b'. setAddressFromString (toString a) b = (True, b') \<and>
     sameAddress b' (a\<lparr>ca_role := ca_role b\<rparr>)"
  using assms by (rule address_read_back)

theorem address_roundtrip_witness:
  "\<exists>b'. setAddressFromString (toString (ConnectAddress\<lparr>ca_addrType := Tcp6, ca_port := 4711, ca_guid := ''00ff''\<rparr>))
       ConnectAddress = (True, b') \<and> ca_port b' = 4711 \<and> ca_addrType b' = Tcp6"
  using address_roundtrip [of "ConnectAddress\<lparr>ca_addrType := Tcp6, ca_port := 4711, ca_guid := ''00ff''\<rparr>" ConnectAddress]
  by (auto simp: printable_address_def isSomeTcpType_def ConnectAddress_def sameAddress_def split: if_splits)

text \<open>The host of a TCP address gets lost: the printed string always names localhost, and two
  addresses of different hosts count as the same address.\<close>

theorem address_host_is_lost:
  "(let a = snd (setAddressFromString ''tcp:host=10.0.0.1,port=80'' ConnectAddress);
        b = snd (setAddressFromString ''tcp:host=10.0.0.2,port=80'' ConnectAddress)
    in ca_hostname a = ''10.0.0.1'' \<and> ca_hostname b = ''10.0.0.2'' \<and> sameAddress a b \<and>
       toString a = ''tcp:host=localhost,port=80'')"
  by code_simp

text \<open>The string of a TCP address whose port the server is to choose, which counts as server-only,
  is refused by the parser.\<close>

theorem server_address_not_parsed:
  "isServerOnly (ConnectAddress\<lparr>ca_addrType := Tcp\<rparr>) \<and>
   \<not> fst (setAddressFromString (toString (ConnectAddress\<lparr>ca_addrType := Tcp\<rparr>)) ConnectAddress)"
  by code_simp

end
