(* ===== verification/Event_Dispatcher.thy ===== *)
theory Event_Dispatcher
  imports Dfer_Types "HOL-Library.While_Combinator"
begin

text \<open>
  Timers and their dispatch (\<^verbatim>\<open>events/timer.cpp\<close>, the timer part of \<^verbatim>\<open>events/eventdispatcher.cpp\<close>).
  The \<^verbatim>\<open>multimap\<close> \<open>d_timers\<close> is the list of its entries in iteration order; an entry has an identity, so
  that an iterator is the identity of its entry and stays valid while other entries come and go.  The
  clock of \<^verbatim>\<open>platformtime.cpp\<close> is the field \<open>d_clock\<close>.  The code behind a completion listener is a
  parameter: a script of timer calls for each timer.  \<open>d_fault\<close> is set where an execution uses an iterator
  or a pointer that is not valid.
\<close>

subsection \<open>State\<close>

record timer =
  t_interval :: int
  t_isRunning :: bool
  t_isRepeating :: bool
  t_nextDueTime :: int        \<comment> \<open>54 bits\<close>
  t_serial :: int             \<comment> \<open>10 bits\<close>
  t_hasListener :: bool
  t_guarded :: bool           \<comment> \<open>\<^verbatim>\<open>m_reentrancyGuard\<close> is set\<close>
  t_attached :: bool          \<comment> \<open>\<^verbatim>\<open>m_eventDispatcher\<close> is set\<close>

definition Timer :: timer where
  "Timer = \<lparr>t_interval = 0, t_isRunning = False, t_isRepeating = True, t_nextDueTime = 0, t_serial = 0,
            t_hasListener = False, t_guarded = False, t_attached = True\<rparr>"

definition timer_tag :: "timer \<Rightarrow> int" where
  "timer_tag t = (t_nextDueTime t * 1024 + t_serial t) mod 2 ^ 64"

record timer_entry =
  te_id :: nat
  te_tag :: int
  te_timer :: "nat option"    \<comment> \<open>None: the null pointer\<close>

datatype timer_iterator = NoIterator | AtEnd | AtEntry nat

record dispatcher =
  d_timers :: "timer_entry list"
  d_nextEntry :: nat
  d_objects :: "nat \<Rightarrow> timer option"     \<comment> \<open>the \<^verbatim>\<open>Timer\<close> objects\<close>
  d_nextObject :: nat
  d_currentTimerSerial :: int
  d_triggerTime :: int
  d_serialsCompacted :: bool
  d_adjustedIteratorOfNextTimer :: timer_iterator
  d_integrator :: bool
  d_watched :: "int list"                \<comment> \<open>the calls of \<^verbatim>\<open>watchTimeout\<close>\<close>
  d_clock :: int
  d_triggered :: "nat list"              \<comment> \<open>the calls of completion listeners\<close>
  d_fault :: bool

definition s_maxTimerSerial :: int where "s_maxTimerSerial = 0x3ff"

definition EventDispatcher :: "bool \<Rightarrow> int \<Rightarrow> dispatcher" where
  "EventDispatcher integrator clock = \<lparr>d_timers = [], d_nextEntry = 0, d_objects = Map.empty,
     d_nextObject = 0, d_currentTimerSerial = 0, d_triggerTime = 0, d_serialsCompacted = False,
     d_adjustedIteratorOfNextTimer = NoIterator, d_integrator = integrator, d_watched = [],
     d_clock = clock, d_triggered = [], d_fault = False\<rparr>"

definition d_undefined :: "dispatcher \<Rightarrow> dispatcher" where
  "d_undefined d = d\<lparr>d_fault := True\<rparr>"

definition updateTimer :: "nat \<Rightarrow> (timer \<Rightarrow> timer) \<Rightarrow> dispatcher \<Rightarrow> dispatcher" where
  "updateTimer tm f d =
     (case d_objects d tm of
        None \<Rightarrow> d_undefined d
      | Some t \<Rightarrow> d\<lparr>d_objects := (d_objects d)(tm := Some (f t))\<rparr>)"

subsection \<open>The map of timers\<close>

fun insert_entry :: "timer_entry \<Rightarrow> timer_entry list \<Rightarrow> timer_entry list" where
  "insert_entry e [] = [e]"
| "insert_entry e (x # xs) = (if te_tag e < te_tag x then e # x # xs else x # insert_entry e xs)"

definition emplace :: "int \<Rightarrow> nat \<Rightarrow> dispatcher \<Rightarrow> timer_iterator \<times> dispatcher" where
  "emplace tag tm d =
     (AtEntry (d_nextEntry d),
      d\<lparr>d_timers := insert_entry \<lparr>te_id = d_nextEntry d, te_tag = tag, te_timer = Some tm\<rparr> (d_timers d),
        d_nextEntry := d_nextEntry d + 1\<rparr>)"

fun first_entry :: "timer_entry list \<Rightarrow> timer_iterator" where
  "first_entry [] = AtEnd"
| "first_entry (x # _) = AtEntry (te_id x)"

fun next_entry :: "nat \<Rightarrow> timer_entry list \<Rightarrow> timer_iterator" where
  "next_entry i [] = AtEnd"
| "next_entry i (x # xs) = (if te_id x = i then first_entry xs else next_entry i xs)"

definition erase_entry :: "nat \<Rightarrow> dispatcher \<Rightarrow> timer_iterator \<times> dispatcher" where
  "erase_entry i d =
     (next_entry i (d_timers d), d\<lparr>d_timers := filter (\<lambda>e. te_id e \<noteq> i) (d_timers d)\<rparr>)"

definition entry_at :: "timer_iterator \<Rightarrow> dispatcher \<Rightarrow> timer_entry option" where
  "entry_at it d = (case it of AtEntry i \<Rightarrow> find (\<lambda>e. te_id e = i) (d_timers d) | _ \<Rightarrow> None)"

text \<open>\<open>int_of_u64\<close>: the conversion of a \<^verbatim>\<open>uint64\<close> to the \<^verbatim>\<open>int\<close> that is returned.\<close>

definition int_of_u64 :: "int \<Rightarrow> int" where
  "int_of_u64 n = sint (of_int n :: 32 word)"

definition timeToFirstDueTimer :: "dispatcher \<Rightarrow> int" where
  "timeToFirstDueTimer d =
     (let es = (case d_timers d of
                  e # rest \<Rightarrow> if te_timer e = None then rest else e # rest
                | [] \<Rightarrow> [])
      in case es of
           [] \<Rightarrow> - 1
         | e # _ \<Rightarrow>
             (let nextTimeout = te_tag e div 1024 in
              if nextTimeout \<le> d_clock d then 0 else int_of_u64 (nextTimeout - d_clock d)))"

definition maybeSetTimeoutForIntegrator :: "dispatcher \<Rightarrow> dispatcher" where
  "maybeSetTimeoutForIntegrator d =
     (if d_integrator d then d\<lparr>d_watched := d_watched d @ [timeToFirstDueTimer d]\<rparr> else d)"

text \<open>
  Renumbering.  The state of the loop: the new serial, the iterator, \<^verbatim>\<open>pickNextTimer\<close>, the dispatcher.
  \<open>newSerial - 1\<close> in the branch for dead entries is the decrement before the increment of the loop.
\<close>

definition compactStep :: "int \<times> timer_iterator \<times> bool \<times> dispatcher \<Rightarrow> int \<times> timer_iterator \<times> bool \<times> dispatcher" where
  "compactStep = (\<lambda>(newSerial, it, pickNextTimer, d).
     case entry_at it d of
       None \<Rightarrow> (newSerial + 1, it, pickNextTimer, d_undefined d)
     | Some e \<Rightarrow>
         (case erase_entry (te_id e) d of (it', d1) \<Rightarrow>
           (case (if pickNextTimer then Some True
                  else case te_timer e of
                         None \<Rightarrow> Some False
                       | Some tm \<Rightarrow> map_option t_isRunning (d_objects d1 tm)) of
              None \<Rightarrow> (newSerial + 1, it', pickNextTimer, d_undefined d1)
            | Some False \<Rightarrow>
                (newSerial, it', True, d1\<lparr>d_adjustedIteratorOfNextTimer := AtEnd\<rparr>)
            | Some True \<Rightarrow>
                (case te_timer e of
                   None \<Rightarrow> (newSerial + 1, it', pickNextTimer, d_undefined d1)
                 | Some tm \<Rightarrow>
                     (let d2 = updateTimer tm (\<lambda>t. t\<lparr>t_serial := newSerial\<rparr>) d1;
                          tag = (case d_objects d2 tm of None \<Rightarrow> 0 | Some t \<Rightarrow> timer_tag t);
                          (pos, d3) = emplace tag tm d2
                      in (newSerial + 1, it', False,
                          if pickNextTimer then d3\<lparr>d_adjustedIteratorOfNextTimer := pos\<rparr> else d3))))))"

fun compactLoop :: "nat \<Rightarrow> nat \<Rightarrow> int \<times> timer_iterator \<times> bool \<times> dispatcher \<Rightarrow> dispatcher" where
  "compactLoop 0 timersCount (newSerial, it, pick, d) = d"
| "compactLoop (Suc n) timersCount (newSerial, it, pick, d) =
     (if newSerial < int timersCount \<and> \<not> d_fault d
      then compactLoop n timersCount (compactStep (newSerial, it, pick, d)) else d)"

text \<open>
  At most one entry is dead, so \<open>timersCount + 1\<close> iterations end the loop; with more dead entries the
  iterator passes the end of the map first, which is a fault.
\<close>

definition tryCompactTimerSerials :: "dispatcher \<Rightarrow> dispatcher" where
  "tryCompactTimerSerials d =
     (let timersCount = length (d_timers d) in
      if s_maxTimerSerial * 9 \<le> int timersCount * 10 then d\<lparr>d_currentTimerSerial := 0\<rparr>
      else (compactLoop (2 * timersCount + 2) timersCount (0, first_entry (d_timers d), False, d))
             \<lparr>d_serialsCompacted := True, d_currentTimerSerial := int timersCount\<rparr>)"

definition nextTimerSerial :: "dispatcher \<Rightarrow> int \<times> dispatcher" where
  "nextTimerSerial d =
     (let d1 = (if s_maxTimerSerial < d_currentTimerSerial d then tryCompactTimerSerials d else d)
      in (d_currentTimerSerial d1, d1\<lparr>d_currentTimerSerial := d_currentTimerSerial d1 + 1\<rparr>))"

definition addTimer :: "nat \<Rightarrow> dispatcher \<Rightarrow> dispatcher" where
  "addTimer tm d =
     (case nextTimerSerial d of (serial, d1) \<Rightarrow>
        (case d_objects d1 tm of
           None \<Rightarrow> d_undefined d1
         | Some t \<Rightarrow>
             (let dueTime = (if t_interval t \<noteq> 0 \<or> d_triggerTime d1 = 0
                             then (d_clock d1 + t_interval t) mod 2 ^ 64 else 0);
                  t' = t\<lparr>t_serial := serial mod 1024, t_nextDueTime := dueTime mod 2 ^ 54\<rparr>;
                  d2 = d1\<lparr>d_objects := (d_objects d1)(tm := Some t')\<rparr>
              in maybeSetTimeoutForIntegrator (snd (emplace (timer_tag t') tm d2)))))"

text \<open>Without an entry for the timer the function asserts, and returns.\<close>

definition removeTimer :: "nat \<Rightarrow> dispatcher \<Rightarrow> dispatcher" where
  "removeTimer tm d =
     (case d_objects d tm of
        None \<Rightarrow> d_undefined d
      | Some t \<Rightarrow>
          (case find (\<lambda>e. te_tag e = timer_tag t \<and> te_timer e = Some tm) (d_timers d) of
             None \<Rightarrow> d
           | Some e \<Rightarrow>
               maybeSetTimeoutForIntegrator
                 (if \<not> t_guarded t then snd (erase_entry (te_id e) d)
                  else d\<lparr>d_timers := map (\<lambda>x. if te_id x = te_id e then x\<lparr>te_timer := None\<rparr> else x)
                                      (d_timers d)\<rparr>)))"

subsection \<open>Timer\<close>

text \<open>\<open>with_timer\<close> runs an operation on an object that exists and has a dispatcher, or is a fault.\<close>

definition with_timer :: "nat \<Rightarrow> (timer \<Rightarrow> dispatcher) \<Rightarrow> dispatcher \<Rightarrow> dispatcher" where
  "with_timer tm f d = (case d_objects d tm of None \<Rightarrow> d_undefined d | Some t \<Rightarrow> f t)"

definition timer_new :: "dispatcher \<Rightarrow> dispatcher" where
  "timer_new d = d\<lparr>d_objects := (d_objects d)(d_nextObject d := Some Timer),
                   d_nextObject := d_nextObject d + 1\<rparr>"

definition timer_destroy :: "nat \<Rightarrow> dispatcher \<Rightarrow> dispatcher" where
  "timer_destroy tm d = with_timer tm (\<lambda>t.
     let d1 = (if t_isRunning t \<or> t_guarded t
               then (if t_attached t then removeTimer tm d else d_undefined d) else d)
     in d1\<lparr>d_objects := (d_objects d1)(tm := None)\<rparr>) d"

definition timer_start :: "nat \<Rightarrow> int \<Rightarrow> dispatcher \<Rightarrow> dispatcher" where
  "timer_start tm msec d = with_timer tm (\<lambda>t.
     if \<not> t_guarded t \<and> \<not> t_attached t then d_undefined d
     else
       (let d1 = (if \<not> t_guarded t \<and> t_isRunning t then removeTimer tm d else d);
            d2 = updateTimer tm (\<lambda>t. t\<lparr>t_interval := msec, t_isRunning := True\<rparr>) d1
        in if \<not> t_guarded t then addTimer tm d2 else d2)) d"

definition timer_setRunning :: "nat \<Rightarrow> bool \<Rightarrow> dispatcher \<Rightarrow> dispatcher" where
  "timer_setRunning tm run d = with_timer tm (\<lambda>t.
     if t_isRunning t = run then d
     else
       (let d1 = updateTimer tm (\<lambda>t. t\<lparr>t_isRunning := run\<rparr>) d in
        if t_guarded t then d1
        else if \<not> t_attached t then d_undefined d1
        else if run then addTimer tm d1 else removeTimer tm d1)) d"

definition timer_stop :: "nat \<Rightarrow> dispatcher \<Rightarrow> dispatcher" where
  "timer_stop tm d = timer_setRunning tm False d"

definition timer_setInterval :: "nat \<Rightarrow> int \<Rightarrow> dispatcher \<Rightarrow> dispatcher" where
  "timer_setInterval tm msec d = with_timer tm (\<lambda>t.
     if t_interval t = msec then d
     else
       (let d1 = updateTimer tm (\<lambda>t. t\<lparr>t_interval := msec\<rparr>) d in
        if t_isRunning t \<and> \<not> t_guarded t
        then (if t_attached t then addTimer tm (removeTimer tm d1) else d_undefined d1)
        else d1)) d"

definition timer_setRepeating :: "nat \<Rightarrow> bool \<Rightarrow> dispatcher \<Rightarrow> dispatcher" where
  "timer_setRepeating tm repeating d = updateTimer tm (\<lambda>t. t\<lparr>t_isRepeating := repeating\<rparr>) d"

definition timer_setCompletionListener :: "nat \<Rightarrow> bool \<Rightarrow> dispatcher \<Rightarrow> dispatcher" where
  "timer_setCompletionListener tm present d = updateTimer tm (\<lambda>t. t\<lparr>t_hasListener := present\<rparr>) d"

definition timer_remainingTime :: "nat \<Rightarrow> dispatcher \<Rightarrow> int option" where
  "timer_remainingTime tm d =
     map_option (\<lambda>t. if \<not> t_isRunning t then - 1
                     else if t_nextDueTime t < d_clock d then 0
                     else min (2 ^ 31 - 1) (t_nextDueTime t - d_clock d)) (d_objects d tm)"

text \<open>The calls a client makes, in a callback or outside of one; time passes by the last.\<close>

datatype timer_call =
    NewTimer | DestroyTimer nat | StartTimer nat int | SetRunning nat bool | SetInterval nat int
  | SetRepeating nat bool | SetListener nat bool | Pass nat

text \<open>A client calls only timers that exist: other calls are not made.\<close>

fun callee :: "timer_call \<Rightarrow> nat option" where
  "callee (DestroyTimer tm) = Some tm"
| "callee (StartTimer tm msec) = Some tm"
| "callee (SetRunning tm run) = Some tm"
| "callee (SetInterval tm msec) = Some tm"
| "callee (SetRepeating tm b) = Some tm"
| "callee (SetListener tm b) = Some tm"
| "callee _ = None"

definition callable :: "timer_call \<Rightarrow> dispatcher \<Rightarrow> bool" where
  "callable c d = (case callee c of None \<Rightarrow> True | Some tm \<Rightarrow> d_objects d tm \<noteq> None)"

fun do_call :: "timer_call \<Rightarrow> dispatcher \<Rightarrow> dispatcher" where
  "do_call NewTimer d = timer_new d"
| "do_call (DestroyTimer tm) d = timer_destroy tm d"
| "do_call (StartTimer tm msec) d = timer_start tm msec d"
| "do_call (SetRunning tm run) d = timer_setRunning tm run d"
| "do_call (SetInterval tm msec) d = timer_setInterval tm msec d"
| "do_call (SetRepeating tm b) d = timer_setRepeating tm b d"
| "do_call (SetListener tm b) d = timer_setCompletionListener tm b d"
| "do_call (Pass msec) d = d\<lparr>d_clock := d_clock d + int msec\<rparr>"

definition timer_calls :: "timer_call list \<Rightarrow> dispatcher \<Rightarrow> dispatcher" where
  "timer_calls cs d = fold (\<lambda>c d. if callable c d then do_call c d else d) cs d"

text \<open>\<open>script tm\<close>: what the listener of timer \<open>tm\<close> does.\<close>

definition timer_trigger :: "(nat \<Rightarrow> timer_call list) \<Rightarrow> nat \<Rightarrow> dispatcher \<Rightarrow> dispatcher" where
  "timer_trigger script tm d = with_timer tm (\<lambda>t.
     if t_guarded t then d
     else
       (let d1 = updateTimer tm (\<lambda>t. t\<lparr>t_isRunning := t_isRunning t \<and> t_isRepeating t, t_guarded := True\<rparr>) d;
            d2 = (if t_hasListener t
                  then timer_calls (script tm) (d1\<lparr>d_triggered := d_triggered d1 @ [tm]\<rparr>) else d1)
        in if d_objects d2 tm = None then d2
           else updateTimer tm (\<lambda>t. t\<lparr>t_guarded := False\<rparr>) d2)) d"

subsection \<open>Dispatch\<close>

text \<open>The part of an iteration after the callback, for a timer whose entry is \<open>i\<close>.\<close>

definition afterTrigger :: "nat \<Rightarrow> dispatcher \<Rightarrow> timer_iterator \<times> dispatcher" where
  "afterTrigger i d =
     (case entry_at (AtEntry i) d of
        None \<Rightarrow> (AtEnd, d_undefined d)
      | Some e \<Rightarrow>
          (case te_timer e of
             None \<Rightarrow> erase_entry i d
           | Some tm \<Rightarrow>
               (case d_objects d tm of
                  None \<Rightarrow> (AtEnd, d_undefined d)
                | Some t \<Rightarrow>
                    if \<not> t_isRunning t then erase_entry i d
                    else if t_interval t = 0 \<and> t_nextDueTime t \<noteq> 0
                    then (next_entry i (d_timers d), d)
                    else
                      (let t' = t\<lparr>t_nextDueTime :=
                                   (d_triggerTime d + t_interval t) mod 2 ^ 54\<rparr>;
                           d1 = d\<lparr>d_objects := (d_objects d)(tm := Some t')\<rparr>
                       in case erase_entry i d1 of (it, d2) \<Rightarrow>
                            (it, snd (emplace (timer_tag t') tm d2))))))"

definition triggerStep :: "(nat \<Rightarrow> timer_call list) \<Rightarrow> timer_iterator \<times> dispatcher \<Rightarrow> timer_iterator \<times> dispatcher" where
  "triggerStep script = (\<lambda>(it, d).
     case entry_at it d of
       None \<Rightarrow> (AtEnd, d_undefined d)
     | Some e \<Rightarrow>
         (case te_timer e of
            None \<Rightarrow> (AtEnd, d_undefined d)
          | Some tm \<Rightarrow>
              (case d_objects d tm of
                 None \<Rightarrow> (AtEnd, d_undefined d)
               | Some t \<Rightarrow>
                   (let d1 = d\<lparr>d_serialsCompacted := False\<rparr>;
                        d2 = (if t_nextDueTime t \<noteq> 0 then timer_trigger script tm d1 else d1)
                    in if d_serialsCompacted d2 then (d_adjustedIteratorOfNextTimer d2, d2)
                       else afterTrigger (te_id e) d2))))"

definition triggerTest :: "timer_iterator \<times> dispatcher \<Rightarrow> bool" where
  "triggerTest = (\<lambda>(it, d). it \<noteq> AtEnd \<and> \<not> d_fault d \<and>
     (case entry_at it d of None \<Rightarrow> True | Some e \<Rightarrow> te_tag e div 1024 \<le> d_triggerTime d))"

text \<open>\<open>None\<close>: the loop does not end.\<close>

definition triggerDueTimers :: "(nat \<Rightarrow> timer_call list) \<Rightarrow> dispatcher \<Rightarrow> dispatcher option" where
  "triggerDueTimers script d =
     (let d1 = d\<lparr>d_triggerTime := d_clock d\<rparr>
      in map_option (\<lambda>(it, d2). maybeSetTimeoutForIntegrator (d2\<lparr>d_triggerTime := 0\<rparr>))
           (while_option triggerTest (triggerStep script) (first_entry (d_timers d1), d1)))"

text \<open>The timers when the dispatcher is destroyed.\<close>

definition detachTimers :: "dispatcher \<Rightarrow> dispatcher" where
  "detachTimers d = fold (\<lambda>e d. case te_timer e of
       None \<Rightarrow> d_undefined d
     | Some tm \<Rightarrow> updateTimer tm (\<lambda>t. t\<lparr>t_attached := False, t_isRunning := False\<rparr>) d) (d_timers d) d"

text \<open>How long \<^verbatim>\<open>poll\<close> lets its poller wait.\<close>

definition poll_timeout :: "int \<Rightarrow> dispatcher \<Rightarrow> int" where
  "poll_timeout timeout d =
     (let nextDue = timeToFirstDueTimer d in
      if timeout < 0 then nextDue else if 0 \<le> nextDue then min timeout nextDue else timeout)"

end
