(* ===== verification/Timer_Map.thy ===== *)
theory Timer_Map
  imports Event_Dispatcher
begin

text \<open>
  The invariant of the map of timers of \<^verbatim>\<open>eventdispatcher.cpp\<close> and its preservation by every call of the
  timer interface, renumbering of the serials included.
\<close>

subsection \<open>The invariant of the map\<close>

text \<open>
  \<open>g\<close>: the entry and the timer whose callback runs, if one does; its timer may have been stopped or
  destroyed.  \<open>x\<close>: timers in transition, which may be running without an entry, or the other way round.
\<close>

definition timer_ok :: "timer \<Rightarrow> bool" where
  "timer_ok t \<longleftrightarrow> t_attached t \<and> 0 \<le> t_nextDueTime t \<and> t_nextDueTime t < 2 ^ 54 \<and> 0 \<le> t_serial t \<and> t_serial t < 1024"

definition entry_ok :: "dispatcher \<Rightarrow> (nat \<times> nat) option \<Rightarrow> nat set \<Rightarrow> timer_entry \<Rightarrow> bool" where
  "entry_ok d g x e \<longleftrightarrow> te_id e < d_nextEntry d \<and>
     (case te_timer e of
        None \<Rightarrow> (\<exists>tm. g = Some (te_id e, tm))
      | Some tm \<Rightarrow> (case d_objects d tm of
            None \<Rightarrow> False
          | Some t \<Rightarrow> te_tag e = timer_tag t \<and> (t_guarded t \<longrightarrow> g = Some (te_id e, tm)) \<and>
              (\<not> t_guarded t \<longrightarrow> t_isRunning t \<or> tm \<in> x)))"

definition object_ok :: "dispatcher \<Rightarrow> (nat \<times> nat) option \<Rightarrow> nat set \<Rightarrow> nat \<Rightarrow> timer \<Rightarrow> bool" where
  "object_ok d g x tm t \<longleftrightarrow> timer_ok t \<and> tm < d_nextObject d \<and>
     (t_guarded t \<longrightarrow> (\<exists>i. g = Some (i, tm))) \<and>
     (t_isRunning t \<and> \<not> t_guarded t \<and> tm \<notin> x \<longrightarrow> Some tm \<in> te_timer ` set (d_timers d))"

definition guard_ok :: "dispatcher \<Rightarrow> (nat \<times> nat) option \<Rightarrow> bool" where
  "guard_ok d g \<longleftrightarrow> (\<forall>i tm. g = Some (i, tm) \<longrightarrow>
     (\<exists>e\<in>set (d_timers d). te_id e = i \<and> te_timer e = (if d_objects d tm = None then None else Some tm)) \<and>
     (\<forall>t. d_objects d tm = Some t \<longrightarrow> t_guarded t) \<and> tm < d_nextObject d)"

definition d_inv :: "(nat \<times> nat) option \<Rightarrow> nat set \<Rightarrow> dispatcher \<Rightarrow> bool" where
  "d_inv g x d \<longleftrightarrow> sorted (map te_tag (d_timers d)) \<and> distinct (map te_id (d_timers d)) \<and>
     distinct (map te_timer (d_timers d)) \<and> (\<forall>e\<in>set (d_timers d). entry_ok d g x e) \<and>
     (\<forall>tm t. d_objects d tm = Some t \<longrightarrow> object_ok d g x tm t) \<and> guard_ok d g \<and>
     0 \<le> d_currentTimerSerial d \<and> d_currentTimerSerial d \<le> 1024 \<and> \<not> d_fault d"

lemmas d_inv_defs = d_inv_def entry_ok_def object_ok_def guard_ok_def

lemma ok_frame [simp]:
  "entry_ok (d\<lparr>d_watched := w\<rparr>) = entry_ok d"
  "object_ok (d\<lparr>d_watched := w\<rparr>) = object_ok d"
  "guard_ok (d\<lparr>d_watched := w\<rparr>) = guard_ok d"
  "entry_ok (d\<lparr>d_clock := c\<rparr>) = entry_ok d"
  "object_ok (d\<lparr>d_clock := c\<rparr>) = object_ok d"
  "guard_ok (d\<lparr>d_clock := c\<rparr>) = guard_ok d"
  "entry_ok (d\<lparr>d_triggered := l\<rparr>) = entry_ok d"
  "object_ok (d\<lparr>d_triggered := l\<rparr>) = object_ok d"
  "guard_ok (d\<lparr>d_triggered := l\<rparr>) = guard_ok d"
  "entry_ok (d\<lparr>d_triggerTime := c\<rparr>) = entry_ok d"
  "object_ok (d\<lparr>d_triggerTime := c\<rparr>) = object_ok d"
  "guard_ok (d\<lparr>d_triggerTime := c\<rparr>) = guard_ok d"
  "entry_ok (d\<lparr>d_serialsCompacted := b\<rparr>) = entry_ok d"
  "object_ok (d\<lparr>d_serialsCompacted := b\<rparr>) = object_ok d"
  "guard_ok (d\<lparr>d_serialsCompacted := b\<rparr>) = guard_ok d"
  "entry_ok (d\<lparr>d_adjustedIteratorOfNextTimer := it\<rparr>) = entry_ok d"
  "object_ok (d\<lparr>d_adjustedIteratorOfNextTimer := it\<rparr>) = object_ok d"
  "guard_ok (d\<lparr>d_adjustedIteratorOfNextTimer := it\<rparr>) = guard_ok d"
  by (simp_all add: fun_eq_iff entry_ok_def object_ok_def guard_ok_def cong: option.case_cong)

lemma d_inv_frame [simp]:
  "d_inv g x (d\<lparr>d_watched := w\<rparr>) = d_inv g x d"
  "d_inv g x (d\<lparr>d_clock := c\<rparr>) = d_inv g x d"
  "d_inv g x (d\<lparr>d_triggered := l\<rparr>) = d_inv g x d"
  "d_inv g x (d\<lparr>d_triggerTime := c\<rparr>) = d_inv g x d"
  "d_inv g x (d\<lparr>d_serialsCompacted := b\<rparr>) = d_inv g x d"
  "d_inv g x (d\<lparr>d_adjustedIteratorOfNextTimer := it\<rparr>) = d_inv g x d"
  by (simp_all add: d_inv_def)

lemma d_inv_watch [simp]: "d_inv g x (maybeSetTimeoutForIntegrator d) = d_inv g x d"
  by (simp add: maybeSetTimeoutForIntegrator_def)

lemma watch_same [simp]:
  "d_timers (maybeSetTimeoutForIntegrator d) = d_timers d" "d_objects (maybeSetTimeoutForIntegrator d) = d_objects d"
  "d_currentTimerSerial (maybeSetTimeoutForIntegrator d) = d_currentTimerSerial d"
  "d_clock (maybeSetTimeoutForIntegrator d) = d_clock d" "d_triggerTime (maybeSetTimeoutForIntegrator d) = d_triggerTime d"
  "d_nextObject (maybeSetTimeoutForIntegrator d) = d_nextObject d"
  "d_serialsCompacted (maybeSetTimeoutForIntegrator d) = d_serialsCompacted d"
  "d_triggered (maybeSetTimeoutForIntegrator d) = d_triggered d"
  by (simp_all add: maybeSetTimeoutForIntegrator_def)

lemma d_inv_entry: "d_inv g x d \<Longrightarrow> e \<in> set (d_timers d) \<Longrightarrow> entry_ok d g x e"
  by (simp add: d_inv_def)

lemma d_inv_object: "d_inv g x d \<Longrightarrow> d_objects d tm = Some t \<Longrightarrow> object_ok d g x tm t"
  by (simp add: d_inv_def)

lemma d_inv_hole: "d_inv g x d \<Longrightarrow> d_inv g (insert tm x) d"
proof -
  assume inv: "d_inv g x d"
  have "entry_ok d g (insert tm x) e" if "e \<in> set (d_timers d)" for e
    using d_inv_entry [OF inv that] by (auto simp: entry_ok_def split: option.splits)
  moreover have "object_ok d g (insert tm x) tm' t" if "d_objects d tm' = Some t" for tm' t
    using d_inv_object [OF inv that] by (auto simp: object_ok_def)
  ultimately show ?thesis using inv by (simp add: d_inv_def)
qed

lemma d_inv_close:
  assumes "d_inv g (insert tm x) d"
    and "\<And>t. d_objects d tm = Some t \<Longrightarrow> \<not> t_guarded t \<Longrightarrow> (t_isRunning t \<longleftrightarrow> Some tm \<in> te_timer ` set (d_timers d))"
  shows "d_inv g x d"
proof -
  have "entry_ok d g x e" if "e \<in> set (d_timers d)" for e
    using d_inv_entry [OF assms(1) that] assms(2) that
    by (fastforce simp: entry_ok_def image_iff split: option.splits if_splits)
  moreover have "object_ok d g x tm' t" if "d_objects d tm' = Some t" for tm' t
    using d_inv_object [OF assms(1) that] assms(2) [of t] that by (auto simp: object_ok_def)
  ultimately show ?thesis using assms(1) by (simp add: d_inv_def)
qed

text \<open>Changes of one object that keep its tag.\<close>

lemma d_inv_update:
  assumes "d_inv g x d" and "d_objects d tm = Some t"
    and "timer_tag (f t) = timer_tag t" "t_guarded (f t) = t_guarded t" "timer_ok (f t)"
    and "t_isRunning (f t) = t_isRunning t \<or> tm \<in> x \<or> t_guarded t"
  shows "d_inv g x (updateTimer tm f d)"
proof -
  let ?d = "updateTimer tm f d"
  have d: "?d = d\<lparr>d_objects := (d_objects d)(tm := Some (f t))\<rparr>" using assms(2) by (simp add: updateTimer_def)
  have "entry_ok ?d g x e" if "e \<in> set (d_timers d)" for e
    using d_inv_entry [OF assms(1) that] assms(2-) unfolding d
    by (cases "te_timer e = Some tm") (auto simp: entry_ok_def split: option.splits)
  moreover have "object_ok ?d g x tm' t'" if "d_objects ?d tm' = Some t'" for tm' t'
    using d_inv_object [OF assms(1), of tm'] assms(2-) that unfolding d
    by (cases "tm' = tm") (auto simp: object_ok_def)
  moreover have "guard_ok ?d g" using assms(1,2,4) unfolding d by (auto simp: d_inv_def guard_ok_def)
  ultimately show ?thesis using assms(1) unfolding d by (simp add: d_inv_def)
qed

lemma no_entry_update:
  assumes "d_inv g (insert tm x) d" and "d_objects d tm = Some t" and "\<not> t_guarded t"
    and "Some tm \<notin> te_timer ` set (d_timers d)" and "t_guarded (f t) = t_guarded t" "timer_ok (f t)"
  shows "d_inv g (insert tm x) (updateTimer tm f d)"
proof -
  let ?d = "updateTimer tm f d"
  have d: "?d = d\<lparr>d_objects := (d_objects d)(tm := Some (f t))\<rparr>" using assms(2) by (simp add: updateTimer_def)
  have "entry_ok ?d g (insert tm x) e" if e: "e \<in> set (d_timers d)" for e
  proof -
    have "te_timer e \<noteq> Some tm" using assms(4) e by force
    then show ?thesis using d_inv_entry [OF assms(1) e] assms(2-) unfolding d
      by (auto simp: entry_ok_def split: option.splits if_splits)
  qed
  moreover have "object_ok ?d g (insert tm x) tm' t'" if "d_objects ?d tm' = Some t'" for tm' t'
    using d_inv_object [OF assms(1), of tm'] assms(2-) that unfolding d
    by (cases "tm' = tm") (auto simp: object_ok_def)
  moreover have "guard_ok ?d g" using assms(1,2,3,5) unfolding d by (auto simp: d_inv_def guard_ok_def)
  ultimately show ?thesis using assms(1) unfolding d by (simp add: d_inv_def)
qed

subsection \<open>Insertion and removal\<close>

lemma set_insert_entry [simp]: "set (insert_entry e xs) = insert e (set xs)"
  by (induction xs) auto

lemma length_insert_entry [simp]: "length (insert_entry e xs) = Suc (length xs)"
  by (induction xs) auto

lemma sorted_insert_entry: "sorted (map te_tag xs) \<Longrightarrow> sorted (map te_tag (insert_entry e xs))"
  by (induction xs) auto

lemma distinct_insert_entry:
  "distinct (map f (insert_entry e xs)) \<longleftrightarrow> f e \<notin> f ` set xs \<and> distinct (map f xs)"
  by (induction xs) auto

lemma d_inv_emplace:
  assumes "d_inv g (insert tm x) d" and "d_objects d tm = Some t" and "\<not> t_guarded t" "t_isRunning t"
    and "Some tm \<notin> te_timer ` set (d_timers d)"
  shows "d_inv g x (snd (emplace (timer_tag t) tm d))"
proof -
  let ?d = "snd (emplace (timer_tag t) tm d)"
  let ?e = "\<lparr>te_id = d_nextEntry d, te_tag = timer_tag t, te_timer = Some tm\<rparr>"
  have d: "?d = d\<lparr>d_timers := insert_entry ?e (d_timers d), d_nextEntry := d_nextEntry d + 1\<rparr>"
    by (simp add: emplace_def)
  have new: "d_nextEntry d \<notin> te_id ` set (d_timers d)"
    using assms(1) by (auto simp: d_inv_def entry_ok_def)
  have "entry_ok ?d g x e" if "e \<in> set (d_timers ?d)" for e
  proof (cases "e = ?e")
    case False
    with that have e: "e \<in> set (d_timers d)" "te_timer e \<noteq> Some tm" using assms(5) unfolding d by force+
    show ?thesis using d_inv_entry [OF assms(1) e(1)] e(2) unfolding d
      by (auto simp: entry_ok_def split: option.splits if_splits)
  qed (use assms(2-) d in \<open>simp add: entry_ok_def\<close>)
  moreover have "object_ok ?d g x tm' t'" if "d_objects ?d tm' = Some t'" for tm' t'
    using d_inv_object [OF assms(1), of tm'] assms(2-) that unfolding d
    by (cases "tm' = tm") (auto simp: object_ok_def)
  moreover have "guard_ok ?d g" using assms(1) unfolding d by (auto simp: d_inv_def guard_ok_def)
  ultimately show ?thesis using assms(1) new assms(5) unfolding d
    by (simp add: d_inv_def sorted_insert_entry distinct_insert_entry)
qed

lemma sorted_filter_map: "sorted (map f xs) \<Longrightarrow> sorted (map f (filter P xs))"
  by (induction xs) auto

lemma distinct_filter_map: "distinct (map f xs) \<Longrightarrow> distinct (map f (filter P xs))"
  by (induction xs) auto

lemma d_inv_erase:
  assumes "d_inv g (insert tm x) d" and "d_objects d tm = Some t" and "\<not> t_guarded t"
    and "e \<in> set (d_timers d)" and "te_timer e = Some tm"
  shows "d_inv g (insert tm x) (snd (erase_entry (te_id e) d)) \<and>
    Some tm \<notin> te_timer ` set (d_timers (snd (erase_entry (te_id e) d)))"
proof -
  let ?d = "snd (erase_entry (te_id e) d)"
  have d: "?d = d\<lparr>d_timers := filter (\<lambda>x. te_id x \<noteq> te_id e) (d_timers d)\<rparr>" by (simp add: erase_entry_def)
  have dist: "distinct (map te_id (d_timers d))" "distinct (map te_timer (d_timers d))"
    using assms(1) by (simp_all add: d_inv_def)
  have same: "y = e" if "y \<in> set (d_timers d)" "te_id y = te_id e \<or> te_timer y = te_timer e" for y
    using that assms(4) dist by (auto simp: distinct_map inj_on_def)
  have "entry_ok ?d g (insert tm x) y" if "y \<in> set (d_timers ?d)" for y
    using d_inv_entry [OF assms(1), of y] that unfolding d by (auto simp: entry_ok_def split: option.splits)
  moreover have "object_ok ?d g (insert tm x) tm' t'" if "d_objects ?d tm' = Some t'" for tm' t'
  proof -
    have "object_ok d g (insert tm x) tm' t'" using d_inv_object [OF assms(1), of tm' t'] that unfolding d by simp
    moreover have "te_id y \<noteq> te_id e" if "y \<in> set (d_timers d)" "te_timer y = Some tm'" "tm' \<noteq> tm" for y
      using same [of y] that assms(5) by auto
    ultimately show ?thesis unfolding d by (auto simp: object_ok_def image_iff)
  qed
  moreover have "guard_ok ?d g"
  proof -
    have "te_id y \<noteq> te_id e" if "y \<in> set (d_timers d)" "g = Some (te_id y, tm')"
      "te_timer y = (if d_objects d tm' = None then None else Some tm')" "\<forall>t. d_objects d tm' = Some t \<longrightarrow> t_guarded t" for y tm'
      using same [of y] that assms(2,3,5) by (auto split: if_splits)
    then show ?thesis using assms(1) unfolding d by (fastforce simp: d_inv_def guard_ok_def)
  qed
  moreover have "Some tm \<notin> te_timer ` set (d_timers ?d)" using same assms(5) unfolding d by (auto dest!: same)
  ultimately show ?thesis using assms(1) unfolding d
    by (simp add: d_inv_def sorted_filter_map distinct_filter_map)
qed

definition has_entry :: "dispatcher \<Rightarrow> nat \<Rightarrow> bool" where
  "has_entry d tm \<longleftrightarrow> Some tm \<in> te_timer ` set (d_timers d)"

lemma has_entry_frame [simp]:
  "has_entry (d\<lparr>d_objects := o'\<rparr>) tm = has_entry d tm" "has_entry (d\<lparr>d_clock := c\<rparr>) tm = has_entry d tm"
  "has_entry (maybeSetTimeoutForIntegrator d) tm = has_entry d tm"
  "has_entry (d\<lparr>d_currentTimerSerial := s\<rparr>) tm = has_entry d tm"
  by (simp_all add: has_entry_def)

lemma has_entry_update [simp]: "has_entry (updateTimer tm f d) tm' = has_entry d tm'"
  by (simp add: has_entry_def updateTimer_def d_undefined_def split: option.splits)

lemma find_entry:
  "distinct (map te_id xs) \<Longrightarrow> e \<in> set xs \<Longrightarrow> find (\<lambda>e'. te_id e' = te_id e) xs = Some e"
  by (induction xs) (auto simp: image_iff)

lemma no_entry:
  assumes "d_inv g x d" and "d_objects d tm = Some t" and "\<not> t_isRunning t" "\<not> t_guarded t" "tm \<notin> x"
  shows "\<not> has_entry d tm"
proof
  assume "has_entry d tm"
  then obtain e where "e \<in> set (d_timers d)" "te_timer e = Some tm" by (auto simp: has_entry_def)
  then show False using d_inv_entry [OF assms(1), of e] assms(2-) by (simp add: entry_ok_def)
qed

lemma removeTimer_same [simp]:
  assumes "d_objects d tm = Some t"
  shows "d_objects (removeTimer tm d) = d_objects d" "d_currentTimerSerial (removeTimer tm d) = d_currentTimerSerial d"
    "d_clock (removeTimer tm d) = d_clock d" "d_triggerTime (removeTimer tm d) = d_triggerTime d"
    "d_nextObject (removeTimer tm d) = d_nextObject d"
    "d_serialsCompacted (removeTimer tm d) = d_serialsCompacted d"
  using assms by (simp_all add: removeTimer_def erase_entry_def split: option.splits)

lemma removeTimer_inv:
  assumes "d_inv g (insert tm x) d" and "d_objects d tm = Some t" and "\<not> t_guarded t"
  shows "d_inv g (insert tm x) (removeTimer tm d) \<and> \<not> has_entry (removeTimer tm d) tm"
proof (cases "find (\<lambda>e. te_tag e = timer_tag t \<and> te_timer e = Some tm) (d_timers d)")
  case None
  have "\<not> has_entry d tm"
  proof
    assume "has_entry d tm"
    then obtain e where e: "e \<in> set (d_timers d)" "te_timer e = Some tm" by (auto simp: has_entry_def)
    then show False using d_inv_entry [OF assms(1) e(1)] assms(2) None
      by (auto simp: entry_ok_def find_None_iff)
  qed
  then show ?thesis using assms None by (simp add: removeTimer_def)
next
  case (Some e)
  then have "e \<in> set (d_timers d)" "te_timer e = Some tm" by (auto simp: find_Some_iff)
  from d_inv_erase [OF assms this] Some assms(2,3) show ?thesis
    by (simp add: removeTimer_def has_entry_def)
qed

lemma d_inv_serial:
  "d_inv g x d \<Longrightarrow> 0 \<le> s \<Longrightarrow> s \<le> 1024 \<Longrightarrow> d_inv g x (d\<lparr>d_currentTimerSerial := s\<rparr>)"
proof -
  have "entry_ok (d\<lparr>d_currentTimerSerial := s\<rparr>) = entry_ok d" "object_ok (d\<lparr>d_currentTimerSerial := s\<rparr>) = object_ok d"
    "guard_ok (d\<lparr>d_currentTimerSerial := s\<rparr>) = guard_ok d"
    by (simp_all add: fun_eq_iff entry_ok_def object_ok_def guard_ok_def cong: option.case_cong)
  then show "d_inv g x d \<Longrightarrow> 0 \<le> s \<Longrightarrow> s \<le> 1024 \<Longrightarrow> ?thesis" by (simp add: d_inv_def)
qed

subsection \<open>Renumbering\<close>

lemma next_entry_split:
  "te_id e \<notin> te_id ` set pre \<Longrightarrow> next_entry (te_id e) (pre @ e # post) = first_entry post"
  by (induction pre) auto

lemma filter_other: "i \<notin> te_id ` set xs \<Longrightarrow> filter (\<lambda>a. te_id a \<noteq> i) xs = xs"
  by (induction xs) auto

lemma insert_entry_nth:
  "j < length xs \<Longrightarrow> insert_entry e xs ! j = xs ! j \<or> insert_entry e xs ! Suc j = xs ! j"
proof (induction xs arbitrary: j)
  case (Cons a xs)
  then show ?case by (cases j) auto
qed simp

definition compact_inv :: "nat set \<Rightarrow> dispatcher \<Rightarrow> int \<times> timer_iterator \<times> bool \<times> dispatcher \<Rightarrow> bool" where
  "compact_inv x d0 = (\<lambda>(newSerial, it, pick, d).
     \<not> pick \<and> d_inv None x d \<and> length (d_timers d) = length (d_timers d0) \<and> 0 \<le> newSerial \<and>
     te_timer ` set (d_timers d) = te_timer ` set (d_timers d0) \<and>
     d_currentTimerSerial d = d_currentTimerSerial d0 \<and> d_nextObject d = d_nextObject d0 \<and>
     (\<forall>tm. \<not> has_entry d0 tm \<longrightarrow> d_objects d tm = d_objects d0 tm) \<and>
     (newSerial < int (length (d_timers d)) \<longrightarrow>
        (\<exists>k \<le> nat newSerial. it = AtEntry (te_id (d_timers d ! k)))))"

lemma compactStep_inv:
  assumes inv: "compact_inv x d0 (ns, it, pick, d)" and x: "\<forall>tm\<in>x. \<not> has_entry d0 tm"
    and ns: "ns < int (length (d_timers d))" and n: "length (d_timers d0) \<le> 1023"
  shows "compact_inv x d0 (compactStep (ns, it, pick, d))"
proof -
  from inv ns obtain k where k: "k \<le> nat ns" "it = AtEntry (te_id (d_timers d ! k))"
    and pick: "\<not> pick" and d: "d_inv None x d" and len: "length (d_timers d) = length (d_timers d0)"
    and ns0: "0 \<le> ns" and tms: "te_timer ` set (d_timers d) = te_timer ` set (d_timers d0)"
    by (auto simp: compact_inv_def)
  let ?e = "d_timers d ! k"
  have klen: "k < length (d_timers d)" using k(1) ns ns0 by linarith
  then have e: "?e \<in> set (d_timers d)" by simp
  have dist: "distinct (map te_id (d_timers d))" using d by (simp add: d_inv_def)
  obtain tm t where tm: "te_timer ?e = Some tm" "d_objects d tm = Some t" "t_isRunning t" "\<not> t_guarded t"
    using d_inv_entry [OF d e] x tms e
    by (auto simp: entry_ok_def has_entry_def split: option.splits) (metis image_eqI)
  let ?d1 = "snd (erase_entry (te_id ?e) d)"
  from d_inv_erase [OF d_inv_hole [OF d, of tm] tm(2,4) e tm(1)]
  have d1: "d_inv None (insert tm x) ?d1" "\<not> has_entry ?d1 tm" by (simp_all add: has_entry_def)
  have obj1: "d_objects ?d1 = d_objects d" by (simp add: erase_entry_def)
  let ?f = "\<lambda>t. t\<lparr>t_serial := ns\<rparr>"
  have "timer_ok (?f t)" using d_inv_object [OF d tm(2)] ns ns0 n len by (simp add: object_ok_def timer_ok_def)
  from no_entry_update [OF d1(1) _ tm(4), of ?f] this d1(2) tm(2) obj1
  have d2: "d_inv None (insert tm x) (updateTimer tm ?f ?d1)" by (simp add: has_entry_def)
  let ?d2 = "updateTimer tm ?f ?d1"
  have t2: "d_objects ?d2 tm = Some (?f t)" "d_timers ?d2 = d_timers ?d1" "d_nextEntry ?d2 = d_nextEntry d"
    using tm(2) obj1 by (simp_all add: updateTimer_def erase_entry_def)
  let ?d3 = "snd (emplace (timer_tag (?f t)) tm ?d2)"
  have d3: "d_inv None x ?d3"
    using d_inv_emplace [OF d2 t2(1)] tm(3,4) d1(2) by (simp add: has_entry_def t2)
  let ?pre = "take k (d_timers d)" and ?post = "drop (Suc k) (d_timers d)"
  have split: "d_timers d = ?pre @ ?e # ?post" using klen by (rule id_take_nth_drop)
  have dist': "te_id ?e \<notin> te_id ` set ?pre" "te_id ?e \<notin> te_id ` set ?post"
    using dist split by (metis distinct.simps(2) distinct_append distinct_map list.simps(9) list.set_map map_append disjoint_iff list.set_intros(1))+
  have ts1: "d_timers ?d1 = ?pre @ ?post"
  proof -
    have "filter (\<lambda>a. te_id a \<noteq> te_id ?e) ?pre = ?pre" "filter (\<lambda>a. te_id a \<noteq> te_id ?e) ?post = ?post"
      using dist' by (simp_all add: filter_other)
    then have "filter (\<lambda>a. te_id a \<noteq> te_id ?e) (?pre @ ?e # ?post) = ?pre @ ?post" by simp
    then show ?thesis using split by (simp add: erase_entry_def)
  qed
  let ?new = "\<lparr>te_id = d_nextEntry d, te_tag = timer_tag (?f t), te_timer = Some tm\<rparr>"
  have ts3: "d_timers ?d3 = insert_entry ?new (?pre @ ?post)"
    by (simp add: emplace_def t2 ts1)
  have step: "compactStep (ns, it, pick, d) = (ns + 1, first_entry ?post, False, ?d3)"
    using pick tm t2(1) k(2) find_entry [OF dist e] next_entry_split [OF dist'(1), of ?post] split
    by (simp add: compactStep_def entry_at_def erase_entry_def obj1 case_prod_beta)
  have lens: "length (d_timers ?d3) = length (d_timers d)" using klen by (simp add: ts3)
  moreover have "te_timer ` set (d_timers ?d3) = te_timer ` set (d_timers d)"
    using tm(1) by (subst split) (simp add: ts3 image_Un)
  moreover have "\<exists>j \<le> nat (ns + 1). first_entry ?post = AtEntry (te_id (d_timers ?d3 ! j))"
    if "ns + 1 < int (length (d_timers ?d3))"
  proof (cases ?post)
    case Nil
    then have "length (d_timers d) = Suc k" using klen by simp
    with that lens k(1) ns0 show ?thesis by linarith
  next
    case (Cons a as)
    have "(?pre @ ?post) ! k = a" "k < length (?pre @ ?post)" using Cons klen by (simp_all add: nth_append)
    then have "d_timers ?d3 ! k = a \<or> d_timers ?d3 ! Suc k = a"
      using insert_entry_nth [of k "?pre @ ?post" ?new] by (simp add: ts3)
    moreover have "Suc k \<le> nat (ns + 1)" using k(1) ns0 by linarith
    ultimately show ?thesis using Cons by (metis Suc_leD first_entry.simps(2))
  qed
  moreover have "d_objects ?d3 tm' = d_objects d0 tm'" if "\<not> has_entry d0 tm'" for tm'
  proof -
    have "has_entry d0 tm" using tms e tm(1) by (force simp: has_entry_def)
    with that inv tm(2) show ?thesis
      by (auto simp: compact_inv_def emplace_def updateTimer_def obj1)
  qed
  moreover have "d_currentTimerSerial ?d3 = d_currentTimerSerial d" "d_nextObject ?d3 = d_nextObject d"
    using tm(2) by (simp_all add: emplace_def updateTimer_def erase_entry_def)
  ultimately show ?thesis unfolding step using inv d3 ns0 by (simp add: compact_inv_def)
qed


lemma compactLoop_inv:
  assumes "compact_inv x d0 st" and "\<forall>tm\<in>x. \<not> has_entry d0 tm" and "length (d_timers d0) \<le> 1023"
  shows "\<exists>ns it pick. compact_inv x d0 (ns, it, pick, compactLoop n (length (d_timers d0)) st)"
  using assms(1)
proof (induction n arbitrary: st)
  case 0
  obtain ns it pick d where "st = (ns, it, pick, d)" by (rule prod_cases4)
  with 0 show ?case by auto
next
  case (Suc n)
  obtain ns it pick d where st: "st = (ns, it, pick, d)" by (rule prod_cases4)
  have "length (d_timers d) = length (d_timers d0)" using Suc.prems by (simp add: st compact_inv_def)
  then have "ns < int (length (d_timers d0)) \<Longrightarrow> compact_inv x d0 (compactStep st)"
    using compactStep_inv [OF _ assms(2) _ assms(3), of ns it pick d] Suc.prems by (simp add: st)
  with Suc.IH [of "compactStep st"] Suc.prems show ?case by (auto simp: st)
qed

lemma compact_ok:
  assumes "d_inv None x d" and "\<forall>tm\<in>x. \<not> has_entry d tm"
  shows "d_inv None x (tryCompactTimerSerials d) \<and>
    te_timer ` set (d_timers (tryCompactTimerSerials d)) = te_timer ` set (d_timers d) \<and>
    d_currentTimerSerial (tryCompactTimerSerials d) \<le> 1023 \<and>
    d_nextObject (tryCompactTimerSerials d) = d_nextObject d \<and>
    (\<forall>tm. \<not> has_entry d tm \<longrightarrow> d_objects (tryCompactTimerSerials d) tm = d_objects d tm)"
proof (cases "s_maxTimerSerial * 9 \<le> int (length (d_timers d)) * 10")
  case True
  with assms show ?thesis by (simp add: tryCompactTimerSerials_def Let_def d_inv_serial)
next
  case False
  then have n: "length (d_timers d) \<le> 1023" by (simp add: s_maxTimerSerial_def)
  let ?st = "(0, first_entry (d_timers d), False, d)"
  have "compact_inv x d ?st"
    using assms(1) by (cases "d_timers d") (auto simp: compact_inv_def)
  from compactLoop_inv [OF this assms(2) n, of "2 * length (d_timers d) + 2"]
  show ?thesis using False n
    by (auto simp: compact_inv_def tryCompactTimerSerials_def Let_def d_inv_serial has_entry_def)
qed

subsection \<open>The calls keep the invariant\<close>

lemma nextTimerSerial_inv:
  assumes "d_inv g x d" and "\<forall>tm\<in>x. \<not> has_entry d tm" and "g = None \<or> d_currentTimerSerial d \<le> 1023"
    and "nextTimerSerial d = (s, d')"
  shows "d_inv g x d' \<and> 0 \<le> s \<and> s \<le> 1023 \<and> te_timer ` set (d_timers d') = te_timer ` set (d_timers d) \<and>
    d_nextObject d' = d_nextObject d \<and> (\<forall>tm. \<not> has_entry d tm \<longrightarrow> d_objects d' tm = d_objects d tm)"
proof (cases "s_maxTimerSerial < d_currentTimerSerial d")
  case True
  with assms(3) have g: "g = None" by (simp add: s_maxTimerSerial_def)
  from compact_ok [OF assms(1) [unfolded g] assms(2)] assms(4) True g show ?thesis
    by (auto simp: nextTimerSerial_def Let_def d_inv_serial d_inv_def [of None x "tryCompactTimerSerials d"])
next
  case False
  with assms show ?thesis
    by (auto simp: nextTimerSerial_def Let_def s_maxTimerSerial_def d_inv_serial d_inv_def [of g x d])
qed

lemma addTimer_inv:
  assumes "d_inv g (insert tm x) d" and "d_objects d tm = Some t" "\<not> t_guarded t" "t_isRunning t" "\<not> has_entry d tm"
    and "\<forall>tm\<in>x. \<not> has_entry d tm" and "g = None \<or> d_currentTimerSerial d \<le> 1023"
  shows "d_inv g x (addTimer tm d)"
proof -
  obtain s d1 where n: "nextTimerSerial d = (s, d1)" by fastforce
  have d1: "d_inv g (insert tm x) d1" "0 \<le> s" "s \<le> 1023" "\<not> has_entry d1 tm" "d_objects d1 tm = Some t"
    using nextTimerSerial_inv [OF assms(1) _ assms(7) n] assms(2,5,6) by (auto simp: has_entry_def)
  let ?f = "\<lambda>t. t\<lparr>t_serial := s mod 1024, t_nextDueTime :=
     (if t_interval t \<noteq> 0 \<or> d_triggerTime d1 = 0 then (d_clock d1 + t_interval t) mod 2 ^ 64 else 0) mod 2 ^ 54\<rparr>"
  have ok: "timer_ok (?f t)" using d_inv_object [OF d1(1,5)] by (simp add: object_ok_def timer_ok_def)
  have d2: "d_inv g (insert tm x) (updateTimer tm ?f d1)"
    using no_entry_update [OF d1(1,5) assms(3), of ?f] ok d1(4) by (simp add: has_entry_def)
  have "d_inv g x (snd (emplace (timer_tag (?f t)) tm (updateTimer tm ?f d1)))"
    using d_inv_emplace [OF d2, of "?f t"] assms(3,4) d1(4,5) by (simp add: updateTimer_def has_entry_def)
  then show ?thesis using d1(5) by (simp add: addTimer_def n updateTimer_def Let_def)
qed

lemma d_inv_close':
  assumes "d_inv g (insert tm x) d" and "\<not> has_entry d tm" and "d_objects d tm = Some t"
    and "\<not> t_isRunning t" "\<not> t_guarded t"
  shows "d_inv g x d"
  using d_inv_close [OF assms(1)] assms(2-) by (simp add: has_entry_def)

lemma same_fields [simp]:
  "d_timers (updateTimer tm f d) = d_timers d" "d_currentTimerSerial (updateTimer tm f d) = d_currentTimerSerial d"
  "d_clock (updateTimer tm f d) = d_clock d" "d_triggerTime (updateTimer tm f d) = d_triggerTime d"
  "d_nextObject (updateTimer tm f d) = d_nextObject d"
  "d_serialsCompacted (updateTimer tm f d) = d_serialsCompacted d"
  "d_triggered (updateTimer tm f d) = d_triggered d" "d_nextEntry (updateTimer tm f d) = d_nextEntry d"
  by (simp_all add: updateTimer_def d_undefined_def split: option.splits)

lemma updated_object: "d_objects d tm = Some t \<Longrightarrow> d_objects (updateTimer tm f d) = (d_objects d)(tm := Some (f t))"
  by (simp add: updateTimer_def)

lemma d_inv_destroyed:
  assumes "d_inv g (insert tm {}) d" and "d_objects d tm = Some t" "\<not> t_guarded t" "\<not> has_entry d tm"
  shows "d_inv g {} (d\<lparr>d_objects := (d_objects d)(tm := None)\<rparr>)"
proof -
  let ?d = "d\<lparr>d_objects := (d_objects d)(tm := None)\<rparr>"
  have "entry_ok ?d g {} e" if "e \<in> set (d_timers d)" for e
  proof -
    have "te_timer e \<noteq> Some tm" using assms(4) that by (force simp: has_entry_def)
    then show ?thesis using d_inv_entry [OF assms(1) that]
      by (auto simp: entry_ok_def split: option.splits)
  qed
  moreover have "object_ok ?d g {} tm' t'" if "d_objects ?d tm' = Some t'" for tm' t'
    using d_inv_object [OF assms(1), of tm' t'] that by (auto simp: object_ok_def split: if_splits)
  moreover have "guard_ok ?d g" using assms(1-3) by (auto simp: d_inv_def guard_ok_def)
  ultimately show ?thesis using assms(1) by (simp add: d_inv_def)
qed

lemma timer_new_inv: "d_inv g {} d \<Longrightarrow> d_inv g {} (timer_new d)"
proof -
  assume inv: "d_inv g {} d"
  have new: "d_objects d (d_nextObject d) = None"
    using d_inv_object [OF inv, of "d_nextObject d"] by (cases "d_objects d (d_nextObject d)") (auto simp: object_ok_def)
  have "entry_ok (timer_new d) g {} e" if "e \<in> set (d_timers d)" for e
    using d_inv_entry [OF inv that] new by (auto simp: entry_ok_def timer_new_def split: option.splits)
  moreover have "object_ok (timer_new d) g {} tm t" if "d_objects (timer_new d) tm = Some t" for tm t
    using d_inv_object [OF inv, of tm t] that
    by (auto simp: object_ok_def timer_new_def Timer_def timer_ok_def split: if_splits)
  moreover have "guard_ok (timer_new d) g"
    using inv by (fastforce simp: d_inv_def guard_ok_def timer_new_def)
  ultimately show ?thesis using inv by (simp add: d_inv_def timer_new_def)
qed

lemma d_inv_watch_objects [simp]:
  "d_inv g x (maybeSetTimeoutForIntegrator d\<lparr>d_objects := f\<rparr>) = d_inv g x (d\<lparr>d_objects := f\<rparr>)"
proof (cases "d_integrator d")
  case True
  have "d\<lparr>d_watched := w, d_objects := f\<rparr> = d\<lparr>d_objects := f, d_watched := w\<rparr>" for w by simp
  with True show ?thesis by (simp only: maybeSetTimeoutForIntegrator_def if_True d_inv_frame)
qed (simp add: maybeSetTimeoutForIntegrator_def)

lemma d_inv_killed:
  assumes inv: "d_inv g {} d" and obj: "d_objects d tm = Some t" "t_guarded t"
  shows "d_inv g {} (timer_destroy tm d) \<and> (\<exists>i e. g = Some (i, tm) \<and> e \<in> set (d_timers d) \<and> te_id e = i \<and>
    d_timers (timer_destroy tm d) = map (\<lambda>x. if te_id x = i then x\<lparr>te_timer := None\<rparr> else x) (d_timers d))"
proof -
  obtain i where g: "g = Some (i, tm)" using d_inv_object [OF inv obj(1)] obj(2) by (auto simp: object_ok_def)
  then obtain e where e: "e \<in> set (d_timers d)" "te_id e = i" "te_timer e = Some tm"
    using inv obj(1) by (auto simp: d_inv_def guard_ok_def)
  have dist: "distinct (map te_id (d_timers d))" "distinct (map te_timer (d_timers d))"
    using inv by (simp_all add: d_inv_def)
  have uniq: "y = e" if "y \<in> set (d_timers d)" "te_id y = i \<or> te_timer y = Some tm" for y
    using that e dist by (auto simp: distinct_map inj_on_def)
  have tag: "te_tag e = timer_tag t" using d_inv_entry [OF inv e(1)] e(3) obj by (simp add: entry_ok_def)
  have find: "find (\<lambda>e. te_tag e = timer_tag t \<and> te_timer e = Some tm) (d_timers d) = Some e"
  proof (cases "find (\<lambda>e. te_tag e = timer_tag t \<and> te_timer e = Some tm) (d_timers d)")
    case None
    with e tag show ?thesis by (auto simp: find_None_iff)
  next
    case (Some y)
    then have "y \<in> set (d_timers d)" "te_timer y = Some tm" by (auto simp: find_Some_iff)
    with Some uniq show ?thesis by simp
  qed
  let ?kill = "\<lambda>x. if te_id x = i then x\<lparr>te_timer := None\<rparr> else x"
  have d: "timer_destroy tm d = (let d1 = maybeSetTimeoutForIntegrator (d\<lparr>d_timers := map ?kill (d_timers d)\<rparr>)
      in d1\<lparr>d_objects := (d_objects d1)(tm := None)\<rparr>)"
    using obj find e(2) d_inv_object [OF inv obj(1)]
    by (simp add: timer_destroy_def with_timer_def removeTimer_def object_ok_def timer_ok_def)
  let ?d = "(d\<lparr>d_timers := map ?kill (d_timers d)\<rparr>)\<lparr>d_objects := (d_objects d)(tm := None)\<rparr>"
  have entry: "entry_ok ?d g {} (?kill y)" if y: "y \<in> set (d_timers d)" for y
  proof (cases "te_id y = i")
    case True
    with d_inv_entry [OF inv y] g show ?thesis by (simp add: entry_ok_def)
  next
    case False
    with uniq [OF y] e(2) have "te_timer y \<noteq> Some tm" by auto
    with False d_inv_entry [OF inv y] show ?thesis by (auto simp: entry_ok_def split: option.splits)
  qed
  have object: "object_ok ?d g {} tm' t'" if obj': "d_objects ?d tm' = Some t'" for tm' t'
  proof -
    have "object_ok d g {} tm' t'" "tm' \<noteq> tm" using d_inv_object [OF inv, of tm' t'] obj' by (auto split: if_splits)
    moreover have "Some tm' \<in> te_timer ` ?kill ` set (d_timers d)" if "Some tm' \<in> te_timer ` set (d_timers d)"
    proof -
      from that obtain y where y: "y \<in> set (d_timers d)" "te_timer y = Some tm'" by auto
      with uniq [OF y(1)] e(3) \<open>tm' \<noteq> tm\<close> have "?kill y = y" by auto
      with imageI [OF imageI [OF y(1), of ?kill], of te_timer] y(2) show ?thesis by simp
    qed
    ultimately show ?thesis by (simp add: object_ok_def)
  qed
  have guard: "guard_ok ?d g"
    using imageI [OF e(1), of ?kill] e(2) d_inv_object [OF inv obj(1)] g
    by (auto simp: guard_ok_def object_ok_def intro!: bexI [of _ "?kill e"])
  have ts: "d_timers ?d = map ?kill (d_timers d)" by simp
  have tags: "map te_tag (map ?kill (d_timers d)) = map te_tag (d_timers d)"
    "map te_id (map ?kill (d_timers d)) = map te_id (d_timers d)" by simp_all
  have timers: "distinct (map te_timer (map ?kill (d_timers d)))"
  proof -
    have "te_timer y \<noteq> None" if "y \<in> set (d_timers d)" "te_id y \<noteq> i" for y
      using d_inv_entry [OF inv that(1)] that(2) g by (cases "te_timer y") (auto simp: entry_ok_def)
    note some = this
    have "y = z" if "y \<in> set (d_timers d)" "z \<in> set (d_timers d)" "te_timer (?kill y) = te_timer (?kill z)" for y z
      using that uniq [of y] uniq [of z] some [of y] some [of z] inj_onD [OF conjunct2 [OF iffD1 [OF distinct_map dist(2)]], of y z]
      by (cases "te_id y = i"; cases "te_id z = i") auto
    then have "inj_on (\<lambda>y. te_timer (?kill y)) (set (d_timers d))" by (rule inj_onI)
    moreover have "distinct (d_timers d)" using dist(1) by (simp add: distinct_map)
    ultimately show ?thesis by (simp add: distinct_map comp_def)
  qed
  have "\<forall>x\<in>set (d_timers ?d). entry_ok ?d g {} x"
    unfolding ts set_map by (intro ballI) (erule imageE, simp only: entry)
  then have "d_inv g {} ?d" unfolding d_inv_def
    using inv timers guard object by (simp only: ts tags) (simp add: d_inv_def)
  then have "d_inv g {} (timer_destroy tm d)" unfolding d Let_def by simp
  then show ?thesis using g e d by (auto simp: Let_def)
qed

text \<open>Stopping a timer outside of its callback, and what is left to do for the others.\<close>

lemma timer_destroy_inv:
  assumes inv: "d_inv g {} d" and obj: "d_objects d tm = Some t"
  shows "d_inv g {} (timer_destroy tm d)"
proof (cases "t_guarded t")
  case True
  then show ?thesis using d_inv_killed [OF inv obj] by simp
next
  case False
  have att: "t_attached t" using d_inv_object [OF inv obj] by (simp add: object_ok_def timer_ok_def)
  show ?thesis
  proof (cases "t_isRunning t")
    case True
    from removeTimer_inv [OF d_inv_hole [OF inv] obj False] d_inv_destroyed [of g tm "removeTimer tm d" t] obj False True att
    show ?thesis by (simp add: timer_destroy_def with_timer_def Let_def)
  next
    case nr: False
    from d_inv_destroyed [OF d_inv_hole [OF inv] obj False] no_entry [OF inv obj nr False] nr False obj
    show ?thesis by (simp add: timer_destroy_def with_timer_def)
  qed
qed

lemma timer_start_inv:
  assumes inv: "d_inv g {} d" and obj: "d_objects d tm = Some t" and s: "g = None \<or> d_currentTimerSerial d \<le> 1023"
  shows "d_inv g {} (timer_start tm msec d)"
proof -
  let ?f = "\<lambda>t. t\<lparr>t_interval := msec, t_isRunning := True\<rparr>"
  have ok: "timer_ok t" using d_inv_object [OF inv obj] by (simp add: object_ok_def)
  show ?thesis
  proof (cases "t_guarded t")
    case True
    have "d_inv g {} (updateTimer tm ?f d)"
      by (rule d_inv_update [OF inv obj]) (use ok True in \<open>simp_all add: timer_tag_def timer_ok_def\<close>)
    then show ?thesis using True obj by (simp add: timer_start_def with_timer_def)
  next
    case False
    let ?d1 = "if t_isRunning t then removeTimer tm d else d"
    have d1: "d_inv g {tm} ?d1" "\<not> has_entry ?d1 tm" "d_objects ?d1 tm = Some t"
        "d_currentTimerSerial ?d1 = d_currentTimerSerial d"
      using removeTimer_inv [OF d_inv_hole [OF inv] obj False] d_inv_hole [OF inv, of tm] no_entry [OF inv obj _ False] obj
      by auto
    have "d_inv g {tm} (updateTimer tm ?f ?d1)"
      by (rule no_entry_update [OF d1(1) d1(3) False]) (use d1(2) ok in \<open>simp_all add: has_entry_def timer_ok_def\<close>)
    from addTimer_inv [OF this, of "?f t"] have "d_inv g {} (addTimer tm (updateTimer tm ?f ?d1))"
      using d1(2-) False s by (simp add: updated_object)
    then show ?thesis using False obj ok by (simp add: timer_start_def with_timer_def timer_ok_def)
  qed
qed

lemma timer_setRunning_inv:
  assumes inv: "d_inv g {} d" and obj: "d_objects d tm = Some t" and s: "g = None \<or> d_currentTimerSerial d \<le> 1023"
  shows "d_inv g {} (timer_setRunning tm run d)"
proof (cases "t_isRunning t = run")
  case True
  then show ?thesis using inv obj by (simp add: timer_setRunning_def with_timer_def)
next
  case run: False
  let ?f = "\<lambda>t. t\<lparr>t_isRunning := run\<rparr>"
  let ?d1 = "updateTimer tm ?f d"
  have ok: "timer_ok t" using d_inv_object [OF inv obj] by (simp add: object_ok_def)
  show ?thesis
  proof (cases "t_guarded t")
    case True
    have "d_inv g {} ?d1"
      by (rule d_inv_update [OF inv obj]) (use ok True in \<open>simp_all add: timer_tag_def timer_ok_def\<close>)
    then show ?thesis using True run obj by (simp add: timer_setRunning_def with_timer_def Let_def)
  next
    case False
    have d1: "d_inv g {tm} ?d1" "d_objects ?d1 tm = Some (?f t)"
      by (rule d_inv_update [OF d_inv_hole [OF inv, of tm] obj])
        (use ok obj in \<open>simp_all add: timer_tag_def timer_ok_def updated_object\<close>)
    show ?thesis
    proof (cases run)
      case True
      then have "\<not> has_entry ?d1 tm" using no_entry [OF inv obj _ False] run by simp
      from addTimer_inv [OF d1(1,2) _ _ this] True False s run obj ok show ?thesis
        by (simp add: timer_setRunning_def with_timer_def Let_def timer_ok_def)
    next
      case nr: False
      from removeTimer_inv [OF d1] False have "d_inv g {tm} (removeTimer tm ?d1)" "\<not> has_entry (removeTimer tm ?d1) tm"
        by simp_all
      from d_inv_close' [OF this, of "?f t"] d1(2) False nr run obj ok show ?thesis
        by (simp add: timer_setRunning_def with_timer_def Let_def timer_ok_def)
    qed
  qed
qed

lemma timer_setInterval_inv:
  assumes inv: "d_inv g {} d" and obj: "d_objects d tm = Some t" and s: "g = None \<or> d_currentTimerSerial d \<le> 1023"
  shows "d_inv g {} (timer_setInterval tm msec d)"
proof -
  let ?f = "\<lambda>t. t\<lparr>t_interval := msec\<rparr>"
  let ?d1 = "updateTimer tm ?f d"
  have ok: "timer_ok t" using d_inv_object [OF inv obj] by (simp add: object_ok_def)
  have d1: "d_inv g {} ?d1" "d_objects ?d1 tm = Some (?f t)"
    by (rule d_inv_update [OF inv obj])
      (use ok obj in \<open>simp_all add: timer_tag_def timer_ok_def updated_object\<close>)
  show ?thesis
  proof (cases "t_isRunning t \<and> \<not> t_guarded t")
    case True
    from removeTimer_inv [OF d_inv_hole [OF d1(1)] d1(2)] True
    have "d_inv g {tm} (removeTimer tm ?d1)" "\<not> has_entry (removeTimer tm ?d1) tm" by simp_all
    from addTimer_inv [OF this(1), of "?f t"] this(2) True d1(2) s obj inv ok show ?thesis
      by (simp add: timer_setInterval_def with_timer_def Let_def timer_ok_def)
  next
    case False
    then show ?thesis using d1 inv obj by (auto simp: timer_setInterval_def with_timer_def Let_def)
  qed
qed

lemma do_call_inv:
  assumes inv: "d_inv g {} d" and "callable c d" and s: "g = None \<or> d_currentTimerSerial d \<le> 1023"
  shows "d_inv g {} (do_call c d)"
proof -
  have tag: "timer_tag (t\<lparr>t_isRepeating := b\<rparr>) = timer_tag t" "timer_tag (t\<lparr>t_hasListener := b\<rparr>) = timer_tag t"
    "timer_ok (t\<lparr>t_isRepeating := b\<rparr>) = timer_ok t" "timer_ok (t\<lparr>t_hasListener := b\<rparr>) = timer_ok t" for t b
    by (simp_all add: timer_tag_def timer_ok_def)
  show ?thesis
  proof (cases c)
    case (SetRepeating tm b)
    with assms(2) obtain t where t: "d_objects d tm = Some t" by (auto simp: callable_def)
    then have "timer_ok t" using d_inv_object [OF inv] by (simp add: object_ok_def)
    with SetRepeating t show ?thesis
      by (auto simp: timer_setRepeating_def tag intro!: d_inv_update [OF inv t])
  next
    case (SetListener tm b)
    with assms(2) obtain t where t: "d_objects d tm = Some t" by (auto simp: callable_def)
    then have "timer_ok t" using d_inv_object [OF inv] by (simp add: object_ok_def)
    with SetListener t show ?thesis
      by (auto simp: timer_setCompletionListener_def tag intro!: d_inv_update [OF inv t])
  qed (use assms timer_new_inv timer_destroy_inv timer_start_inv timer_setRunning_inv timer_setInterval_inv
       in \<open>auto simp: callable_def\<close>)
qed

lemma timer_calls_Cons:
  "timer_calls (c # cs) d = timer_calls cs (if callable c d then do_call c d else d)"
  by (simp add: timer_calls_def)

lemma timer_calls_Nil [simp]: "timer_calls [] d = d"
  by (simp add: timer_calls_def)

lemma timer_calls_inv: "d_inv None {} d \<Longrightarrow> d_inv None {} (timer_calls cs d)"
  by (induction cs arbitrary: d) (auto simp: timer_calls_Cons do_call_inv)

lemma d_inv_initial: "d_inv None {} (EventDispatcher integrator clock)"
  by (simp add: d_inv_def guard_ok_def EventDispatcher_def)

end
