(* ===== verification/Timer_Dispatch.thy ===== *)
theory Timer_Dispatch
  imports Timer_Map
begin

text \<open>
  Dispatch of due timers: the loop of \<^verbatim>\<open>triggerDueTimers\<close> with listeners that call the timer interface
  themselves.  The weight of the entries behind the iterator bounds what is left to visit; calls in a callback
  do not increase it.
\<close>

subsection \<open>What is left to visit\<close>

text \<open>The entries behind the entry \<open>i\<close>, weighed by \<open>f\<close>.\<close>

definition weight :: "(timer_entry \<Rightarrow> nat) \<Rightarrow> nat \<Rightarrow> timer_entry list \<Rightarrow> nat" where
  "weight f i ts = sum_list (map f (tl (dropWhile (\<lambda>e. te_id e \<noteq> i) ts)))"

text \<open>Weights that see nothing after the time \<open>T\<close>, and do not grow when a timer is destroyed.\<close>

definition light :: "int \<Rightarrow> (timer_entry \<Rightarrow> nat) \<Rightarrow> bool" where
  "light T f \<longleftrightarrow> (\<forall>e. T < te_tag e div 1024 \<longrightarrow> f e = 0) \<and> (\<forall>e. f (e\<lparr>te_timer := None\<rparr>) \<le> f e)"

lemma weight_simps [simp]:
  "weight f i [] = 0"
  "weight f i (x # xs) = (if te_id x = i then sum_list (map f xs) else weight f i xs)"
  by (simp_all add: weight_def)

lemma sum_list_insert_entry: "sum_list (map f (insert_entry e xs)) = f e + (sum_list (map f xs) :: nat)"
  by (induction xs) auto

lemma weight_insert:
  "te_id e \<noteq> i \<Longrightarrow> weight f i (insert_entry e xs) \<le> weight f i xs + f e"
  by (induction xs) (auto simp: sum_list_insert_entry)

lemma weight_insert_before:
  "te_id e \<noteq> i \<Longrightarrow> sorted (map te_tag xs) \<Longrightarrow> y \<in> set xs \<Longrightarrow> te_id y = i \<Longrightarrow> distinct (map te_id xs) \<Longrightarrow> te_tag e < te_tag y \<Longrightarrow>
   weight f i (insert_entry e xs) = weight f i xs"
  by (induction xs) (fastforce simp: image_iff)+

lemma sum_list_filter_le: "sum_list (map f (filter P xs)) \<le> (sum_list (map f xs) :: nat)"
  by (induction xs) auto

lemma weight_filter: "j \<noteq> i \<Longrightarrow> weight f i (filter (\<lambda>e. te_id e \<noteq> j) xs) \<le> weight f i xs"
  by (induction xs) (auto simp: sum_list_filter_le)

lemma sum_list_map_le: "(\<And>x. f (g x) \<le> f x) \<Longrightarrow> sum_list (map f (map g xs)) \<le> (sum_list (map f xs) :: nat)"
  by (induction xs) (auto intro: add_mono)

lemma weight_map:
  assumes "\<And>x. te_id (g x) = te_id x" and "\<And>x. f (g x) \<le> f x"
  shows "weight f i (map g xs) \<le> weight f i xs"
proof (induction xs)
  case (Cons x xs)
  have "sum_list (map f (map g xs)) \<le> sum_list (map f xs)" by (rule sum_list_map_le) (rule assms)
  with Cons.IH assms(1) [of x] show ?case
    by (cases "te_id x = i") (simp_all del: map_map)
qed simp

definition kept :: "int \<Rightarrow> nat \<Rightarrow> dispatcher \<Rightarrow> dispatcher \<Rightarrow> bool" where
  "kept T i d d' \<longleftrightarrow> (\<forall>f. light T f \<longrightarrow> weight f i (d_timers d') \<le> weight f i (d_timers d)) \<and>
     ((\<exists>e\<in>set (d_timers d). te_id e = i \<and> 1024 \<le> te_tag e) \<longrightarrow> (\<exists>e\<in>set (d_timers d'). te_id e = i \<and> 1024 \<le> te_tag e)) \<and>
     d_triggerTime d' = d_triggerTime d \<and> d_serialsCompacted d' = d_serialsCompacted d"

lemma kept_refl [simp]: "kept T i d d"
  by (simp add: kept_def)

lemma kept_trans: "kept T i d d' \<Longrightarrow> kept T i d' d'' \<Longrightarrow> kept T i d d''"
proof -
  assume 1: "kept T i d d'" and 2: "kept T i d' d''"
  have "weight f i (d_timers d'') \<le> weight f i (d_timers d)" if "light T f" for f
    using 1 2 that order_trans [of "weight f i (d_timers d'')" "weight f i (d_timers d')"] by (simp add: kept_def)
  with 1 2 show ?thesis by (simp add: kept_def)
qed

lemma kept_same_timers:
  "d_timers d' = d_timers d \<Longrightarrow> d_triggerTime d' = d_triggerTime d \<Longrightarrow>
   d_serialsCompacted d' = d_serialsCompacted d \<Longrightarrow> kept T i d d'"
  by (simp add: kept_def)

lemma removeTimer_kept:
  assumes inv: "d_inv (Some (i, tm0)) x d" and obj: "d_objects d tm = Some t" "\<not> t_guarded t"
  shows "kept T i d (removeTimer tm d)"
proof (cases "find (\<lambda>e. te_tag e = timer_tag t \<and> te_timer e = Some tm) (d_timers d)")
  case None
  then show ?thesis using obj by (simp add: removeTimer_def)
next
  case (Some e)
  then have e: "e \<in> set (d_timers d)" "te_timer e = Some tm" by (auto simp: find_Some_iff)
  have "te_id e \<noteq> i"
  proof
    assume i: "te_id e = i"
    obtain y where y: "y \<in> set (d_timers d)" "te_id y = i"
      "te_timer y = (if d_objects d tm0 = None then None else Some tm0)"
      and g: "\<forall>t. d_objects d tm0 = Some t \<longrightarrow> t_guarded t"
      using inv by (auto simp: d_inv_def guard_ok_def)
    have "y = e" using inv y(1,2) e(1) i by (auto simp: d_inv_def distinct_map inj_on_def)
    with y(3) e(2) obj g show False by (auto split: if_splits)
  qed
  then show ?thesis using Some obj
    by (auto simp: removeTimer_def erase_entry_def kept_def weight_filter)
qed

lemma kept_map:
  assumes "d_timers d' = map g (d_timers d)" and "\<And>x. te_id (g x) = te_id x" "\<And>x. te_tag (g x) = te_tag x"
    and "\<And>x. g x = x \<or> g x = x\<lparr>te_timer := None\<rparr>"
    and "d_triggerTime d' = d_triggerTime d" "d_serialsCompacted d' = d_serialsCompacted d"
  shows "kept T i d d'"
proof -
  have "f (g x) \<le> f x" if "light T f" for f x
    using assms(4) [of x] that by (auto simp: light_def)
  with weight_map [of g] assms show ?thesis by (simp add: kept_def)
qed

lemma killed_kept:
  assumes "d_inv g {} d" "d_objects d tm = Some t" "t_guarded t"
  shows "kept T i d (timer_destroy tm d)"
proof -
  obtain j where "d_timers (timer_destroy tm d) = map (\<lambda>x. if te_id x = j then x\<lparr>te_timer := None\<rparr> else x) (d_timers d)"
    using d_inv_killed [OF assms] by blast
  then show ?thesis
    by (rule kept_map) (use d_inv_object [OF assms(1,2)] assms(2,3) in
      \<open>simp_all add: timer_destroy_def with_timer_def Let_def object_ok_def timer_ok_def\<close>)
qed

definition intervals_ok :: "dispatcher \<Rightarrow> bool" where
  "intervals_ok d \<longleftrightarrow> (\<forall>tm t. d_objects d tm = Some t \<longrightarrow> 0 \<le> t_interval t \<and> t_interval t < 2 ^ 31)"

fun call_ok :: "timer_call \<Rightarrow> bool" where
  "call_ok (StartTimer tm msec) \<longleftrightarrow> 0 \<le> msec \<and> msec < 2 ^ 31"
| "call_ok (SetInterval tm msec) \<longleftrightarrow> 0 \<le> msec \<and> msec < 2 ^ 31"
| "call_ok _ \<longleftrightarrow> True"

fun passing :: "timer_call \<Rightarrow> nat" where
  "passing (Pass msec) = msec"
| "passing _ = 0"

lemma addTimer_kept:
  assumes inv: "d_inv (Some (i, tm0)) x d" and obj: "d_objects d tm = Some t" and "intervals_ok d"
    and s: "d_currentTimerSerial d \<le> 1023"
    and e: "\<exists>e\<in>set (d_timers d). te_id e = i \<and> 1024 \<le> te_tag e"
    and T: "d_triggerTime d = T" "0 < T" "T \<le> d_clock d" "d_clock d \<le> 2 ^ 53"
  shows "kept T i d (addTimer tm d) \<and> d_currentTimerSerial (addTimer tm d) = d_currentTimerSerial d + 1 \<and>
    d_clock (addTimer tm d) = d_clock d \<and> intervals_ok (addTimer tm d)"
proof -
  let ?due = "(if t_interval t \<noteq> 0 then d_clock d + t_interval t else 0)"
  have iv: "0 \<le> t_interval t" "t_interval t < 2 ^ 31" using assms(3) obj by (auto simp: intervals_ok_def)
  have s0: "0 \<le> d_currentTimerSerial d" using inv by (simp add: d_inv_def)
  have due: "(d_clock d + t_interval t) mod 2 ^ 64 mod 2 ^ 54 = d_clock d + t_interval t" using iv T by simp
  let ?t = "t\<lparr>t_serial := d_currentTimerSerial d, t_nextDueTime := ?due\<rparr>"
  have tag: "timer_tag ?t = ?due * 1024 + d_currentTimerSerial d" using iv T s s0 by (simp add: timer_tag_def)
  let ?e = "\<lparr>te_id = d_nextEntry d, te_tag = timer_tag ?t, te_timer = Some tm\<rparr>"
  have n: "nextTimerSerial d = (d_currentTimerSerial d, d\<lparr>d_currentTimerSerial := d_currentTimerSerial d + 1\<rparr>)"
    using s by (simp add: nextTimerSerial_def s_maxTimerSerial_def)
  have add: "addTimer tm d = maybeSetTimeoutForIntegrator (snd (emplace (timer_tag ?t) tm
      (d\<lparr>d_currentTimerSerial := d_currentTimerSerial d + 1, d_objects := (d_objects d)(tm := Some ?t)\<rparr>)))"
    using obj T(1,2) s s0 due by (cases "t_interval t = 0") (simp_all add: addTimer_def n Let_def)
  have ts: "d_timers (addTimer tm d) = insert_entry ?e (d_timers d)"
    and same: "d_triggerTime (addTimer tm d) = d_triggerTime d" "d_serialsCompacted (addTimer tm d) = d_serialsCompacted d"
      "d_currentTimerSerial (addTimer tm d) = d_currentTimerSerial d + 1" "d_clock (addTimer tm d) = d_clock d"
    unfolding add by (simp_all add: emplace_def)
  have iok: "intervals_ok (addTimer tm d)"
    unfolding add using assms(3) iv by (auto simp: emplace_def intervals_ok_def)
  obtain y where y: "y \<in> set (d_timers d)" "te_id y = i" "1024 \<le> te_tag y" using e by blast
  have new: "te_id ?e \<noteq> i" using d_inv_entry [OF inv y(1)] y(2) by (simp add: entry_ok_def)
  have "weight f i (insert_entry ?e (d_timers d)) \<le> weight f i (d_timers d)" if f: "light T f" for f
  proof (cases "t_interval t = 0")
    case True
    then have "te_tag ?e < te_tag y" using tag s y(3) by simp
    from weight_insert_before [OF new _ y(1,2) _ this] inv show ?thesis by (simp add: d_inv_def)
  next
    case False
    then have "T < te_tag ?e div 1024" using tag iv T s s0 by simp
    then have "f ?e = 0" using f by (simp add: light_def)
    with weight_insert [OF new, of f "d_timers d"] show ?thesis by simp
  qed
  then show ?thesis using same ts iok by (auto simp: kept_def)
qed

lemma intervals_update:
  "intervals_ok d \<Longrightarrow> d_objects d tm = Some t \<Longrightarrow> 0 \<le> t_interval (f t) \<Longrightarrow> t_interval (f t) < 2 ^ 31 \<Longrightarrow>
   intervals_ok (updateTimer tm f d)"
  by (auto simp: intervals_ok_def updated_object)

lemma intervals_remove: "d_objects d tm = Some t \<Longrightarrow> intervals_ok d \<Longrightarrow> intervals_ok (removeTimer tm d)"
  by (simp add: intervals_ok_def)

lemma interval_bounds: "intervals_ok d \<Longrightarrow> d_objects d tm = Some t \<Longrightarrow> 0 \<le> t_interval t \<and> t_interval t < 2 ^ 31"
  by (auto simp: intervals_ok_def)

text \<open>What holds while the callback of the timer \<open>tm0\<close> with entry \<open>i\<close> runs.\<close>

definition in_callback :: "int \<Rightarrow> nat \<Rightarrow> nat \<Rightarrow> nat set \<Rightarrow> dispatcher \<Rightarrow> bool" where
  "in_callback T i tm0 x d \<longleftrightarrow> d_inv (Some (i, tm0)) x d \<and> intervals_ok d \<and>
     (\<exists>e\<in>set (d_timers d). te_id e = i \<and> 1024 \<le> te_tag e) \<and>
     d_triggerTime d = T \<and> 0 < T \<and> T \<le> d_clock d \<and> d_clock d \<le> 2 ^ 53"

definition call_result :: "int \<Rightarrow> nat \<Rightarrow> dispatcher \<Rightarrow> dispatcher \<Rightarrow> nat \<Rightarrow> nat \<Rightarrow> bool" where
  "call_result T i d d' n p \<longleftrightarrow> kept T i d d' \<and> intervals_ok d' \<and>
     d_currentTimerSerial d' \<le> d_currentTimerSerial d + int n \<and> d_clock d' = d_clock d + int p"

lemma add_result:
  assumes d: "in_callback T i tm0 (insert tm x) d" and obj: "d_objects d tm = Some t" and s: "d_currentTimerSerial d \<le> 1023"
  shows "call_result T i d (addTimer tm d) 1 0"
  using addTimer_kept [of i tm0 _ d tm t T] assms by (auto simp: in_callback_def call_result_def)

lemma remove_result:
  assumes d: "in_callback T i tm0 (insert tm x) d" and obj: "d_objects d tm = Some t" "\<not> t_guarded t"
  shows "call_result T i d (removeTimer tm d) 0 0 \<and> in_callback T i tm0 (insert tm x) (removeTimer tm d)"
proof -
  have "kept T i d (removeTimer tm d)"
    using removeTimer_kept [OF _ obj] d by (auto simp: in_callback_def)
  moreover from this removeTimer_inv [OF _ obj] d obj(1) intervals_remove [OF obj(1)]
  have "in_callback T i tm0 (insert tm x) (removeTimer tm d)" by (auto simp: in_callback_def kept_def)
  ultimately show ?thesis using obj(1) by (simp add: call_result_def in_callback_def)
qed

lemma update_result:
  assumes d: "in_callback T i tm0 x d" and obj: "d_objects d tm = Some t"
    and f: "0 \<le> t_interval (f t)" "t_interval (f t) < 2 ^ 31" and inv: "d_inv (Some (i, tm0)) y (updateTimer tm f d)"
  shows "call_result T i d (updateTimer tm f d) 0 0 \<and> in_callback T i tm0 y (updateTimer tm f d)"
  using d intervals_update [of d tm t f] obj f inv by (auto simp: in_callback_def call_result_def kept_same_timers)

lemma result_trans:
  "call_result T i d d' n p \<Longrightarrow> call_result T i d' d'' m q \<Longrightarrow> call_result T i d d'' (n + m) (p + q)"
  by (auto simp: call_result_def intro: kept_trans)

lemma result_mono: "call_result T i d d' n p \<Longrightarrow> n \<le> m \<Longrightarrow> call_result T i d d' m p"
  by (auto simp: call_result_def)

lemma result_refl [simp]: "intervals_ok d \<Longrightarrow> call_result T i d d n 0"
  by (simp add: call_result_def)

lemma hole_callback: "in_callback T i tm0 {} d \<Longrightarrow> in_callback T i tm0 {tm} d"
  by (auto simp: in_callback_def intro: d_inv_hole)

lemma timer_start_result:
  assumes d: "in_callback T i tm0 {} d" and obj: "d_objects d tm = Some t" and s: "d_currentTimerSerial d \<le> 1023"
    and m: "0 \<le> msec" "msec < 2 ^ 31"
  shows "call_result T i d (timer_start tm msec d) 1 0"
proof -
  let ?f = "\<lambda>t. t\<lparr>t_interval := msec, t_isRunning := True\<rparr>"
  have inv: "d_inv (Some (i, tm0)) {} d" using d by (simp add: in_callback_def)
  have ok: "timer_ok t" using d_inv_object [OF inv obj] by (simp add: object_ok_def)
  show ?thesis
  proof (cases "t_guarded t")
    case True
    have "d_inv (Some (i, tm0)) {} (updateTimer tm ?f d)"
      by (rule d_inv_update [OF inv obj]) (use ok True in \<open>simp_all add: timer_tag_def timer_ok_def\<close>)
    from update_result [OF d obj _ _ this] m True obj show ?thesis
      by (auto simp: timer_start_def with_timer_def elim: result_mono)
  next
    case False
    let ?d1 = "if t_isRunning t then removeTimer tm d else d"
    have d1: "call_result T i d ?d1 0 0" "in_callback T i tm0 {tm} ?d1" "d_objects ?d1 tm = Some t" "\<not> has_entry ?d1 tm"
      using remove_result [OF hole_callback [OF d] obj False] hole_callback [OF d, of tm] obj d
        removeTimer_inv [OF d_inv_hole [OF inv] obj False] no_entry [OF inv obj _ False]
      by (auto simp: in_callback_def)
    have "d_inv (Some (i, tm0)) {tm} (updateTimer tm ?f ?d1)"
      by (rule no_entry_update [OF _ d1(3) False]) (use d1(2,4) ok in \<open>simp_all add: in_callback_def has_entry_def timer_ok_def\<close>)
    from update_result [OF d1(2,3) _ _ this] m
    have d2: "call_result T i ?d1 (updateTimer tm ?f ?d1) 0 0" "in_callback T i tm0 {tm} (updateTimer tm ?f ?d1)" by simp_all
    have "d_currentTimerSerial ?d1 = d_currentTimerSerial d" using obj by simp
    then have "call_result T i (updateTimer tm ?f ?d1) (addTimer tm (updateTimer tm ?f ?d1)) 1 0"
      using d2(2) d1(3) s by (intro add_result [where t = "?f t" and x = "{}"]) (simp_all add: updated_object)
    from result_trans [OF d1(1) result_trans [OF d2(1) this]] False obj ok show ?thesis
      by (simp add: timer_start_def with_timer_def timer_ok_def)
  qed
qed

lemma timer_setRunning_result:
  assumes d: "in_callback T i tm0 {} d" and obj: "d_objects d tm = Some t" and s: "d_currentTimerSerial d \<le> 1023"
  shows "call_result T i d (timer_setRunning tm run d) 1 0"
proof (cases "t_isRunning t = run")
  case True
  then show ?thesis using d obj by (simp add: timer_setRunning_def with_timer_def in_callback_def)
next
  case run: False
  let ?f = "\<lambda>t. t\<lparr>t_isRunning := run\<rparr>"
  let ?d1 = "updateTimer tm ?f d"
  have inv: "d_inv (Some (i, tm0)) {} d" using d by (simp add: in_callback_def)
  have ok: "timer_ok t" using d_inv_object [OF inv obj] by (simp add: object_ok_def)
  have iv: "0 \<le> t_interval t" "t_interval t < 2 ^ 31" using d obj by (auto simp: in_callback_def dest: interval_bounds)
  let ?x = "if t_guarded t then {} else {tm}"
  have "d_inv (Some (i, tm0)) ?x d" using inv d_inv_hole [OF inv] by simp
  then have "d_inv (Some (i, tm0)) ?x ?d1"
    by (rule d_inv_update [OF _ obj]) (use ok in \<open>simp_all add: timer_tag_def timer_ok_def\<close>)
  from update_result [OF d obj _ _ this] iv
  have d1: "call_result T i d ?d1 0 0" "in_callback T i tm0 ?x ?d1" by simp_all
  show ?thesis
  proof (cases "t_guarded t")
    case True
    then show ?thesis using run obj result_mono [OF d1(1), of 1] by (simp add: timer_setRunning_def with_timer_def)
  next
    case False
    show ?thesis
    proof (cases run)
      case True
      have "call_result T i ?d1 (addTimer tm ?d1) 1 0"
        using d1(2) False s obj by (intro add_result [where t = "?f t" and x = "{}"]) (simp_all add: updated_object)
      from result_trans [OF d1(1) this] True False run obj ok show ?thesis
        by (simp add: timer_setRunning_def with_timer_def timer_ok_def)
    next
      case nr: False
      have "call_result T i ?d1 (removeTimer tm ?d1) 0 0"
        using remove_result [of T i tm0 tm "{}" ?d1 "?f t"] d1(2) False obj by (simp add: updated_object)
      from result_trans [OF d1(1) this] nr False run obj ok show ?thesis
        by (auto simp: timer_setRunning_def with_timer_def timer_ok_def elim: result_mono)
    qed
  qed
qed

lemma timer_setInterval_result:
  assumes d: "in_callback T i tm0 {} d" and obj: "d_objects d tm = Some t" and s: "d_currentTimerSerial d \<le> 1023"
    and m: "0 \<le> msec" "msec < 2 ^ 31"
  shows "call_result T i d (timer_setInterval tm msec d) 1 0"
proof -
  let ?f = "\<lambda>t. t\<lparr>t_interval := msec\<rparr>"
  let ?d1 = "updateTimer tm ?f d"
  have inv: "d_inv (Some (i, tm0)) {} d" using d by (simp add: in_callback_def)
  have ok: "timer_ok t" using d_inv_object [OF inv obj] by (simp add: object_ok_def)
  have "d_inv (Some (i, tm0)) {} ?d1"
    by (rule d_inv_update [OF inv obj]) (use ok obj in \<open>simp_all add: timer_tag_def timer_ok_def\<close>)
  from update_result [OF d obj _ _ this] m
  have d1: "call_result T i d ?d1 0 0" "in_callback T i tm0 {} ?d1" by simp_all
  show ?thesis
  proof (cases "t_isRunning t \<and> \<not> t_guarded t \<and> t_interval t \<noteq> msec")
    case True
    from remove_result [OF hole_callback [OF d1(2)], of tm "?f t"] True obj
    have d2: "call_result T i ?d1 (removeTimer tm ?d1) 0 0" "in_callback T i tm0 {tm} (removeTimer tm ?d1)"
      by (simp_all add: updated_object)
    have same: "d_objects (removeTimer tm ?d1) tm = Some (?f t)"
        "d_currentTimerSerial (removeTimer tm ?d1) = d_currentTimerSerial d"
      using obj removeTimer_same [of ?d1 tm "?f t"] by (simp_all add: updated_object)
    have "call_result T i (removeTimer tm ?d1) (addTimer tm (removeTimer tm ?d1)) 1 0"
      using d2(2) same s by (intro add_result [where t = "?f t" and x = "{}"]) simp_all
    from result_trans [OF d1(1) result_trans [OF d2(1) this]] True obj ok show ?thesis
      by (simp add: timer_setInterval_def with_timer_def timer_ok_def)
  next
    case False
    then show ?thesis using d1 d obj
      by (auto simp: timer_setInterval_def with_timer_def in_callback_def Let_def elim: result_mono)
  qed
qed

lemma timer_destroy_result:
  assumes d: "in_callback T i tm0 {} d" and obj: "d_objects d tm = Some t"
  shows "call_result T i d (timer_destroy tm d) 1 0"
proof -
  have inv: "d_inv (Some (i, tm0)) {} d" using d by (simp add: in_callback_def)
  have ok: "timer_ok t" using d_inv_object [OF inv obj] by (simp add: object_ok_def)
  have kept: "kept T i d (timer_destroy tm d)"
  proof (cases "t_guarded t")
    case True
    with killed_kept [OF inv obj] show ?thesis .
  next
    case False
    have "kept T i d' (d'\<lparr>d_objects := o'\<rparr>)" for d' o' by (simp add: kept_same_timers)
    from kept_trans [OF removeTimer_kept [OF inv obj False] this] this False obj ok show ?thesis
      by (auto simp: timer_destroy_def with_timer_def Let_def timer_ok_def)
  qed
  have "intervals_ok (timer_destroy tm d)"
    using d obj ok by (auto simp: timer_destroy_def with_timer_def Let_def timer_ok_def in_callback_def intervals_ok_def)
  then show ?thesis using kept obj ok
    by (auto simp: call_result_def timer_destroy_def with_timer_def Let_def timer_ok_def)
qed

lemma timer_new_intervals: "intervals_ok d \<Longrightarrow> intervals_ok (timer_new d)"
  by (auto simp: intervals_ok_def timer_new_def Timer_def)

lemma do_call_result:
  assumes d: "in_callback T i tm0 {} d" and "callable c d" "call_ok c" and s: "d_currentTimerSerial d \<le> 1023"
  shows "call_result T i d (do_call c d) 1 (passing c)"
proof -
  have iv: "intervals_ok d" using d by (simp add: in_callback_def)
  have upd: "call_result T i d (updateTimer tm f d) 1 0"
    if "d_objects d tm = Some t" "t_interval (f t) = t_interval t" for tm t f
    using intervals_update [OF iv that(1), of f] interval_bounds [OF iv that(1)] that(2)
    by (simp add: call_result_def kept_same_timers)
  show ?thesis
  proof (cases c)
    case NewTimer
    then show ?thesis using timer_new_intervals [OF iv]
      by (simp add: call_result_def kept_same_timers timer_new_def)
  next
    case (Pass n)
    then show ?thesis using iv by (simp add: call_result_def kept_same_timers intervals_ok_def)
  qed (use assms upd timer_destroy_result timer_start_result timer_setRunning_result timer_setInterval_result in
       \<open>auto simp: callable_def timer_setRepeating_def timer_setCompletionListener_def\<close>)
qed

lemma timer_calls_result:
  assumes "in_callback T i tm0 {} d" and "\<forall>c\<in>set cs. call_ok c"
    and "d_currentTimerSerial d + int (length cs) \<le> 1024" and "d_clock d + int (sum_list (map passing cs)) \<le> 2 ^ 53"
  shows "call_result T i d (timer_calls cs d) (length cs) (sum_list (map passing cs)) \<and>
    in_callback T i tm0 {} (timer_calls cs d)"
  using assms
proof (induction cs arbitrary: d)
  case (Cons c cs)
  let ?d = "if callable c d then do_call c d else d"
  let ?p = "if callable c d then passing c else 0"
  have s: "d_currentTimerSerial d \<le> 1023" using Cons.prems(3) by simp
  have inv: "d_inv (Some (i, tm0)) {} d" "intervals_ok d" using Cons.prems(1) by (simp_all add: in_callback_def)
  have r: "call_result T i d ?d 1 ?p"
    using do_call_result [OF Cons.prems(1) _ _ s, of c] Cons.prems(2) inv by simp
  moreover have "d_inv (Some (i, tm0)) {} ?d" using do_call_inv [OF inv(1), of c] s inv(1) by simp
  ultimately have cb: "in_callback T i tm0 {} ?d"
    using Cons.prems(1,4) by (auto simp: in_callback_def call_result_def kept_def)
  have p: "?p = passing c" by (cases c) (auto simp: callable_def)
  from Cons.IH [OF cb] Cons.prems r p
  have "call_result T i ?d (timer_calls cs ?d) (length cs) (sum_list (map passing cs)) \<and> in_callback T i tm0 {} (timer_calls cs ?d)"
    by (auto simp: call_result_def)
  with result_trans [OF r] p show ?case by (simp add: timer_calls_Cons)
qed (simp add: in_callback_def)

subsection \<open>Entering and leaving a callback\<close>

lemma enter_callback:
  assumes inv: "d_inv None {} d" and e: "e \<in> set (d_timers d)" "te_timer e = Some tm" and obj: "d_objects d tm = Some t"
  shows "d_inv (Some (te_id e, tm)) {} (updateTimer tm (\<lambda>t. t\<lparr>t_isRunning := r, t_guarded := True\<rparr>) d)"
proof -
  let ?f = "\<lambda>t. t\<lparr>t_isRunning := r, t_guarded := True\<rparr>"
  let ?d = "updateTimer tm ?f d"
  have d: "?d = d\<lparr>d_objects := (d_objects d)(tm := Some (?f t))\<rparr>" using obj by (simp add: updateTimer_def)
  have same: "y = e" if "y \<in> set (d_timers d)" "te_timer y = Some tm" for y
    using that e inv by (auto simp: d_inv_def distinct_map inj_on_def)
  have "entry_ok ?d (Some (te_id e, tm)) {} y" if y: "y \<in> set (d_timers d)" for y
    using d_inv_entry [OF inv y] same [OF y] obj e unfolding d
    by (cases "te_timer y = Some tm") (auto simp: entry_ok_def timer_tag_def split: option.splits)
  moreover have "object_ok ?d (Some (te_id e, tm)) {} tm' t'" if "d_objects ?d tm' = Some t'" for tm' t'
    using d_inv_object [OF inv, of tm'] obj that unfolding d
    by (cases "tm' = tm") (auto simp: object_ok_def timer_ok_def)
  moreover have "guard_ok ?d (Some (te_id e, tm))"
    using e d_inv_object [OF inv obj] unfolding d by (auto simp: guard_ok_def object_ok_def)
  ultimately show ?thesis using inv unfolding d by (simp add: d_inv_def)
qed

lemma leave_callback:
  assumes inv: "d_inv (Some (i, tm)) {} d" and obj: "d_objects d tm = Some t"
  shows "d_inv None {tm} (updateTimer tm (\<lambda>t. t\<lparr>t_guarded := False\<rparr>) d)"
proof -
  let ?f = "\<lambda>t. t\<lparr>t_guarded := False\<rparr>"
  let ?d = "updateTimer tm ?f d"
  have d: "?d = d\<lparr>d_objects := (d_objects d)(tm := Some (?f t))\<rparr>" using obj by (simp add: updateTimer_def)
  obtain e where e: "e \<in> set (d_timers d)" "te_id e = i" "te_timer e = Some tm"
    using inv obj by (auto simp: d_inv_def guard_ok_def)
  have same: "y = e" if "y \<in> set (d_timers d)" "te_id y = i" for y
    using that e inv by (auto simp: d_inv_def distinct_map inj_on_def)
  have "entry_ok ?d None {tm} y" if y: "y \<in> set (d_timers d)" for y
    using d_inv_entry [OF inv y] same [OF y] obj e unfolding d
    by (cases "te_timer y = Some tm") (auto simp: entry_ok_def timer_tag_def split: option.splits)
  moreover have "object_ok ?d None {tm} tm' t'" if "d_objects ?d tm' = Some t'" for tm' t'
    using d_inv_object [OF inv, of tm'] obj that unfolding d
    by (cases "tm' = tm") (auto simp: object_ok_def timer_ok_def)
  moreover have "guard_ok ?d None" by (simp add: guard_ok_def)
  ultimately show ?thesis using inv unfolding d by (simp add: d_inv_def)
qed

lemma bury_callback:
  assumes inv: "d_inv (Some (i, tm)) {} d" and obj: "d_objects d tm = None"
  shows "d_inv None {} (snd (erase_entry i d))"
proof -
  let ?d = "snd (erase_entry i d)"
  have d: "?d = d\<lparr>d_timers := filter (\<lambda>x. te_id x \<noteq> i) (d_timers d)\<rparr>" by (simp add: erase_entry_def)
  have e: "te_timer y = None" if "y \<in> set (d_timers d)" "te_id y = i" for y
    using that inv obj by (auto simp: d_inv_def guard_ok_def distinct_map inj_on_def)
  have "entry_ok ?d None {} y" if "y \<in> set (d_timers ?d)" for y
    using d_inv_entry [OF inv, of y] that obj unfolding d by (auto simp: entry_ok_def split: option.splits)
  moreover have "object_ok ?d None {} tm' t'" if obj': "d_objects ?d tm' = Some t'" for tm' t'
  proof -
    have ok: "object_ok d (Some (i, tm)) {} tm' t'" using d_inv_object [OF inv, of tm' t'] obj' unfolding d by simp
    have "tm' \<noteq> tm" using obj obj' unfolding d by auto
    with ok have "\<not> t_guarded t'" by (simp add: object_ok_def)
    moreover have "te_id y \<noteq> i" if "y \<in> set (d_timers d)" "te_timer y = Some tm'" for y
      using e [of y] that by auto
    ultimately show ?thesis using ok unfolding d by (fastforce simp: object_ok_def image_iff)
  qed
  moreover have "guard_ok ?d None" by (simp add: guard_ok_def)
  ultimately show ?thesis using inv unfolding d
    by (simp add: d_inv_def sorted_filter_map distinct_filter_map)
qed

subsection \<open>Moving on\<close>

definition weight_at :: "(timer_entry \<Rightarrow> nat) \<Rightarrow> timer_iterator \<Rightarrow> timer_entry list \<Rightarrow> nat" where
  "weight_at f it ts =
     (case it of AtEntry i \<Rightarrow> sum_list (map f (dropWhile (\<lambda>e. te_id e \<noteq> i) ts)) | _ \<Rightarrow> 0)"

definition valid_iterator :: "timer_iterator \<Rightarrow> timer_entry list \<Rightarrow> bool" where
  "valid_iterator it ts \<longleftrightarrow> it = AtEnd \<or> (\<exists>e\<in>set ts. it = AtEntry (te_id e))"

lemma next_weight:
  assumes "distinct (map te_id ts)" and "e \<in> set ts"
  shows "weight_at f (next_entry (te_id e) ts) ts = weight f (te_id e) ts"
    and "weight_at f (next_entry (te_id e) ts) (filter (\<lambda>x. te_id x \<noteq> te_id e) ts) = weight f (te_id e) ts"
    and "valid_iterator (next_entry (te_id e) ts) ts"
    and "valid_iterator (next_entry (te_id e) ts) (filter (\<lambda>x. te_id x \<noteq> te_id e) ts)"
    and "weight_at f (AtEntry (te_id e)) ts = f e + weight f (te_id e) ts"
proof -
  from assms(2) obtain pre post where ts: "ts = pre @ e # post" by (auto simp: in_set_conv_decomp)
  with assms(1) have ids: "te_id e \<notin> te_id ` set pre" "te_id e \<notin> te_id ` set post"
    and d: "set (map te_id pre) \<inter> set (map te_id post) = {}" by auto
  have nxt: "next_entry (te_id e) ts = first_entry post" using next_entry_split [OF ids(1)] ts by simp
  have fil: "filter (\<lambda>x. te_id x \<noteq> te_id e) ts = pre @ post" using ids ts by (simp add: filter_other)
  have skip: "dropWhile (\<lambda>e. te_id e \<noteq> j) (xs @ ys) = dropWhile (\<lambda>e. te_id e \<noteq> j) ys"
    if "j \<notin> te_id ` set xs" for j xs ys
    using that by (induction xs) auto
  have first: "weight_at f (first_entry post) (xs @ post) = sum_list (map f post)"
    if "set (map te_id xs) \<inter> set (map te_id post) = {}" for xs
  proof (cases post)
    case (Cons a as)
    with that have "te_id a \<notin> te_id ` set xs" by auto
    then show ?thesis using Cons skip [of "te_id a" xs] by (simp add: weight_at_def)
  qed (simp add: weight_at_def)
  have w: "weight f (te_id e) ts = sum_list (map f post)" using skip [OF ids(1)] ts by (simp add: weight_def)
  have "weight_at f (first_entry post) ts = sum_list (map f post)"
    using first [of "pre @ [e]"] d ids by (simp add: ts)
  with w show "weight_at f (next_entry (te_id e) ts) ts = weight f (te_id e) ts"
    "weight_at f (next_entry (te_id e) ts) (filter (\<lambda>x. te_id x \<noteq> te_id e) ts) = weight f (te_id e) ts"
    using first [OF d] by (simp_all add: nxt fil)
  show "weight_at f (AtEntry (te_id e)) ts = f e + weight f (te_id e) ts"
    using skip [OF ids(1)] w ts by (simp add: weight_at_def)
  show "valid_iterator (next_entry (te_id e) ts) ts" "valid_iterator (next_entry (te_id e) ts) (filter (\<lambda>x. te_id x \<noteq> te_id e) ts)"
    unfolding nxt fil by (cases post; simp add: valid_iterator_def ts)+
qed

lemma weight_at_insert:
  assumes "valid_iterator it ts" and "te_id e \<notin> te_id ` set ts"
  shows "weight_at f it (insert_entry e ts) \<le> weight_at f it ts + f e \<and> valid_iterator it (insert_entry e ts)"
proof -
  have "te_id e \<noteq> i" if "it = AtEntry i" for i using assms that by (auto simp: valid_iterator_def)
  moreover have "sum_list (map f (dropWhile (\<lambda>e. te_id e \<noteq> i) (insert_entry e ts))) \<le>
      sum_list (map f (dropWhile (\<lambda>e. te_id e \<noteq> i) ts)) + f e" if "te_id e \<noteq> i" for i
    using that by (induction ts) (auto simp: sum_list_insert_entry)
  ultimately show ?thesis using assms(1)
    by (cases it) (auto simp: weight_at_def valid_iterator_def)
qed

definition moved_on :: "int \<Rightarrow> timer_entry \<Rightarrow> dispatcher \<Rightarrow> timer_iterator \<times> dispatcher \<Rightarrow> bool" where
  "moved_on T e d = (\<lambda>(it', d'). d_inv None {} d' \<and> intervals_ok d' \<and> d_triggerTime d' = d_triggerTime d \<and>
     d_clock d' = d_clock d \<and> d_currentTimerSerial d' = d_currentTimerSerial d \<and> d_triggered d' = d_triggered d \<and>
     valid_iterator it' (d_timers d') \<and>
     ((\<forall>f. light T f \<longrightarrow> weight_at f it' (d_timers d') \<le> weight f (te_id e) (d_timers d)) \<or>
      (\<exists>e'. te_tag e < 1024 \<and> 1024 \<le> te_tag e' \<and> te_tag e' div 1024 \<le> T \<and> te_timer e' = te_timer e \<and>
        (\<forall>f. light T f \<longrightarrow> weight_at f it' (d_timers d') \<le> weight f (te_id e) (d_timers d) + f e'))))"

lemma reinsert_moved:
  assumes inv: "d_inv None {tm} d" "intervals_ok d" and e: "e \<in> set (d_timers d)" "te_timer e = Some tm"
    and obj: "d_objects d tm = Some t" "t_isRunning t" and T: "d_triggerTime d = T" "0 < T" "T \<le> 2 ^ 53"
    and again: "t_interval t \<noteq> 0 \<or> t_nextDueTime t = 0"
  shows "moved_on T e d (afterTrigger (te_id e) d)"
proof -
  let ?t = "t\<lparr>t_nextDueTime := (d_triggerTime d + t_interval t) mod 2 ^ 54\<rparr>"
  let ?f = "\<lambda>_. ?t"
  let ?d1 = "d\<lparr>d_objects := (d_objects d)(tm := Some ?t)\<rparr>"
  let ?d2 = "snd (erase_entry (te_id e) d)"
  let ?d3 = "updateTimer tm ?f ?d2"
  have dist: "distinct (map te_id (d_timers d))" using inv by (simp add: d_inv_def)
  have ok: "timer_ok t" and ng: "\<not> t_guarded t" using d_inv_object [OF inv(1) obj(1)] by (simp_all add: object_ok_def)
  have iv: "0 \<le> t_interval t" "t_interval t < 2 ^ 31" using inv(2) obj(1) by (auto dest: interval_bounds)
  then have due: "(d_triggerTime d + t_interval t) mod 2 ^ 54 = T + t_interval t" using T by simp
  have find: "find (\<lambda>x. te_id x = te_id e) (d_timers d) = Some e" by (rule find_entry [OF dist e(1)])
  have d2: "d_inv None {tm} ?d2" "\<not> has_entry ?d2 tm"
    using d_inv_erase [of None tm "{}" d, OF _ obj(1) ng e] inv(1) by (simp_all add: has_entry_def)
  have obj2: "d_objects ?d2 = d_objects d" "d_nextEntry ?d2 = d_nextEntry d" by (simp_all add: erase_entry_def)
  have "d_inv None {tm} ?d3"
    by (rule no_entry_update [where t = t]) (use d2 obj ng ok due iv T obj2 in \<open>simp_all add: has_entry_def timer_ok_def\<close>)
  then have d4: "d_inv None {} (snd (emplace (timer_tag ?t) tm ?d3))"
    by (rule d_inv_emplace [where t = ?t]) (use d2 obj ng in \<open>simp_all add: updated_object obj2 has_entry_def\<close>)
  define n where "n = \<lparr>te_id = d_nextEntry d, te_tag = timer_tag ?t, te_timer = Some tm\<rparr>"
  then have n: "te_id n = d_nextEntry d" "te_tag n = timer_tag ?t" "te_timer n = Some tm" by simp_all
  have swap: "d\<lparr>d_objects := o', d_timers := ts\<rparr> = d\<lparr>d_timers := ts, d_objects := o'\<rparr>" for o' ts by simp
  have at: "afterTrigger (te_id e) d = (next_entry (te_id e) (d_timers d), snd (emplace (timer_tag ?t) tm ?d3))"
    using find e(2) obj again
    by (auto simp: afterTrigger_def entry_at_def erase_entry_def updateTimer_def Let_def swap)
  let ?fil = "filter (\<lambda>x. te_id x \<noteq> te_id e) (d_timers d)"
  have ts: "d_timers (snd (emplace (timer_tag ?t) tm ?d3)) = insert_entry n ?fil"
    by (simp add: emplace_def obj2 n_def) (simp add: erase_entry_def)
  have fresh: "te_id n \<notin> te_id ` set ?fil"
    using inv(1) by (auto simp: d_inv_def entry_ok_def n)
  have w: "weight_at f (next_entry (te_id e) (d_timers d)) (insert_entry n ?fil) \<le> weight f (te_id e) (d_timers d) + f n"
    "valid_iterator (next_entry (te_id e) (d_timers d)) (insert_entry n ?fil)" for f
    using weight_at_insert [OF next_weight(4) [OF dist e(1)] fresh, of f] next_weight(2) [OF dist e(1), of f] by simp_all
  have tag: "timer_tag ?t = (T + t_interval t) * 1024 + t_serial t" "0 \<le> t_serial t" "t_serial t < 1024"
    using ok iv T by (simp_all add: timer_tag_def timer_ok_def due)
  have tage: "te_tag e = timer_tag t" using d_inv_entry [OF inv(1) e(1)] e(2) obj by (simp add: entry_ok_def)
  have "(\<forall>f. light T f \<longrightarrow> f n = 0) \<or> te_tag e < 1024 \<and> 1024 \<le> te_tag n \<and> te_tag n div 1024 \<le> T"
  proof (cases "t_interval t = 0")
    case True
    with again have "t_nextDueTime t = 0" by simp
    then have "te_tag e < 1024" using tage tag by (simp add: timer_tag_def)
    then show ?thesis using True tag T by (simp add: n)
  next
    case False
    then have "T < te_tag n div 1024" using tag iv by (simp add: n)
    then show ?thesis by (simp add: light_def)
  qed
  then have "(\<forall>f. light T f \<longrightarrow> weight_at f (next_entry (te_id e) (d_timers d)) (insert_entry n ?fil) \<le> weight f (te_id e) (d_timers d)) \<or>
      (\<exists>e'. te_tag e < 1024 \<and> 1024 \<le> te_tag e' \<and> te_tag e' div 1024 \<le> T \<and> te_timer e' = te_timer e \<and>
        (\<forall>f. light T f \<longrightarrow> weight_at f (next_entry (te_id e) (d_timers d)) (insert_entry n ?fil) \<le> weight f (te_id e) (d_timers d) + f e'))"
  proof
    assume zero: "\<forall>f. light T f \<longrightarrow> f n = 0"
    have "weight_at f (next_entry (te_id e) (d_timers d)) (insert_entry n ?fil) \<le> weight f (te_id e) (d_timers d)"
      if "light T f" for f using w(1) [of f] zero [rule_format, OF that] by simp
    then show ?thesis by blast
  next
    assume "te_tag e < 1024 \<and> 1024 \<le> te_tag n \<and> te_tag n div 1024 \<le> T"
    then show ?thesis using w(1) e(2) n(3) by (intro disjI2 exI [of _ n]) simp
  qed
  moreover have "intervals_ok (snd (emplace (timer_tag ?t) tm ?d3))"
    using inv(2) iv by (auto simp: intervals_ok_def emplace_def updateTimer_def erase_entry_def obj(1))
  ultimately show ?thesis using d4 w(2) unfolding moved_on_def at ts [symmetric]
    by (simp add: emplace_def) (simp add: erase_entry_def)
qed

lemma afterTrigger_moved:
  assumes inv: "d_inv None {tm} d" "intervals_ok d" and e: "e \<in> set (d_timers d)" "te_timer e = Some tm"
    and obj: "d_objects d tm = Some t" and T: "d_triggerTime d = T" "0 < T" "T \<le> 2 ^ 53"
  shows "moved_on T e d (afterTrigger (te_id e) d)"
proof -
  have dist: "distinct (map te_id (d_timers d))" using inv by (simp add: d_inv_def)
  have ng: "\<not> t_guarded t" using d_inv_object [OF inv(1) obj(1)] by (simp_all add: object_ok_def)
  have find: "find (\<lambda>x. te_id x = te_id e) (d_timers d) = Some e" by (rule find_entry [OF dist e(1)])
  show ?thesis
  proof (cases "t_isRunning t")
    case False
    have "d_inv None {tm} (snd (erase_entry (te_id e) d))" "\<not> has_entry (snd (erase_entry (te_id e) d)) tm"
      using d_inv_erase [of None tm "{}" d, OF _ obj(1) ng e] inv(1) by (simp_all add: has_entry_def)
    then have "d_inv None {} (snd (erase_entry (te_id e) d))"
      by (rule d_inv_close' [where t = t]) (use obj False ng in \<open>simp_all add: erase_entry_def\<close>)
    then show ?thesis using False e(2) obj find inv(2) next_weight(2,4) [OF dist e(1)]
      by (simp add: moved_on_def afterTrigger_def entry_at_def erase_entry_def intervals_ok_def)
  next
    case run: True
    show ?thesis
    proof (cases "t_interval t \<noteq> 0 \<or> t_nextDueTime t = 0")
      case True
      show ?thesis by (rule reinsert_moved [OF inv e obj run T True])
    next
      case False
      have "d_inv None {} d" using e by (intro d_inv_close [OF inv(1)]) (auto simp: obj run image_iff intro!: bexI [of _ e])
      then show ?thesis using False run e(2) obj find inv(2) next_weight(1,3) [OF dist e(1)]
        by (simp add: moved_on_def afterTrigger_def entry_at_def)
    qed
  qed
qed

lemma buried_moved:
  assumes inv: "d_inv (Some (te_id e, tm)) {} d" "intervals_ok d" and e: "e \<in> set (d_timers d)"
    and obj: "d_objects d tm = None"
  shows "moved_on T e d (afterTrigger (te_id e) d)"
proof -
  have dist: "distinct (map te_id (d_timers d))" using inv by (simp add: d_inv_def)
  have find: "find (\<lambda>x. te_id x = te_id e) (d_timers d) = Some e" by (rule find_entry [OF dist e(1)])
  obtain y where "y \<in> set (d_timers d)" "te_id y = te_id e" "te_timer y = None"
    using inv(1) obj by (auto simp: d_inv_def guard_ok_def)
  with find find_entry [OF dist, of y] have none: "te_timer e = None" by simp
  with bury_callback [OF inv(1) obj] find inv(2) next_weight(2,4) [OF dist e] show ?thesis
    by (simp add: moved_on_def afterTrigger_def entry_at_def erase_entry_def intervals_ok_def)
qed

subsection \<open>The dispatch loop\<close>

text \<open>The due entries that remain, a staged one counting twice; the calls and the time their listeners take.\<close>

definition visits :: "int \<Rightarrow> timer_entry \<Rightarrow> nat" where
  "visits T e = (if te_tag e div 1024 \<le> T then (if te_tag e < 1024 then 2 else 1) else 0)"

definition script_weight :: "(nat \<Rightarrow> nat) \<Rightarrow> int \<Rightarrow> timer_entry \<Rightarrow> nat" where
  "script_weight h T e = (if te_tag e div 1024 \<le> T then (case te_timer e of None \<Rightarrow> 0 | Some tm \<Rightarrow> h tm) else 0)"

definition calls_of :: "(nat \<Rightarrow> timer_call list) \<Rightarrow> nat \<Rightarrow> nat" where
  "calls_of script tm = length (script tm)"

definition time_of :: "(nat \<Rightarrow> timer_call list) \<Rightarrow> nat \<Rightarrow> nat" where
  "time_of script tm = sum_list (map passing (script tm))"

lemma light_weights [simp]: "light T (visits T)" "light T (script_weight h T)"
  by (auto simp: light_def visits_def script_weight_def)

definition loop_inv :: "int \<Rightarrow> (nat \<Rightarrow> timer_call list) \<Rightarrow> timer_iterator \<times> dispatcher \<Rightarrow> bool" where
  "loop_inv T script = (\<lambda>(it, d). d_inv None {} d \<and> intervals_ok d \<and> d_triggerTime d = T \<and> 0 < T \<and> T \<le> d_clock d \<and>
     valid_iterator it (d_timers d) \<and>
     d_clock d + int (weight_at (script_weight (time_of script) T) it (d_timers d)) \<le> 2 ^ 53 \<and>
     d_currentTimerSerial d + int (weight_at (script_weight (calls_of script) T) it (d_timers d)) \<le> 1024)"

lemma timer_trigger_result:
  assumes inv: "loop_inv T script (it, d)" and it: "it = AtEntry (te_id e)" and e: "e \<in> set (d_timers d)" "te_timer e = Some tm"
    and obj: "d_objects d tm = Some t" and due: "te_tag e div 1024 \<le> T" "t_nextDueTime t \<noteq> 0"
    and ok: "\<forall>c\<in>set (script tm). call_ok c"
  defines "d2 \<equiv> timer_trigger script tm (d\<lparr>d_serialsCompacted := False\<rparr>)"
  obtains e2 where "e2 \<in> set (d_timers d2)" "te_id e2 = te_id e"
    "\<not> d_serialsCompacted d2" "moved_on T e2 d2 (afterTrigger (te_id e) d2)"
    "d_triggerTime d2 = T" "T \<le> d_clock d2" "te_tag e2 \<ge> 1024"
    "\<And>f. light T f \<Longrightarrow> weight f (te_id e) (d_timers d2) \<le> weight f (te_id e) (d_timers d)"
    "d_currentTimerSerial d2 \<le> d_currentTimerSerial d + int (calls_of script tm)"
    "d_clock d2 \<le> d_clock d + int (time_of script tm)"
proof -
  let ?d = "d\<lparr>d_serialsCompacted := False\<rparr>"
  have d: "d_inv None {} ?d" "intervals_ok ?d" "d_triggerTime d = T" "0 < T" "T \<le> d_clock d"
    and dist: "distinct (map te_id (d_timers d))"
    using inv by (simp_all add: loop_inv_def intervals_ok_def d_inv_def [of None "{}" d])
  have entry: "te_tag e = timer_tag t" "t_isRunning t" "\<not> t_guarded t"
    using d_inv_entry [of None "{}" d e] inv e obj by (auto simp: loop_inv_def entry_ok_def)
  have tok: "timer_ok t" using d_inv_object [OF d(1), of tm t] obj by (simp add: object_ok_def)
  then have tag: "1024 \<le> te_tag e" using due(2) by (simp add: entry timer_tag_def timer_ok_def)
  have we: "f e \<le> weight_at f it (d_timers d)" for f
    using next_weight(5) [OF dist e(1), of f] by (simp add: it)
  have len: "d_currentTimerSerial d + int (calls_of script tm) \<le> 1024"
    and time: "d_clock d + int (time_of script tm) \<le> 2 ^ 53"
    using we [of "script_weight (calls_of script) T"] we [of "script_weight (time_of script) T"] inv e(2) due(1)
    by (simp_all add: loop_inv_def script_weight_def)
  let ?f = "\<lambda>t. t\<lparr>t_isRunning := t_isRunning t \<and> t_isRepeating t, t_guarded := True\<rparr>"
  let ?d1 = "updateTimer tm ?f ?d"
  have same: "updateTimer tm ?f ?d = updateTimer tm (\<lambda>u. u\<lparr>t_isRunning := t_isRepeating t, t_guarded := True\<rparr>) ?d"
    using obj entry(2) by (simp add: updateTimer_def)
  have "d_inv (Some (te_id e, tm)) {} ?d1"
    unfolding same by (rule enter_callback [OF d(1)]) (use e obj in simp_all)
  moreover have "intervals_ok ?d1"
    using d(2) obj interval_bounds [of d tm t] inv by (intro intervals_update [where t = t]) (simp_all add: loop_inv_def)
  ultimately have cb: "in_callback T (te_id e) tm {} ?d1"
    using e(1) tag d(3-5) time by (auto simp: in_callback_def)
  let ?d1' = "if t_hasListener t then ?d1\<lparr>d_triggered := d_triggered ?d1 @ [tm]\<rparr> else ?d1"
  let ?cs = "if t_hasListener t then script tm else []"
  have cb': "in_callback T (te_id e) tm {} ?d1'" using cb by (simp add: in_callback_def intervals_ok_def)
  define D where "D = timer_calls ?cs ?d1'"
  have r: "call_result T (te_id e) ?d1' D (length ?cs) (sum_list (map passing ?cs))" "in_callback T (te_id e) tm {} D"
    unfolding D_def using timer_calls_result [OF cb', of ?cs] ok len time by (simp_all add: calls_of_def time_of_def)
  let ?d3 = "if d_objects D tm = None then D else updateTimer tm (\<lambda>t. t\<lparr>t_guarded := False\<rparr>) D"
  have d2: "d2 = ?d3" unfolding d2_def D_def
    using obj entry(3) by (cases "t_hasListener t") (simp_all add: timer_trigger_def with_timer_def Let_def)
  have fields: "d_timers ?d3 = d_timers D" "d_triggerTime ?d3 = d_triggerTime D" "d_clock ?d3 = d_clock D"
    "d_currentTimerSerial ?d3 = d_currentTimerSerial D" "d_serialsCompacted ?d3 = d_serialsCompacted D" by simp_all
  obtain e2 where e2: "e2 \<in> set (d_timers D)" "te_id e2 = te_id e" "1024 \<le> te_tag e2"
    using r(2) by (auto simp: in_callback_def)
  have "moved_on T e2 ?d3 (afterTrigger (te_id e2) ?d3)"
  proof (cases "d_objects D tm")
    case None
    with buried_moved [of e2 tm D] r(2) e2 show ?thesis by (simp add: in_callback_def)
  next
    case (Some t2)
    have inv2: "d_inv (Some (te_id e, tm)) {} D" "intervals_ok D" using r(2) by (simp_all add: in_callback_def)
    have inv3: "d_inv None {tm} ?d3" using leave_callback [OF inv2(1) Some] Some by simp
    have ok3: "intervals_ok ?d3"
      using inv2(2) Some interval_bounds [OF inv2(2) Some] by (simp add: intervals_update [where t = t2])
    obtain y where "y \<in> set (d_timers D)" "te_id y = te_id e" "te_timer y = Some tm"
      using inv2(1) Some by (auto simp: d_inv_def guard_ok_def)
    with e2 inv2(1) have tm2: "te_timer e2 = Some tm" by (auto simp: d_inv_def distinct_map inj_on_def)
    show ?thesis
    proof (rule afterTrigger_moved [OF inv3 ok3 _ tm2])
      show "d_objects ?d3 tm = Some (t2\<lparr>t_guarded := False\<rparr>)" using Some by (simp add: updated_object)
      show "d_triggerTime ?d3 = T" "0 < T" "T \<le> 2 ^ 53" using r(2) by (simp_all add: in_callback_def)
    qed (use e2 in simp)
  qed
  moreover have fs: "d_timers ?d1' = d_timers d" "d_currentTimerSerial ?d1' = d_currentTimerSerial d"
    "d_clock ?d1' = d_clock d" "d_serialsCompacted ?d1' = False" by simp_all
  note R = r(1) [unfolded call_result_def kept_def fs]
  have "weight f (te_id e) (d_timers D) \<le> weight f (te_id e) (d_timers d)" if "light T f" for f
    using R that by blast
  moreover have "length ?cs \<le> calls_of script tm" "sum_list (map passing ?cs) \<le> time_of script tm"
    by (simp_all add: calls_of_def time_of_def)
  with R have "d_currentTimerSerial D \<le> d_currentTimerSerial d + int (calls_of script tm)"
      "d_clock D \<le> d_clock d + int (time_of script tm)" by linarith+
  moreover have "\<not> d_serialsCompacted D" using R by blast
  ultimately show ?thesis using e2 r(2) fields
    by (intro that [of e2]; simp only: d2) (auto simp: in_callback_def)
qed

lemma script_weight_entry:
  "te_timer e = Some tm \<Longrightarrow> te_tag e div 1024 \<le> T \<Longrightarrow> script_weight h T e = h tm"
  by (simp add: script_weight_def)

lemma triggerStep_inv:
  assumes inv: "loop_inv T script (it, d)" and test: "triggerTest (it, d)"
    and ok: "\<forall>tm. \<forall>c\<in>set (script tm). call_ok c"
  shows "loop_inv T script (triggerStep script (it, d)) \<and>
    weight_at (visits T) (fst (triggerStep script (it, d))) (d_timers (snd (triggerStep script (it, d)))) <
    weight_at (visits T) it (d_timers d)"
proof -
  have d: "d_inv None {} d" "intervals_ok d" "d_triggerTime d = T" "0 < T" "T \<le> d_clock d"
    and clock: "d_clock d + int (weight_at (script_weight (time_of script) T) it (d_timers d)) \<le> 2 ^ 53"
    and serial: "d_currentTimerSerial d + int (weight_at (script_weight (calls_of script) T) it (d_timers d)) \<le> 1024"
    using inv by (simp_all add: loop_inv_def)
  from inv test obtain e where e: "e \<in> set (d_timers d)" "it = AtEntry (te_id e)"
    by (auto simp: loop_inv_def valid_iterator_def triggerTest_def)
  have dist: "distinct (map te_id (d_timers d))" using d by (simp add: d_inv_def)
  have find: "entry_at it d = Some e" using find_entry [OF dist e(1)] e(2) by (simp add: entry_at_def)
  have due: "te_tag e div 1024 \<le> T" using test find d(3) by (simp add: triggerTest_def)
  obtain tm t where tm: "te_timer e = Some tm" "d_objects d tm = Some t" and t: "\<not> t_guarded t" "te_tag e = timer_tag t"
    using d_inv_entry [OF d(1) e(1)] by (auto simp: entry_ok_def split: option.splits)
  have tok: "timer_ok t" using d_inv_object [OF d(1) tm(2)] by (simp add: object_ok_def)
  have split: "weight_at f it (d_timers d) = f e + weight f (te_id e) (d_timers d)" for f
    using next_weight(5) [OF dist e(1)] e(2) by simp
  let ?d1 = "d\<lparr>d_serialsCompacted := False\<rparr>"
  show ?thesis
  proof (cases "t_nextDueTime t = 0")
    case True
    have "d_inv None {tm} ?d1" using d_inv_hole [OF d(1), of tm] by simp
    then have m: "moved_on T e ?d1 (afterTrigger (te_id e) ?d1)"
      by (rule afterTrigger_moved) (use d e tm clock in \<open>simp_all add: intervals_ok_def\<close>)
    have step: "triggerStep script (it, d) = afterTrigger (te_id e) ?d1"
      using True tm find by (simp add: triggerStep_def)
    obtain it' d' where r: "afterTrigger (te_id e) ?d1 = (it', d')" by fastforce
    have staged: "visits T e = 2" using True tok due t(2) by (simp add: visits_def timer_tag_def timer_ok_def)
    obtain e' where e': "1024 \<le> te_tag e'" "te_tag e' div 1024 \<le> T" "te_timer e' = te_timer e"
      and mw: "\<And>f. light T f \<Longrightarrow> weight_at f it' (d_timers d') \<le> weight f (te_id e) (d_timers d) + f e'"
    proof (cases "\<forall>f. light T f \<longrightarrow> weight_at f it' (d_timers d') \<le> weight f (te_id e) (d_timers d)")
      case True
      show ?thesis by (rule that [of "e\<lparr>te_tag := T * 1024\<rparr>"]) (use True d in \<open>auto intro: trans_le_add1\<close>)
    next
      case False
      with m obtain e' where "1024 \<le> te_tag e'" "te_tag e' div 1024 \<le> T" "te_timer e' = te_timer e"
        "\<forall>f. light T f \<longrightarrow> weight_at f it' (d_timers d') \<le> weight f (te_id e) (d_timers d) + f e'"
        unfolding r moved_on_def by auto
      then show ?thesis by (intro that [of e']) simp_all
    qed
    have w: "weight_at (script_weight h T) it' (d_timers d') \<le> weight_at (script_weight h T) it (d_timers d)" for h
      using mw [of "script_weight h T"] e' tm(1) due by (simp add: split script_weight_def)
    have "weight_at (visits T) it' (d_timers d') < weight_at (visits T) it (d_timers d)"
      using mw [of "visits T"] e' staged by (simp add: split visits_def [of T e'])
    moreover have "loop_inv T script (it', d')"
      using m d clock serial w [of "time_of script"] w [of "calls_of script"] unfolding r moved_on_def
      by (auto simp: loop_inv_def)
    ultimately show ?thesis by (simp add: step r)
  next
    case False
    let ?d2 = "timer_trigger script tm ?d1"
    obtain e2 where e2: "e2 \<in> set (d_timers ?d2)" "te_id e2 = te_id e" "\<not> d_serialsCompacted ?d2"
      "moved_on T e2 ?d2 (afterTrigger (te_id e) ?d2)" "d_triggerTime ?d2 = T" "T \<le> d_clock ?d2" "te_tag e2 \<ge> 1024"
      "\<And>f. light T f \<Longrightarrow> weight f (te_id e) (d_timers ?d2) \<le> weight f (te_id e) (d_timers d)"
      "d_currentTimerSerial ?d2 \<le> d_currentTimerSerial d + int (calls_of script tm)"
      "d_clock ?d2 \<le> d_clock d + int (time_of script tm)"
      using timer_trigger_result [OF inv e(2,1) tm due False] ok by blast
    have step: "triggerStep script (it, d) = afterTrigger (te_id e) ?d2"
      using False tm find e2(3) by (simp add: triggerStep_def)
    obtain it' d' where r: "afterTrigger (te_id e) ?d2 = (it', d')" by fastforce
    from e2(4,7) have m: "d_inv None {} d'" "intervals_ok d'" "d_triggerTime d' = d_triggerTime ?d2"
      "d_clock d' = d_clock ?d2" "d_currentTimerSerial d' = d_currentTimerSerial ?d2" "valid_iterator it' (d_timers d')"
      and mw: "\<And>f. light T f \<Longrightarrow> weight_at f it' (d_timers d') \<le> weight f (te_id e2) (d_timers ?d2)"
      unfolding r moved_on_def by auto
    have w: "weight_at f it' (d_timers d') + f e \<le> weight_at f it (d_timers d)" if "light T f" for f
      using mw [OF that] e2(8) [OF that] by (simp add: split e2(2))
    have "visits T e \<noteq> 0" using due by (simp add: visits_def)
    with w [of "visits T"] have "weight_at (visits T) it' (d_timers d') < weight_at (visits T) it (d_timers d)" by simp
    moreover have "loop_inv T script (it', d')"
      using m e2(5,6,9,10) d clock serial w [of "script_weight (time_of script) T"] w [of "script_weight (calls_of script) T"]
      by (simp add: loop_inv_def script_weight_entry [OF tm(1) due])
    ultimately show ?thesis by (simp add: step r)
  qed
qed

lemma first_entry_weight: "weight_at f (first_entry ts) ts = sum_list (map f ts)"
  by (cases ts) (simp_all add: weight_at_def)

lemma first_entry_valid [simp]: "valid_iterator (first_entry ts) ts"
  by (cases ts) (simp_all add: valid_iterator_def)

lemma dispatch_loop:
  assumes inv: "loop_inv T script (it, d)" and ok: "\<forall>tm. \<forall>c\<in>set (script tm). call_ok c"
  shows "\<exists>st. while_option triggerTest (triggerStep script) (it, d) = Some st \<and> loop_inv T script st"
proof -
  let ?m = "\<lambda>(it, d). weight_at (visits T) it (d_timers d)"
  have step: "loop_inv T script (triggerStep script st) \<and> ?m (triggerStep script st) < ?m st"
    if "loop_inv T script st" "triggerTest st" for st
    using triggerStep_inv [of T script "fst st" "snd st"] that ok by (auto simp: case_prod_beta)
  have "\<exists>st. while_option triggerTest (triggerStep script) (it, d) = Some st"
    by (rule measure_while_option_Some [where P = "loop_inv T script" and f = ?m]) (use step inv in blast)+
  then obtain st where st: "while_option triggerTest (triggerStep script) (it, d) = Some st" by blast
  moreover have "loop_inv T script st"
    by (rule while_option_rule [OF _ st]) (use step inv in blast)+
  ultimately show ?thesis by blast
qed

lemma dispatch_inv:
  assumes "d_inv None {} d" "intervals_ok d" "0 < d_clock d" and ok: "\<forall>tm. \<forall>c\<in>set (script tm). call_ok c"
    and "d_clock d + int (sum_list (map (script_weight (time_of script) (d_clock d)) (d_timers d))) \<le> 2 ^ 53"
    and "d_currentTimerSerial d + int (sum_list (map (script_weight (calls_of script) (d_clock d)) (d_timers d))) \<le> 1024"
  shows "\<exists>d'. triggerDueTimers script d = Some d' \<and> d_inv None {} d' \<and> intervals_ok d'"
proof -
  let ?d = "d\<lparr>d_triggerTime := d_clock d\<rparr>"
  have "loop_inv (d_clock d) script (first_entry (d_timers ?d), ?d)"
    using assms by (simp add: loop_inv_def intervals_ok_def first_entry_weight)
  from dispatch_loop [OF this ok] obtain it d2
    where w: "while_option triggerTest (triggerStep script) (first_entry (d_timers ?d), ?d) = Some (it, d2)"
      and d2: "loop_inv (d_clock d) script (it, d2)" by (metis surj_pair)
  have "intervals_ok (maybeSetTimeoutForIntegrator (d2\<lparr>d_triggerTime := 0\<rparr>))"
    using d2 by (simp add: loop_inv_def intervals_ok_def)
  then show ?thesis using w d2 by (simp add: triggerDueTimers_def loop_inv_def)
qed

subsection \<open>Who is notified\<close>

text \<open>Only the call of a listener itself is recorded.\<close>

lemma compactStep_triggered: "d_triggered (snd (snd (snd (compactStep st)))) = d_triggered (snd (snd (snd st)))"
  by (simp add: compactStep_def erase_entry_def emplace_def updateTimer_def d_undefined_def Let_def
      split: prod.split option.split bool.split)

lemma compactLoop_triggered: "d_triggered (compactLoop n c st) = d_triggered (snd (snd (snd st)))"
proof (induction n arbitrary: st)
  case (Suc n)
  show ?case by (cases st) (use Suc compactStep_triggered in simp)
next
  case 0
  show ?case by (cases st) simp
qed

lemma addTimer_triggered [simp]: "d_triggered (addTimer tm d) = d_triggered d"
proof -
  have "d_triggered (tryCompactTimerSerials d) = d_triggered d"
    by (simp add: tryCompactTimerSerials_def Let_def compactLoop_triggered compactStep_triggered)
  then have "d_triggered (snd (nextTimerSerial d)) = d_triggered d" by (simp add: nextTimerSerial_def Let_def)
  then show ?thesis
    by (simp add: addTimer_def case_prod_beta emplace_def Let_def d_undefined_def split: option.split)
qed

lemma removeTimer_triggered [simp]: "d_triggered (removeTimer tm d) = d_triggered d"
  by (simp add: removeTimer_def erase_entry_def d_undefined_def split: option.split)

lemma do_call_triggered: "d_triggered (do_call c d) = d_triggered d"
  by (cases c) (simp_all add: timer_new_def timer_destroy_def timer_start_def timer_setRunning_def timer_setInterval_def
      timer_setRepeating_def timer_setCompletionListener_def with_timer_def d_undefined_def Let_def split: option.split)

lemma timer_calls_triggered: "d_triggered (timer_calls cs d) = d_triggered d"
proof (induction cs arbitrary: d)
  case Nil
  show ?case by (simp add: timer_calls_def)
next
  case (Cons c cs)
  then show ?case by (simp add: timer_calls_Cons do_call_triggered)
qed

lemma timer_trigger_triggered:
  assumes "d_objects d tm = Some t"
  shows "d_triggered (timer_trigger script tm d) = d_triggered d \<or> d_triggered (timer_trigger script tm d) = d_triggered d @ [tm]"
  using assms by (simp add: timer_trigger_def with_timer_def Let_def timer_calls_triggered)

definition staged :: "timer_entry \<Rightarrow> nat" where
  "staged e = (if te_tag e < 1024 then 1 else 0)"

text \<open>An iteration visits one entry that is due, and what it leaves to visit is no more than the rest.\<close>

lemma visit_step:
  assumes inv: "loop_inv T script (it, d)" and test: "triggerTest (it, d)"
    and ok: "\<forall>tm. \<forall>c\<in>set (script tm). call_ok c" and new: "weight_at staged it (d_timers d) = 0"
  obtains e tm it' d' where "triggerStep script (it, d) = (it', d')" "e \<in> set (d_timers d)" "it = AtEntry (te_id e)"
    "te_timer e = Some tm" "te_tag e div 1024 \<le> T"
    "\<And>f. light T f \<Longrightarrow> weight_at f it' (d_timers d') + f e \<le> weight_at f it (d_timers d)"
    "d_triggered d' = d_triggered d \<or> d_triggered d' = d_triggered d @ [tm]"
proof -
  have d: "d_inv None {} d" "d_triggerTime d = T" using inv by (simp_all add: loop_inv_def)
  from inv test obtain e where e: "e \<in> set (d_timers d)" "it = AtEntry (te_id e)"
    by (auto simp: loop_inv_def valid_iterator_def triggerTest_def)
  have dist: "distinct (map te_id (d_timers d))" using d by (simp add: d_inv_def)
  have find: "entry_at it d = Some e" using find_entry [OF dist e(1)] e(2) by (simp add: entry_at_def)
  have due: "te_tag e div 1024 \<le> T" using test find d(2) by (simp add: triggerTest_def)
  obtain tm t where tm: "te_timer e = Some tm" "d_objects d tm = Some t" and t: "te_tag e = timer_tag t"
    using d_inv_entry [OF d(1) e(1)] by (auto simp: entry_ok_def split: option.splits)
  have tok: "timer_ok t" using d_inv_object [OF d(1) tm(2)] by (simp add: object_ok_def)
  have split: "weight_at f it (d_timers d) = f e + weight f (te_id e) (d_timers d)" for f
    using next_weight(5) [OF dist e(1)] e(2) by simp
  have "1024 \<le> te_tag e" using new split [of staged] by (simp add: staged_def split: if_splits)
  then have nz: "t_nextDueTime t \<noteq> 0" using t tok by (auto simp: timer_tag_def timer_ok_def)
  let ?d1 = "d\<lparr>d_serialsCompacted := False\<rparr>"
  let ?d2 = "timer_trigger script tm ?d1"
  obtain e2 where e2: "te_id e2 = te_id e" "\<not> d_serialsCompacted ?d2" "moved_on T e2 ?d2 (afterTrigger (te_id e) ?d2)"
    "te_tag e2 \<ge> 1024" "\<And>f. light T f \<Longrightarrow> weight f (te_id e) (d_timers ?d2) \<le> weight f (te_id e) (d_timers d)"
    using timer_trigger_result [OF inv e(2,1) tm due nz] ok by blast
  obtain it' d' where r: "afterTrigger (te_id e) ?d2 = (it', d')" by fastforce
  from e2(3,4) have m: "d_triggered d' = d_triggered ?d2"
      "\<And>f. light T f \<Longrightarrow> weight_at f it' (d_timers d') \<le> weight f (te_id e2) (d_timers ?d2)"
    unfolding r moved_on_def by auto
  show ?thesis
  proof (rule that [OF _ e tm(1) due])
    show "triggerStep script (it, d) = (it', d')" using nz tm find e2(2) r by (simp add: triggerStep_def)
    show "weight_at f it' (d_timers d') + f e \<le> weight_at f it (d_timers d)" if "light T f" for f
      using m(2) [OF that] e2(5) [OF that] by (simp add: split e2(1))
    show "d_triggered d' = d_triggered d \<or> d_triggered d' = d_triggered d @ [tm]"
      using timer_trigger_triggered [of ?d1 tm t script] tm(2) m(1) by simp
  qed
qed

text \<open>
  Weights that count the entries of a timer, the entries before a tag, and the entries that are not as they were in \<open>d0\<close>.
\<close>

definition due_entry :: "int \<Rightarrow> (timer_entry \<Rightarrow> bool) \<Rightarrow> timer_entry \<Rightarrow> nat" where
  "due_entry T P e = (if te_tag e div 1024 \<le> T \<and> P e then 1 else 0)"

definition changed :: "dispatcher \<Rightarrow> timer_entry \<Rightarrow> bool" where
  "changed d0 e \<longleftrightarrow> (case te_timer e of None \<Rightarrow> False
     | Some tm \<Rightarrow> (case d_objects d0 tm of None \<Rightarrow> True | Some t \<Rightarrow> \<not> t_isRunning t \<or> te_tag e \<noteq> timer_tag t))"

lemma light_staged: "0 < T \<Longrightarrow> light T staged"
  by (auto simp: light_def staged_def)

lemma light_due [simp]:
  "light T (due_entry T (\<lambda>e. te_timer e = Some tm))" "light T (due_entry T (\<lambda>e. te_tag e < g))"
  "light T (due_entry T (changed d0))"
  by (auto simp: light_def due_entry_def changed_def)

definition tag_in :: "dispatcher \<Rightarrow> nat \<Rightarrow> int" where
  "tag_in d tm = (case d_objects d tm of None \<Rightarrow> 0 | Some t \<Rightarrow> timer_tag t)"

definition notified_inv :: "int \<Rightarrow> (nat \<Rightarrow> timer_call list) \<Rightarrow> dispatcher \<Rightarrow> timer_iterator \<times> dispatcher \<Rightarrow> bool" where
  "notified_inv T script d0 = (\<lambda>(it, d). loop_inv T script (it, d) \<and> weight_at staged it (d_timers d) = 0 \<and>
     weight_at (due_entry T (changed d0)) it (d_timers d) = 0 \<and>
     (\<exists>ns. d_triggered d = d_triggered d0 @ ns \<and> sorted (map (tag_in d0) ns) \<and>
        (\<forall>tm. count_list ns tm + weight_at (due_entry T (\<lambda>e. te_timer e = Some tm)) it (d_timers d) \<le> 1) \<and>
        (\<forall>tm\<in>set ns. weight_at (due_entry T (\<lambda>e. te_tag e < tag_in d0 tm)) it (d_timers d) = 0 \<and>
           (\<exists>t. d_objects d0 tm = Some t \<and> t_isRunning t \<and> timer_tag t div 1024 \<le> T))))"

lemma weight_zero: "weight_at f it ts = 0 \<Longrightarrow> it = AtEntry (te_id e) \<Longrightarrow> e \<in> set ts \<Longrightarrow> distinct (map te_id ts) \<Longrightarrow> f e = 0"
  using next_weight(5) [of ts e f] by simp

lemma none_earlier:
  assumes "sorted (map te_tag ts)" "distinct (map te_id ts)" "e \<in> set ts" "g \<le> te_tag e"
  shows "weight_at (due_entry T (\<lambda>e. te_tag e < g)) (AtEntry (te_id e)) ts = 0"
proof -
  obtain pre post where ts: "ts = pre @ e # post" using assms(3) by (auto simp: in_set_conv_decomp)
  with assms(2) have "te_id e \<notin> te_id ` set pre" by auto
  then have "dropWhile (\<lambda>x. te_id x \<noteq> te_id e) ts = e # post" unfolding ts by (induction pre) auto
  moreover have "\<forall>x\<in>set (e # post). g \<le> te_tag x" using assms(1,4) ts by (auto simp: sorted_append)
  ultimately show ?thesis by (auto simp: weight_at_def due_entry_def)
qed

lemma notifiedStep:
  assumes inv: "notified_inv T script d0 st" and test: "triggerTest st" and ok: "\<forall>tm. \<forall>c\<in>set (script tm). call_ok c"
  shows "notified_inv T script d0 (triggerStep script st)"
proof -
  obtain it d where st: "st = (it, d)" by fastforce
  note inv = inv [unfolded st notified_inv_def prod.case]
  have l: "loop_inv T script (it, d)" and zero: "weight_at staged it (d_timers d) = 0"
    "weight_at (due_entry T (changed d0)) it (d_timers d) = 0" using inv by blast+
  obtain ns where ns: "d_triggered d = d_triggered d0 @ ns" "sorted (map (tag_in d0) ns)"
      "\<And>tm. count_list ns tm + weight_at (due_entry T (\<lambda>e. te_timer e = Some tm)) it (d_timers d) \<le> 1"
      "\<And>tm. tm \<in> set ns \<Longrightarrow> weight_at (due_entry T (\<lambda>e. te_tag e < tag_in d0 tm)) it (d_timers d) = 0 \<and>
           (\<exists>t. d_objects d0 tm = Some t \<and> t_isRunning t \<and> timer_tag t div 1024 \<le> T)"
    using inv by blast
  obtain e tm it' d' where step: "triggerStep script (it, d) = (it', d')" and e: "e \<in> set (d_timers d)" "it = AtEntry (te_id e)"
    and tm: "te_timer e = Some tm" and due: "te_tag e div 1024 \<le> T"
    and w: "\<And>f. light T f \<Longrightarrow> weight_at f it' (d_timers d') + f e \<le> weight_at f it (d_timers d)"
    and trig: "d_triggered d' = d_triggered d \<or> d_triggered d' = d_triggered d @ [tm]"
    by (rule visit_step [OF l test [unfolded st] ok zero(1)], rule that) assumption+
  have dist: "distinct (map te_id (d_timers d))" "sorted (map te_tag (d_timers d))" "0 < T"
    using l by (simp_all add: loop_inv_def d_inv_def)
  have loop: "loop_inv T script (it', d')" using triggerStep_inv [OF l test [unfolded st] ok] by (simp add: step)
  have "\<not> changed d0 e" using weight_zero [OF zero(2) e(2,1) dist(1)] due by (simp add: due_entry_def split: if_splits)
  then obtain t where t: "d_objects d0 tm = Some t" "t_isRunning t" "te_tag e = timer_tag t"
    by (auto simp: changed_def tm split: option.splits)
  then have tag: "tag_in d0 tm = te_tag e" by (simp add: tag_in_def)
  have le: "weight_at f it' (d_timers d') = 0" if "light T f" "weight_at f it (d_timers d) = 0" for f
    using w [OF that(1)] that(2) by simp
  have later: "tag_in d0 tm' \<le> te_tag e" if "tm' \<in> set ns" for tm'
    using weight_zero [OF _ e(2,1) dist(1), of "due_entry T (\<lambda>e. te_tag e < tag_in d0 tm')"] ns(4) [OF that] due
    by (simp add: due_entry_def split: if_splits)
  have fewer: "count_list ns tm' + (if tm' = tm then 1 else 0) +
      weight_at (due_entry T (\<lambda>e. te_timer e = Some tm')) it' (d_timers d') \<le> 1" for tm'
    using ns(3) [of tm'] w [OF light_due(1), of tm'] tm due by (simp add: due_entry_def split: if_splits)
  have here: "weight_at (due_entry T (\<lambda>e. te_tag e < tag_in d0 tm)) it' (d_timers d') = 0"
    using le [OF light_due(2)] none_earlier [OF dist(2,1) e(1)] tag e(2) by simp
  have rest: "weight_at staged it' (d_timers d') = 0" "weight_at (due_entry T (changed d0)) it' (d_timers d') = 0"
    using le zero light_staged [OF dist(3)] by simp_all
  have old: "weight_at (due_entry T (\<lambda>e. te_tag e < tag_in d0 tm')) it' (d_timers d') = 0 \<and>
           (\<exists>t. d_objects d0 tm' = Some t \<and> t_isRunning t \<and> timer_tag t div 1024 \<le> T)" if "tm' \<in> set ns" for tm'
    using ns(4) [OF that] le by simp
  obtain ns' where "ns' = ns \<or> ns' = ns @ [tm]" "d_triggered d' = d_triggered d0 @ ns'"
    using trig ns(1) by auto
  moreover have "sorted (map (tag_in d0) (ns @ [tm]))" using ns(2) later by (auto simp: sorted_append tag)
  moreover have "count_list ns' tm' + weight_at (due_entry T (\<lambda>e. te_timer e = Some tm')) it' (d_timers d') \<le> 1" for tm'
    using calculation(1) fewer [of tm'] by (auto split: if_splits)
  moreover have "weight_at (due_entry T (\<lambda>e. te_tag e < tag_in d0 tm')) it' (d_timers d') = 0 \<and>
           (\<exists>t. d_objects d0 tm' = Some t \<and> t_isRunning t \<and> timer_tag t div 1024 \<le> T)" if "tm' \<in> set ns'" for tm'
    using calculation(1) that old here t due by auto
  ultimately show ?thesis
    unfolding st step notified_inv_def prod.case using loop rest ns(2) by blast
qed

lemma one_entry:
  assumes "distinct (map te_timer ts)"
  shows "sum_list (map (due_entry T (\<lambda>e. te_timer e = Some tm)) ts) \<le> 1"
  using assms
proof (induction ts)
  case (Cons x xs)
  have none: "sum_list (map (due_entry T (\<lambda>e. te_timer e = Some tm)) xs) = 0" if "Some tm \<notin> te_timer ` set xs"
    using that by (induction xs) (auto simp: due_entry_def)
  show ?case
  proof (cases "te_timer x = Some tm")
    case True
    then have zero: "sum_list (map (due_entry T (\<lambda>e. te_timer e = Some tm)) xs) = 0" using Cons.prems by (intro none) auto
    show ?thesis unfolding list.map sum_list.Cons zero by (simp add: due_entry_def)
  next
    case False
    then have "due_entry T (\<lambda>e. te_timer e = Some tm) x = 0" by (simp add: due_entry_def)
    then show ?thesis using Cons by simp
  qed
qed simp

lemma distinct_counts: "(\<And>x. count_list xs x \<le> 1) \<Longrightarrow> distinct xs"
proof (induction xs)
  case (Cons a xs)
  have "count_list xs x \<le> 1" for x using Cons.prems [of x] by (simp split: if_splits)
  moreover have "a \<notin> set xs" using Cons.prems [of a] by (simp add: count_list_0_iff)
  ultimately show ?case using Cons.IH by simp
qed simp

lemma notified_dispatch:
  assumes inv: "d_inv None {} d" "intervals_ok d" "0 < d_clock d" and ok: "\<forall>tm. \<forall>c\<in>set (script tm). call_ok c"
    and bounds: "d_clock d + int (sum_list (map (script_weight (time_of script) (d_clock d)) (d_timers d))) \<le> 2 ^ 53"
      "d_currentTimerSerial d + int (sum_list (map (script_weight (calls_of script) (d_clock d)) (d_timers d))) \<le> 1024"
    and tags: "\<forall>e\<in>set (d_timers d). 1024 \<le> te_tag e"
  shows "\<exists>d' ns. triggerDueTimers script d = Some d' \<and> d_triggered d' = d_triggered d @ ns \<and> distinct ns \<and>
    sorted (map (tag_in d) ns) \<and>
    (\<forall>tm\<in>set ns. \<exists>t. d_objects d tm = Some t \<and> t_isRunning t \<and> timer_tag t div 1024 \<le> d_clock d)"
proof -
  let ?T = "d_clock d"
  let ?d = "d\<lparr>d_triggerTime := ?T\<rparr>"
  let ?st = "(first_entry (d_timers ?d), ?d)"
  have l: "loop_inv ?T script ?st"
    using assms by (simp add: loop_inv_def intervals_ok_def first_entry_weight)
  have "due_entry ?T (changed d) e = 0" if e: "e \<in> set (d_timers d)" for e
    using d_inv_entry [OF inv(1) e] by (auto simp: due_entry_def changed_def entry_ok_def split: option.splits)
  then have "sum_list (map (due_entry ?T (changed d)) (d_timers d)) = 0" by simp
  moreover have "sum_list (map staged (d_timers d)) = 0" using tags by (auto simp: staged_def)
  ultimately have start: "notified_inv ?T script d ?st"
    using l one_entry inv(1) by (simp add: notified_inv_def first_entry_weight d_inv_def [of None "{}" d])
  from dispatch_loop [OF l ok] obtain it d2
    where w: "while_option triggerTest (triggerStep script) ?st = Some (it, d2)" by auto
  have "notified_inv ?T script d (it, d2)"
    by (rule while_option_rule [where P = "notified_inv ?T script d", OF _ w start]) (rule notifiedStep [OF _ _ ok])
  then obtain ns where ns: "d_triggered d2 = d_triggered d @ ns" "sorted (map (tag_in d) ns)"
      "\<And>tm. count_list ns tm \<le> 1"
      "\<forall>tm\<in>set ns. \<exists>t. d_objects d tm = Some t \<and> t_isRunning t \<and> timer_tag t div 1024 \<le> ?T"
    unfolding notified_inv_def prod.case by (metis add_leE)
  then show ?thesis using w distinct_counts [of ns] by (simp add: triggerDueTimers_def)
qed

subsection \<open>Quiet listeners\<close>

definition suffix_at :: "timer_iterator \<Rightarrow> timer_entry list \<Rightarrow> timer_entry list" where
  "suffix_at it ts = (case it of AtEntry i \<Rightarrow> dropWhile (\<lambda>e. te_id e \<noteq> i) ts | _ \<Rightarrow> [])"

definition listens :: "dispatcher \<Rightarrow> timer_entry \<Rightarrow> bool" where
  "listens d e \<longleftrightarrow> (case te_timer e of None \<Rightarrow> False | Some tm \<Rightarrow> map_option t_hasListener (d_objects d tm) = Some True)"

definition due_listeners :: "int \<Rightarrow> dispatcher \<Rightarrow> timer_entry list \<Rightarrow> nat list" where
  "due_listeners T d ts = map (\<lambda>e. the (te_timer e)) (filter (\<lambda>e. te_tag e div 1024 \<le> T \<and> listens d e) ts)"

lemma next_suffix:
  assumes "distinct (map te_id ts)" and "e \<in> set ts"
  shows "suffix_at (AtEntry (te_id e)) ts = e # suffix_at (next_entry (te_id e) ts) ts"
    and "suffix_at (next_entry (te_id e) ts) (filter (\<lambda>x. te_id x \<noteq> te_id e) ts) = suffix_at (next_entry (te_id e) ts) ts"
proof -
  from assms(2) obtain pre post where ts: "ts = pre @ e # post" by (auto simp: in_set_conv_decomp)
  with assms(1) have ids: "te_id e \<notin> te_id ` set pre" "te_id e \<notin> te_id ` set post"
    and d: "set (map te_id pre) \<inter> set (map te_id post) = {}" by auto
  have nxt: "next_entry (te_id e) ts = first_entry post" using next_entry_split [OF ids(1)] ts by simp
  have fil: "filter (\<lambda>x. te_id x \<noteq> te_id e) ts = pre @ post" using ids ts by (simp add: filter_other)
  have skip: "dropWhile (\<lambda>e. te_id e \<noteq> j) (xs @ ys) = dropWhile (\<lambda>e. te_id e \<noteq> j) ys"
    if "j \<notin> te_id ` set xs" for j xs ys
    using that by (induction xs) auto
  have first: "suffix_at (first_entry post) (xs @ post) = post" if "set (map te_id xs) \<inter> set (map te_id post) = {}" for xs
  proof (cases post)
    case (Cons a as)
    with that have "te_id a \<notin> te_id ` set xs" by auto
    then show ?thesis using Cons skip [of "te_id a" xs] by (simp add: suffix_at_def)
  qed (simp add: suffix_at_def)
  have "suffix_at (first_entry post) ts = post" using first [of "pre @ [e]"] d ids by (simp add: ts)
  with first [OF d] show "suffix_at (AtEntry (te_id e)) ts = e # suffix_at (next_entry (te_id e) ts) ts"
    "suffix_at (next_entry (te_id e) ts) (filter (\<lambda>x. te_id x \<noteq> te_id e) ts) = suffix_at (next_entry (te_id e) ts) ts"
    using skip [OF ids(1)] by (simp_all add: nxt fil suffix_at_def [of "AtEntry (te_id e)"]) (simp add: ts)
qed

lemma suffix_insert:
  assumes "valid_iterator it ts" "te_id n \<notin> te_id ` set ts" and "\<not> P n"
  shows "filter P (suffix_at it (insert_entry n ts)) = filter P (suffix_at it ts)"
proof (cases it)
  case (AtEntry i)
  with assms have i: "te_id n \<noteq> i" by (auto simp: valid_iterator_def)
  have ins: "filter P (insert_entry n xs) = filter P xs" for xs
    using assms(3) by (induction xs) auto
  have "filter P (dropWhile (\<lambda>e. te_id e \<noteq> i) (insert_entry n ts)) = filter P (dropWhile (\<lambda>e. te_id e \<noteq> i) ts)"
    using i assms(3) by (induction ts) (auto simp: ins)
  with AtEntry show ?thesis by (simp add: suffix_at_def)
qed (simp_all add: suffix_at_def)

definition quiet_inv :: "int \<Rightarrow> nat list \<Rightarrow> timer_iterator \<times> dispatcher \<Rightarrow> bool" where
  "quiet_inv T all = (\<lambda>(it, d). loop_inv T (\<lambda>_. []) (it, d) \<and> (\<forall>e\<in>set (d_timers d). 1024 \<le> te_tag e) \<and>
     d_triggered d @ due_listeners T d (suffix_at it (d_timers d)) = all)"

lemma listens_same:
  "(\<And>tm. map_option t_hasListener (d_objects d' tm) = map_option t_hasListener (d_objects d tm)) \<Longrightarrow> listens d' = listens d"
  by (simp add: listens_def fun_eq_iff split: option.splits)

lemma quiet_trigger:
  assumes "d_objects d tm = Some t" and "\<not> t_guarded t"
  defines "d' \<equiv> timer_trigger (\<lambda>_. []) tm d"
  shows "d_objects d' = (d_objects d)(tm := Some (t\<lparr>t_isRunning := t_isRunning t \<and> t_isRepeating t\<rparr>))"
    "d_triggered d' = d_triggered d @ (if t_hasListener t then [tm] else [])"
    "d_timers d' = d_timers d" "d_nextEntry d' = d_nextEntry d" "d_triggerTime d' = d_triggerTime d" 
    "d_serialsCompacted d' = d_serialsCompacted d"
proof -
  have g: "t\<lparr>t_isRunning := r, t_guarded := False\<rparr> = t\<lparr>t_isRunning := r\<rparr>" for r
    using assms(2) by (cases t) simp
  show "d_objects d' = (d_objects d)(tm := Some (t\<lparr>t_isRunning := t_isRunning t \<and> t_isRepeating t\<rparr>))"
    "d_triggered d' = d_triggered d @ (if t_hasListener t then [tm] else [])"
    "d_timers d' = d_timers d" "d_nextEntry d' = d_nextEntry d" "d_triggerTime d' = d_triggerTime d" 
    "d_serialsCompacted d' = d_serialsCompacted d"
    using assms(1,2) by (simp_all add: g d'_def timer_trigger_def with_timer_def Let_def updateTimer_def)
qed

lemma tag_due: "0 \<le> s \<Longrightarrow> s < 1024 \<Longrightarrow> ((a::int) * 1024 + s) div 1024 = a"
  by (simp add: div_pos_pos_trivial)

lemma quiet_after:
  assumes inv: "d_inv None {} d" "intervals_ok d" and e: "e \<in> set (d_timers d)" "te_timer e = Some tm"
    and T: "d_triggerTime d2 = T" "0 < T" "T \<le> 2 ^ 53" and tags: "\<forall>e\<in>set (d_timers d). 1024 \<le> te_tag e"
    and same: "d_timers d2 = d_timers d" "d_nextEntry d2 = d_nextEntry d"
    and obj: "d_objects d2 tm = Some t" "t_nextDueTime t \<noteq> 0" "timer_ok t" "0 \<le> t_interval t" "t_interval t < 2 ^ 31"
  defines "r \<equiv> afterTrigger (te_id e) d2"
  shows "d_triggered (snd r) = d_triggered d2 \<and> listens (snd r) = listens d2 \<and> (\<forall>e\<in>set (d_timers (snd r)). 1024 \<le> te_tag e) \<and>
    filter (\<lambda>e. te_tag e div 1024 \<le> T) (suffix_at (fst r) (d_timers (snd r))) =
    filter (\<lambda>e. te_tag e div 1024 \<le> T) (suffix_at (next_entry (te_id e) (d_timers d)) (d_timers d))"
proof -
  have dist: "distinct (map te_id (d_timers d))" using inv by (simp add: d_inv_def)
  have find: "find (\<lambda>x. te_id x = te_id e) (d_timers d2) = Some e" using find_entry [OF dist e(1)] same by simp
  show ?thesis
  proof (cases "t_isRunning t \<and> t_interval t \<noteq> 0")
    case False
    then show ?thesis using find e(2) obj next_suffix [OF dist e(1)] tags same listens_same [of d2 d2]
      by (auto simp: r_def afterTrigger_def entry_at_def erase_entry_def listens_def cong: option.case_cong)
  next
    case True
    let ?t = "t\<lparr>t_nextDueTime := (d_triggerTime d2 + t_interval t) mod 2 ^ 54\<rparr>"
    have due: "(d_triggerTime d2 + t_interval t) mod 2 ^ 54 = T + t_interval t" using T obj(4,5) by simp
    define n where "n = \<lparr>te_id = d_nextEntry d, te_tag = timer_tag ?t, te_timer = Some tm\<rparr>"
    have tag: "te_tag n = (T + t_interval t) * 1024 + t_serial t"
      using obj(3-5) T by (simp add: n_def timer_tag_def due timer_ok_def)
    have "te_tag n div 1024 = T + t_interval t" unfolding tag using obj(3) by (intro tag_due) (simp_all add: timer_ok_def)
    then have late: "T < te_tag n div 1024" "1024 \<le> te_tag n" using True obj(3,4) T tag by (simp_all add: timer_ok_def)
    let ?fil = "filter (\<lambda>x. te_id x \<noteq> te_id e) (d_timers d)"
    have fresh: "te_id n \<notin> te_id ` set ?fil" using inv(1) by (auto simp: d_inv_def entry_ok_def n_def)
    have suf: "filter (\<lambda>e. te_tag e div 1024 \<le> T) (suffix_at (next_entry (te_id e) (d_timers d)) (insert_entry n ?fil)) =
        filter (\<lambda>e. te_tag e div 1024 \<le> T) (suffix_at (next_entry (te_id e) (d_timers d)) (d_timers d))"
      using suffix_insert [OF next_weight(4) [OF dist e(1)] fresh, of "\<lambda>e. te_tag e div 1024 \<le> T"] late(1)
        next_suffix(2) [OF dist e(1)] by simp
    have r: "fst r = next_entry (te_id e) (d_timers d)" "d_timers (snd r) = insert_entry n ?fil"
      "d_triggered (snd r) = d_triggered d2" "d_objects (snd r) = (d_objects d2)(tm := Some ?t)"
      using True find e(2) obj(1) same
      by (simp_all add: r_def afterTrigger_def entry_at_def erase_entry_def emplace_def n_def Let_def)
    have "listens (snd r) = listens d2" by (rule listens_same) (simp add: r obj(1))
    then show ?thesis using suf late(2) tags by (auto simp: r)
  qed
qed

lemma due_listeners_filter:
  "listens d = listens d' \<Longrightarrow> filter (\<lambda>e. te_tag e div 1024 \<le> T) xs = filter (\<lambda>e. te_tag e div 1024 \<le> T) ys \<Longrightarrow>
   due_listeners T d xs = due_listeners T d' ys"
proof -
  assume l: "listens d = listens d'" and f: "filter (\<lambda>e. te_tag e div 1024 \<le> T) xs = filter (\<lambda>e. te_tag e div 1024 \<le> T) ys"
  have "filter (\<lambda>e. te_tag e div 1024 \<le> T \<and> listens d e) zs = filter (listens d) (filter (\<lambda>e. te_tag e div 1024 \<le> T) zs)" for zs d
    by simp
  then show ?thesis using l f unfolding due_listeners_def by (simp only:)
qed

lemma quietStep:
  assumes inv: "quiet_inv T all st" and test: "triggerTest st"
  shows "quiet_inv T all (triggerStep (\<lambda>_. []) st)"
proof -
  obtain it d where st: "st = (it, d)" by fastforce
  have linv: "loop_inv T (\<lambda>_. []) (it, d)" and tags: "\<forall>e\<in>set (d_timers d). 1024 \<le> te_tag e"
    and all: "d_triggered d @ due_listeners T d (suffix_at it (d_timers d)) = all"
    using inv by (simp_all add: quiet_inv_def st)
  have d: "d_inv None {} d" "intervals_ok d" "d_triggerTime d = T" "0 < T" "T \<le> 2 ^ 53"
    using linv by (simp_all add: loop_inv_def)
  from linv test obtain e where e: "e \<in> set (d_timers d)" "it = AtEntry (te_id e)"
    by (auto simp: loop_inv_def valid_iterator_def triggerTest_def st)
  have dist: "distinct (map te_id (d_timers d))" using d by (simp add: d_inv_def)
  have find: "entry_at it d = Some e" using find_entry [OF dist e(1)] e(2) by (simp add: entry_at_def)
  have due: "te_tag e div 1024 \<le> T" using test find d(3) by (simp add: triggerTest_def st)
  obtain tm t where tm: "te_timer e = Some tm" "d_objects d tm = Some t" and t: "\<not> t_guarded t" "te_tag e = timer_tag t"
    using d_inv_entry [OF d(1) e(1)] by (auto simp: entry_ok_def split: option.splits)
  have tok: "timer_ok t" using d_inv_object [OF d(1) tm(2)] by (simp add: object_ok_def)
  have nz: "t_nextDueTime t \<noteq> 0" using tags e(1) t(2) tok by (auto simp: timer_tag_def timer_ok_def)
  let ?d1 = "d\<lparr>d_serialsCompacted := False\<rparr>"
  let ?d2 = "timer_trigger (\<lambda>_. []) tm ?d1"
  let ?t = "t\<lparr>t_isRunning := t_isRunning t \<and> t_isRepeating t\<rparr>"
  note q = quiet_trigger [of ?d1 tm t, simplified, OF tm(2) t(1)]
  let ?r = "afterTrigger (te_id e) ?d2"
  have step: "triggerStep (\<lambda>_. []) st = ?r" using nz tm find q(6) by (simp add: triggerStep_def st)
  have "timer_ok ?t" using tok by (simp add: timer_ok_def)
  then have a: "d_triggered (snd ?r) = d_triggered ?d2 \<and> listens (snd ?r) = listens ?d2 \<and> (\<forall>e\<in>set (d_timers (snd ?r)). 1024 \<le> te_tag e) \<and>
    filter (\<lambda>e. te_tag e div 1024 \<le> T) (suffix_at (fst ?r) (d_timers (snd ?r))) =
    filter (\<lambda>e. te_tag e div 1024 \<le> T) (suffix_at (next_entry (te_id e) (d_timers d)) (d_timers d))"
    using interval_bounds [OF d(2) tm(2)] q nz d tm(1)
    by (intro quiet_after [OF d(1,2) e(1) tm(1) _ d(4,5) tags, of ?d2 ?t]) simp_all
  have l: "listens ?d2 = listens d" by (rule listens_same) (simp add: q tm(2))
  have "due_listeners T (snd ?r) (suffix_at (fst ?r) (d_timers (snd ?r))) =
      due_listeners T d (suffix_at (next_entry (te_id e) (d_timers d)) (d_timers d))"
    using a l by (intro due_listeners_filter) simp_all
  moreover have "due_listeners T d (suffix_at it (d_timers d)) =
      (if t_hasListener t then [tm] else []) @ due_listeners T d (suffix_at (next_entry (te_id e) (d_timers d)) (d_timers d))"
    using next_suffix(1) [OF dist e(1)] due tm by (simp add: e(2) due_listeners_def listens_def)
  moreover have "loop_inv T (\<lambda>_. []) ?r" using triggerStep_inv [OF linv test [unfolded st]] step by (simp add: st)
  ultimately show ?thesis using a all q(2)
    unfolding step quiet_inv_def by (simp add: case_prod_beta)
qed

lemma quiet_dispatch:
  assumes "d_inv None {} d" "intervals_ok d" "0 < d_clock d" "d_clock d \<le> 2 ^ 53" and "\<forall>e\<in>set (d_timers d). 1024 \<le> te_tag e"
  shows "\<exists>d'. triggerDueTimers (\<lambda>_. []) d = Some d' \<and>
    d_triggered d' = d_triggered d @ due_listeners (d_clock d) d (d_timers d)"
proof -
  let ?d = "d\<lparr>d_triggerTime := d_clock d\<rparr>"
  let ?all = "d_triggered d @ due_listeners (d_clock d) d (d_timers d)"
  have zero: "script_weight (time_of (\<lambda>_. [])) T = (\<lambda>_. 0)" "script_weight (calls_of (\<lambda>_. [])) T = (\<lambda>_. 0)" for T
    by (auto simp: fun_eq_iff script_weight_def time_of_def calls_of_def split: option.splits)
  have l: "loop_inv (d_clock d) (\<lambda>_. []) (first_entry (d_timers ?d), ?d)"
    using assms by (simp add: loop_inv_def intervals_ok_def first_entry_weight zero d_inv_def [of None "{}" d])
  moreover have "suffix_at (first_entry (d_timers d)) (d_timers d) = d_timers d"
    by (cases "d_timers d") (simp_all add: suffix_at_def)
  moreover have "listens ?d = listens d" by (rule listens_same) simp
  ultimately have q: "quiet_inv (d_clock d) ?all (first_entry (d_timers ?d), ?d)"
    using assms(5) by (simp add: quiet_inv_def due_listeners_def)
  from dispatch_loop [OF l] obtain it d2
    where w: "while_option triggerTest (triggerStep (\<lambda>_. [])) (first_entry (d_timers ?d), ?d) = Some (it, d2)"
      and d2: "loop_inv (d_clock d) (\<lambda>_. []) (it, d2)" by auto
  have q2: "quiet_inv (d_clock d) ?all (it, d2)"
    by (rule while_option_rule [where P = "quiet_inv (d_clock d) ?all", OF _ w q]) (rule quietStep)
  have stop: "\<not> triggerTest (it, d2)" by (rule while_option_stop [OF w])
  have "due_listeners (d_clock d) d2 (suffix_at it (d_timers d2)) = []"
  proof (cases it)
    case (AtEntry i)
    with d2 obtain e where e: "e \<in> set (d_timers d2)" "it = AtEntry (te_id e)"
      by (auto simp: loop_inv_def valid_iterator_def)
    have dist: "distinct (map te_id (d_timers d2))" and sorted: "sorted (map te_tag (d_timers d2))" and nf: "\<not> d_fault d2"
      using d2 by (simp_all add: loop_inv_def d_inv_def)
    have "entry_at it d2 = Some e" using find_entry [OF dist e(1)] e(2) by (simp add: entry_at_def)
    with stop nf e(2) d2 have late: "d_clock d < te_tag e div 1024" by (simp add: triggerTest_def loop_inv_def)
    obtain pre post where ts: "d_timers d2 = pre @ e # post" using e(1) by (auto simp: in_set_conv_decomp)
    with dist have "te_id e \<notin> te_id ` set pre" by auto
    then have "suffix_at it (d_timers d2) = e # post" unfolding ts e(2) suffix_at_def by (induction pre) auto
    moreover have "\<forall>x\<in>set (e # post). te_tag e \<le> te_tag x" using sorted ts by (auto simp: sorted_append)
    then have "\<forall>x\<in>set (e # post). d_clock d < te_tag x div 1024"
      using late zdiv_mono1 [of "te_tag e" _ 1024] by fastforce
    then have "filter (\<lambda>x. te_tag x div 1024 \<le> d_clock d \<and> listens d2 x) (e # post) = []"
      by (intro filter_False) (auto simp: not_le)
    ultimately show ?thesis by (simp add: due_listeners_def)
  qed (simp_all add: suffix_at_def due_listeners_def)
  with q2 have "d_triggered d2 = ?all" by (simp add: quiet_inv_def)
  with w show ?thesis by (simp add: triggerDueTimers_def)
qed

subsection \<open>Properties\<close>

lemma has_entry_running:
  assumes inv: "d_inv None {} d"
  shows "has_entry d tm \<longleftrightarrow> (\<exists>t. d_objects d tm = Some t \<and> t_isRunning t)"
proof
  assume "has_entry d tm"
  then obtain e where "e \<in> set (d_timers d)" "te_timer e = Some tm" by (auto simp: has_entry_def)
  then show "\<exists>t. d_objects d tm = Some t \<and> t_isRunning t"
    using d_inv_entry [OF inv, of e] by (auto simp: entry_ok_def split: option.splits)
next
  assume "\<exists>t. d_objects d tm = Some t \<and> t_isRunning t"
  then show "has_entry d tm" using d_inv_object [OF inv] by (fastforce simp: object_ok_def has_entry_def)
qed

lemma entry_due:
  assumes inv: "d_inv None {} d" and e: "e \<in> set (d_timers d)"
  shows "\<exists>tm t. te_timer e = Some tm \<and> d_objects d tm = Some t \<and> te_tag e div 1024 = t_nextDueTime t"
proof -
  obtain tm t where t: "te_timer e = Some tm" "d_objects d tm = Some t" "te_tag e = timer_tag t"
    using d_inv_entry [OF inv e] by (auto simp: entry_ok_def split: option.splits)
  then have "timer_ok t" using d_inv_object [OF inv] by (simp add: object_ok_def)
  then have "timer_tag t = t_nextDueTime t * 1024 + t_serial t" "0 \<le> t_serial t" "t_serial t < 1024"
    by (simp_all add: timer_tag_def timer_ok_def)
  with t show ?thesis by (metis tag_due)
qed

text \<open>C12: After any sequence of calls on timers, renumbering included, the map has exactly the running timers,
  each once, under its due time and in the order of the due times, and no call has gone wrong.\<close>

theorem timer_map_exact:
  "let d = timer_calls cs (EventDispatcher integrator clock) in
   sorted (map te_tag (d_timers d)) \<and> distinct (map te_timer (d_timers d)) \<and>
   te_timer ` set (d_timers d) = {Some tm |tm. \<exists>t. d_objects d tm = Some t \<and> t_isRunning t} \<and>
   list_all (\<lambda>e. \<exists>tm t. te_timer e = Some tm \<and> d_objects d tm = Some t \<and> te_tag e div 1024 = t_nextDueTime t) (d_timers d) \<and>
   \<not> d_fault d"
proof -
  let ?d = "timer_calls cs (EventDispatcher integrator clock)"
  have inv: "d_inv None {} ?d" by (rule timer_calls_inv [OF d_inv_initial])
  have "te_timer e \<noteq> None" if "e \<in> set (d_timers ?d)" for e
    using entry_due [OF inv that] by auto
  then have "te_timer ` set (d_timers ?d) = {Some tm |tm. has_entry ?d tm}"
    by (force simp: has_entry_def)
  then show ?thesis using inv entry_due [OF inv]
    by (simp add: d_inv_def Let_def has_entry_running [OF inv] list_all_iff)
qed

lemma example_objects:
  "d_objects (timer_calls [NewTimer, SetListener 0 True, StartTimer 0 5, Pass 9] (EventDispatcher False 1000)) =
   [0 \<mapsto> \<lparr>t_interval = 5, t_isRunning = True, t_isRepeating = True, t_nextDueTime = 1005, t_serial = 0,
     t_hasListener = True, t_guarded = False, t_attached = True\<rparr>]"
  by (simp add: timer_calls_def EventDispatcher_def callable_def timer_new_def Timer_def timer_setCompletionListener_def
      updateTimer_def timer_start_def with_timer_def addTimer_def nextTimerSerial_def s_maxTimerSerial_def Let_def
      emplace_def maybeSetTimeoutForIntegrator_def)


lemma example_dispatcher:
  defines "d \<equiv> timer_calls [NewTimer, SetListener 0 True, StartTimer 0 5, Pass 9] (EventDispatcher False 1000)"
  shows "d_inv None {} d" "intervals_ok d" "d_clock d = 1009" "d_currentTimerSerial d = 1" "d_triggered d = []"
    "d_timers d = [\<lparr>te_id = 0, te_tag = 1005 * 1024, te_timer = Some 0\<rparr>]"
proof -
  show "d_inv None {} d" unfolding d_def by (rule timer_calls_inv [OF d_inv_initial])
  show "intervals_ok d" unfolding intervals_ok_def d_def example_objects by simp
  show "d_clock d = 1009" "d_currentTimerSerial d = 1" "d_triggered d = []"
    "d_timers d = [\<lparr>te_id = 0, te_tag = 1005 * 1024, te_timer = Some 0\<rparr>]"
    unfolding d_def by (code_simp; simp)+
qed

text \<open>C16: Dispatching due timers returns, and leaves the map in order, when its listeners start, stop, reschedule or
  delete timers, their own included, as long as the serials do not run out on the way.  The conditions: intervals are
  not negative, the clock stays below 2^53 milliseconds, and the serials used so far and the calls of all listeners that
  are due together do not exceed 1024, so that no callback renumbers the timers, which C37 shows to go wrong.\<close>

theorem dispatch_terminates:
  assumes "d_inv None {} d" and "intervals_ok d" and "0 < d_clock d"
    and "\<forall>tm. \<forall>c\<in>set (script tm). call_ok c"
    and "d_clock d + int (sum_list (map (script_weight (time_of script) (d_clock d)) (d_timers d))) \<le> 2 ^ 53"
    and "d_currentTimerSerial d + int (sum_list (map (script_weight (calls_of script) (d_clock d)) (d_timers d))) \<le> 1024"
  shows "\<exists>d'. triggerDueTimers script d = Some d' \<and> d_inv None {} d' \<and> intervals_ok d'"
  by (rule dispatch_inv [OF assms])

theorem dispatch_terminates_witness:
  "\<exists>d'. triggerDueTimers (\<lambda>_. [NewTimer, StartTimer 1 0, DestroyTimer 0])
     (timer_calls [NewTimer, SetListener 0 True, StartTimer 0 5, Pass 9] (EventDispatcher False 1000)) = Some d' \<and>
   d_inv None {} d' \<and> intervals_ok d'"
  by (rule dispatch_terminates)
    (simp_all add: example_dispatcher script_weight_def time_of_def calls_of_def)

definition due_time_of :: "dispatcher \<Rightarrow> nat \<Rightarrow> int" where
  "due_time_of d tm = (case d_objects d tm of None \<Rightarrow> 0 | Some t \<Rightarrow> t_nextDueTime t)"

text \<open>C15: A dispatch run that finds no staged timer notifies only timers that were running and due when it started, each
  at most once, and in the order of their due times, whatever its listeners start, stop, reschedule or delete under the
  conditions of C16.  If the listeners call nothing, it notifies exactly the due timers with a listener, in the order of
  the map.  (A timer is staged when a callback of an earlier run has started it with the interval 0.)\<close>

theorem due_timers_in_order:
  assumes "d_inv None {} d" and "intervals_ok d" and "0 < d_clock d"
    and "\<forall>tm. \<forall>c\<in>set (script tm). call_ok c"
    and "d_clock d + int (sum_list (map (script_weight (time_of script) (d_clock d)) (d_timers d))) \<le> 2 ^ 53"
    and "d_currentTimerSerial d + int (sum_list (map (script_weight (calls_of script) (d_clock d)) (d_timers d))) \<le> 1024"
    and "\<forall>e\<in>set (d_timers d). 1024 \<le> te_tag e"
  shows "\<exists>d' ns. triggerDueTimers script d = Some d' \<and> d_triggered d' = d_triggered d @ ns \<and> distinct ns \<and>
    sorted (map (due_time_of d) ns) \<and>
    (\<forall>tm\<in>set ns. \<exists>t. d_objects d tm = Some t \<and> t_isRunning t \<and> t_nextDueTime t \<le> d_clock d) \<and>
    (script = (\<lambda>_. []) \<longrightarrow>
       ns = map (\<lambda>e. the (te_timer e)) (filter (\<lambda>e. te_tag e div 1024 \<le> d_clock d \<and> listens d e) (d_timers d)))"
proof -
  obtain d' ns where run: "triggerDueTimers script d = Some d'" "d_triggered d' = d_triggered d @ ns" and ns: "distinct ns"
      "sorted (map (tag_in d) ns)"
      "\<forall>tm\<in>set ns. \<exists>t. d_objects d tm = Some t \<and> t_isRunning t \<and> timer_tag t div 1024 \<le> d_clock d"
    using notified_dispatch [OF assms] by blast
  have due: "timer_tag t div 1024 = t_nextDueTime t" if "d_objects d tm = Some t" for tm t
    using d_inv_object [OF assms(1) that] tag_due by (simp add: object_ok_def timer_ok_def timer_tag_def)
  have "sorted_wrt (\<lambda>a b. tag_in d a \<le> tag_in d b) ns" using ns(2) by (simp add: sorted_map)
  then have "sorted_wrt (\<lambda>a b. due_time_of d a \<le> due_time_of d b) ns"
  proof (rule sorted_wrt_mono_rel [rotated])
    fix a b assume ab: "a \<in> set ns" "b \<in> set ns" "tag_in d a \<le> tag_in d b"
    with ns(3) obtain s t where "d_objects d a = Some s" "d_objects d b = Some t" by blast
    with ab(3) zdiv_mono1 [of "timer_tag s" "timer_tag t" 1024] due
    show "due_time_of d a \<le> due_time_of d b" by (simp add: tag_in_def due_time_of_def)
  qed
  moreover have "\<forall>tm\<in>set ns. \<exists>t. d_objects d tm = Some t \<and> t_isRunning t \<and> t_nextDueTime t \<le> d_clock d"
    using ns(3) due by fastforce
  moreover have "script = (\<lambda>_. []) \<longrightarrow>
       ns = map (\<lambda>e. the (te_timer e)) (filter (\<lambda>e. te_tag e div 1024 \<le> d_clock d \<and> listens d e) (d_timers d))"
    using quiet_dispatch [OF assms(1-3) _ assms(7)] run assms(5) by (auto simp: due_listeners_def)
  ultimately show ?thesis using run ns(1) by (auto simp: sorted_map)
qed

theorem due_timers_in_order_witness:
  "\<exists>d'. triggerDueTimers (\<lambda>_. [])
     (timer_calls [NewTimer, SetListener 0 True, StartTimer 0 5, Pass 9] (EventDispatcher False 1000)) = Some d' \<and>
   d_triggered d' = [0]"
  using due_timers_in_order [OF example_dispatcher(1,2), of "\<lambda>_. []"]
  by (auto simp: example_dispatcher listens_def example_objects script_weight_def time_of_def calls_of_def)

text \<open>1024 starts of a single-shot timer.\<close>

definition restarted :: "nat \<Rightarrow> dispatcher" where
  "restarted n = timer_calls ([NewTimer, SetListener 0 True, SetRepeating 0 False] @ replicate n (StartTimer 0 5))
     (EventDispatcher False 1000)"

lemma restarted_state:
  "n \<le> 1023 \<Longrightarrow> restarted (Suc n) =
   \<lparr>d_timers = [\<lparr>te_id = n, te_tag = 1005 * 1024 + int n, te_timer = Some 0\<rparr>], d_nextEntry = Suc n,
    d_objects = [0 \<mapsto> \<lparr>t_interval = 5, t_isRunning = True, t_isRepeating = False, t_nextDueTime = 1005,
      t_serial = int n, t_hasListener = True, t_guarded = False, t_attached = True\<rparr>],
    d_nextObject = 1, d_currentTimerSerial = int n + 1, d_triggerTime = 0, d_serialsCompacted = False,
    d_adjustedIteratorOfNextTimer = NoIterator, d_integrator = False, d_watched = [], d_clock = 1000,
    d_triggered = [], d_fault = False\<rparr>"
proof (induction n)
  case 0
  show ?case
    by (simp add: restarted_def timer_calls_def EventDispatcher_def callable_def timer_new_def Timer_def
      timer_setCompletionListener_def timer_setRepeating_def updateTimer_def timer_start_def with_timer_def
      addTimer_def nextTimerSerial_def s_maxTimerSerial_def Let_def emplace_def timer_tag_def
      maybeSetTimeoutForIntegrator_def fun_eq_iff)
next
  case (Suc n)
  have "restarted (Suc (Suc n)) = timer_calls [StartTimer 0 5] (restarted (Suc n))"
    by (simp add: restarted_def timer_calls_def replicate_append_same [symmetric] del: replicate_Suc)
  with Suc show ?case
    by (simp add: timer_calls_def callable_def removeTimer_def erase_entry_def updateTimer_def timer_start_def
      with_timer_def addTimer_def nextTimerSerial_def s_maxTimerSerial_def Let_def emplace_def timer_tag_def
      maybeSetTimeoutForIntegrator_def fun_eq_iff add.commute)
qed

lemma restarted_1024:
  "restarted 1024 =
   \<lparr>d_timers = [\<lparr>te_id = 1023, te_tag = 1005 * 1024 + 1023, te_timer = Some 0\<rparr>], d_nextEntry = 1024,
    d_objects = [0 \<mapsto> \<lparr>t_interval = 5, t_isRunning = True, t_isRepeating = False, t_nextDueTime = 1005,
      t_serial = 1023, t_hasListener = True, t_guarded = False, t_attached = True\<rparr>],
    d_nextObject = 1, d_currentTimerSerial = 1024, d_triggerTime = 0, d_serialsCompacted = False,
    d_adjustedIteratorOfNextTimer = NoIterator, d_integrator = False, d_watched = [], d_clock = 1000,
    d_triggered = [], d_fault = False\<rparr>"
  using restarted_state [of 1023] by simp

text \<open>C37: When the timer serials run out in the callback of a single-shot timer, because the listener starts
  another timer, the renumbering steps behind the end of the map: its loop counts the dead entry of the
  running timer, which it drops without using a serial.\<close>

theorem renumbering_in_callback_faults:
  "\<exists>d'. triggerDueTimers (\<lambda>_. [NewTimer, StartTimer 1 7]) (timer_calls [Pass 9] (restarted 1024)) = Some d' \<and> d_fault d'"
proof -
  let ?d = "timer_calls [Pass 9] (restarted 1024)"
  let ?s = "triggerStep (\<lambda>_. [NewTimer, StartTimer 1 7]) (AtEntry 1023, ?d\<lparr>d_triggerTime := d_clock ?d\<rparr>)"
  have four: "compactLoop 4 n st = compactLoop (Suc (Suc (Suc (Suc 0)))) n st" for n st
    by (simp add: eval_nat_numeral)
  have f: "d_fault (snd ?s)"
    by (simp add: triggerStep_def entry_at_def restarted_1024 timer_calls_def callable_def timer_trigger_def
        with_timer_def Let_def updateTimer_def timer_new_def Timer_def timer_start_def addTimer_def nextTimerSerial_def
        s_maxTimerSerial_def tryCompactTimerSerials_def compactStep_def erase_entry_def emplace_def four
        d_undefined_def maybeSetTimeoutForIntegrator_def)
  then have "\<not> triggerTest ?s" by (simp add: triggerTest_def case_prod_beta)
  then have "while_option triggerTest (triggerStep (\<lambda>_. [NewTimer, StartTimer 1 7])) (AtEntry 1023, ?d\<lparr>d_triggerTime := d_clock ?d\<rparr>) = Some ?s"
    by (subst while_option_unfold, subst while_option_unfold)
      (simp add: triggerTest_def entry_at_def restarted_1024 timer_calls_def callable_def)
  moreover have "d_timers ?d = [\<lparr>te_id = 1023, te_tag = 1005 * 1024 + 1023, te_timer = Some 0\<rparr>]"
    by (simp add: restarted_1024 timer_calls_def callable_def)
  ultimately show ?thesis using f
    by (simp add: triggerDueTimers_def maybeSetTimeoutForIntegrator_def case_prod_beta Let_def)
qed

end
