(* ===== verification/Auth_Client.thy ===== *)
theory Auth_Client
  imports String_Tools
begin

text \<open>
  The client side of the authentication dialogue (\<^verbatim>\<open>connection/authclient.cpp\<close>).  The transport is
  seen through its answers: each read of one byte gives a character or nothing, \<open>is_open\<close> is what
  \<^verbatim>\<open>isOpen\<close> says after the reads of a call, \<open>fd_count\<close> is \<^verbatim>\<open>supportedPassingUnixFdsCount\<close>.
  \<open>ac_written\<close> collects everything that was handed to \<^verbatim>\<open>write\<close>, \<open>ac_completions\<close> counts the calls
  of the completion listener.
\<close>

subsection \<open>State\<close>

datatype auth_state =
    InitialState | ExpectOkState | ExpectUnixFdResponseState | AuthenticationFailedState | AuthenticatedState

fun auth_code :: "auth_state \<Rightarrow> nat" where
  "auth_code InitialState = 0"
| "auth_code ExpectOkState = 1"
| "auth_code ExpectUnixFdResponseState = 2"
| "auth_code AuthenticationFailedState = 3"
| "auth_code AuthenticatedState = 4"

definition AuthExternal :: nat where "AuthExternal = 0"
definition AuthAnonymous :: nat where "AuthAnonymous = 1"

record auth_client =
  ac_state :: auth_state
  ac_nextAuthMethod :: nat
  ac_fdPassingEnabled :: bool
  ac_line :: string
  ac_hasListener :: bool
  ac_written :: string
  ac_completions :: nat

definition auth_isFinished :: "auth_client \<Rightarrow> bool" where
  "auth_isFinished c \<longleftrightarrow> auth_code AuthenticationFailedState \<le> auth_code (ac_state c)"

definition auth_isAuthenticated :: "auth_client \<Rightarrow> bool" where
  "auth_isAuthenticated c \<longleftrightarrow> ac_state c = AuthenticatedState"

definition auth_isUnixFdPassingEnabled :: "auth_client \<Rightarrow> bool" where
  "auth_isUnixFdPassingEnabled c = ac_fdPassingEnabled c"

definition auth_setCompletionListener :: "bool \<Rightarrow> auth_client \<Rightarrow> auth_client" where
  "auth_setCompletionListener present c = c\<lparr>ac_hasListener := present\<rparr>"

definition auth_write :: "string \<Rightarrow> auth_client \<Rightarrow> auth_client" where
  "auth_write s c = c\<lparr>ac_written := ac_written c @ s\<rparr>"

definition crlf :: string where "crlf = [CHR 0x0D, CHR 0x0A]"

definition isEndOfLine :: "string \<Rightarrow> bool" where
  "isEndOfLine line \<longleftrightarrow> 2 \<le> length line \<and> line ! (length line - 2) = CHR 0x0D \<and>
     line ! (length line - 1) = CHR 0x0A"

subsection \<open>Operations\<close>

text \<open>\<open>uid\<close> is the result of \<^verbatim>\<open>geteuid\<close>.\<close>

definition sendNextAuthMethod :: "nat \<Rightarrow> auth_client \<Rightarrow> auth_client" where
  "sendNextAuthMethod uid c =
     (if ac_nextAuthMethod c = AuthExternal then
        (auth_write (''AUTH EXTERNAL '' @ hexEncode (show_nat uid) @ crlf) c)
          \<lparr>ac_nextAuthMethod := ac_nextAuthMethod c + 1, ac_state := ExpectOkState\<rparr>
      else if ac_nextAuthMethod c = AuthAnonymous then
        (auth_write (''AUTH ANONYMOUS 646665727279'' @ crlf) c)
          \<lparr>ac_nextAuthMethod := ac_nextAuthMethod c + 1, ac_state := ExpectOkState\<rparr>
      else c\<lparr>ac_state := AuthenticationFailedState\<rparr>)"

definition AuthClient :: "nat \<Rightarrow> auth_client" where
  "AuthClient uid = sendNextAuthMethod uid (auth_write [CHR 0x00]
     \<lparr>ac_state = InitialState, ac_nextAuthMethod = 0, ac_fdPassingEnabled = False, ac_line = [],
      ac_hasListener = False, ac_written = [], ac_completions = 0\<rparr>)"

definition auth_begin :: "auth_client \<Rightarrow> auth_client" where
  "auth_begin c =
     (let c1 = c\<lparr>ac_fdPassingEnabled := (ac_line c = ''AGREE_UNIX_FD'' @ crlf)\<rparr>
      in (auth_write (''BEGIN'' @ crlf) c1)\<lparr>ac_state := AuthenticatedState\<rparr>)"

definition auth_advanceState :: "nat \<Rightarrow> nat \<Rightarrow> auth_client \<Rightarrow> auth_client" where
  "auth_advanceState uid fd_count c =
     (case ac_state c of
        ExpectOkState \<Rightarrow>
          (let authOk = (take 3 (ac_line c) = ''OK '') in
           if \<not> authOk then
             (let rejected = (take 8 (ac_line c) = ''REJECTED'') in
              if rejected then sendNextAuthMethod uid (c\<lparr>ac_state := ExpectOkState\<rparr>)
              else c\<lparr>ac_state := AuthenticationFailedState\<rparr>)
           else if 0 < fd_count then
             (auth_write (''NEGOTIATE_UNIX_FD'' @ crlf) c)\<lparr>ac_state := ExpectUnixFdResponseState\<rparr>
           else auth_begin c)
      | ExpectUnixFdResponseState \<Rightarrow> auth_begin c
      | _ \<Rightarrow> c\<lparr>ac_state := AuthenticationFailedState\<rparr>)"

text \<open>The reading loop of \<^verbatim>\<open>readLine\<close>: whether a line is complete, the line, the answers left.\<close>

fun readLoop :: "char option list \<Rightarrow> string \<Rightarrow> bool \<times> string \<times> char option list" where
  "readLoop [] line = (False, line, [])"
| "readLoop (None # answers) line = (False, line, answers)"
| "readLoop (Some c # answers) line =
     (let line' = line @ [c] in if isEndOfLine line' then (True, line', answers) else readLoop answers line')"

definition readLine :: "char option list \<Rightarrow> auth_client \<Rightarrow> bool \<times> auth_client \<times> char option list" where
  "readLine answers c =
     (let line = (if isEndOfLine (ac_line c) then [] else ac_line c)
      in case readLoop answers line of (ok, line', rest) \<Rightarrow> (ok, c\<lparr>ac_line := line'\<rparr>, rest))"

lemma readLoop_length:
  "readLoop answers line = (True, line', rest) \<Longrightarrow> length rest < length answers"
  by (induction answers line arbitrary: line' rest rule: readLoop.induct)
    (auto simp: Let_def less_SucI split: if_splits)

function auth_readLines ::
  "nat \<Rightarrow> nat \<Rightarrow> char option list \<Rightarrow> auth_client \<Rightarrow> auth_client \<times> char option list" where
  "auth_readLines uid fd_count answers c =
     (if auth_isFinished c then (c, answers)
      else (case readLine answers c of
              (ok, c', rest) \<Rightarrow>
                if ok then auth_readLines uid fd_count rest (auth_advanceState uid fd_count c') else (c', rest)))"
  by pat_completeness auto
termination
  by (relation "measure (\<lambda>(_, _, answers, _). length answers)")
    (auto simp: readLine_def Let_def split: prod.splits dest: readLoop_length)

declare auth_readLines.simps [simp del]

text \<open>The flag is true for the status \<^verbatim>\<open>OK\<close>, false for \<^verbatim>\<open>RemoteClosed\<close>.\<close>

definition auth_handleTransportCanRead ::
  "nat \<Rightarrow> nat \<Rightarrow> bool \<Rightarrow> char option list \<Rightarrow> auth_client \<Rightarrow> bool \<times> auth_client" where
  "auth_handleTransportCanRead uid fd_count is_open answers c =
     (let wasFinished = auth_isFinished c;
          (c1, _) = auth_readLines uid fd_count answers c;
          c2 = (if \<not> is_open then c1\<lparr>ac_state := AuthenticationFailedState\<rparr> else c1);
          ret = (ac_state c2 \<noteq> AuthenticationFailedState);
          c3 = (if auth_isFinished c2 \<and> \<not> wasFinished \<and> ac_hasListener c2
                then c2\<lparr>ac_completions := ac_completions c2 + 1\<rparr> else c2)
      in (ret, c3))"

subsection \<open>Reassembly of lines\<close>

lemma readLoop_more:
  "readLoop (map Some xs) line = (True, l, r) \<Longrightarrow> readLoop (map Some (xs @ ys)) line = (True, l, r @ map Some ys)"
  "readLoop (map Some xs) line = (False, l, r) \<Longrightarrow> r = [] \<and>
     readLoop (map Some (xs @ ys)) line = readLoop (map Some ys) l \<and> (isEndOfLine l \<longrightarrow> isEndOfLine line)"
  by (induction xs arbitrary: line) (auto simp: Let_def split: if_splits)

lemma readLoop_suffix: "readLoop (map Some xs) line = (b, l, r) \<Longrightarrow> \<exists>ys. r = map Some ys \<and> length ys \<le> length xs \<and> (b \<longrightarrow> length ys < length xs)"
proof (induction xs arbitrary: line)
  case (Cons x xs)
  show ?case
  proof (cases "isEndOfLine (line @ [x])")
    case True
    with Cons.prems show ?thesis by (intro exI [of _ xs]) auto
  next
    case False
    with Cons.prems Cons.IH [of "line @ [x]"] show ?thesis by (auto simp: Let_def le_SucI less_SucI)
  qed
qed simp

lemma auth_readLines_append:
  "fst (auth_readLines uid fd (map Some (xs @ ys)) c) =
   fst (auth_readLines uid fd (map Some ys) (fst (auth_readLines uid fd (map Some xs) c)))"
proof (induction "length xs" arbitrary: xs c rule: less_induct)
  case less
  let ?line = "if isEndOfLine (ac_line c) then [] else ac_line c"
  show ?case
  proof (cases "auth_isFinished c")
    case True
    then show ?thesis by (simp add: auth_readLines.simps [of _ _ _ c])
  next
    case False
    obtain b l r where rl: "readLoop (map Some xs) ?line = (b, l, r)" by (rule prod_cases3)
    show ?thesis
    proof (cases b)
      case True
      from readLoop_suffix [OF rl] True obtain zs where zs: "r = map Some zs" "length zs < length xs" by auto
      have more: "readLoop (map Some (xs @ ys)) ?line = (True, l, map Some (zs @ ys))"
        using readLoop_more(1) [of xs ?line l r ys] rl True zs(1) by simp
      show ?thesis
        using False rl True zs less.hyps [OF zs(2), of "auth_advanceState uid fd (c\<lparr>ac_line := l\<rparr>)"] more
        by (simp add: auth_readLines.simps [of _ _ _ c] readLine_def del: map_append)
    next
      case b: False
      note more = readLoop_more(2) [of xs ?line l r ys, OF rl [simplified b]]
      have l: "\<not> isEndOfLine l" using rl b readLoop_more(2) [of xs ?line l r ys]
        by (auto simp: isEndOfLine_def split: if_splits)
      have "fst (auth_readLines uid fd (map Some xs) c) = c\<lparr>ac_line := l\<rparr>"
        using False rl b by (simp add: auth_readLines.simps [of _ _ _ c] readLine_def)
      moreover have "\<not> auth_isFinished (c\<lparr>ac_line := l\<rparr>)" using False by (simp add: auth_isFinished_def)
      ultimately show ?thesis
        using False l conjunct1 [OF conjunct2 [OF more]]
        by (simp add: auth_readLines.simps [of _ _ _ c] auth_readLines.simps [of _ _ _ "c\<lparr>ac_line := l\<rparr>"] readLine_def
            del: map_append)
    qed
  qed
qed

text \<open>It makes no difference in which portions the server's bytes arrive: reading them portion by
  portion gives the client that reading them at once gives.\<close>

theorem auth_portions_irrelevant:
  "fold (\<lambda>bytes c. fst (auth_readLines uid fd (map Some bytes) c)) (portion # portions) c =
   fst (auth_readLines uid fd (map Some (concat (portion # portions))) c)"
proof (induction portions arbitrary: portion)
  case (Cons q ps)
  from this [of "portion @ q"] show ?case by (simp add: auth_readLines_append del: map_append)
qed simp

subsection \<open>The dialogue as a whole\<close>

text \<open>What the answers of the server, line by line, lead to: the state and whether file descriptors may
  be passed; \<open>left\<close> is the number of methods that can still be tried after a rejection.\<close>

fun auth_outcome :: "bool \<Rightarrow> nat \<Rightarrow> string list \<Rightarrow> auth_state \<times> bool" where
  "auth_outcome passes left [] = (ExpectOkState, False)"
| "auth_outcome passes left (l # ls) =
     (if take 3 l = ''OK '' then
        (if \<not> passes then (AuthenticatedState, False)
         else (case ls of
                 [] \<Rightarrow> (ExpectUnixFdResponseState, False)
               | answer # _ \<Rightarrow> (AuthenticatedState, answer = ''AGREE_UNIX_FD'' @ crlf)))
      else if take 8 l = ''REJECTED'' then
        (case left of 0 \<Rightarrow> (AuthenticationFailedState, False) | Suc n \<Rightarrow> auth_outcome passes n ls)
      else (AuthenticationFailedState, False))"

text \<open>What the client has sent: \<open>tried\<close> methods, then as far as the state has come.\<close>

definition auth_greeting :: "nat \<Rightarrow> nat \<Rightarrow> string" where
  "auth_greeting uid tried = CHR 0x00 # ''AUTH EXTERNAL '' @ hexEncode (show_nat uid) @ crlf @
     (if 2 \<le> tried then ''AUTH ANONYMOUS 646665727279'' @ crlf else [])"

fun auth_sent :: "nat \<Rightarrow> bool \<Rightarrow> nat \<Rightarrow> auth_state \<Rightarrow> string" where
  "auth_sent uid passes tried ExpectUnixFdResponseState = auth_greeting uid tried @ ''NEGOTIATE_UNIX_FD'' @ crlf"
| "auth_sent uid passes tried AuthenticatedState =
     auth_greeting uid tried @ (if passes then ''NEGOTIATE_UNIX_FD'' @ crlf else []) @ ''BEGIN'' @ crlf"
| "auth_sent uid passes tried _ = auth_greeting uid tried"

definition complete_line :: "string \<Rightarrow> bool" where
  "complete_line l \<longleftrightarrow> isEndOfLine l \<and> list_all (\<lambda>n. \<not> isEndOfLine (take n l)) [0..<length l]"

lemma readLoop_line:
  assumes "complete_line l"
  shows "readLoop (map Some (l @ ys)) [] = (True, l, map Some ys)"
proof -
  have "readLoop (map Some (drop n l @ ys)) (take n l) = (True, l, map Some ys)" if "n < length l" for n
    using that
  proof (induction "length l - n" arbitrary: n)
    case (Suc k)
    from Suc.prems have d: "drop n l = l ! n # drop (Suc n) l" "take n l @ [l ! n] = take (Suc n) l"
      by (simp_all add: Cons_nth_drop_Suc take_Suc_conv_app_nth)
    show ?case
    proof (cases "Suc n < length l")
      case True
      with assms have "\<not> isEndOfLine (take (Suc n) l)" by (simp add: complete_line_def list_all_iff)
      with Suc.hyps(1) [of "Suc n"] Suc.hyps(2) True show ?thesis by (simp add: d)
    next
      case False
      with Suc.prems assms show ?thesis by (simp add: d complete_line_def)
    qed
  qed simp
  moreover have "l \<noteq> []" using assms by (auto simp: complete_line_def isEndOfLine_def)
  ultimately show ?thesis by fastforce
qed

lemma auth_readLines_line:
  assumes "complete_line l" and "\<not> auth_isFinished c" and "ac_line c = [] \<or> isEndOfLine (ac_line c)"
  shows "auth_readLines uid fd (map Some (l @ ys)) c =
    auth_readLines uid fd (map Some ys) (auth_advanceState uid fd (c\<lparr>ac_line := l\<rparr>))"
  using assms readLoop_line [OF assms(1), of ys]
  by (auto simp: auth_readLines.simps [of _ _ _ c] readLine_def isEndOfLine_def simp del: map_append)

lemma auth_readLines_finished: "auth_isFinished c \<Longrightarrow> auth_readLines uid fd answers c = (c, answers)"
  by (simp add: auth_readLines.simps [of _ _ _ c])

lemma auth_readLines_Nil:
  "fst (auth_readLines uid fd [] c) = c\<lparr>ac_line := ac_line (fst (auth_readLines uid fd [] c))\<rparr>"
  by (simp add: auth_readLines.simps [of _ _ _ c] readLine_def)

definition auth_waiting :: "nat \<Rightarrow> nat \<Rightarrow> auth_client \<Rightarrow> bool" where
  "auth_waiting uid tried c \<longleftrightarrow> ac_state c = ExpectOkState \<and> ac_nextAuthMethod c = tried \<and>
     (tried = 1 \<or> tried = 2) \<and> ac_written c = auth_greeting uid tried \<and>
     \<not> ac_fdPassingEnabled c \<and> (ac_line c = [] \<or> isEndOfLine (ac_line c))"

lemmas auth_op_defs = auth_advanceState_def sendNextAuthMethod_def auth_begin_def auth_write_def
  AuthExternal_def AuthAnonymous_def auth_isFinished_def

lemma auth_waiting_start: "auth_waiting uid 1 (AuthClient uid)"
  by (simp add: AuthClient_def auth_waiting_def auth_greeting_def auth_op_defs)

lemma complete_line_eol: "complete_line l \<Longrightarrow> isEndOfLine l"
  by (simp add: complete_line_def)

lemma auth_lines:
  assumes "list_all complete_line ls" and "auth_waiting uid tried c"
  shows "let c' = fst (auth_readLines uid fd (map Some (concat ls)) c) in
    (ac_state c', ac_fdPassingEnabled c') = auth_outcome (0 < fd) (2 - tried) ls \<and>
    ac_written c' = auth_sent uid (0 < fd) (ac_nextAuthMethod c') (ac_state c')"
  using assms
proof (induction ls arbitrary: c tried)
  case Nil
  then show ?case by (simp add: auth_readLines.simps [of _ _ _ c] readLine_def auth_isFinished_def auth_waiting_def Let_def)
next
  case (Cons l ls)
  have l: "complete_line l" and w: "auth_waiting uid tried c" using Cons.prems by simp_all
  let ?c1 = "auth_advanceState uid fd (c\<lparr>ac_line := l\<rparr>)"
  have eq: "auth_readLines uid fd (map Some (concat (l # ls))) c = auth_readLines uid fd (map Some (concat ls)) ?c1"
    using auth_readLines_line [OF l, of c uid fd "concat ls"] w
    by (simp add: auth_waiting_def auth_isFinished_def)
  consider (ok) "take 3 l = ''OK ''" | (rejected) "take 3 l \<noteq> ''OK ''" "take 8 l = ''REJECTED''"
    | (other) "take 3 l \<noteq> ''OK ''" "take 8 l \<noteq> ''REJECTED''" by blast
  then show ?case
  proof cases
    case ok
    then have not_agree: "l \<noteq> ''AGREE_UNIX_FD'' @ crlf" by auto
    show ?thesis
    proof (cases "0 < fd")
      case False
      with ok w not_agree have "auth_isFinished ?c1" by (simp add: auth_waiting_def auth_op_defs)
      with ok w not_agree False show ?thesis
        unfolding eq by (simp add: auth_readLines_finished auth_waiting_def auth_op_defs Let_def)
    next
      case fd: True
      show ?thesis
      proof (cases ls)
        case Nil
        with ok w fd show ?thesis
          unfolding eq by (simp add: auth_readLines.simps [of _ _ "[]"] readLine_def auth_waiting_def auth_op_defs Let_def)
      next
        case (Cons answer rest)
        let ?c2 = "auth_advanceState uid fd (?c1\<lparr>ac_line := answer\<rparr>)"
        have "complete_line answer" using Cons Cons.prems by simp
        then have "auth_readLines uid fd (map Some (concat ls)) ?c1 =
            auth_readLines uid fd (map Some (concat rest)) ?c2"
          using auth_readLines_line [of answer ?c1 uid fd "concat rest"] ok w fd complete_line_eol [OF l] Cons
          by (simp add: auth_waiting_def auth_op_defs)
        moreover have "auth_isFinished ?c2" using ok w fd by (simp add: auth_waiting_def auth_op_defs)
        ultimately show ?thesis
          using ok w fd Cons unfolding eq
          by (simp add: auth_readLines_finished auth_waiting_def auth_op_defs Let_def)
      qed
    qed
  next
    case rejected
    show ?thesis
    proof (cases "tried = 1")
      case True
      have "auth_waiting uid 2 ?c1"
        using rejected w True complete_line_eol [OF l]
        by (simp add: auth_waiting_def auth_op_defs auth_greeting_def)
      with Cons.IH [of 2 ?c1] Cons.prems rejected True show ?thesis unfolding eq by (simp add: Let_def)
    next
      case False
      with w have "tried = 2" by (simp add: auth_waiting_def)
      then have "auth_isFinished ?c1" using rejected w by (simp add: auth_waiting_def auth_op_defs)
      with \<open>tried = 2\<close> rejected w show ?thesis
        unfolding eq by (simp add: auth_readLines_finished auth_waiting_def auth_op_defs Let_def)
    qed
  next
    case other
    then have "auth_isFinished ?c1" using w by (simp add: auth_waiting_def auth_op_defs)
    with other w show ?thesis
      unfolding eq by (simp add: auth_readLines_finished auth_waiting_def auth_op_defs Let_def)
  qed
qed

text \<open>C8: For every sequence of lines from the server, the client ends in the state that the dialogue
  prescribes, has agreed to pass file descriptors exactly if it asked for it and the server agreed, and
  has sent exactly what belongs to that state: BEGIN only, and last, when it is authenticated.\<close>

theorem auth_dialogue:
  assumes "list_all complete_line ls"
    and "c = fst (auth_readLines uid fd (map Some (concat ls)) (AuthClient uid))"
  shows "(ac_state c, ac_fdPassingEnabled c) = auth_outcome (0 < fd) 1 ls \<and>
    ac_written c = auth_sent uid (0 < fd) (ac_nextAuthMethod c) (ac_state c)"
  using auth_lines [OF assms(1) auth_waiting_start, of uid fd] by (simp add: assms(2) Let_def)

theorem auth_dialogue_witness:
  "ac_state (fst (auth_readLines 1000 1 (map Some (concat [''REJECTED'' @ crlf, ''OK 0f'' @ crlf, ''AGREE_UNIX_FD'' @ crlf]))
     (AuthClient 1000))) = AuthenticatedState"
proof -
  have "list_all complete_line [''REJECTED'' @ crlf, ''OK 0f'' @ crlf, ''AGREE_UNIX_FD'' @ crlf]" by code_simp
  from auth_dialogue [OF this refl, of 1000 1] show ?thesis by (simp del: map_append concat.simps)
qed

text \<open>C27: Three complete lines from the server always finish the dialogue.\<close>

theorem auth_terminates:
  assumes "list_all complete_line ls" and "3 \<le> length ls"
  shows "auth_isFinished (fst (auth_readLines uid fd (map Some (concat ls)) (AuthClient uid)))"
proof -
  from assms(2) obtain a b c rest where ls: "ls = a # b # c # rest"
    by (metis Suc_le_length_iff numeral_3_eq_3)
  have "fst (auth_outcome (0 < fd) 1 ls) \<in> {AuthenticatedState, AuthenticationFailedState}"
    by (simp add: ls numeral_2_eq_2 split: nat.split)
  with auth_lines [OF assms(1) auth_waiting_start, of uid fd] show ?thesis
    by (auto simp: Let_def auth_isFinished_def dest!: arg_cong [of "(_, _)" _ fst])
qed

theorem auth_terminates_witness:
  "auth_isFinished (fst (auth_readLines 0 0 (map Some (concat [''REJECTED'' @ crlf, ''REJECTED'' @ crlf, ''x'' @ crlf]))
     (AuthClient 0)))"
  by (rule auth_terminates) code_simp+

subsection \<open>The completion listener\<close>

lemma auth_advance_frame:
  "ac_completions (auth_advanceState uid fd c) = ac_completions c"
  "ac_hasListener (auth_advanceState uid fd c) = ac_hasListener c"
  by (simp_all add: auth_op_defs Let_def split: auth_state.split)

lemma auth_readLines_frame:
  "ac_completions (fst (auth_readLines uid fd answers c)) = ac_completions c \<and>
   ac_hasListener (fst (auth_readLines uid fd answers c)) = ac_hasListener c \<and>
   (auth_isFinished c \<longrightarrow> fst (auth_readLines uid fd answers c) = c)"
proof (induction uid fd answers c rule: auth_readLines.induct)
  case (1 uid fd answers c)
  obtain b c' rest where r: "readLine answers c = (b, c', rest)" by (rule prod_cases3)
  then have "ac_completions c' = ac_completions c" "ac_hasListener c' = ac_hasListener c"
    by (auto simp: readLine_def Let_def split: prod.splits)
  with 1 r show ?case
    by (cases "auth_isFinished c"; cases b)
      (simp_all add: auth_readLines.simps [of uid fd answers c] auth_advance_frame)
qed

text \<open>C28: Through any sequence of calls from the event loop the completion listener is told exactly once,
  in the call that finishes the dialogue or notices that the connection was closed.\<close>

theorem auth_completes_once:
  "let c = fold (\<lambda>(is_open, answers) c. snd (auth_handleTransportCanRead uid fd is_open answers c)) calls
             (auth_setCompletionListener True (AuthClient uid))
   in ac_completions c = (if auth_isFinished c then 1 else 0)"
proof -
  define inv where "inv c \<longleftrightarrow> ac_hasListener c \<and> ac_completions c = (if auth_isFinished c then 1 else 0)" for c
  have step: "inv (snd (auth_handleTransportCanRead uid fd is_open answers c))" if "inv c" for is_open answers c
    using that auth_readLines_frame [of uid fd answers c]
    by (auto simp: inv_def auth_handleTransportCanRead_def Let_def auth_isFinished_def split: prod.splits)
  have "inv (fold (\<lambda>(is_open, answers) c. snd (auth_handleTransportCanRead uid fd is_open answers c)) calls c)"
    if "inv c" for c
    using that by (induction calls arbitrary: c) (auto intro: step)
  moreover have "inv (auth_setCompletionListener True (AuthClient uid))"
    by (simp add: inv_def auth_setCompletionListener_def AuthClient_def auth_op_defs)
  ultimately show ?thesis by (simp add: inv_def Let_def)
qed

end
