(* ===== verification/Connection_Model.thy ===== *)
theory Connection_Model
  imports Message_IO Connect_Address Auth_Client Event_Dispatcher
begin

text \<open>
  Connections and pending replies (\<^verbatim>\<open>connection/connection.cpp\<close>, \<^verbatim>\<open>connection/pendingreply.cpp\<close>,
  \<^verbatim>\<open>events/event.h\<close>).  The state is one \<^verbatim>\<open>ConnectionPrivate\<close> with the \<^verbatim>\<open>PendingReplyPrivate\<close> objects that
  refer to it, which have numbers as their addresses.  Other connections, of other threads, have numbers, too:
  events queued to them are collected in \<open>c_outbox\<close>, and \<open>alive\<close> says to which of them a
  \<^verbatim>\<open>CommutexLocker\<close> gets its lock.  Calls of listeners are collected in \<open>c_notes\<close>; what a client does in
  reaction to them are further calls.  \<open>c_fault\<close> is set by accesses through null, dangling or wrong pointers.
\<close>

subsection \<open>State\<close>

datatype connection_state =
    Unconnected | ServerWaitingForClient | Authenticating | AwaitingUniqueName | Connected

datatype user_state = UserUnconnected | UserConnecting | UserConnected

fun userState :: "connection_state \<Rightarrow> user_state" where
  "userState Unconnected = UserUnconnected"
| "userState ServerWaitingForClient = UserConnecting"
| "userState Authenticating = UserConnecting"
| "userState AwaitingUniqueName = UserConnecting"
| "userState Connected = UserConnected"

text \<open>
  The union \<^verbatim>\<open>m_connectionOrReply\<close>: a pointer to the connection, or to the reply, which the object owns
  (\<open>HeapReply\<close>) or which is part of an event (\<open>EventReply\<close>).
\<close>

datatype connection_or_reply = Attached | NoReply | HeapReply message_handle | EventReply message_handle

fun isAttached :: "connection_or_reply \<Rightarrow> bool" where
  "isAttached Attached = True"
| "isAttached _ = False"

lemma isAttached_iff [simp]: "isAttached l \<longleftrightarrow> l = Attached"
  by (cases l) simp_all

fun isNoReply :: "connection_or_reply \<Rightarrow> bool" where
  "isNoReply NoReply = True"
| "isNoReply _ = False"

lemma isNoReply_iff [simp]: "isNoReply l \<longleftrightarrow> l = NoReply"
  by (cases l) simp_all

datatype receiver = NoReceiver | ClientReceiver | HelloReceiver

record pending_reply =
  p_owner :: "nat option"
  p_link :: connection_or_reply
  p_cookie :: nat
  p_replyTimeout :: timer
  p_receiver :: receiver
  p_error :: error_code
  p_serial :: uint32
  p_isFinished :: bool

datatype reply_record = ForReply nat | ForConnection nat

datatype event =
    SendMessageEvent message
  | SendMessageWithPendingReplyEvent message nat
  | SpontaneousMessageReceivedEvent message_handle
  | PendingReplySuccessEvent message
  | PendingReplyFailureEvent uint32 error_code
  | PendingReplyCancelEvent uint32
  | MainConnectionDisconnectEvent error_code
  | SecondaryConnectionConnectEvent nat nat
  | SecondaryConnectionDisconnectEvent nat
  | UniqueNameReceivedEvent string

text \<open>The I/O listener that the connection, as an \<^verbatim>\<open>IIoEventForwarder\<close>, forwards to.\<close>

datatype downstream = NoDownstream | ServerDownstream | TransportDownstream

datatype notice =
    StateNote user_state user_state
  | FinishedNote nat
  | SpontaneousNote message

record connection =
  c_id :: nat
  c_state :: connection_state
  c_closing :: bool
  c_unixFdPassingEnabled :: bool
  c_client :: bool                       \<comment> \<open>a receiver of spontaneous messages\<close>
  c_connectionStateListener :: bool
  c_receivingMessage :: "message option"
  c_sendQueue :: "message list"
  c_transport :: "bool option"           \<comment> \<open>whether the transport, if any, is open\<close>
  c_downstream :: downstream
  c_helloReceiver :: "nat option"        \<comment> \<open>its pending reply\<close>
  c_clientConnectedHandler :: bool
  c_connectAddress :: connect_address
  c_uniqueName :: string
  c_authClient :: "auth_client option"
  c_defaultTimeout :: int
  c_pendingReplies :: "(uint32 \<times> reply_record) list"   \<comment> \<open>in iteration order\<close>
  c_sendSerial :: uint32
  c_secondaryThreadLinks :: "nat list"
  c_unredeemedCommRefs :: "nat list"
  c_mainThreadConnection :: "nat option"
  c_connectionToNotify :: bool           \<comment> \<open>of the event dispatcher\<close>
  c_replies :: "nat \<Rightarrow> pending_reply option"
  c_nextReply :: nat
  c_outbox :: "(nat \<times> event) list"
  c_written :: "byte list list"          \<comment> \<open>what was handed to the transport\<close>
  c_notes :: "notice list"
  c_junk :: "nat \<Rightarrow> byte"
  c_dup :: "int \<Rightarrow> int"
  c_uid :: nat
  c_fds :: nat                           \<comment> \<open>\<^verbatim>\<open>supportedPassingUnixFdsCount\<close> of the transport\<close>
  c_destroyed :: bool
  c_fault :: bool

definition c_undefined :: "connection \<Rightarrow> connection" where
  "c_undefined c = c\<lparr>c_fault := True\<rparr>"

definition queueEvent :: "nat \<Rightarrow> event \<Rightarrow> connection \<Rightarrow> connection" where
  "queueEvent target evt c = c\<lparr>c_outbox := c_outbox c @ [(target, evt)]\<rparr>"

definition queueEvents :: "nat list \<Rightarrow> event \<Rightarrow> connection \<Rightarrow> connection" where
  "queueEvents targets evt c = c\<lparr>c_outbox := c_outbox c @ map (\<lambda>k. (k, evt)) targets\<rparr>"

definition c_note :: "notice \<Rightarrow> connection \<Rightarrow> connection" where
  "c_note n c = c\<lparr>c_notes := c_notes c @ [n]\<rparr>"

definition updateReply :: "nat \<Rightarrow> (pending_reply \<Rightarrow> pending_reply) \<Rightarrow> connection \<Rightarrow> connection" where
  "updateReply p f c =
     (case c_replies c p of
        None \<Rightarrow> c_undefined c
      | Some r \<Rightarrow> c\<lparr>c_replies := (c_replies c)(p := Some (f r))\<rparr>)"

subsection \<open>State changes\<close>

definition notifyStateChange :: "user_state \<Rightarrow> user_state \<Rightarrow> connection \<Rightarrow> connection" where
  "notifyStateChange oldUserState newUserState c =
     (if c_connectionStateListener c then c_note (StateNote oldUserState newUserState) c else c)"

text \<open>A \<^verbatim>\<open>ConnectionStateChanger\<close>: \<open>setNewState\<close> when it is told the new state, \<open>endStateChange\<close> its destructor.\<close>

definition setNewState :: "connection_state \<Rightarrow> connection \<Rightarrow> connection" where
  "setNewState newState c = c\<lparr>c_state := newState\<rparr>"

definition endStateChange :: "connection_state \<Rightarrow> connection \<Rightarrow> connection" where
  "endStateChange oldState c =
     (if userState oldState \<noteq> userState (c_state c)
      then notifyStateChange (userState oldState) (userState (c_state c)) c else c)"

definition changeState :: "connection_state \<Rightarrow> connection \<Rightarrow> connection" where
  "changeState newState c = endStateChange (c_state c) (setNewState newState c)"

subsection \<open>Serials\<close>

function takeNextSerial :: "uint32 \<Rightarrow> uint32 \<times> uint32" where
  "takeNextSerial sendSerial = (if sendSerial = 0 then takeNextSerial 1 else (sendSerial, sendSerial + 1))"
  by pat_completeness auto
termination by (relation "measure (\<lambda>s. if s = 0 then 1 else 0)") simp_all

declare takeNextSerial.simps [simp del]

lemma takeNextSerial_eq:
  "takeNextSerial s = (if s = 0 then (1, 2) else (s, s + 1))"
  by (simp add: takeNextSerial.simps [of s] takeNextSerial.simps [of 1])

subsection \<open>Pending replies\<close>

definition reply_timer_start :: "int \<Rightarrow> timer \<Rightarrow> timer" where
  "reply_timer_start msec t = t\<lparr>t_interval := msec, t_isRunning := True\<rparr>"

definition PendingReplyPrivate :: "int \<Rightarrow> pending_reply" where
  "PendingReplyPrivate timeout =
     \<lparr>p_owner = None, p_link = Attached, p_cookie = 0,
      p_replyTimeout = (if 0 \<le> timeout
        then reply_timer_start timeout (Timer\<lparr>t_isRepeating := False, t_hasListener := True\<rparr>) else Timer),
      p_receiver = NoReceiver, p_error = NoError, p_serial = 0, p_isFinished = False\<rparr>"

definition erasePending :: "uint32 \<Rightarrow> connection \<Rightarrow> connection" where
  "erasePending serial c = c\<lparr>c_pendingReplies := filter (\<lambda>x. fst x \<noteq> serial) (c_pendingReplies c)\<rparr>"

text \<open>\<^verbatim>\<open>emplace\<close> leaves an entry that is there.\<close>

definition emplacePending :: "uint32 \<Rightarrow> reply_record \<Rightarrow> connection \<Rightarrow> connection" where
  "emplacePending serial r c =
     (if map_of (c_pendingReplies c) serial \<noteq> None then c
      else c\<lparr>c_pendingReplies := (serial, r) # c_pendingReplies c\<rparr>)"

definition unregisterPendingReply :: "(nat \<Rightarrow> bool) \<Rightarrow> nat \<Rightarrow> connection \<Rightarrow> connection" where
  "unregisterPendingReply alive p c =
     (case c_replies c p of
        None \<Rightarrow> c_undefined c
      | Some r \<Rightarrow>
          (let c0 = (if c_destroyed c then c_undefined c else c);
               c1 = (case c_mainThreadConnection c0 of
                       None \<Rightarrow> c0
                     | Some k \<Rightarrow> if alive k then queueEvent k (PendingReplyCancelEvent (p_serial r)) c0 else c0)
           in erasePending (p_serial r) c1))"

definition isNull :: "nat option \<Rightarrow> bool" where
  "isNull d = (d = None)"

definition isFinished :: "nat option \<Rightarrow> connection \<Rightarrow> bool option" where
  "isFinished d c = (case d of None \<Rightarrow> Some True | Some p \<Rightarrow> map_option p_isFinished (c_replies c p))"

definition hasNonErrorReply :: "nat option \<Rightarrow> connection \<Rightarrow> bool option" where
  "hasNonErrorReply d c =
     (case d of None \<Rightarrow> Some False
      | Some p \<Rightarrow> map_option (\<lambda>r. p_isFinished r \<and> \<not> isError (p_error r)) (c_replies c p))"

definition reply_error :: "nat option \<Rightarrow> connection \<Rightarrow> error_code option" where
  "reply_error d c =
     (case d of None \<Rightarrow> Some DetachedPendingReply | Some p \<Rightarrow> map_option p_error (c_replies c p))"

definition reply_isError :: "nat option \<Rightarrow> connection \<Rightarrow> bool option" where
  "reply_isError d c =
     (case d of None \<Rightarrow> Some False | Some p \<Rightarrow> map_option (\<lambda>r. isError (p_error r)) (c_replies c p))"

definition setCookie :: "nat option \<Rightarrow> nat \<Rightarrow> connection \<Rightarrow> connection" where
  "setCookie d cookie c =
     (case d of None \<Rightarrow> c_undefined c | Some p \<Rightarrow> updateReply p (\<lambda>r. r\<lparr>p_cookie := cookie\<rparr>) c)"

definition setReceiver :: "nat option \<Rightarrow> receiver \<Rightarrow> connection \<Rightarrow> connection" where
  "setReceiver d rcv c =
     (case d of None \<Rightarrow> c | Some p \<Rightarrow> updateReply p (\<lambda>r. r\<lparr>p_receiver := rcv\<rparr>) c)"

text \<open>A \<^verbatim>\<open>PendingReply\<close> object at the address \<open>owner\<close> takes over the private object \<open>d\<close>.\<close>

definition reply_owned :: "nat \<Rightarrow> nat option \<Rightarrow> connection \<Rightarrow> connection" where
  "reply_owned owner d c =
     (case d of None \<Rightarrow> c | Some p \<Rightarrow> updateReply p (\<lambda>r. r\<lparr>p_owner := Some owner\<rparr>) c)"

definition deleteReply :: "nat \<Rightarrow> connection \<Rightarrow> connection" where
  "deleteReply p c =
     (if c_replies c p = None then c_undefined c else c\<lparr>c_replies := (c_replies c)(p := None)\<rparr>)"

definition reply_destroy :: "(nat \<Rightarrow> bool) \<Rightarrow> nat option \<Rightarrow> connection \<Rightarrow> connection" where
  "reply_destroy alive d c =
     (case d of
        None \<Rightarrow> c
      | Some p \<Rightarrow>
          (case c_replies c p of
             None \<Rightarrow> c_undefined c
           | Some r \<Rightarrow>
               deleteReply p
                 (if \<not> p_isFinished r
                  then (if isAttached (p_link r) then unregisterPendingReply alive p c else c_undefined c)
                  else (case p_link r of
                          NoReply \<Rightarrow> c
                        | HeapReply m \<Rightarrow> c
                        | _ \<Rightarrow> c_undefined c))))"

text \<open>\<^verbatim>\<open>operator=(PendingReply \&\&)\<close> for the object at \<open>owner\<close>, with the private objects of both sides.\<close>

definition reply_move_assign :: "nat \<Rightarrow> nat option \<Rightarrow> nat option \<Rightarrow> connection \<Rightarrow> connection" where
  "reply_move_assign owner d other c =
     reply_owned owner other (case d of None \<Rightarrow> c | Some p \<Rightarrow> deleteReply p c)"

definition takeReply :: "nat option \<Rightarrow> connection \<Rightarrow> message_handle option \<times> connection" where
  "takeReply d c =
     (case d of
        None \<Rightarrow> (None, c_undefined c)
      | Some p \<Rightarrow>
          (case c_replies c p of
             None \<Rightarrow> (None, c_undefined c)
           | Some r \<Rightarrow>
               if \<not> p_isFinished r then (Some (Some (Message (c_junk c))), c)
               else (case p_link r of
                       HeapReply m \<Rightarrow> (Some m, updateReply p (\<lambda>r. r\<lparr>p_link := NoReply\<rparr>) c)
                     | _ \<Rightarrow> (None, c_undefined c))))"

subsection \<open>Closing\<close>

text \<open>
  Finishing a reply may run the \<^verbatim>\<open>HelloReceiver\<close>, which may close the connection.  \<open>closeF\<close> is the
  \<^verbatim>\<open>close\<close> that is called in that case.
\<close>

definition deleteHelloReceiver :: "(nat \<Rightarrow> bool) \<Rightarrow> connection \<Rightarrow> connection" where
  "deleteHelloReceiver alive c = (reply_destroy alive (c_helloReceiver c) c)\<lparr>c_helloReceiver := None\<rparr>"

definition handleHelloReply ::
  "(error_code \<Rightarrow> connection \<Rightarrow> connection) \<Rightarrow> (nat \<Rightarrow> bool) \<Rightarrow> connection \<Rightarrow> connection" where
  "handleHelloReply closeF alive c =
     (case c_helloReceiver c of
        None \<Rightarrow> c_undefined c
      | Some p \<Rightarrow>
          if hasNonErrorReply (Some p) c \<noteq> Some True
          then closeF RemoteDisconnect (deleteHelloReceiver alive c)
          else
            (case takeReply (Some p) c of
               (Some (Some msg), c1) \<Rightarrow>
                 (let c2 = deleteHelloReceiver alive c1;
                      (busName, rd) = reader_readString (Reader (m_mainArguments msg))
                  in if r_state rd \<noteq> Finished then closeF RemoteDisconnect c2
                     else
                       (let c3 = c2\<lparr>c_uniqueName := (case busName of None \<Rightarrow> [] | Some cs \<Rightarrow> cs_chars cs)\<rparr>;
                            c4 = queueEvents (filter alive (c_secondaryThreadLinks c3))
                                   (UniqueNameReceivedEvent (c_uniqueName c3)) c3
                        in changeState Connected c4))
             | (_, c1) \<Rightarrow> c_undefined (deleteHelloReceiver alive c1)))"

definition finishedCallback ::
  "(error_code \<Rightarrow> connection \<Rightarrow> connection) \<Rightarrow> (nat \<Rightarrow> bool) \<Rightarrow> nat \<Rightarrow> connection \<Rightarrow> connection" where
  "finishedCallback closeF alive p c =
     (case map_option p_receiver (c_replies c p) of
        None \<Rightarrow> c_undefined c
      | Some NoReceiver \<Rightarrow> c
      | Some ClientReceiver \<Rightarrow> c_note (FinishedNote p) c
      | Some HelloReceiver \<Rightarrow> handleHelloReply closeF alive c)"

text \<open>
  A reply that is finished again reports again: the union is read as a connection, which is a fault unless it is one,
  and a crash if it is null.
\<close>

definition handleReceived ::
  "(error_code \<Rightarrow> connection \<Rightarrow> connection) \<Rightarrow> (nat \<Rightarrow> bool) \<Rightarrow> nat \<Rightarrow> connection_or_reply \<Rightarrow> connection \<Rightarrow> connection" where
  "handleReceived closeF alive p reply c =
     (case c_replies c p of
        None \<Rightarrow> c_undefined c
      | Some r \<Rightarrow>
          if isNoReply (p_link r) then c_undefined c
          else finishedCallback closeF alive p
                 (updateReply p (\<lambda>r. r\<lparr>p_isFinished := True, p_link := reply,
                    p_replyTimeout := (p_replyTimeout r)\<lparr>t_isRunning := False\<rparr>\<rparr>)
                    (if isAttached (p_link r) then c else c_undefined c)))"

definition handleError ::
  "(error_code \<Rightarrow> connection \<Rightarrow> connection) \<Rightarrow> (nat \<Rightarrow> bool) \<Rightarrow> nat \<Rightarrow> error_code \<Rightarrow> connection \<Rightarrow> connection" where
  "handleError closeF alive p error c =
     (case c_replies c p of
        None \<Rightarrow> c_undefined c
      | Some r \<Rightarrow>
          if isNoReply (p_link r) then c_undefined c
          else finishedCallback closeF alive p
                 (updateReply p (\<lambda>r. r\<lparr>p_error := (if isError (p_error r) then p_error r else error),
                    p_isFinished := True, p_link := NoReply\<rparr>)
                    (if isAttached (p_link r) \<and> \<not> c_destroyed c then c else c_undefined c)))"

fun cancelReplies ::
  "(error_code \<Rightarrow> connection \<Rightarrow> connection) \<Rightarrow> (nat \<Rightarrow> bool) \<Rightarrow> error_code \<Rightarrow> (uint32 \<times> reply_record) list \<Rightarrow>
     connection \<Rightarrow> connection" where
  "cancelReplies closeF alive withError [] c = c"
| "cancelReplies closeF alive withError ((serial, r) # rs) c =
     (let c1 = erasePending serial c
      in cancelReplies closeF alive withError rs
           (case r of ForReply p \<Rightarrow> handleError closeF alive p withError c1 | ForConnection k \<Rightarrow> c1))"

definition cancelAllPendingReplies ::
  "(error_code \<Rightarrow> connection \<Rightarrow> connection) \<Rightarrow> (nat \<Rightarrow> bool) \<Rightarrow> error_code \<Rightarrow> connection \<Rightarrow> connection" where
  "cancelAllPendingReplies closeF alive withError c =
     (cancelReplies closeF alive withError (c_pendingReplies c) c)\<lparr>c_sendQueue := []\<rparr>"

text \<open>
  \<^verbatim>\<open>close\<close> of the transport, which is its own last listener: a server stays where it is.
\<close>

definition closeTransport :: "connection \<Rightarrow> connection" where
  "closeTransport c =
     (case c_transport c of
        None \<Rightarrow> c
      | Some isOpen \<Rightarrow>
          c\<lparr>c_transport := Some False,
            c_downstream := (if isOpen then NoDownstream else c_downstream c)\<rparr>)"

text \<open>Within \<^verbatim>\<open>close\<close>, a further \<^verbatim>\<open>close\<close> finds \<^verbatim>\<open>m_closing\<close> set.\<close>

definition closeAgain :: "error_code \<Rightarrow> connection \<Rightarrow> connection" where
  "closeAgain withError c = (if c_closing c then c else c_undefined c)"

definition conn_close :: "(nat \<Rightarrow> bool) \<Rightarrow> error_code \<Rightarrow> connection \<Rightarrow> connection" where
  "conn_close alive withError c =
     (if c_closing c then c
      else
        (let c1 = c\<lparr>c_closing := True\<rparr>;
             c2 = (case c_mainThreadConnection c1 of
                     None \<Rightarrow> c1
                   | Some k \<Rightarrow> if alive k then queueEvent k (SecondaryConnectionDisconnectEvent (c_id c1)) c1 else c1);
             c3 = (queueEvents (filter alive (c_secondaryThreadLinks c2)) (MainConnectionDisconnectEvent withError) c2)
                    \<lparr>c_secondaryThreadLinks := []\<rparr>;
             c4 = cancelAllPendingReplies closeAgain alive withError c3;
             c5 = closeTransport (c4\<lparr>c_connectionToNotify := False\<rparr>)
         in changeState Unconnected c5))"

definition handleHelloFailed :: "(nat \<Rightarrow> bool) \<Rightarrow> connection \<Rightarrow> connection" where
  "handleHelloFailed alive c = conn_close alive RemoteDisconnect c"

text \<open>The timer of a reply fires; in \<^verbatim>\<open>handleCompletion\<close> the union is read as a connection.\<close>

definition handleTimeout :: "(nat \<Rightarrow> bool) \<Rightarrow> nat \<Rightarrow> connection \<Rightarrow> connection" where
  "handleTimeout alive p c =
     (case c_replies c p of
        None \<Rightarrow> c_undefined c
      | Some r \<Rightarrow>
          handleError (conn_close alive) alive p Timeout
            (case p_link r of
               Attached \<Rightarrow> unregisterPendingReply alive p c
             | NoReply \<Rightarrow> c
             | _ \<Rightarrow> c_undefined c))"

definition replyTimerFires :: "(nat \<Rightarrow> bool) \<Rightarrow> nat \<Rightarrow> connection \<Rightarrow> connection" where
  "replyTimerFires alive p c =
     (case c_replies c p of
        None \<Rightarrow> c
      | Some r \<Rightarrow>
          if \<not> t_isRunning (p_replyTimeout r) then c
          else
            (let c1 = updateReply p (\<lambda>r. r\<lparr>p_replyTimeout :=
                        (p_replyTimeout r)\<lparr>t_isRunning := t_isRepeating (p_replyTimeout r)\<rparr>\<rparr>) c
             in if t_hasListener (p_replyTimeout r) then handleTimeout alive p c1 else c1))"

end
