(* ===== verification/Connection_Ops.thy ===== *)
theory Connection_Ops
  imports Connection_Model
begin

text \<open>
  The operations of \<^verbatim>\<open>Connection\<close> and \<^verbatim>\<open>ConnectionPrivate\<close> on the state of \<open>Connection_Model\<close>: sending,
  receiving and dispatch, events from other connections, construction and destruction, and I/O.
  \<open>mainSerial\<close> is what \<^verbatim>\<open>takeNextSerial\<close> of the main connection returns, in a secondary one.
\<close>

subsection \<open>Sending\<close>

definition takeSerial :: "connection \<Rightarrow> uint32 \<times> connection" where
  "takeSerial c = (case takeNextSerial (c_sendSerial c) of (s, s') \<Rightarrow> (s, c\<lparr>c_sendSerial := s'\<rparr>))"

definition prepareSend ::
  "(nat \<Rightarrow> bool) \<Rightarrow> uint32 \<Rightarrow> message \<Rightarrow> connection \<Rightarrow> error_code \<times> message \<times> connection" where
  "prepareSend alive mainSerial msg c =
     (let prepared =
        (if m_serial msg \<noteq> 0 then Some (msg, c)
         else case c_mainThreadConnection c of
                None \<Rightarrow> (case takeSerial c of (s, c1) \<Rightarrow> Some (setSerial s msg, c1))
              | Some k \<Rightarrow> if alive k then Some (setSerial mainSerial msg, c) else None)
      in case prepared of
           None \<Rightarrow> (LocalDisconnect, msg, c)
         | Some (msg1, c1) \<Rightarrow>
             (case serialize msg1 of (ok, msg2) \<Rightarrow> (if ok then NoError else m_error msg2, msg2, c1)))"

text \<open>\<^verbatim>\<open>MessagePrivate::send\<close> for the message at position \<open>i\<close> of the queue.\<close>

definition startSending :: "nat \<Rightarrow> connection \<Rightarrow> connection" where
  "startSending i c =
     (if i < length (c_sendQueue c) \<and> c_transport c \<noteq> None
      then c\<lparr>c_sendQueue := (c_sendQueue c)[i := send (c_sendQueue c ! i)]\<rparr> else c_undefined c)"

definition sendPreparedMessage :: "message \<Rightarrow> connection \<Rightarrow> connection" where
  "sendPreparedMessage msg c =
     (let c1 = c\<lparr>c_sendQueue := c_sendQueue c @ [msg]\<rparr>
      in if c_state c1 = Connected \<and> length (c_sendQueue c1) = 1 then startSending 0 c1 else c1)"

definition DefaultTimeout :: int where "DefaultTimeout = - 1"
definition NoTimeout :: int where "NoTimeout = - 2"

text \<open>The result is the new \<^verbatim>\<open>PendingReplyPrivate\<close>, for a \<^verbatim>\<open>PendingReply\<close> at the address \<open>owner\<close>.\<close>

definition conn_send ::
  "(nat \<Rightarrow> bool) \<Rightarrow> uint32 \<Rightarrow> nat \<Rightarrow> message \<Rightarrow> int \<Rightarrow> connection \<Rightarrow> nat \<times> connection" where
  "conn_send alive mainSerial owner m timeoutMsecs c0 =
     (let timeout = (if timeoutMsecs = DefaultTimeout then c_defaultTimeout c0 else timeoutMsecs);
          (error, m1, c) = prepareSend alive mainSerial m c0;
          p = c_nextReply c;
          r = (PendingReplyPrivate timeout)\<lparr>p_serial := m_serial m1\<rparr>;
          c1 = c\<lparr>c_replies := (c_replies c)(p := Some r), c_nextReply := p + 1\<rparr>;
          c2 = emplacePending (m_serial m1) (ForReply p) c1;
          c3 = (if isError error \<or> c_state c2 = Unconnected
                then updateReply p (\<lambda>r. r\<lparr>p_error := (if isError error then error else LocalDisconnect),
                                         p_replyTimeout := reply_timer_start 0 (p_replyTimeout r)\<rparr>) c2
                else case c_mainThreadConnection c2 of
                       None \<Rightarrow> sendPreparedMessage m1 c2
                     | Some k \<Rightarrow>
                         if alive k then queueEvent k (SendMessageWithPendingReplyEvent m1 (c_id c2)) c2
                         else updateReply p (\<lambda>r. r\<lparr>p_error := LocalDisconnect\<rparr>) c2)
      in (p, reply_owned owner (Some p) c3))"

definition sendNoReply ::
  "(nat \<Rightarrow> bool) \<Rightarrow> uint32 \<Rightarrow> message \<Rightarrow> connection \<Rightarrow> error_code \<times> connection" where
  "sendNoReply alive mainSerial m c0 =
     (let (error, m1, c) = prepareSend alive mainSerial m c0
      in if isError error \<or> c_state c = Unconnected
         then (if isError error then error else LocalDisconnect, c)
         else case c_mainThreadConnection c of
                None \<Rightarrow> (NoError, sendPreparedMessage m1 c)
              | Some k \<Rightarrow> if alive k then (NoError, queueEvent k (SendMessageEvent m1) c)
                          else (LocalDisconnect, c))"

definition sendQueueLength :: "connection \<Rightarrow> nat" where
  "sendQueueLength c = length (c_sendQueue c)"

subsection \<open>Receiving\<close>

definition receiveNextMessage :: "connection \<Rightarrow> connection" where
  "receiveNextMessage c =
     (if c_transport c = None then c_undefined c
      else c\<lparr>c_receivingMessage := Some (receive (Message (c_junk c)))\<rparr>)"

definition discardPendingRepliesForSecondaryThread :: "nat \<Rightarrow> connection \<Rightarrow> connection" where
  "discardPendingRepliesForSecondaryThread k c =
     c\<lparr>c_pendingReplies := filter (\<lambda>x. snd x \<noteq> ForConnection k) (c_pendingReplies c)\<rparr>"

text \<open>
  \<open>link\<close> is how the \<^verbatim>\<open>Message *\<close> argument points to the message: an object on the heap, or a member of an
  event, which must not be deleted.  The flag is the result; after \<^verbatim>\<open>true\<close> the message is no longer the caller's.
\<close>

definition maybeDispatchToPendingReply ::
  "(nat \<Rightarrow> bool) \<Rightarrow> message \<Rightarrow> connection_or_reply \<Rightarrow> connection \<Rightarrow> bool \<times> connection" where
  "maybeDispatchToPendingReply alive msg link c =
     (if m_messageType msg \<noteq> MethodReturnMessage \<and> m_messageType msg \<noteq> ErrorMessage then (False, c)
      else
        (case map_of (c_pendingReplies c) (replySerial msg) of
           None \<Rightarrow> (False, c)
         | Some (ForReply p) \<Rightarrow>
             (True, handleReceived (conn_close alive) alive p link (erasePending (replySerial msg) c))
         | Some (ForConnection k) \<Rightarrow>
             (let c1 = erasePending (replySerial msg) c;
                  c2 = (case link of EventReply h \<Rightarrow> c_undefined c1 | _ \<Rightarrow> c1)
              in (True, queueEvent k (PendingReplySuccessEvent msg) c2))))"

definition maybeDispatchErrorToPendingReply ::
  "(nat \<Rightarrow> bool) \<Rightarrow> uint32 \<Rightarrow> error_code \<Rightarrow> connection \<Rightarrow> bool \<times> connection" where
  "maybeDispatchErrorToPendingReply alive serial error c =
     (case map_of (c_pendingReplies c) serial of
        None \<Rightarrow> (False, c)
      | Some (ForReply p) \<Rightarrow>
          (True, handleError (conn_close alive) alive p error (erasePending serial c))
      | Some (ForConnection k) \<Rightarrow>
          (True, queueEvent k (PendingReplyFailureEvent serial error) (erasePending serial c)))"

text \<open>
  The loop over the secondary connections.  The received message is a handle: the last event takes the
  message away, the others copy it.  Connections that are gone are dropped.
\<close>

fun tellSecondaries :: "(nat \<Rightarrow> bool) \<Rightarrow> nat list \<Rightarrow> message_handle \<Rightarrow> connection \<Rightarrow> connection" where
  "tellSecondaries alive [] h c = c"
| "tellSecondaries alive (k # ks) h c =
     (case (if ks \<noteq> [] then map_option (\<lambda>copy. (copy, h)) (message_copy_assign (c_dup c) (c_junk c) None h)
            else Some (message_move_assign None h)) of
        None \<Rightarrow> c_undefined c
      | Some (evt, h1) \<Rightarrow>
          if alive k then tellSecondaries alive ks h1 (queueEvent k (SpontaneousMessageReceivedEvent evt) c)
          else tellSecondaries alive ks h1
                 (discardPendingRepliesForSecondaryThread k
                    (c\<lparr>c_secondaryThreadLinks := remove1 k (c_secondaryThreadLinks c)\<rparr>)))"

definition dispatchSpontaneous :: "(nat \<Rightarrow> bool) \<Rightarrow> message \<Rightarrow> connection \<Rightarrow> connection" where
  "dispatchSpontaneous alive msg c =
     (let (h, c1) = (if c_client c then (None, c_note (SpontaneousNote msg) c) else (Some msg, c))
      in tellSecondaries alive (c_secondaryThreadLinks c1) h c1)"

subsection \<open>Completion of I/O\<close>

text \<open>The argument of \<^verbatim>\<open>handleCompletion\<close>: the authentication, a message of the queue, or the receiving one.\<close>

datatype task = AuthTask | SendTask nat | ReceiveTask

definition hello_message :: "(nat \<Rightarrow> byte) \<Rightarrow> message" where
  "hello_message junk =
     setDestination ''org.freedesktop.DBus'' (setExpectsReply False (setSerial 1
       (createCall junk ''/org/freedesktop/DBus'' ''org.freedesktop.DBus'' ''Hello'')))"

definition helloOwner :: nat where "helloOwner = 0"

text \<open>\<^verbatim>\<open>helloPriv\<close> is valid as long as \<^verbatim>\<open>send\<close> has put the message into the queue.\<close>

definition sayHello :: "(nat \<Rightarrow> bool) \<Rightarrow> connection \<Rightarrow> connection" where
  "sayHello alive c =
     (let (p, c1) = conn_send alive 0 helloOwner (hello_message (c_junk c)) DefaultTimeout c;
          c2 = c1\<lparr>c_helloReceiver := Some p\<rparr>;
          c3 = (if length (c_sendQueue c2) = length (c_sendQueue c) + 1
                then startSending (length (c_sendQueue c)) c2 else c_undefined c2);
          c4 = (if 1 < length (c_sendQueue c3)
                then c3\<lparr>c_sendQueue := last (c_sendQueue c3) # butlast (c_sendQueue c3)\<rparr> else c3)
      in receiveNextMessage (setReceiver (Some p) HelloReceiver c4))"

definition handleAuthCompletion :: "(nat \<Rightarrow> bool) \<Rightarrow> connection \<Rightarrow> connection" where
  "handleAuthCompletion alive c =
     (case c_authClient c of
        None \<Rightarrow> c_undefined c
      | Some a \<Rightarrow>
          (let c1 = (if \<not> auth_isAuthenticated a then conn_close alive AuthenticationFailed c else c);
               c2 = c1\<lparr>c_unixFdPassingEnabled := auth_isUnixFdPassingEnabled a, c_authClient := None\<rparr>
           in if c_state c2 = Unconnected then c2
              else endStateChange (c_state c2) (sayHello alive (setNewState AwaitingUniqueName c2))))"

definition handleSendCompletion :: "(nat \<Rightarrow> bool) \<Rightarrow> connection \<Rightarrow> connection" where
  "handleSendCompletion alive c =
     (let c1 = (if isError (m_error (c_sendQueue c ! 0)) \<and> c_state c = AwaitingUniqueName
                then handleHelloFailed alive c else c)
      in if c_sendQueue c1 = [] then c_undefined c1
         else
           (let c2 = c1\<lparr>c_sendQueue := tl (c_sendQueue c1)\<rparr>
            in if c_sendQueue c2 \<noteq> [] then startSending 0 c2 else c2))"

definition handleReceiveCompletion :: "(nat \<Rightarrow> bool) \<Rightarrow> connection \<Rightarrow> connection" where
  "handleReceiveCompletion alive c =
     (case c_receivingMessage c of
        None \<Rightarrow> c_undefined c
      | Some msg \<Rightarrow>
          (let c1 = receiveNextMessage c in
           if m_messageType msg = InvalidMessage
           then (if c_state c1 = AwaitingUniqueName then handleHelloFailed alive c1 else c1)
           else
             (case maybeDispatchToPendingReply alive msg (HeapReply (Some msg)) c1 of
                (True, c2) \<Rightarrow> c2
              | (False, c2) \<Rightarrow> dispatchSpontaneous alive msg c2)))"

definition conn_handleCompletion :: "(nat \<Rightarrow> bool) \<Rightarrow> task \<Rightarrow> connection \<Rightarrow> connection" where
  "conn_handleCompletion alive task c =
     (case c_state c of
        Authenticating \<Rightarrow> (if task = AuthTask then handleAuthCompletion alive c else c_undefined c)
      | Unconnected \<Rightarrow> c
      | ServerWaitingForClient \<Rightarrow> c
      | _ \<Rightarrow>
          if c_sendQueue c \<noteq> [] \<and> task = SendTask 0 then handleSendCompletion alive c
          else if task = ReceiveTask then handleReceiveCompletion alive c
          else c_undefined c)"

end
