(* ===== verification/Connection_Life.thy ===== *)
theory Connection_Life
  imports Connection_Ops
begin

text \<open>
  Events from other connections, construction and destruction of connections, and I/O on the transport.
\<close>

subsection \<open>Events\<close>

text \<open>
  An event is destroyed after it was processed: \<open>EventReply\<close> is the address of a member of such an event.
  \<open>ids\<close> of communication references are numbers.
\<close>

definition processEvent :: "(nat \<Rightarrow> bool) \<Rightarrow> event \<Rightarrow> connection \<Rightarrow> connection" where
  "processEvent alive evt c =
     (case evt of
        SendMessageEvent msg \<Rightarrow> sendPreparedMessage msg c
      | SendMessageWithPendingReplyEvent msg k \<Rightarrow>
          sendPreparedMessage msg (emplacePending (m_serial msg) (ForConnection k) c)
      | SpontaneousMessageReceivedEvent h \<Rightarrow>
          (if c_client c
           then (case message_move_construct h of
                   Some (Some msg, _) \<Rightarrow> c_note (SpontaneousNote msg) c
                 | _ \<Rightarrow> c_undefined c)
           else c)
      | PendingReplySuccessEvent msg \<Rightarrow>
          snd (maybeDispatchToPendingReply alive msg (EventReply (Some msg)) c)
      | PendingReplyFailureEvent serial error \<Rightarrow>
          (case map_of (c_pendingReplies c) serial of
             None \<Rightarrow> c
           | Some (ForReply p) \<Rightarrow> handleError (conn_close alive) alive p error (erasePending serial c)
           | Some (ForConnection k) \<Rightarrow> c_undefined (erasePending serial c))
      | PendingReplyCancelEvent serial \<Rightarrow> erasePending serial c
      | SecondaryConnectionConnectEvent k commRef \<Rightarrow>
          (if commRef \<notin> set (c_unredeemedCommRefs c) then c_undefined c
           else
             (let c1 = c\<lparr>c_secondaryThreadLinks := (if k \<in> set (c_secondaryThreadLinks c)
                            then c_secondaryThreadLinks c else k # c_secondaryThreadLinks c),
                         c_unredeemedCommRefs := remove1 commRef (c_unredeemedCommRefs c)\<rparr>
              in if alive k then queueEvent k (UniqueNameReceivedEvent (c_uniqueName c1)) c1 else c1))
      | SecondaryConnectionDisconnectEvent k \<Rightarrow>
          (if k \<notin> set (c_secondaryThreadLinks c) then c
           else discardPendingRepliesForSecondaryThread k
                  (c\<lparr>c_secondaryThreadLinks := remove1 k (c_secondaryThreadLinks c)\<rparr>))
      | MainConnectionDisconnectEvent error \<Rightarrow>
          cancelAllPendingReplies (conn_close alive) alive error (c\<lparr>c_mainThreadConnection := None\<rparr>)
      | UniqueNameReceivedEvent name \<Rightarrow>
          (let c1 = c\<lparr>c_uniqueName := name\<rparr>
           in if c_state c1 = AwaitingUniqueName then changeState Connected c1 else c1))"

text \<open>
  \<^verbatim>\<open>processAuxEvents\<close> of the event dispatcher.  Only the first test of \<^verbatim>\<open>m_connectionToNotify\<close> is there: when an
  event makes the connection close, the next one is delivered to a null pointer.
\<close>

definition processAuxEvent :: "(nat \<Rightarrow> bool) \<Rightarrow> event \<Rightarrow> connection \<Rightarrow> connection" where
  "processAuxEvent alive evt c = (if c_connectionToNotify c then processEvent alive evt c else c_undefined c)"

definition processAuxEvents :: "(nat \<Rightarrow> bool) \<Rightarrow> event list \<Rightarrow> connection \<Rightarrow> connection" where
  "processAuxEvents alive events c =
     (if c_connectionToNotify c then fold (processAuxEvent alive) events c else c)"

subsection \<open>Construction and destruction\<close>

text \<open>
  \<open>opened\<close> is the transport that the factory returns, if any, and whether it is open; \<open>listening\<close> is whether a
  server could be created.  The parameters of the environment are the last four.
\<close>

definition ConnectionPrivate ::
  "nat \<Rightarrow> (nat \<Rightarrow> byte) \<Rightarrow> (int \<Rightarrow> int) \<Rightarrow> nat \<Rightarrow> nat \<Rightarrow> connection" where
  "ConnectionPrivate k junk dup uid fds =
     \<lparr>c_id = k, c_state = Unconnected, c_closing = False, c_unixFdPassingEnabled = False, c_client = False,
      c_connectionStateListener = False, c_receivingMessage = None, c_sendQueue = [], c_transport = None,
      c_downstream = NoDownstream, c_helloReceiver = None, c_clientConnectedHandler = False, c_connectAddress = ConnectAddress,
      c_uniqueName = [], c_authClient = None, c_defaultTimeout = 25000, c_pendingReplies = [],
      c_sendSerial = 1, c_secondaryThreadLinks = [], c_unredeemedCommRefs = [], c_mainThreadConnection = None,
      c_connectionToNotify = False, c_replies = Map.empty, c_nextReply = 0, c_outbox = [], c_written = [],
      c_notes = [], c_junk = junk, c_dup = dup, c_uid = uid, c_fds = fds, c_destroyed = False, c_fault = False\<rparr>"

definition startAuthentication :: "connection \<Rightarrow> connection" where
  "startAuthentication c =
     (snd (takeSerial c))\<lparr>c_authClient := Some (auth_setCompletionListener True (AuthClient (c_uid c)))\<rparr>"

definition conn_open ::
  "connect_address \<Rightarrow> bool \<Rightarrow> bool option \<Rightarrow> connection \<Rightarrow> connection" where
  "conn_open ca listening opened c0 =
     (let c = c0\<lparr>c_connectAddress := ca, c_connectionToNotify := True\<rparr> in
      if ca_addrType ca = NoneType \<or> ca_role ca = NoneRole then c
      else if ca_role ca = PeerServer then
        (let c1 = c\<lparr>c_clientConnectedHandler := True\<rparr>
         in if listening then changeState ServerWaitingForClient (c1\<lparr>c_downstream := ServerDownstream\<rparr>) else c1)
      else if opened = Some True then
        (let c1 = c\<lparr>c_transport := opened, c_downstream := TransportDownstream\<rparr>
         in if ca_role ca = BusClient then changeState Authenticating (startAuthentication c1)
            else changeState Connected (receiveNextMessage c1))
      else c)"

text \<open>With the communication reference \<open>commRef\<close> to the main connection \<open>k\<close>, whose address is \<open>mainAddress\<close>.\<close>

definition conn_open_secondary ::
  "(nat \<Rightarrow> bool) \<Rightarrow> nat \<Rightarrow> nat \<Rightarrow> connect_address \<Rightarrow> connection \<Rightarrow> connection" where
  "conn_open_secondary alive k commRef mainAddress c0 =
     (let c = c0\<lparr>c_connectionToNotify := True\<rparr> in
      if \<not> alive k then c
      else changeState AwaitingUniqueName
             (queueEvent k (SecondaryConnectionConnectEvent (c_id c) commRef)
                (c\<lparr>c_mainThreadConnection := Some k, c_connectAddress := mainAddress\<rparr>)))"

text \<open>For a client that a server has accepted.\<close>

definition conn_open_accepted :: "bool \<Rightarrow> connect_address \<Rightarrow> connection \<Rightarrow> connection" where
  "conn_open_accepted isOpen address c =
     changeState Connected (receiveNextMessage
       (c\<lparr>c_transport := Some isOpen, c_downstream := TransportDownstream, c_connectAddress := address, c_connectionToNotify := True\<rparr>))"

definition handleClientConnected :: "bool option \<Rightarrow> connection \<Rightarrow> connection" where
  "handleClientConnected client c =
     (if \<not> c_clientConnectedHandler c then c_undefined c
      else changeState Connected
             (receiveNextMessage (c\<lparr>c_transport := client, c_downstream := TransportDownstream,
                                   c_clientConnectedHandler := False\<rparr>)))"

text \<open>
  The destructor.  A transport that is still open closes itself; the \<^verbatim>\<open>ClientConnectedHandler\<close> and its server are
  not deleted.
\<close>

definition conn_destroy :: "(nat \<Rightarrow> bool) \<Rightarrow> connection \<Rightarrow> connection" where
  "conn_destroy alive c =
     (deleteHelloReceiver alive
        ((closeTransport (conn_close alive LocalDisconnect c))\<lparr>c_transport := None, c_authClient := None\<rparr>))
       \<lparr>c_receivingMessage := None, c_destroyed := True\<rparr>"

definition createCommRef :: "nat \<Rightarrow> connection \<Rightarrow> connection" where
  "createCommRef commRef c = c\<lparr>c_unredeemedCommRefs := c_unredeemedCommRefs c @ [commRef]\<rparr>"

definition connection_user_state :: "connection \<Rightarrow> user_state" where
  "connection_user_state c = userState (c_state c)"

definition isConnected :: "connection \<Rightarrow> bool" where
  "isConnected c = (c_transport c = Some True)"

definition setDefaultReplyTimeout :: "int \<Rightarrow> connection \<Rightarrow> connection" where
  "setDefaultReplyTimeout msecs c = c\<lparr>c_defaultTimeout := msecs\<rparr>"

definition setSpontaneousMessageReceiver :: "bool \<Rightarrow> connection \<Rightarrow> connection" where
  "setSpontaneousMessageReceiver receiver c = c\<lparr>c_client := receiver\<rparr>"

definition setConnectionStateListener :: "bool \<Rightarrow> connection \<Rightarrow> connection" where
  "setConnectionStateListener listener c = c\<lparr>c_connectionStateListener := listener\<rparr>"

definition supportedFileDescriptorsPerMessage :: "connection \<Rightarrow> nat" where
  "supportedFileDescriptorsPerMessage c =
     (if c_transport c \<noteq> None \<and> c_unixFdPassingEnabled c then c_fds c else 0)"

subsection \<open>I/O\<close>

text \<open>
  What the operating system makes of one call of \<^verbatim>\<open>handleIoReady\<close>: the answers to the calls of the transport,
  and whether it is open afterwards, or a client that a server in waiting accepts.
\<close>

datatype io_input =
    AuthInput "char option list" bool
  | ReadInput "read_answer list" bool
  | WriteInput "write_answer list"
  | ClientInput "bool option"

text \<open>
  \<^verbatim>\<open>handleIoReady\<close> of the transport, or of the server.  The read listener of the transport is the authentication
  client while there is one, then the receiving message; the write listener is the first message of the queue.
  \<open>None\<close>: an input that does not fit the state, or too few answers.
\<close>

definition notified :: "message \<Rightarrow> message \<Rightarrow> bool" where
  "notified m m' = (m_notifications m < m_notifications m')"

definition downstream_read ::
  "(nat \<Rightarrow> bool) \<Rightarrow> read_answer list \<Rightarrow> connection \<Rightarrow> (io_status \<times> connection) option" where
  "downstream_read alive answers c =
     (case c_receivingMessage c of
        None \<Rightarrow> None
      | Some m \<Rightarrow>
          if \<not> m_readListening m then None
          else map_option (\<lambda>(m', st).
                 (st, (if notified m m' then conn_handleCompletion alive ReceiveTask else id)
                        (c\<lparr>c_receivingMessage := Some m'\<rparr>)))
               (handleTransportCanRead answers m))"

definition downstream_write ::
  "(nat \<Rightarrow> bool) \<Rightarrow> write_answer list \<Rightarrow> connection \<Rightarrow> (io_status \<times> connection) option" where
  "downstream_write alive answers c =
     (case c_sendQueue c of
        [] \<Rightarrow> None
      | m # rest \<Rightarrow>
          if \<not> m_writeListening m then None
          else map_option (\<lambda>(m', st, bytes).
                 (st, (if notified m m' then conn_handleCompletion alive (SendTask 0) else id)
                        (c\<lparr>c_sendQueue := m' # rest, c_written := c_written c @ bytes\<rparr>)))
               (handleTransportCanWrite (c_fds c) answers m))"

definition downstream_auth ::
  "(nat \<Rightarrow> bool) \<Rightarrow> char option list \<Rightarrow> bool \<Rightarrow> connection \<Rightarrow> (io_status \<times> connection) option" where
  "downstream_auth alive answers isOpen c =
     (case c_authClient c of
        None \<Rightarrow> None
      | Some a \<Rightarrow>
          (case auth_handleTransportCanRead (c_uid c) (c_fds c) isOpen answers a of (ok, a') \<Rightarrow>
             Some (if ok then IO_OK else RemoteClosed,
                   (if ac_completions a < ac_completions a' then conn_handleCompletion alive AuthTask else id)
                     (c\<lparr>c_authClient := Some a'\<rparr>))))"

text \<open>A transport whose peer has gone closes itself.\<close>

definition afterTransport :: "bool \<Rightarrow> connection \<Rightarrow> connection" where
  "afterTransport isOpen c = (if isOpen then c else closeTransport c)"

definition downstream_handleIoReady ::
  "(nat \<Rightarrow> bool) \<Rightarrow> io_input \<Rightarrow> connection \<Rightarrow> (io_status \<times> connection) option" where
  "downstream_handleIoReady alive inp c =
     (case c_downstream c of
        NoDownstream \<Rightarrow> Some (InternalError, c)
      | ServerDownstream \<Rightarrow>
          (case inp of ClientInput client \<Rightarrow> Some (IO_OK, handleClientConnected client c) | _ \<Rightarrow> None)
      | TransportDownstream \<Rightarrow>
          (case inp of
             AuthInput answers isOpen \<Rightarrow> downstream_auth alive answers isOpen (afterTransport isOpen c)
           | ReadInput answers isOpen \<Rightarrow>
               (if c_authClient c = None then downstream_read alive answers (afterTransport isOpen c) else None)
           | WriteInput answers \<Rightarrow> downstream_write alive answers c
           | ClientInput client \<Rightarrow> None))"

definition afterIo :: "(nat \<Rightarrow> bool) \<Rightarrow> io_status \<Rightarrow> connection \<Rightarrow> connection" where
  "afterIo alive status c =
     (if status = IO_OK then c
      else if status \<noteq> PayloadError then conn_close alive RemoteDisconnect c
      else
        (case c_sendQueue c of
           [] \<Rightarrow> c_undefined c
         | msg # rest \<Rightarrow>
             snd (maybeDispatchErrorToPendingReply alive (m_serial msg) (m_error msg)
                    (c\<lparr>c_sendQueue := rest\<rparr>))))"

definition conn_handleIoReady ::
  "(nat \<Rightarrow> bool) \<Rightarrow> io_input \<Rightarrow> connection \<Rightarrow> (io_status \<times> connection) option" where
  "conn_handleIoReady alive inp c =
     (if c_destroyed c then Some (InternalError, c_undefined c)
      else map_option (\<lambda>(status, c1). (status, afterIo alive status c1)) (downstream_handleIoReady alive inp c))"

text \<open>
  \<^verbatim>\<open>waitForConnectionEstablished\<close> calls the listeners itself, with blocking calls of the transport: the inputs are
  what they return, one for each call.  \<open>None\<close>: more inputs are needed.
\<close>

fun waitWhile ::
  "(nat \<Rightarrow> bool) \<Rightarrow> connection_state \<Rightarrow> io_input list \<Rightarrow> connection \<Rightarrow> (io_input list \<times> connection) option" where
  "waitWhile alive st [] c = (if c_state c = st then None else Some ([], c))"
| "waitWhile alive st (inp # inps) c =
     (if c_state c \<noteq> st then Some (inp # inps, c)
      else
        (case (case inp of
                 AuthInput answers isOpen \<Rightarrow> downstream_auth alive answers isOpen c
               | ReadInput answers isOpen \<Rightarrow> downstream_read alive answers c
               | _ \<Rightarrow> None) of
           None \<Rightarrow> None
         | Some (status, c1) \<Rightarrow> waitWhile alive st inps c1))"

definition waitForConnectionEstablished ::
  "(nat \<Rightarrow> bool) \<Rightarrow> io_input list \<Rightarrow> connection \<Rightarrow> connection option" where
  "waitForConnectionEstablished alive inps c =
     (if c_state c \<noteq> Authenticating then Some c
      else
        (case waitWhile alive Authenticating inps c of
           None \<Rightarrow> None
         | Some (inps1, c1) \<Rightarrow>
             if c_state c1 \<noteq> AwaitingUniqueName then Some c1
             else if c_sendQueue c1 = [] then Some (c_undefined c1)
             else
               (case inps1 of
                  WriteInput answers # inps2 \<Rightarrow>
                    (case downstream_write alive answers c1 of
                       None \<Rightarrow> None
                     | Some (status, c2) \<Rightarrow>
                         map_option snd (waitWhile alive AwaitingUniqueName inps2 c2))
                | _ \<Rightarrow> None)))"

end
