(* ===== verification/Connection_Replies.thy ===== *)
theory Connection_Replies
  imports Connection_Life
begin

text \<open>
  The registry of pending replies: what holds between \<^verbatim>\<open>m_pendingReplies\<close> and the \<^verbatim>\<open>PendingReplyPrivate\<close>
  objects, and that every operation keeps it.
\<close>

subsection \<open>The invariant\<close>

fun finished_of :: "notice \<Rightarrow> nat list" where
  "finished_of (FinishedNote p) = [p]"
| "finished_of (StateNote u v) = []"
| "finished_of (SpontaneousNote m) = []"

definition finished_notes :: "connection \<Rightarrow> nat list" where
  "finished_notes c = concat (map finished_of (c_notes c))"

text \<open>Which reply a serial is registered for.\<close>

definition registered :: "connection \<Rightarrow> uint32 \<Rightarrow> nat \<Rightarrow> bool" where
  "registered c s p \<longleftrightarrow> (s, ForReply p) \<in> set (c_pendingReplies c)"

text \<open>
  The union \<^verbatim>\<open>m_connectionOrReply\<close> is a connection exactly until the reply is finished, and while it is a reply,
  the timer is stopped.
\<close>

definition answered :: "pending_reply \<Rightarrow> bool" where
  "answered r \<longleftrightarrow> p_link r \<noteq> Attached \<and> p_link r \<noteq> NoReply"

definition link_typed :: "pending_reply \<Rightarrow> bool" where
  "link_typed r \<longleftrightarrow> (p_link r = Attached \<longleftrightarrow> \<not> p_isFinished r) \<and> (answered r \<longrightarrow> \<not> t_isRunning (p_replyTimeout r))"

definition hello_only :: "connection \<Rightarrow> bool" where
  "hello_only c \<longleftrightarrow>
     (\<forall>p r. c_replies c p = Some r \<longrightarrow> p_receiver r = HelloReceiver \<longrightarrow> p_link r = Attached \<longrightarrow>
        c_helloReceiver c = Some p)"

definition hello_ok :: "connection \<Rightarrow> bool" where
  "hello_ok c \<longleftrightarrow> hello_only c \<and>
     (\<forall>p. c_helloReceiver c = Some p \<longrightarrow>
        (\<exists>r. c_replies c p = Some r \<and> p_receiver r = HelloReceiver \<and> p_link r = Attached)) \<and>
     (c_state c = Authenticating \<longrightarrow> c_helloReceiver c = None)"

definition registry_ok :: "connection \<Rightarrow> bool" where
  "registry_ok c \<longleftrightarrow>
     distinct (map fst (c_pendingReplies c)) \<and>
     (\<forall>s p. registered c s p \<longrightarrow> (\<exists>r. c_replies c p = Some r \<and> p_link r = Attached \<and> p_serial r = s)) \<and>
     (\<forall>p r. c_replies c p = Some r \<longrightarrow> p < c_nextReply c \<and> link_typed r) \<and>
     distinct (finished_notes c) \<and>
     (\<forall>p \<in> set (finished_notes c). p < c_nextReply c \<and>
        (\<forall>r. c_replies c p = Some r \<longrightarrow> p_link r \<noteq> Attached))"

definition reply_inv :: "connection \<Rightarrow> bool" where
  "reply_inv c \<longleftrightarrow> registry_ok c \<and> hello_ok c"

text \<open>The invariant sees only a part of the state.\<close>

definition registry :: "connection \<Rightarrow> (uint32 \<times> reply_record) list \<times> (nat \<Rightarrow> pending_reply option) \<times> nat \<times> nat option \<times> nat list \<times> bool" where
  "registry c = (c_pendingReplies c, c_replies c, c_nextReply c, c_helloReceiver c, finished_notes c,
     c_state c = Authenticating)"

lemma registry_ok_cong: "registry c = registry c' \<Longrightarrow> registry_ok c = registry_ok c'"
  by (simp add: registry_def registry_ok_def registered_def)

lemma hello_ok_cong: "registry c = registry c' \<Longrightarrow> hello_ok c = hello_ok c'"
  by (simp add: registry_def hello_ok_def hello_only_def)

lemma reply_inv_cong: "registry c = registry c' \<Longrightarrow> reply_inv c = reply_inv c'"
  using registry_ok_cong [of c c'] hello_ok_cong [of c c'] by (simp add: reply_inv_def)

named_theorems registry_frame

lemma registry_undefined [registry_frame]: "registry (c_undefined c) = registry c"
  by (simp add: c_undefined_def registry_def finished_notes_def)
lemma registry_queueEvent [registry_frame]: "registry (queueEvent k e c) = registry c"
  by (simp add: queueEvent_def registry_def finished_notes_def)
lemma registry_queueEvents [registry_frame]: "registry (queueEvents ks e c) = registry c"
  by (simp add: queueEvents_def registry_def finished_notes_def)
lemma registry_note [registry_frame]: "finished_of n = [] \<Longrightarrow> registry (c_note n c) = registry c"
  by (simp add: c_note_def registry_def finished_notes_def)
lemma registry_endStateChange [registry_frame]: "registry (endStateChange old c) = registry c"
  by (simp add: endStateChange_def notifyStateChange_def registry_note)
lemma registry_receiveNextMessage [registry_frame]: "registry (receiveNextMessage c) = registry c"
  by (simp add: receiveNextMessage_def c_undefined_def registry_def finished_notes_def)
lemma registry_startSending [registry_frame]: "registry (startSending i c) = registry c"
  by (simp add: startSending_def c_undefined_def registry_def finished_notes_def)
lemma registry_sendPreparedMessage [registry_frame]: "registry (sendPreparedMessage m c) = registry c"
  by (simp add: sendPreparedMessage_def Let_def registry_startSending) (simp add: registry_def finished_notes_def)
lemma registry_takeSerial [registry_frame]: "registry (snd (takeSerial c)) = registry c"
  by (simp add: takeSerial_def registry_def finished_notes_def split: prod.splits)
lemma registry_closeTransport [registry_frame]: "registry (closeTransport c) = registry c"
  by (simp add: closeTransport_def registry_def finished_notes_def split: option.splits)

text \<open>What every operation promises of the registry, apart from the invariant.\<close>

definition serials_kept :: "connection \<Rightarrow> connection \<Rightarrow> bool" where
  "serials_kept c c' \<longleftrightarrow> c_nextReply c' = c_nextReply c \<and>
     (\<forall>p r'. c_replies c' p = Some r' \<longrightarrow>
        (\<exists>r. c_replies c p = Some r \<and> p_serial r' = p_serial r \<and> (answered r' \<longrightarrow> answered r)))"

lemma serials_kept_refl [simp]: "serials_kept c c"
  by (simp add: serials_kept_def)

lemma setNewState_parts:
  "c_pendingReplies (setNewState st c) = c_pendingReplies c" "c_replies (setNewState st c) = c_replies c"
  "c_nextReply (setNewState st c) = c_nextReply c" "c_helloReceiver (setNewState st c) = c_helloReceiver c"
  "finished_notes (setNewState st c) = finished_notes c" "c_state (setNewState st c) = st"
  by (simp_all add: setNewState_def finished_notes_def)

lemma serials_kept_trans: "serials_kept c c1 \<Longrightarrow> serials_kept c1 c2 \<Longrightarrow> serials_kept c c2"
  by (fastforce simp: serials_kept_def)

lemma serials_kept_cong: "registry c1 = registry c2 \<Longrightarrow> serials_kept c c1 = serials_kept c c2"
  by (simp add: serials_kept_def registry_def)

lemma serials_kept_cong_left: "registry c1 = registry c2 \<Longrightarrow> serials_kept c1 c = serials_kept c2 c"
  by (simp add: serials_kept_def registry_def)

subsection \<open>Single steps\<close>

lemma finished_notes_simps [simp]:
  "finished_notes (c\<lparr>c_replies := f\<rparr>) = finished_notes c"
  "finished_notes (c\<lparr>c_pendingReplies := xs\<rparr>) = finished_notes c"
  "finished_notes (c\<lparr>c_helloReceiver := h\<rparr>) = finished_notes c"
  "finished_notes (c\<lparr>c_sendQueue := q\<rparr>) = finished_notes c"
  by (simp_all add: finished_notes_def)

lemma registry_ok_erase:
  assumes "registry_ok c" shows "registry_ok (erasePending s c)"
  using assms by (auto simp: registry_ok_def registered_def erasePending_def distinct_map_filter)

lemma hello_ok_erase [simp]: "hello_ok (erasePending s c) = hello_ok c"
  by (simp add: hello_ok_def hello_only_def erasePending_def)

lemma reply_inv_erase: "reply_inv c \<Longrightarrow> reply_inv (erasePending s c)"
  by (simp add: reply_inv_def registry_ok_erase)

lemma serials_kept_erase [simp]: "serials_kept c (erasePending s c)"
  by (simp add: serials_kept_def erasePending_def)

lemma registered_reply:
  assumes "registry_ok c" and "registered c s p"
  shows "\<exists>r. c_replies c p = Some r \<and> p_link r = Attached \<and> p_serial r = s"
  using assms by (simp add: registry_ok_def)

lemma registered_unique:
  assumes "registry_ok c" and "registered c s p" and "registered c s p'"
  shows "p = p'"
proof -
  have "(s, ForReply p) \<in> set (c_pendingReplies c)" "(s, ForReply p') \<in> set (c_pendingReplies c)"
    "distinct (map fst (c_pendingReplies c))"
    using assms by (simp_all add: registered_def registry_ok_def)
  then have "ForReply p = ForReply p'" by (rule eq_key_imp_eq_value [rotated])
  then show ?thesis by simp
qed

text \<open>A reply that is no longer registered may be finished, or deleted.\<close>

lemma registry_ok_finish:
  assumes ok: "registry_ok c" and r: "c_replies c p = Some r" and att: "p_link r = Attached"
    and unreg: "\<not> registered c (p_serial r) p"
    and f: "link_typed (f r)" "p_link (f r) \<noteq> Attached" "p_serial (f r) = p_serial r"
  shows "registry_ok (updateReply p f c)"
proof -
  have "\<not> registered c s p" for s
    using registered_reply [OF ok] r unreg by fastforce
  with ok r f show ?thesis
    by (auto simp: registry_ok_def registered_def updateReply_def)
qed

lemma registry_ok_delete:
  assumes ok: "registry_ok c" and unreg: "\<And>r. c_replies c p = Some r \<Longrightarrow> \<not> registered c (p_serial r) p"
  shows "registry_ok (deleteReply p c)"
proof (cases "c_replies c p")
  case None
  with ok show ?thesis by (simp add: deleteReply_def registry_ok_cong [OF registry_undefined])
next
  case (Some r)
  have "\<not> registered c s p" for s
    using registered_reply [OF ok] Some unreg [OF Some] by fastforce
  with ok Some show ?thesis
    by (auto simp: registry_ok_def registered_def deleteReply_def)
qed

lemma serials_kept_updateReply:
  "(\<And>r. p_serial (f r) = p_serial r) \<Longrightarrow> (\<And>r. answered (f r) \<Longrightarrow> answered r) \<Longrightarrow> serials_kept c (updateReply p f c)"
  by (auto simp: serials_kept_def updateReply_def c_undefined_def split: option.splits)

lemma serials_kept_deleteReply: "serials_kept c (deleteReply p c)"
  by (auto simp: serials_kept_def deleteReply_def c_undefined_def)

subsection \<open>Destroying replies\<close>

lemma unregister_registry:
  "c_replies c p = Some r \<Longrightarrow>
     registry (unregisterPendingReply alive p c) = registry (erasePending (p_serial r) c)"
  by (simp add: unregisterPendingReply_def Let_def registry_def erasePending_def queueEvent_def c_undefined_def
      finished_notes_def split: option.splits)

lemma not_registered_erased: "\<not> registered (erasePending s c) s p"
  by (simp add: registered_def erasePending_def)

lemma registered_cong: "registry c = registry c' \<Longrightarrow> registered c s p = registered c' s p"
  by (simp add: registry_def registered_def)

lemma finished_not_registered:
  assumes "registry_ok c" and "c_replies c p = Some r" and "p_link r \<noteq> Attached"
  shows "\<not> registered c s p"
  using registered_reply [OF assms(1), of s p] assms(2,3) by auto

lemma registry_ok_unregister:
  assumes "registry_ok c" shows "registry_ok (unregisterPendingReply alive p c)"
proof (cases "c_replies c p")
  case None
  with assms show ?thesis by (simp add: unregisterPendingReply_def registry_ok_cong [OF registry_undefined])
next
  case (Some r)
  with registry_ok_cong [OF unregister_registry [OF Some]] registry_ok_erase [OF assms] show ?thesis by simp
qed

lemma replies_unregister: "c_replies (unregisterPendingReply alive p c) = c_replies c"
  by (simp add: unregisterPendingReply_def Let_def erasePending_def queueEvent_def c_undefined_def split: option.splits)

lemma registry_ok_destroy:
  assumes ok: "registry_ok c"
  shows "registry_ok (reply_destroy alive d c)"
proof (cases "\<exists>p r. d = Some p \<and> c_replies c p = Some r")
  case False
  with ok show ?thesis
    by (auto simp: reply_destroy_def registry_ok_cong [OF registry_undefined] split: option.splits)
next
  case True
  then obtain p r where d: "d = Some p" and r: "c_replies c p = Some r" by blast
  have typed: "p_link r = Attached \<longleftrightarrow> \<not> p_isFinished r"
    using ok r by (simp add: registry_ok_def link_typed_def)
  show ?thesis
  proof (cases "p_isFinished r")
    case True
    then have "\<not> registered c s p" for s using finished_not_registered [OF ok r] typed by simp
    with ok r d True registry_ok_delete [of "c_undefined c" p] registry_ok_delete [of c p] show ?thesis
      by (auto simp: reply_destroy_def registry_ok_cong [OF registry_undefined]
          registered_cong [OF registry_undefined] split: connection_or_reply.splits)
  next
    case False
    let ?c = "unregisterPendingReply alive p c"
    have "\<not> registered ?c (p_serial r) p"
      using registered_cong [OF unregister_registry [OF r]] not_registered_erased by simp
    then have "registry_ok (deleteReply p ?c)"
      using registry_ok_delete [OF registry_ok_unregister [OF ok, where p = p and alive = alive], where p = p] r by (simp add: replies_unregister)
    with False typed d r show ?thesis by (simp add: reply_destroy_def)
  qed
qed

lemma serials_kept_unregister: "serials_kept c (unregisterPendingReply alive p c)"
  by (simp add: serials_kept_def replies_unregister) (simp add: unregisterPendingReply_def Let_def erasePending_def
      queueEvent_def c_undefined_def split: option.splits)

lemma serials_kept_destroy: "serials_kept c (reply_destroy alive d c)"
  using serials_kept_trans [OF serials_kept_unregister serials_kept_deleteReply]
    serials_kept_trans [OF _ serials_kept_deleteReply] serials_kept_cong [OF registry_undefined]
  by (auto simp: reply_destroy_def serials_kept_cong [OF registry_undefined] serials_kept_deleteReply
      split: option.splits connection_or_reply.splits)

lemma replies_destroy: "q \<noteq> p \<Longrightarrow> c_replies (reply_destroy alive (Some p) c) q = c_replies c q"
  by (simp add: reply_destroy_def deleteReply_def replies_unregister c_undefined_def
      split: option.splits connection_or_reply.splits)

lemma replies_destroyed: "c_replies (reply_destroy alive (Some p) c) p = None"
  by (simp add: reply_destroy_def deleteReply_def replies_unregister c_undefined_def
      split: option.splits connection_or_reply.splits)

lemma helloReceiver_destroy:
  "c_helloReceiver (reply_destroy alive d c) = c_helloReceiver c" "c_state (reply_destroy alive d c) = c_state c"
  by (simp_all add: reply_destroy_def deleteReply_def unregisterPendingReply_def Let_def erasePending_def queueEvent_def
      c_undefined_def split: option.splits connection_or_reply.splits)

lemma hello_ok_destroy:
  assumes "hello_ok c" and "c_helloReceiver c \<noteq> Some p"
  shows "hello_ok (reply_destroy alive (Some p) c)"
proof -
  have "c_replies (reply_destroy alive (Some p) c) q = Some r \<Longrightarrow> q \<noteq> p \<and> c_replies c q = Some r" for q r
    using replies_destroy [where q = q and p = p and alive = alive and c = c] replies_destroyed [where p = p and alive = alive and c = c] by (cases "q = p") auto
  with assms replies_destroy [where p = p and alive = alive and c = c] show ?thesis
    unfolding hello_ok_def hello_only_def helloReceiver_destroy by metis
qed

lemma deleteHelloReceiver_inv:
  assumes "registry_ok c" and "hello_only c"
  shows "reply_inv (deleteHelloReceiver alive c)"
proof -
  let ?c = "reply_destroy alive (c_helloReceiver c) c"
  have "registry_ok (?c\<lparr>c_helloReceiver := None\<rparr>)"
    using registry_ok_destroy [OF assms(1), where alive = alive and d = "c_helloReceiver c"]
    by (simp add: registry_ok_def registered_def)
  moreover have "\<not> (c_replies ?c q = Some r \<and> p_receiver r = HelloReceiver \<and> p_link r = Attached)" for q r
  proof (cases "c_helloReceiver c")
    case None
    with assms(2) show ?thesis by (auto simp: hello_only_def reply_destroy_def)
  next
    case (Some p)
    with assms(2) replies_destroy [where q = q and p = p and alive = alive and c = c] replies_destroyed [where p = p and alive = alive and c = c] show ?thesis
      by (cases "q = p") (auto simp: hello_only_def)
  qed
  ultimately show ?thesis
    by (auto simp: reply_inv_def hello_ok_def hello_only_def deleteHelloReceiver_def)
qed

lemma serials_kept_hello [simp]: "serials_kept c (c'\<lparr>c_helloReceiver := h\<rparr>) = serials_kept c c'"
  by (simp add: serials_kept_def)

lemma serials_kept_deleteHello: "serials_kept c (deleteHelloReceiver alive c)"
  by (simp add: deleteHelloReceiver_def serials_kept_destroy)

lemma registry_update [registry_frame]:
  "registry (c\<lparr>c_uniqueName := n\<rparr>) = registry c" "registry (c\<lparr>c_sendQueue := q\<rparr>) = registry c"
  "registry (c\<lparr>c_transport := tr\<rparr>) = registry c" "registry (c\<lparr>c_downstream := ds\<rparr>) = registry c"
  "registry (c\<lparr>c_closing := b\<rparr>) = registry c" "registry (c\<lparr>c_secondaryThreadLinks := ks\<rparr>) = registry c"
  "registry (c\<lparr>c_connectionToNotify := b\<rparr>) = registry c" "registry (c\<lparr>c_authClient := a\<rparr>) = registry c"
  "registry (c\<lparr>c_receivingMessage := rm\<rparr>) = registry c" "registry (c\<lparr>c_unixFdPassingEnabled := b\<rparr>) = registry c"
  "registry (c\<lparr>c_mainThreadConnection := mt\<rparr>) = registry c" "registry (c\<lparr>c_unredeemedCommRefs := ids\<rparr>) = registry c"
  "registry (c\<lparr>c_written := ws\<rparr>) = registry c" "registry (c\<lparr>c_clientConnectedHandler := b\<rparr>) = registry c"
  by (simp_all add: registry_def finished_notes_def)

lemma registry_takeReply:
  assumes "takeReply d c = (res, c1)"
  shows "registry c1 = registry c \<or>
    (\<exists>p r m. d = Some p \<and> c_replies c p = Some r \<and> p_isFinished r \<and> p_link r = HeapReply m \<and>
       c1 = updateReply p (\<lambda>r. r\<lparr>p_link := NoReply\<rparr>) c)"
  using assms by (auto simp: takeReply_def registry_undefined split: option.splits if_splits connection_or_reply.splits)

lemma takeReply_registry_ok:
  assumes "takeReply d c = (res, c1)" and ok: "registry_ok c"
  shows "registry_ok c1"
proof (cases "registry c1 = registry c")
  case True
  with ok show ?thesis by (simp add: registry_ok_cong [OF True])
next
  case False
  with registry_takeReply [OF assms(1)] obtain p r m where
    p: "c_replies c p = Some r" "p_isFinished r" "p_link r = HeapReply m"
      "c1 = updateReply p (\<lambda>r. r\<lparr>p_link := NoReply\<rparr>) c" by blast
  then have "\<not> registered c s p" for s using finished_not_registered [OF ok p(1)] by simp
  with ok p show ?thesis
    by (auto simp: registry_ok_def registered_def updateReply_def link_typed_def answered_def)
qed

lemma takeReply_hello:
  assumes "takeReply d c = (res, c1)"
  shows "hello_only c \<Longrightarrow> hello_only c1" "hello_ok c \<Longrightarrow> hello_ok c1" "serials_kept c c1"
proof -
  show "serials_kept c c1"
    using registry_takeReply [OF assms] serials_kept_cong [of c1 c c]
      serials_kept_updateReply [of "\<lambda>r. r\<lparr>p_link := NoReply\<rparr>"] by (auto simp: answered_def)
  consider (same) "registry c1 = registry c"
    | (taken) p r m where "c_replies c p = Some r" "p_link r = HeapReply m"
        "c1 = updateReply p (\<lambda>r. r\<lparr>p_link := NoReply\<rparr>) c"
    using registry_takeReply [OF assms] by blast
  then have *: "(hello_only c \<longrightarrow> hello_only c1) \<and> (hello_ok c \<longrightarrow> hello_ok c1)"
  proof cases
    case same
    with hello_ok_cong [OF same] show ?thesis by (auto simp: registry_def hello_only_def)
  next
    case taken
    then show ?thesis by (fastforce simp: hello_only_def hello_ok_def updateReply_def)
  qed
  then show "hello_only c \<Longrightarrow> hello_only c1" "hello_ok c \<Longrightarrow> hello_ok c1" by blast+
qed

subsection \<open>Finishing replies\<close>

definition leads :: "connection \<Rightarrow> connection \<Rightarrow> bool" where
  "leads c c' \<longleftrightarrow> reply_inv c' \<and> serials_kept c c'"

lemma leads_cong: "registry c1 = registry c2 \<Longrightarrow> leads c c1 = leads c c2"
  using reply_inv_cong [of c1 c2] serials_kept_cong [of c1 c2] by (simp add: leads_def)

lemma leads_trans: "leads c c1 \<Longrightarrow> leads c1 c2 \<Longrightarrow> leads c c2"
  using serials_kept_trans by (auto simp: leads_def)

lemma leads_setNewState:
  assumes "leads c c1" and "st \<noteq> Authenticating"
  shows "leads c (setNewState st c1)"
proof -
  have "registry_ok (setNewState st c1) = registry_ok c1"
    by (simp only: registry_ok_def registered_def setNewState_parts)
  moreover have "hello_ok c1 \<Longrightarrow> hello_ok (setNewState st c1)"
    using assms(2) by (simp only: hello_ok_def hello_only_def setNewState_parts) simp
  ultimately show ?thesis
    using assms(1) by (simp add: leads_def reply_inv_def serials_kept_def setNewState_parts)
qed

lemma leads_changeState:
  assumes "leads c c1" and "st \<noteq> Authenticating"
  shows "leads c (changeState st c1)"
  using leads_setNewState [OF assms] by (simp add: changeState_def leads_cong [OF registry_endStateChange])

lemma leads_refl: "reply_inv c \<Longrightarrow> leads c c"
  by (simp add: leads_def)

lemma deleteHelloReceiver_leads:
  "registry_ok c \<Longrightarrow> hello_only c \<Longrightarrow> leads c (deleteHelloReceiver alive c)"
  by (simp add: leads_def deleteHelloReceiver_inv serials_kept_deleteHello)

text \<open>
  The contract of \<^verbatim>\<open>close\<close> that the code which finishes a reply relies on.
\<close>

locale closing =
  fixes closeF :: "error_code \<Rightarrow> connection \<Rightarrow> connection"
  assumes close_keeps: "reply_inv c \<Longrightarrow> reply_inv (closeF e c)"
    and close_serials: "reply_inv c \<Longrightarrow> serials_kept c (closeF e c)"
begin

lemma close_leads: "leads c c1 \<Longrightarrow> leads c (closeF e c1)"
  using close_keeps close_serials serials_kept_trans unfolding leads_def by blast

lemma handleHelloReply_inv:
  assumes ok: "registry_ok c" "hello_only c" and there: "c_helloReceiver c = Some p"
  shows "leads c (handleHelloReply closeF alive c)"
proof (cases "hasNonErrorReply (Some p) c = Some True")
  case False
  with there show ?thesis
    by (simp add: handleHelloReply_def close_leads deleteHelloReceiver_leads [OF ok])
next
  case nonerror: True
  obtain res c1 where take: "takeReply (Some p) c = (res, c1)" by fastforce
  have del: "leads c (deleteHelloReceiver alive c1)"
    using deleteHelloReceiver_inv [OF takeReply_registry_ok [OF take ok(1)] takeReply_hello(1) [OF take ok(2)]]
      serials_kept_trans [OF takeReply_hello(3) [OF take] serials_kept_deleteHello] by (simp add: leads_def)
  show ?thesis
  proof (cases res)
    case None
    with there nonerror take del show ?thesis
      by (simp add: handleHelloReply_def leads_cong [OF registry_undefined])
  next
    case (Some h)
    show ?thesis
    proof (cases h)
      case None
      with Some there nonerror take del show ?thesis
        by (simp add: handleHelloReply_def leads_cong [OF registry_undefined])
    next
      case h: (Some msg)
      obtain busName rd where read: "reader_readString (Reader (m_mainArguments msg)) = (busName, rd)" by fastforce
      show ?thesis
      proof (cases "r_state rd = Finished")
        case False
        with Some h there nonerror take read close_leads [OF del] show ?thesis
          by (simp add: handleHelloReply_def)
      next
        case True
        let ?c2 = "deleteHelloReceiver alive c1"
        have "handleHelloReply closeF alive c =
          (let c3 = ?c2\<lparr>c_uniqueName := (case busName of None \<Rightarrow> [] | Some cs \<Rightarrow> cs_chars cs)\<rparr>
           in changeState Connected (queueEvents (filter alive (c_secondaryThreadLinks c3))
                                   (UniqueNameReceivedEvent (c_uniqueName c3)) c3))"
          using True Some h there nonerror take read by (simp add: handleHelloReply_def Let_def)
        with del show ?thesis
          by (simp add: Let_def leads_changeState leads_cong [OF registry_queueEvents] leads_cong [OF registry_update(1)])
      qed
    qed
  qed
qed

lemma finish_inv:
  assumes inv: "reply_inv c" and r: "c_replies c p = Some r" and att: "p_link r = Attached"
    and unreg: "\<not> registered c (p_serial r) p"
    and f: "\<And>r. link_typed (f r)" "\<And>r. p_link (f r) \<noteq> Attached" "\<And>r. p_serial (f r) = p_serial r"
      "\<And>r. p_receiver (f r) = p_receiver r"
  shows "reply_inv (finishedCallback closeF alive p (updateReply p f c)) \<and>
    ((\<forall>r. answered (f r) \<longrightarrow> answered r) \<longrightarrow> serials_kept c (finishedCallback closeF alive p (updateReply p f c)))"
    (is "reply_inv ?c2 \<and> (?quiet \<longrightarrow> serials_kept c ?c2)")
proof -
  let ?c = "updateReply p f c"
  have ok: "registry_ok ?c"
    using registry_ok_finish [OF _ r att unreg] inv f by (simp add: reply_inv_def)
  have only: "hello_only ?c"
    using inv f(2) r by (auto simp: reply_inv_def hello_ok_def hello_only_def updateReply_def)
  have kept: "serials_kept c ?c" if ?quiet using f(3) that by (intro serials_kept_updateReply) blast+
  have recv: "map_option p_receiver (c_replies ?c p) = Some (p_receiver r)"
    using r f(4) by (simp add: updateReply_def)
  have callback: "finishedCallback closeF alive p ?c =
    (case p_receiver r of NoReceiver \<Rightarrow> ?c | ClientReceiver \<Rightarrow> c_note (FinishedNote p) ?c
     | HelloReceiver \<Rightarrow> handleHelloReply closeF alive ?c)"
    unfolding finishedCallback_def recv by simp
  have hello: "hello_ok ?c" if "p_receiver r \<noteq> HelloReceiver"
    using that inv r f(2) by (fastforce simp: reply_inv_def hello_ok_def hello_only_def updateReply_def)
  show ?thesis
  proof (cases "p_receiver r")
    case NoReceiver
    with ok hello kept show ?thesis by (simp add: callback reply_inv_def)
  next
    case ClientReceiver
    have new: "p \<notin> set (finished_notes c)" "p < c_nextReply c"
      using inv r att by (auto simp: reply_inv_def registry_ok_def)
    have "registry_ok (c_note (FinishedNote p) ?c)"
      using ok new r f(2)
      by (auto simp: registry_ok_def c_note_def finished_notes_def updateReply_def registered_def)
    moreover have "hello_ok (c_note (FinishedNote p) ?c)"
      using ClientReceiver hello by (simp add: c_note_def hello_ok_def hello_only_def)
    moreover have "serials_kept c (c_note (FinishedNote p) ?c)" if ?quiet
      using kept [OF that] by (simp add: c_note_def serials_kept_def)
    ultimately show ?thesis using ClientReceiver by (simp add: callback reply_inv_def)
  next
    case HelloReceiver
    with inv r att have "c_helloReceiver c = Some p" by (auto simp: reply_inv_def hello_ok_def hello_only_def)
    then have "c_helloReceiver ?c = Some p" using r by (simp add: updateReply_def)
    from handleHelloReply_inv [OF ok only this, where alive = alive]
    have "reply_inv (handleHelloReply closeF alive ?c)" "serials_kept ?c (handleHelloReply closeF alive ?c)"
      by (simp_all add: leads_def)
    moreover from this(2) have "serials_kept c (handleHelloReply closeF alive ?c)" if ?quiet
      using serials_kept_trans [OF kept [OF that]] by blast
    ultimately show ?thesis using HelloReceiver by (simp add: callback)
  qed
qed

text \<open>A fault that was noted on the way does not matter.\<close>

lemma finish_fault_inv:
  assumes inv: "reply_inv c" and r: "c_replies c p = Some r" and att: "p_link r = Attached"
    and unreg: "\<not> registered c (p_serial r) p"
    and f: "\<And>r. link_typed (f r)" "\<And>r. p_link (f r) \<noteq> Attached" "\<And>r. p_serial (f r) = p_serial r"
      "\<And>r. p_receiver (f r) = p_receiver r"
  shows "reply_inv (finishedCallback closeF alive p (updateReply p f (if b then c else c_undefined c))) \<and>
    ((\<forall>r. answered (f r) \<longrightarrow> answered r) \<longrightarrow>
       serials_kept c (finishedCallback closeF alive p (updateReply p f (if b then c else c_undefined c))))"
proof -
  let ?c = "if b then c else c_undefined c"
  have reg: "registry ?c = registry c" by (simp add: registry_undefined)
  have "reply_inv ?c" "c_replies ?c p = Some r" "\<not> registered ?c (p_serial r) p"
    using inv r unreg reply_inv_cong [OF reg] registered_cong [OF reg] by (simp_all add: c_undefined_def)
  note step = finish_inv [OF this(1,2) att this(3) f, where alive = alive]
  have same: "serials_kept c x = serials_kept ?c x" for x by (rule serials_kept_cong_left [OF reg [symmetric]])
  show ?thesis unfolding same by (rule step)
qed

lemma handleReceived_inv:
  assumes inv: "reply_inv c" and unreg: "\<And>r. c_replies c p = Some r \<Longrightarrow> \<not> registered c (p_serial r) p"
    and waiting: "\<And>r. c_replies c p = Some r \<Longrightarrow> p_link r = Attached" and link: "link \<noteq> Attached"
  shows "reply_inv (handleReceived closeF alive p link c)"
proof (cases "c_replies c p")
  case None
  with inv show ?thesis by (simp add: handleReceived_def reply_inv_cong [OF registry_undefined])
next
  case (Some r)
  show ?thesis
    unfolding handleReceived_def Some using waiting [OF Some] link
    by (simp add: link_typed_def finish_inv [OF inv Some _ unreg [OF Some], THEN conjunct1])
qed

lemma handleError_inv:
  assumes inv: "reply_inv c" and unreg: "\<And>r. c_replies c p = Some r \<Longrightarrow> \<not> registered c (p_serial r) p"
    and unanswered: "\<And>r. c_replies c p = Some r \<Longrightarrow> \<not> answered r"
  shows "leads c (handleError closeF alive p e c)"
proof (cases "\<exists>r. c_replies c p = Some r \<and> p_link r = Attached")
  case True
  then obtain r where r: "c_replies c p = Some r" "p_link r = Attached" by blast
  show ?thesis
    unfolding handleError_def leads_def using r
      finish_fault_inv [OF inv r unreg [OF r(1)],
        of "\<lambda>r. r\<lparr>p_error := (if isError (p_error r) then p_error r else e), p_isFinished := True, p_link := NoReply\<rparr>"
           alive "isAttached (p_link r) \<and> \<not> c_destroyed c"]
    by (simp add: link_typed_def answered_def)
next
  case False
  with inv unanswered show ?thesis
    by (auto simp: handleError_def answered_def leads_cong [OF registry_undefined] leads_refl split: option.splits)
qed

lemma cancelReplies_inv:
  assumes "leads c0 c" and "\<And>s p r. (s, ForReply p) \<in> set rs \<Longrightarrow> c_replies c0 p = Some r \<Longrightarrow> p_serial r = s \<and> \<not> answered r"
  shows "leads c0 (cancelReplies closeF alive e rs c)"
  using assms
proof (induction rs arbitrary: c)
  case (Cons x rs)
  obtain s rec where x: "x = (s, rec)" by fastforce
  have er: "leads c0 (erasePending s c)"
    using Cons.prems(1) reply_inv_erase serials_kept_trans [OF _ serials_kept_erase] by (auto simp: leads_def)
  have "leads c0 (case rec of ForReply p \<Rightarrow> handleError closeF alive p e (erasePending s c) | ForConnection k \<Rightarrow> erasePending s c)"
  proof (cases rec)
    case (ForReply p)
    have "\<not> registered (erasePending s c) (p_serial r) p \<and> \<not> answered r" if "c_replies (erasePending s c) p = Some r" for r
    proof -
      from er that obtain r0 where "c_replies c0 p = Some r0" "p_serial r = p_serial r0" "answered r \<longrightarrow> answered r0"
        unfolding leads_def serials_kept_def by blast
      with Cons.prems(2) [of s p r0] x ForReply have "p_serial r = s" "\<not> answered r" by auto
      then show ?thesis by (simp add: not_registered_erased)
    qed
    with er have "leads (erasePending s c) (handleError closeF alive p e (erasePending s c))"
      by (intro handleError_inv) (auto simp: leads_def)
    with er ForReply show ?thesis using leads_trans by simp
  qed (simp add: er)
  moreover have "\<And>s p r. (s, ForReply p) \<in> set rs \<Longrightarrow> c_replies c0 p = Some r \<Longrightarrow> p_serial r = s \<and> \<not> answered r"
    by (rule Cons.prems(2)) simp_all
  ultimately show ?case using Cons.IH x by (simp add: Let_def)
qed simp

lemma cancelAllPendingReplies_inv:
  assumes "reply_inv c"
  shows "leads c (cancelAllPendingReplies closeF alive e c)"
proof -
  have "leads c (cancelReplies closeF alive e (c_pendingReplies c) c)"
  proof (rule cancelReplies_inv)
    fix s p r assume "(s, ForReply p) \<in> set (c_pendingReplies c)" "c_replies c p = Some r"
    with registered_reply [of c s p] assms show "p_serial r = s \<and> \<not> answered r"
      by (auto simp: reply_inv_def registered_def answered_def)
  qed (simp add: leads_refl assms)
  then show ?thesis by (simp add: cancelAllPendingReplies_def leads_cong [OF registry_update(2)])
qed

end

interpretation again: closing closeAgain
proof
  fix c :: connection and e
  assume inv: "reply_inv c"
  show "reply_inv (closeAgain e c)" "serials_kept c (closeAgain e c)"
    using inv reply_inv_cong [OF registry_undefined] serials_kept_cong [OF registry_undefined]
    by (simp_all add: closeAgain_def)
qed

lemma conn_close_leads:
  assumes "reply_inv c"
  shows "leads c (conn_close alive e c)"
proof (cases "c_closing c")
  case False
  define c3 where "c3 = (let c1 = c\<lparr>c_closing := True\<rparr>;
      c2 = (case c_mainThreadConnection c1 of None \<Rightarrow> c1
            | Some k \<Rightarrow> if alive k then queueEvent k (SecondaryConnectionDisconnectEvent (c_id c1)) c1 else c1)
    in (queueEvents (filter alive (c_secondaryThreadLinks c2)) (MainConnectionDisconnectEvent e) c2)
         \<lparr>c_secondaryThreadLinks := []\<rparr>)"
  have reg: "registry c3 = registry c"
    by (simp add: c3_def Let_def registry_frame split: option.splits)
  then have "reply_inv c3" using assms reply_inv_cong by blast
  from again.cancelAllPendingReplies_inv [OF this] have "leads c (cancelAllPendingReplies closeAgain alive e c3)"
    using reg by (simp add: leads_def serials_kept_cong_left [OF reg])
  then have "leads c (closeTransport ((cancelAllPendingReplies closeAgain alive e c3)\<lparr>c_connectionToNotify := False\<rparr>))"
    by (simp add: leads_cong [OF registry_closeTransport] leads_cong [OF registry_update(7)])
  from leads_changeState [OF this, of Unconnected] False show ?thesis
    by (simp add: conn_close_def c3_def Let_def)
qed (simp add: conn_close_def leads_refl assms)

interpretation full: closing "conn_close alive" for alive
  by unfold_locales (use conn_close_leads in \<open>auto simp: leads_def\<close>)

end
