(* ===== verification/Connection_Calls.thy ===== *)
theory Connection_Calls
  imports Connection_Replies
begin

text \<open>
  All calls into a connection, by its client, its event dispatcher and its replies' timers, as one step function,
  and what holds of the replies after any of them.
\<close>

subsection \<open>Operations and the registry\<close>

lemma updateReply_parts:
  "c_replies (updateReply p f c) q = (if q = p then map_option f (c_replies c p) else c_replies c q)"
  "c_helloReceiver (updateReply p f c) = c_helloReceiver c" "c_state (updateReply p f c) = c_state c"
  "c_pendingReplies (updateReply p f c) = c_pendingReplies c" "c_nextReply (updateReply p f c) = c_nextReply c"
  "finished_notes (updateReply p f c) = finished_notes c"
  by (simp_all add: updateReply_def c_undefined_def finished_notes_def split: option.splits)

lemma leads_undefined: "leads c c1 \<Longrightarrow> leads c (c_undefined c1)"
  by (simp add: leads_cong [OF registry_undefined])

text \<open>Changes of a reply that leave the union and the receiver alone, or set a receiver other than the connection's own.\<close>

lemma updateReply_leads:
  assumes inv: "reply_inv c" and f: "\<And>r. p_link (f r) = p_link r" "\<And>r. p_serial (f r) = p_serial r"
    and typed: "\<And>r. c_replies c p = Some r \<Longrightarrow> link_typed r \<Longrightarrow> link_typed (f r)"
    and rcv: "(\<forall>r. p_receiver (f r) = p_receiver r) \<or> c_helloReceiver c \<noteq> Some p \<and> (\<forall>r. p_receiver (f r) \<noteq> HelloReceiver)"
  shows "leads c (updateReply p f c)"
proof -
  let ?c = "updateReply p f c"
  have orig: "\<exists>r0. c_replies c q = Some r0 \<and> p_link r = p_link r0 \<and> p_serial r = p_serial r0 \<and>
      link_typed r \<and> (p_receiver r = HelloReceiver \<longrightarrow> p_receiver r0 = HelloReceiver)"
    if some: "c_replies ?c q = Some r" for q r
  proof (cases "q = p")
    case True
    with some obtain r0 where r0: "c_replies c p = Some r0" "r = f r0" by (auto simp: updateReply_parts)
    with inv have "link_typed r0" by (auto simp: reply_inv_def registry_ok_def)
    with r0 f rcv typed True show ?thesis by auto
  next
    case False
    with some inv show ?thesis by (auto simp: updateReply_parts reply_inv_def registry_ok_def)
  qed
  have imag: "\<exists>r. c_replies ?c q = Some r \<and> p_link r = p_link r0 \<and> p_serial r = p_serial r0 \<and>
      (c_helloReceiver c = Some q \<longrightarrow> p_receiver r = p_receiver r0)"
    if "c_replies c q = Some r0" for q r0
    using that f rcv by (cases "q = p") (auto simp: updateReply_parts)
  have ok: "registry_ok c" and hello: "hello_only c" and there: "hello_ok c"
    using inv by (simp_all add: reply_inv_def hello_ok_def)
  have "registry_ok ?c"
    unfolding registry_ok_def registered_def updateReply_parts(4-6)
  proof (intro conjI allI impI ballI)
    fix s q assume "(s, ForReply q) \<in> set (c_pendingReplies c)"
    with registered_reply [OF ok, of s q] imag
    show "\<exists>r. c_replies ?c q = Some r \<and> p_link r = Attached \<and> p_serial r = s"
      by (fastforce simp: registered_def)
  next
    fix q r assume "c_replies ?c q = Some r"
    with orig [OF this] ok show "q < c_nextReply c" "link_typed r" by (auto simp: registry_ok_def)
  next
    fix q r assume "q \<in> set (finished_notes c)" "c_replies ?c q = Some r"
    with orig [OF this(2)] ok show "p_link r \<noteq> Attached" by (auto simp: registry_ok_def)
  qed (use ok in \<open>auto simp: registry_ok_def\<close>)
  moreover have "hello_ok ?c"
    unfolding hello_ok_def hello_only_def updateReply_parts(2-3)
  proof (intro conjI allI impI)
    fix q r assume "c_replies ?c q = Some r" "p_receiver r = HelloReceiver" "p_link r = Attached"
    with orig [OF this(1)] hello show "c_helloReceiver c = Some q" by (auto simp: hello_only_def)
  next
    fix q assume q: "c_helloReceiver c = Some q"
    with there obtain r where "c_replies c q = Some r" "p_receiver r = HelloReceiver" "p_link r = Attached"
      by (auto simp: hello_ok_def)
    with imag q show "\<exists>r. c_replies ?c q = Some r \<and> p_receiver r = HelloReceiver \<and> p_link r = Attached"
      by fastforce
  qed (use there in \<open>simp add: hello_ok_def\<close>)
  ultimately show ?thesis using serials_kept_updateReply [of f c p] f by (simp add: leads_def reply_inv_def answered_def)
qed

lemma maybeDispatch_inv:
  assumes inv: "reply_inv c" and link: "link \<noteq> Attached"
  shows "reply_inv (snd (maybeDispatchToPendingReply alive msg link c))"
proof -
  let ?s = "replySerial msg"
  have er: "reply_inv (erasePending ?s c)" using inv reply_inv_erase by simp
  have "reply_inv (handleReceived (conn_close alive) alive p link (erasePending ?s c))"
    if "map_of (c_pendingReplies c) ?s = Some (ForReply p)" for p
  proof -
    have "registered c ?s p" using that by (simp add: registered_def map_of_SomeD)
    from registered_reply [OF _ this] inv obtain r where "c_replies c p = Some r" "p_serial r = ?s" "p_link r = Attached"
      by (auto simp: reply_inv_def)
    then have "\<not> registered (erasePending ?s c) (p_serial r') p \<and> p_link r' = Attached"
      if "c_replies (erasePending ?s c) p = Some r'" for r'
      using that not_registered_erased by (simp add: erasePending_def)
    with er link show ?thesis using full.handleReceived_inv by blast
  qed
  with inv er show ?thesis
    by (auto simp: maybeDispatchToPendingReply_def Let_def reply_inv_cong [OF registry_queueEvent]
        reply_inv_cong [OF registry_undefined] split: option.splits reply_record.splits connection_or_reply.splits)
qed

lemma dispatchError_inv:
  assumes inv: "reply_inv c" and s: "map_of (c_pendingReplies c) s = Some (ForReply p)"
  shows "leads c (handleError (conn_close alive) alive p e (erasePending s c))"
proof -
  have er: "leads c (erasePending s c)" using inv reply_inv_erase by (simp add: leads_def)
  have "registered c s p" using s by (simp add: registered_def map_of_SomeD)
  from registered_reply [OF _ this] inv obtain r where "c_replies c p = Some r" "p_serial r = s" "p_link r = Attached"
    by (auto simp: reply_inv_def)
  then have "\<not> registered (erasePending s c) (p_serial r') p \<and> \<not> answered r'"
    if "c_replies (erasePending s c) p = Some r'" for r'
    using that not_registered_erased by (simp add: erasePending_def answered_def)
  with er have "leads (erasePending s c) (handleError (conn_close alive) alive p e (erasePending s c))"
    by (intro full.handleError_inv) (auto simp: leads_def)
  with er show ?thesis by (rule leads_trans)
qed

lemma maybeDispatchError_inv:
  assumes inv: "reply_inv c"
  shows "leads c (snd (maybeDispatchErrorToPendingReply alive s e c))"
proof -
  have "leads c (erasePending s c)" using inv reply_inv_erase by (simp add: leads_def)
  with inv dispatchError_inv [OF inv] show ?thesis
    by (auto simp: maybeDispatchErrorToPendingReply_def leads_refl leads_cong [OF registry_queueEvent]
        split: option.splits reply_record.splits)
qed

lemma replyTimerFires_inv:
  assumes inv: "reply_inv c"
  shows "leads c (replyTimerFires alive p c)"
proof (cases "\<exists>r. c_replies c p = Some r \<and> t_isRunning (p_replyTimeout r)")
  case False
  with inv show ?thesis by (auto simp: replyTimerFires_def leads_refl split: option.splits)
next
  case True
  then obtain r where r: "c_replies c p = Some r" "t_isRunning (p_replyTimeout r)" by blast
  define c1 where "c1 = updateReply p (\<lambda>r. r\<lparr>p_replyTimeout :=
                        (p_replyTimeout r)\<lparr>t_isRunning := t_isRepeating (p_replyTimeout r)\<rparr>\<rparr>) c"
  have unanswered: "\<not> answered r" using inv r by (auto simp: reply_inv_def registry_ok_def link_typed_def)
  have c1: "leads c c1" unfolding c1_def
    by (rule updateReply_leads [OF inv]) (use r unanswered in \<open>auto simp: link_typed_def answered_def\<close>)
  obtain r1 where r1: "c_replies c1 p = Some r1" "p_link r1 = p_link r"
    using r by (simp add: c1_def updateReply_def)
  have "leads c1 (handleTimeout alive p c1)"
  proof (cases "p_link r1 = Attached")
    case True
    let ?c2 = "unregisterPendingReply alive p c1"
    have c2: "leads c1 ?c2"
      using c1 reply_inv_erase leads_cong [OF unregister_registry [OF r1(1)]] by (simp add: leads_def)
    have "\<not> registered ?c2 (p_serial r') p \<and> \<not> answered r'" if "c_replies ?c2 p = Some r'" for r'
      using that r1 True registered_cong [OF unregister_registry [OF r1(1)]] not_registered_erased
      by (simp add: replies_unregister answered_def)
    with c2 have "leads ?c2 (handleError (conn_close alive) alive p Timeout ?c2)"
      by (intro full.handleError_inv) (auto simp: leads_def)
    with True r1 c2 leads_trans show ?thesis by (auto simp: handleTimeout_def)
  next
    case False
    with unanswered r1 have "p_link r1 = NoReply" by (simp add: answered_def)
    with r1 have "handleTimeout alive p c1 = c_undefined c1" by (simp add: handleTimeout_def handleError_def)
    moreover have "leads c1 c1" using c1 by (simp add: leads_def)
    ultimately show ?thesis using leads_undefined by simp
  qed
  with c1 leads_trans r show ?thesis
    by (simp add: replyTimerFires_def c1_def [symmetric] Let_def)
qed

lemma emplaceConnection_inv:
  assumes "reply_inv c"
  shows "reply_inv (emplacePending s (ForConnection k) c)"
  using assms
  by (auto simp: reply_inv_def registry_ok_def registered_def hello_ok_def hello_only_def emplacePending_def
      map_of_eq_None_iff)

lemma addReply_inv:
  assumes inv: "reply_inv c" and r: "p_link r = Attached" "\<not> p_isFinished r" "p_receiver r = NoReceiver"
    and p: "p = c_nextReply c"
  shows "reply_inv (emplacePending (p_serial r) (ForReply p) (c\<lparr>c_replies := (c_replies c)(p := Some r), c_nextReply := p + 1\<rparr>))"
proof -
  let ?c = "c\<lparr>c_replies := (c_replies c)(p := Some r), c_nextReply := p + 1\<rparr>"
  have ok: "registry_ok c" and hello: "hello_ok c" using inv by (simp_all add: reply_inv_def)
  have fresh: "c_replies c p = None" using ok p by (cases "c_replies c p") (auto simp: registry_ok_def)
  have same: "finished_notes ?c = finished_notes c" by (simp add: finished_notes_def)
  have "registry_ok ?c"
    unfolding registry_ok_def registered_def same
  proof (intro conjI allI impI ballI)
    fix s q assume "(s, ForReply q) \<in> set (c_pendingReplies ?c)"
    with registered_reply [OF ok, of s q] fresh
    show "\<exists>r. c_replies ?c q = Some r \<and> p_link r = Attached \<and> p_serial r = s"
      by (cases "q = p") (auto simp: registered_def)
  next
    fix q r' assume "c_replies ?c q = Some r'"
    with ok r p show "q < c_nextReply ?c" "link_typed r'"
      by (cases "q = p"; fastforce simp: registry_ok_def link_typed_def answered_def)+
  next
    fix q assume q: "q \<in> set (finished_notes c)"
    with ok show "q < c_nextReply ?c" using p by (fastforce simp: registry_ok_def)
    fix r' assume "c_replies ?c q = Some r'"
    with ok q p show "p_link r' \<noteq> Attached" by (cases "q = p") (auto simp: registry_ok_def)
  qed (use ok in \<open>auto simp: registry_ok_def\<close>)
  moreover have "hello_ok ?c"
    using hello fresh r unfolding hello_ok_def hello_only_def by (auto split: if_splits)
  moreover have "c_replies ?c p = Some r" by simp
  ultimately show ?thesis
    using r by (auto simp: reply_inv_def registry_ok_def registered_def hello_ok_def hello_only_def emplacePending_def
        map_of_eq_None_iff finished_notes_def)
qed

lemma registry_prepareSend:
  "prepareSend alive ms msg c = (e, msg1, c1) \<Longrightarrow> registry c1 = registry c"
  using registry_takeSerial [of c]
  by (auto simp: prepareSend_def Let_def split: if_splits option.splits prod.splits)

lemma updateReply_inv:
  "reply_inv c \<Longrightarrow> (\<And>r. p_link (f r) = p_link r) \<Longrightarrow>
    (\<And>r. c_replies c p = Some r \<Longrightarrow> link_typed r \<Longrightarrow> link_typed (f r)) \<Longrightarrow>
    (\<And>r. p_serial (f r) = p_serial r) \<Longrightarrow> (\<And>r. p_receiver (f r) = p_receiver r) \<Longrightarrow> reply_inv (updateReply p f c)"
  using updateReply_leads [of c f p] by (simp add: leads_def)

lemma updateReply_same_inv:
  "reply_inv c \<Longrightarrow> (\<And>r. p_link (f r) = p_link r \<and> p_isFinished (f r) = p_isFinished r \<and>
      p_replyTimeout (f r) = p_replyTimeout r \<and> p_serial (f r) = p_serial r \<and> p_receiver (f r) = p_receiver r) \<Longrightarrow>
    reply_inv (updateReply p f c)"
  by (rule updateReply_inv) (simp_all add: link_typed_def answered_def)

lemma registry_sendPart:
  "registry (case x of None \<Rightarrow> sendPreparedMessage m c | Some k \<Rightarrow> if b k then queueEvent k e c else c') = registry c"
  if "registry c' = registry c"
  using that by (simp add: registry_frame split: option.splits)

lemma conn_send_inv:
  assumes inv: "reply_inv c"
  shows "reply_inv (snd (conn_send alive ms owner m t c))"
proof -
  obtain e m1 c1 where prep: "prepareSend alive ms m c = (e, m1, c1)" by (metis prod_cases3)
  define t' where "t' = (if t = DefaultTimeout then c_defaultTimeout c else t)"
  define p where "p = c_nextReply c1"
  define r where "r = (PendingReplyPrivate t')\<lparr>p_serial := m_serial m1\<rparr>"
  define c2 where "c2 = emplacePending (m_serial m1) (ForReply p)
     (c1\<lparr>c_replies := (c_replies c1)(p := Some r), c_nextReply := p + 1\<rparr>)"
  define c3 where "c3 = (if isError e \<or> c_state c2 = Unconnected
                then updateReply p (\<lambda>r. r\<lparr>p_error := (if isError e then e else LocalDisconnect),
                                         p_replyTimeout := reply_timer_start 0 (p_replyTimeout r)\<rparr>) c2
                else case c_mainThreadConnection c2 of
                       None \<Rightarrow> sendPreparedMessage m1 c2
                     | Some k \<Rightarrow>
                         if alive k then queueEvent k (SendMessageWithPendingReplyEvent m1 (c_id c2)) c2
                         else updateReply p (\<lambda>r. r\<lparr>p_error := LocalDisconnect\<rparr>) c2)"
  have c1: "reply_inv c1" using inv reply_inv_cong [OF registry_prepareSend [OF prep]] by simp
  have "p_serial r = m_serial m1" by (simp add: r_def)
  then have c2: "reply_inv c2"
    using addReply_inv [OF c1, of r p] by (simp add: c2_def p_def) (simp add: r_def PendingReplyPrivate_def)
  have send: "reply_inv (sendPreparedMessage m1 c2)" "\<And>k e. reply_inv (queueEvent k e c2)"
    using c2 by (simp_all add: reply_inv_cong [OF registry_sendPreparedMessage] reply_inv_cong [OF registry_queueEvent])
  have attached: "p_link r' = Attached" if "c_replies c2 p = Some r'" for r'
    using that by (simp add: c2_def emplacePending_def r_def PendingReplyPrivate_def split: if_splits) auto
  have up: "reply_inv (updateReply p f c2)"
    if "\<And>r. p_link (f r) = p_link r" "\<And>r. p_isFinished (f r) = p_isFinished r"
      "\<And>r. p_serial (f r) = p_serial r" "\<And>r. p_receiver (f r) = p_receiver r" for f
    by (rule updateReply_inv [OF c2]) (use that attached in \<open>auto simp: link_typed_def answered_def\<close>)
  have c3: "reply_inv c3"
    unfolding c3_def using send by (auto intro!: up split: option.splits)
  have "snd (conn_send alive ms owner m t c) = updateReply p (\<lambda>r. r\<lparr>p_owner := Some owner\<rparr>) c3"
    unfolding conn_send_def prep c3_def c2_def r_def p_def t'_def Let_def by (simp add: reply_owned_def)
  then show ?thesis using updateReply_same_inv [OF c3] by simp
qed

text \<open>The new reply is attached, has no receiver yet, and nothing else concerns the connection's own receiver.\<close>

definition fresh_reply :: "connection \<Rightarrow> nat \<Rightarrow> connection \<Rightarrow> bool" where
  "fresh_reply c p c' \<longleftrightarrow> c_helloReceiver c' = c_helloReceiver c \<and> c_state c' = c_state c \<and>
     (\<exists>r. c_replies c' p = Some r \<and> p_link r = Attached \<and> p_receiver r = NoReceiver)"

lemma fresh_reply_updateReply:
  "fresh_reply c p c1 \<Longrightarrow> (\<And>r. p_link (f r) = p_link r) \<Longrightarrow> (\<And>r. p_receiver (f r) = p_receiver r) \<Longrightarrow>
     fresh_reply c p (updateReply p f c1)"
  by (auto simp: fresh_reply_def updateReply_parts)

lemma fresh_reply_frame:
  "fresh_reply c p c1 \<Longrightarrow> fresh_reply c p (sendPreparedMessage m c1)"
  "fresh_reply c p c1 \<Longrightarrow> fresh_reply c p (queueEvent k e c1)"
  by (simp_all add: fresh_reply_def sendPreparedMessage_def Let_def startSending_def c_undefined_def queueEvent_def)

lemma prepareSend_parts:
  assumes "prepareSend alive ms msg c = (e, msg1, c1)"
  shows "c_helloReceiver c1 = c_helloReceiver c" "c_state c1 = c_state c"
  using assms by (auto simp: prepareSend_def takeSerial_def Let_def split: if_splits option.splits prod.splits)

lemma conn_send_fresh: "fresh_reply c (fst (conn_send alive ms owner m t c)) (snd (conn_send alive ms owner m t c))"
proof -
  obtain e m1 c1 where prep: "prepareSend alive ms m c = (e, m1, c1)" by (metis prod_cases3)
  define t' where "t' = (if t = DefaultTimeout then c_defaultTimeout c else t)"
  define p where "p = c_nextReply c1"
  define r where "r = (PendingReplyPrivate t')\<lparr>p_serial := m_serial m1\<rparr>"
  define c2 where "c2 = emplacePending (m_serial m1) (ForReply p)
     (c1\<lparr>c_replies := (c_replies c1)(p := Some r), c_nextReply := p + 1\<rparr>)"
  define c3 where "c3 = (if isError e \<or> c_state c2 = Unconnected
                then updateReply p (\<lambda>r. r\<lparr>p_error := (if isError e then e else LocalDisconnect),
                                         p_replyTimeout := reply_timer_start 0 (p_replyTimeout r)\<rparr>) c2
                else case c_mainThreadConnection c2 of
                       None \<Rightarrow> sendPreparedMessage m1 c2
                     | Some k \<Rightarrow>
                         if alive k then queueEvent k (SendMessageWithPendingReplyEvent m1 (c_id c2)) c2
                         else updateReply p (\<lambda>r. r\<lparr>p_error := LocalDisconnect\<rparr>) c2)"
  have "fresh_reply c p c2"
    using prepareSend_parts [OF prep]
    by (simp add: fresh_reply_def c2_def emplacePending_def r_def PendingReplyPrivate_def)
  then have "fresh_reply c p c3"
    unfolding c3_def
    by (auto intro!: fresh_reply_frame fresh_reply_updateReply split: option.splits)
  moreover have "conn_send alive ms owner m t c = (p, updateReply p (\<lambda>r. r\<lparr>p_owner := Some owner\<rparr>) c3)"
    unfolding conn_send_def prep c3_def c2_def r_def p_def t'_def Let_def by (simp add: reply_owned_def)
  ultimately show ?thesis by (simp add: fresh_reply_updateReply)
qed

lemma sayHello_inv:
  assumes inv: "reply_inv c" and none: "c_helloReceiver c = None" and st: "c_state c \<noteq> Authenticating"
  shows "reply_inv (sayHello alive c)"
proof -
  obtain p c1 where send: "conn_send alive 0 helloOwner (hello_message (c_junk c)) DefaultTimeout c = (p, c1)"
    by fastforce
  have inv1: "reply_inv c1" using conn_send_inv [OF inv, of alive 0 helloOwner "hello_message (c_junk c)" DefaultTimeout] send by simp
  have fresh: "fresh_reply c p c1"
    using conn_send_fresh [of c alive 0 helloOwner "hello_message (c_junk c)" DefaultTimeout] send by simp
  then obtain r where r: "c_replies c1 p = Some r" "p_link r = Attached" and none1: "c_helloReceiver c1 = None"
    and st1: "c_state c1 \<noteq> Authenticating"
    using none st by (auto simp: fresh_reply_def)
  define c4 where "c4 = setReceiver (Some p) HelloReceiver (c1\<lparr>c_helloReceiver := Some p\<rparr>)"
  have ok1: "registry_ok c1" and only: "hello_only c1" using inv1 by (simp_all add: reply_inv_def hello_ok_def)
  have typed: "link_typed (r\<lparr>p_receiver := HelloReceiver\<rparr>)" using ok1 r by (auto simp: registry_ok_def link_typed_def answered_def)
  have replies: "c_replies c4 = (c_replies c1)(p := Some (r\<lparr>p_receiver := HelloReceiver\<rparr>))"
    using r by (simp add: c4_def setReceiver_def updateReply_def)
  have rest: "c_pendingReplies c4 = c_pendingReplies c1" "c_nextReply c4 = c_nextReply c1"
    "c_helloReceiver c4 = Some p" "finished_notes c4 = finished_notes c1" "c_state c4 = c_state c1"
    by (simp_all add: c4_def setReceiver_def updateReply_parts)
  have "registry_ok c4"
    unfolding registry_ok_def registered_def rest replies
  proof (intro conjI allI impI ballI)
    fix s q assume "(s, ForReply q) \<in> set (c_pendingReplies c1)"
    with registered_reply [OF ok1, of s q] r
    show "\<exists>r'. ((c_replies c1)(p := Some (r\<lparr>p_receiver := HelloReceiver\<rparr>))) q = Some r' \<and> p_link r' = Attached \<and> p_serial r' = s"
      by (cases "q = p") (auto simp: registered_def)
  next
    fix q r' assume "((c_replies c1)(p := Some (r\<lparr>p_receiver := HelloReceiver\<rparr>))) q = Some r'"
    with ok1 r typed show "q < c_nextReply c1" "link_typed r'" by (cases "q = p"; auto simp: registry_ok_def)+
  next
    fix q r' assume "q \<in> set (finished_notes c1)" "((c_replies c1)(p := Some (r\<lparr>p_receiver := HelloReceiver\<rparr>))) q = Some r'"
    with ok1 r show "p_link r' \<noteq> Attached" by (cases "q = p") (auto simp: registry_ok_def)
  qed (use ok1 in \<open>auto simp: registry_ok_def\<close>)
  moreover have "hello_ok c4"
    using only none1 r st1 by (auto simp: hello_ok_def hello_only_def rest replies)
  ultimately have inv4: "reply_inv c4" by (simp add: reply_inv_def)
  have swap: "registry (setReceiver (Some p) HelloReceiver x) = registry (setReceiver (Some p) HelloReceiver y)"
    if "registry x = registry y" for x y
    using that by (auto simp: registry_def setReceiver_def updateReply_parts fun_eq_iff)
  have "registry (sayHello alive c) = registry c4"
    unfolding sayHello_def send c4_def
    by (simp add: Let_def registry_receiveNextMessage) (intro conjI impI; rule swap; simp add: registry_frame)
  with inv4 reply_inv_cong [of "sayHello alive c" c4] show ?thesis by blast
qed

lemma conn_close_state: "c_closing c \<or> c_state (conn_close alive e c) = Unconnected"
  by (simp add: conn_close_def Let_def changeState_def setNewState_def endStateChange_def notifyStateChange_def c_note_def)

lemma conn_close_closing: "c_closing c \<Longrightarrow> conn_close alive e c = c"
  by (simp add: conn_close_def)

lemma leads_inv: "leads c c' \<Longrightarrow> reply_inv c'"
  by (simp add: leads_def)

lemma conn_close_inv: "reply_inv c \<Longrightarrow> reply_inv (conn_close alive e c)"
  using conn_close_leads leads_inv by blast

lemma reply_inv_undefined: "reply_inv (c_undefined c) = reply_inv c"
  by (rule reply_inv_cong [OF registry_undefined])

lemma reply_inv_update:
  "reply_inv (c\<lparr>c_sendQueue := q\<rparr>) = reply_inv c" "reply_inv (c\<lparr>c_authClient := a\<rparr>) = reply_inv c"
  "reply_inv (c\<lparr>c_unixFdPassingEnabled := b\<rparr>) = reply_inv c" "reply_inv (c\<lparr>c_secondaryThreadLinks := ks\<rparr>) = reply_inv c"
  "reply_inv (c\<lparr>c_unredeemedCommRefs := ids\<rparr>) = reply_inv c" "reply_inv (c\<lparr>c_mainThreadConnection := mt\<rparr>) = reply_inv c"
  "reply_inv (c\<lparr>c_uniqueName := n\<rparr>) = reply_inv c" "reply_inv (c\<lparr>c_transport := tr\<rparr>) = reply_inv c"
  "reply_inv (c\<lparr>c_downstream := ds\<rparr>) = reply_inv c" "reply_inv (c\<lparr>c_clientConnectedHandler := h\<rparr>) = reply_inv c"
  "reply_inv (c\<lparr>c_receivingMessage := rm\<rparr>) = reply_inv c" "reply_inv (c\<lparr>c_written := ws\<rparr>) = reply_inv c"
  by (rule reply_inv_cong, simp add: registry_frame)+

lemma reply_inv_ops:
  "reply_inv (queueEvent k e c) = reply_inv c" "reply_inv (receiveNextMessage c) = reply_inv c"
  "reply_inv (startSending i c) = reply_inv c" "reply_inv (sendPreparedMessage m c) = reply_inv c"
  "reply_inv (endStateChange old c) = reply_inv c" "reply_inv (closeTransport c) = reply_inv c"
  "reply_inv (c_note (SpontaneousNote m) c) = reply_inv c"
  by (rule reply_inv_cong, simp add: registry_frame)+

lemma changeState_inv: "reply_inv c \<Longrightarrow> st \<noteq> Authenticating \<Longrightarrow> reply_inv (changeState st c)"
  using leads_changeState [OF leads_refl] by (simp add: leads_def)

lemmas inv_simps = reply_inv_undefined reply_inv_update reply_inv_ops

lemma handleAuthCompletion_inv:
  assumes inv: "reply_inv c" and st: "c_state c = Authenticating"
  shows "reply_inv (handleAuthCompletion alive c)"
proof (cases "c_authClient c")
  case None
  with inv show ?thesis by (simp add: handleAuthCompletion_def inv_simps)
next
  case (Some a)
  define c1 where "c1 = (if \<not> auth_isAuthenticated a then conn_close alive AuthenticationFailed c else c)"
  define c2 where "c2 = c1\<lparr>c_unixFdPassingEnabled := auth_isUnixFdPassingEnabled a, c_authClient := None\<rparr>"
  have inv2: "reply_inv c2" using inv by (simp add: c2_def c1_def inv_simps conn_close_inv)
  have "c_state c2 = Unconnected \<or> c1 = c"
    using conn_close_state [of c alive AuthenticationFailed] conn_close_closing
    by (auto simp: c2_def c1_def)
  then consider "c_state c2 = Unconnected" | "c_helloReceiver c2 = None"
    using inv st by (auto simp: c2_def reply_inv_def hello_ok_def)
  then show ?thesis
  proof cases
    case 1
    with Some inv2 show ?thesis by (simp add: handleAuthCompletion_def c2_def c1_def Let_def)
  next
    case 2
    have "leads c2 (setNewState AwaitingUniqueName c2)" using leads_setNewState [OF leads_refl [OF inv2]] by simp
    then have "reply_inv (sayHello alive (setNewState AwaitingUniqueName c2))"
      using 2 by (intro sayHello_inv) (auto simp: leads_def setNewState_parts)
    with Some inv2 show ?thesis
      unfolding handleAuthCompletion_def
      by (simp add: c1_def [symmetric] c2_def [symmetric] Let_def inv_simps)
  qed
qed

lemma handleSendCompletion_inv: "reply_inv c \<Longrightarrow> reply_inv (handleSendCompletion alive c)"
  by (simp add: handleSendCompletion_def Let_def inv_simps handleHelloFailed_def conn_close_inv)

lemma discard_inv:
  assumes "reply_inv c" shows "reply_inv (discardPendingRepliesForSecondaryThread k c)"
  using assms by (auto simp: reply_inv_def registry_ok_def registered_def hello_ok_def hello_only_def
      discardPendingRepliesForSecondaryThread_def distinct_map_filter)

lemma tellSecondaries_inv: "reply_inv c \<Longrightarrow> reply_inv (tellSecondaries alive ks h c)"
proof (induction ks arbitrary: h c)
  case (Cons k ks)
  then show ?case
    by (auto simp: inv_simps discard_inv message_move_assign_def split: option.splits)
qed simp

lemma dispatchSpontaneous_inv: "reply_inv c \<Longrightarrow> reply_inv (dispatchSpontaneous alive msg c)"
  by (simp add: dispatchSpontaneous_def tellSecondaries_inv inv_simps)

lemma handleReceiveCompletion_inv:
  assumes inv: "reply_inv c" shows "reply_inv (handleReceiveCompletion alive c)"
proof (cases "c_receivingMessage c")
  case (Some msg)
  have inv1: "reply_inv (receiveNextMessage c)" using inv by (simp add: inv_simps)
  have inv2: "reply_inv (snd (maybeDispatchToPendingReply alive msg (HeapReply (Some msg)) (receiveNextMessage c)))"
    using maybeDispatch_inv [OF inv1] by simp
  with inv1 Some show ?thesis
    by (auto simp: handleReceiveCompletion_def Let_def handleHelloFailed_def conn_close_inv dispatchSpontaneous_inv
        split: prod.splits bool.splits)
qed (simp add: handleReceiveCompletion_def inv inv_simps)

lemma conn_handleCompletion_inv: "reply_inv c \<Longrightarrow> reply_inv (conn_handleCompletion alive task c)"
  by (simp add: conn_handleCompletion_def handleAuthCompletion_inv handleSendCompletion_inv
      handleReceiveCompletion_inv inv_simps split: connection_state.splits)

lemma processEvent_inv:
  assumes inv: "reply_inv c" shows "reply_inv (processEvent alive evt c)"
proof -
  have cancel: "reply_inv (cancelAllPendingReplies (conn_close alive) alive e (c\<lparr>c_mainThreadConnection := None\<rparr>))" for e
    using inv by (intro leads_inv [OF full.cancelAllPendingReplies_inv]) (simp add: inv_simps)
  have dispatch: "reply_inv (snd (maybeDispatchToPendingReply alive msg (EventReply h) c))" for msg h
    using maybeDispatch_inv [OF inv] by simp
  have err: "map_of (c_pendingReplies c) s = Some (ForReply p) \<Longrightarrow>
      reply_inv (handleError (conn_close alive) alive p e (erasePending s c))" for s p e
    using leads_inv [OF dispatchError_inv [OF inv]] by simp
  show ?thesis
    using inv cancel dispatch err
    by (cases evt) (auto simp: processEvent_def Let_def inv_simps emplaceConnection_inv reply_inv_erase discard_inv
        changeState_inv message_move_construct_def split: option.splits reply_record.splits)
qed

lemma processAuxEvents_inv: "reply_inv c \<Longrightarrow> reply_inv (processAuxEvents alive evts c)"
proof -
  have "reply_inv c \<Longrightarrow> reply_inv (fold (processAuxEvent alive) evts c)" for c
    by (induction evts arbitrary: c) (simp_all add: processAuxEvent_def processEvent_inv inv_simps)
  then show "reply_inv c \<Longrightarrow> reply_inv (processAuxEvents alive evts c)" by (simp add: processAuxEvents_def)
qed

lemma downstream_parts_inv:
  "reply_inv c \<Longrightarrow> downstream_read alive as c = Some (st, c') \<Longrightarrow> reply_inv c'"
  "reply_inv c \<Longrightarrow> downstream_write alive ws c = Some (st, c') \<Longrightarrow> reply_inv c'"
  "reply_inv c \<Longrightarrow> downstream_auth alive cs b c = Some (st, c') \<Longrightarrow> reply_inv c'"
  by (auto simp: downstream_read_def downstream_write_def downstream_auth_def inv_simps conn_handleCompletion_inv
      split: option.splits list.splits if_splits prod.splits)

lemma waitWhile_inv: "reply_inv c \<Longrightarrow> waitWhile alive state inps c = Some (inps', c') \<Longrightarrow> reply_inv c'"
proof (induction alive state inps c rule: waitWhile.induct)
  case (2 alive state inp inps c)
  from 2(2-3) show ?case
    by (auto split: if_splits option.splits io_input.splits
        intro: 2(1) downstream_parts_inv(1) [OF 2(2)] downstream_parts_inv(3) [OF 2(2)])
qed (auto split: if_splits)

lemma waitForConnectionEstablished_inv:
  assumes inv: "reply_inv c" and wait: "waitForConnectionEstablished alive inps c = Some c'"
  shows "reply_inv c'"
proof -
  consider (same) "c' = c"
    | (waited) inps1 c1 where "waitWhile alive Authenticating inps c = Some (inps1, c1)" "c' = c1 \<or> c' = c_undefined c1"
    | (written) inps1 c1 ws st c2 inps2 inps3 where "waitWhile alive Authenticating inps c = Some (inps1, c1)"
        "downstream_write alive ws c1 = Some (st, c2)" "waitWhile alive AwaitingUniqueName inps2 c2 = Some (inps3, c')"
    using wait
    by (auto simp: waitForConnectionEstablished_def split: if_splits option.splits prod.splits list.splits io_input.splits)
  then show ?thesis
  proof cases
    case same
    with inv show ?thesis by simp
  next
    case waited
    with waitWhile_inv [OF inv waited(1)] show ?thesis by (auto simp: reply_inv_undefined)
  next
    case written
    from waitWhile_inv [OF downstream_parts_inv(2) [OF waitWhile_inv [OF inv written(1)] written(2)] written(3)]
    show ?thesis .
  qed
qed

lemma downstream_inv:
  assumes inv: "reply_inv c" and io: "downstream_handleIoReady alive inp c = Some (st, c')"
  shows "reply_inv c'"
proof -
  note parts = downstream_parts_inv [where alive = alive and st = st and c' = c']
  have tr: "reply_inv (afterTransport b c)" for b
    using inv by (simp add: afterTransport_def inv_simps)
  show ?thesis
    using io inv parts(1) [OF tr] parts(3) [OF tr] parts(2)
    by (auto simp: downstream_handleIoReady_def handleClientConnected_def inv_simps changeState_inv
        split: downstream.splits io_input.splits if_splits)
qed

lemma conn_handleIoReady_inv:
  assumes inv: "reply_inv c" and io: "conn_handleIoReady alive inp c = Some (st, c')"
  shows "reply_inv c'"
proof -
  have after: "reply_inv c0 \<Longrightarrow> reply_inv (afterIo alive s c0)" for s c0
    using leads_inv [OF maybeDispatchError_inv]
    by (auto simp: afterIo_def conn_close_inv inv_simps split: list.splits)
  show ?thesis
    using io inv after downstream_inv [OF inv]
    by (auto simp: conn_handleIoReady_def inv_simps split: if_splits)
qed

lemma takeReply_inv: "reply_inv c \<Longrightarrow> reply_inv (snd (takeReply d c))"
  using takeReply_registry_ok [of d c "fst (takeReply d c)" "snd (takeReply d c)"]
    takeReply_hello(2) [of d c "fst (takeReply d c)" "snd (takeReply d c)"]
  by (simp add: reply_inv_def)

lemma reply_destroy_inv:
  "reply_inv c \<Longrightarrow> c_helloReceiver c \<noteq> Some p \<Longrightarrow> reply_inv (reply_destroy alive (Some p) c)"
  by (simp add: reply_inv_def registry_ok_destroy hello_ok_destroy)

lemma deleteFinished_inv:
  assumes inv: "reply_inv c" and r: "c_replies c p = Some r" "p_isFinished r"
  shows "reply_inv (deleteReply p c)"
proof -
  have fin: "p_link r \<noteq> Attached" using inv r by (auto simp: reply_inv_def registry_ok_def link_typed_def)
  have "registry_ok c" using inv by (simp add: reply_inv_def)
  from finished_not_registered [OF this r(1) fin] have "registry_ok (deleteReply p c)"
    by (intro registry_ok_delete \<open>registry_ok c\<close>) simp
  moreover have "hello_ok (deleteReply p c)"
    using inv r fin by (auto simp: reply_inv_def hello_ok_def hello_only_def deleteReply_def)
  ultimately show ?thesis by (simp add: reply_inv_def)
qed

subsection \<open>All calls\<close>

text \<open>
  \<open>CallMoveAssign owner d other\<close> is the assignment of a \<^verbatim>\<open>PendingReply\<close> with the private object \<open>other\<close> to one
  with \<open>d\<close> at the address \<open>owner\<close>.
\<close>

datatype conn_call =
    CallSend nat message int
  | CallSendNoReply message
  | CallClose
  | CallWait "io_input list"
  | CallSetSpontaneousReceiver bool
  | CallSetStateListener bool
  | CallSetDefaultTimeout int
  | CallCreateCommRef nat
  | CallDestroy
  | CallSetReceiver nat bool
  | CallSetCookie nat nat
  | CallTakeReply nat
  | CallDestroyReply nat
  | CallMoveAssign nat "nat option" "nat option"
  | CallTimer nat
  | CallIo io_input
  | CallEvents "event list"

fun conn_step :: "(nat \<Rightarrow> bool) \<Rightarrow> uint32 \<Rightarrow> conn_call \<Rightarrow> connection \<Rightarrow> connection" where
  "conn_step alive ms (CallSend owner m t) c = snd (conn_send alive ms owner m t c)"
| "conn_step alive ms (CallSendNoReply m) c = snd (sendNoReply alive ms m c)"
| "conn_step alive ms CallClose c = conn_close alive LocalDisconnect c"
| "conn_step alive ms (CallWait inps) c =
     (case waitForConnectionEstablished alive inps c of None \<Rightarrow> c | Some c' \<Rightarrow> c')"
| "conn_step alive ms (CallSetSpontaneousReceiver b) c = setSpontaneousMessageReceiver b c"
| "conn_step alive ms (CallSetStateListener b) c = setConnectionStateListener b c"
| "conn_step alive ms (CallSetDefaultTimeout t) c = setDefaultReplyTimeout t c"
| "conn_step alive ms (CallCreateCommRef commRef) c = createCommRef commRef c"
| "conn_step alive ms CallDestroy c = conn_destroy alive c"
| "conn_step alive ms (CallSetReceiver p b) c = setReceiver (Some p) (if b then ClientReceiver else NoReceiver) c"
| "conn_step alive ms (CallSetCookie p ck) c = setCookie (Some p) ck c"
| "conn_step alive ms (CallTakeReply p) c = snd (takeReply (Some p) c)"
| "conn_step alive ms (CallDestroyReply p) c = reply_destroy alive (Some p) c"
| "conn_step alive ms (CallMoveAssign owner d other) c = reply_move_assign owner d other c"
| "conn_step alive ms (CallTimer p) c = replyTimerFires alive p c"
| "conn_step alive ms (CallIo inp) c =
     (case conn_handleIoReady alive inp c of None \<Rightarrow> c | Some (st, c') \<Rightarrow> c')"
| "conn_step alive ms (CallEvents evts) c = processAuxEvents alive evts c"

text \<open>
  Clients do not get at the reply of the connection itself.  A reply that is assigned to must be finished, which
  the code does not require.  After its destructor, a connection is not called any more; its replies, their timers and
  the environment still are.
\<close>

fun is_connection_call :: "conn_call \<Rightarrow> bool" where
  "is_connection_call (CallSetReceiver p b) = False"
| "is_connection_call (CallSetCookie p ck) = False"
| "is_connection_call (CallTakeReply p) = False"
| "is_connection_call (CallDestroyReply p) = False"
| "is_connection_call (CallMoveAssign owner d other) = False"
| "is_connection_call (CallTimer p) = False"
| "is_connection_call (CallIo inp) = False"
| "is_connection_call (CallEvents evts) = False"
| "is_connection_call _ = True"

fun call_allowed :: "conn_call \<Rightarrow> connection \<Rightarrow> bool" where
  "call_allowed (CallSetReceiver p b) c = (c_helloReceiver c \<noteq> Some p)"
| "call_allowed (CallDestroyReply p) c = (c_helloReceiver c \<noteq> Some p)"
| "call_allowed (CallMoveAssign owner d other) c =
     (case d of None \<Rightarrow> True
      | Some p \<Rightarrow> (case c_replies c p of None \<Rightarrow> False | Some r \<Rightarrow> p_isFinished r))"
| "call_allowed call c = (is_connection_call call \<longrightarrow> \<not> c_destroyed c)"

lemma sendNoReply_inv: "reply_inv c \<Longrightarrow> reply_inv (snd (sendNoReply alive ms m c))"
proof -
  obtain e m1 c1 where prep: "prepareSend alive ms m c = (e, m1, c1)" by (metis prod_cases3)
  have "reply_inv c \<Longrightarrow> reply_inv c1" using reply_inv_cong [OF registry_prepareSend [OF prep]] by simp
  then show "reply_inv c \<Longrightarrow> reply_inv (snd (sendNoReply alive ms m c))"
    unfolding sendNoReply_def prep by (auto simp: inv_simps split: option.splits)
qed

lemma reply_owned_inv: "reply_inv c \<Longrightarrow> reply_inv (reply_owned owner d c)"
  by (simp add: reply_owned_def updateReply_same_inv split: option.splits)

lemma setters_inv:
  "reply_inv (setSpontaneousMessageReceiver b c) = reply_inv c" "reply_inv (setConnectionStateListener b c) = reply_inv c"
  "reply_inv (setDefaultReplyTimeout t c) = reply_inv c" "reply_inv (createCommRef commRef c) = reply_inv c"
  by (rule reply_inv_cong, simp add: setSpontaneousMessageReceiver_def setConnectionStateListener_def
      setDefaultReplyTimeout_def createCommRef_def registry_def finished_notes_def)+

lemma conn_destroy_inv:
  assumes "reply_inv c" shows "reply_inv (conn_destroy alive c)"
proof -
  let ?c = "(closeTransport (conn_close alive LocalDisconnect c))\<lparr>c_transport := None, c_authClient := None\<rparr>"
  have "reply_inv ?c" using assms by (simp add: conn_close_inv inv_simps)
  then have "reply_inv (deleteHelloReceiver alive ?c)"
    by (intro deleteHelloReceiver_inv) (simp_all add: reply_inv_def hello_ok_def)
  moreover have "reply_inv (x\<lparr>c_receivingMessage := None, c_destroyed := True\<rparr>) = reply_inv x" for x
    by (rule reply_inv_cong) (simp add: registry_def finished_notes_def)
  ultimately show ?thesis by (simp add: conn_destroy_def)
qed

lemma conn_step_inv:
  assumes inv: "reply_inv c" and "call_allowed call c"
  shows "reply_inv (conn_step alive ms call c)"
proof (cases call)
  case (CallSetReceiver p b)
  have "leads c (updateReply p (\<lambda>r. r\<lparr>p_receiver := (if b then ClientReceiver else NoReceiver)\<rparr>) c)"
    using assms CallSetReceiver by (intro updateReply_leads) (auto simp: link_typed_def answered_def)
  with CallSetReceiver show ?thesis by (simp add: setReceiver_def leads_def)
next
  case (CallMoveAssign owner d other)
  with assms show ?thesis
    by (auto simp: reply_move_assign_def reply_owned_inv deleteFinished_inv split: option.splits)
next
  case (CallIo inp)
  with inv conn_handleIoReady_inv [OF inv] show ?thesis by (auto split: option.splits)
next
  case (CallWait inps)
  with inv waitForConnectionEstablished_inv [OF inv] show ?thesis by (auto split: option.splits)
qed (use assms leads_inv [OF replyTimerFires_inv [OF inv]] in
    \<open>simp_all add: conn_send_inv sendNoReply_inv conn_close_inv takeReply_inv reply_destroy_inv processAuxEvents_inv
       setCookie_def updateReply_same_inv setters_inv conn_destroy_inv\<close>)

subsection \<open>Reachable states\<close>

inductive conn_reachable :: "connection \<Rightarrow> bool" where
  opened: "conn_reachable (conn_open ca listening opened (ConnectionPrivate k junk dup uid fds))"
| secondary: "conn_reachable (conn_open_secondary alive main commRef address (ConnectionPrivate k junk dup uid fds))"
| accepted: "conn_reachable (conn_open_accepted isOpen address (ConnectionPrivate k junk dup uid fds))"
| called: "conn_reachable c \<Longrightarrow> call_allowed call c \<Longrightarrow> conn_reachable (conn_step alive ms call c)"

lemma reply_inv_start:
  "c_pendingReplies c = [] \<Longrightarrow> c_replies c = Map.empty \<Longrightarrow> c_notes c = [] \<Longrightarrow> c_helloReceiver c = None \<Longrightarrow> reply_inv c"
  by (simp add: reply_inv_def registry_ok_def registered_def hello_ok_def hello_only_def finished_notes_def)

lemmas conn_open_defs = conn_open_def conn_open_secondary_def conn_open_accepted_def ConnectionPrivate_def
  changeState_def setNewState_def endStateChange_def notifyStateChange_def startAuthentication_def takeSerial_def
  receiveNextMessage_def c_undefined_def queueEvent_def

lemma reachable_inv: "conn_reachable c \<Longrightarrow> reply_inv c"
proof (induction rule: conn_reachable.induct)
  case (opened ca listening opened k junk dup uid fds)
  show ?case by (rule reply_inv_start) (auto simp: conn_open_defs Let_def split: prod.splits)
next
  case (secondary alive main commRef address k junk dup uid fds)
  show ?case by (rule reply_inv_start) (auto simp: conn_open_defs Let_def)
next
  case (accepted isOpen address k junk dup uid fds)
  show ?case by (rule reply_inv_start) (auto simp: conn_open_defs)
next
  case (called c call alive ms)
  then show ?case by (simp add: conn_step_inv)
qed

text \<open>C13: The union of connection and reply in a pending reply has the type its flag says: whatever calls, events,
  messages and timeouts a connection goes through, an existing reply refers to a connection exactly as long as it
  is not finished, and to a reply message or nothing from then on.\<close>

theorem reply_union_typed:
  assumes "conn_reachable c" and "c_replies c p = Some r"
  shows "p_link r = Attached \<longleftrightarrow> \<not> p_isFinished r"
  using reachable_inv [OF assms(1)] assms(2) by (simp add: reply_inv_def registry_ok_def link_typed_def)

definition example_peer :: connection where
  "example_peer = conn_open (ConnectAddress\<lparr>ca_addrType := Tcp, ca_role := PeerClient\<rparr>) False (Some True)
     (ConnectionPrivate 1 (\<lambda>_. 0) (\<lambda>n. n + 100) 1000 1)"

definition example_call :: message where
  "example_call = (Message (\<lambda>_. 0))\<lparr>m_messageType := MethodCallMessage, m_state := Serialized, m_dirty := False,
     m_serial := 7, m_buffer := [108, 1, 2, 3]\<rparr>"

lemma example_peer_reachable: "conn_reachable example_peer"
  unfolding example_peer_def by (rule conn_reachable.opened)

lemma example_peer_alive: "\<not> c_destroyed example_peer"
  by code_simp

lemma example_reply_reachable:
  "conn_reachable (conn_step alive ms (CallTimer 0) (conn_step alive ms (CallSend 5 example_call 100) example_peer))"
  by (intro conn_reachable.called example_peer_reachable) (simp_all add: example_peer_alive)

theorem reply_union_typed_witness:
  "(case c_replies (conn_step (\<lambda>_. True) 0 (CallTimer 0)
      (conn_step (\<lambda>_. True) 0 (CallSend 5 example_call 100) example_peer)) 0 of
     None \<Rightarrow> True | Some r \<Rightarrow> p_link r = Attached \<longleftrightarrow> \<not> p_isFinished r)"
  using reply_union_typed [OF example_reply_reachable] by (simp split: option.split)

text \<open>C6: The records of the connection are exact: every serial has one record, and a record for a reply of the
  connection itself leads to a reply that exists, has this serial, and waits.  So an answer, an error or the closing
  of the connection never reaches a deleted or finished reply through them.\<close>

theorem records_lead_to_waiting_replies:
  assumes "conn_reachable c"
  shows "distinct (map fst (c_pendingReplies c)) \<and>
    list_all (\<lambda>(s, rec). case rec of ForConnection k \<Rightarrow> True
      | ForReply p \<Rightarrow> (case c_replies c p of None \<Rightarrow> False
          | Some r \<Rightarrow> p_serial r = s \<and> \<not> p_isFinished r \<and> p_link r = Attached)) (c_pendingReplies c)"
proof -
  have ok: "registry_ok c" using reachable_inv [OF assms] by (simp add: reply_inv_def)
  then show ?thesis
    using registered_reply [OF ok]
    by (fastforce simp: list_all_iff registered_def registry_ok_def link_typed_def split: reply_record.splits option.splits)
qed

theorem records_lead_to_waiting_replies_witness:
  "distinct (map fst (c_pendingReplies (conn_step (\<lambda>_. True) 0 (CallTimer 0)
      (conn_step (\<lambda>_. True) 0 (CallSend 5 example_call 100) example_peer))))"
  using records_lead_to_waiting_replies [OF example_reply_reachable] by blast

text \<open>C14: No reply is reported finished twice, none that is reported is still waiting, and a reply that holds its
  answer has no running timer that could report it again.\<close>

theorem finished_at_most_once:
  assumes "conn_reachable c"
  shows "distinct (finished_notes c) \<and>
    list_all (\<lambda>p. case c_replies c p of None \<Rightarrow> True | Some r \<Rightarrow> p_isFinished r) (finished_notes c) \<and>
    (case c_replies c p of None \<Rightarrow> True
     | Some r \<Rightarrow> p_link r = Attached \<or> p_link r = NoReply \<or> t_isRunning (p_replyTimeout r) = False)"
  using reachable_inv [OF assms]
  by (auto simp: reply_inv_def registry_ok_def link_typed_def answered_def list_all_iff split: option.splits)

theorem finished_at_most_once_witness:
  "distinct (finished_notes (conn_step (\<lambda>_. True) 0 (CallTimer 0)
      (conn_step (\<lambda>_. True) 0 (CallSend 5 example_call 100) example_peer)))"
  using finished_at_most_once [OF example_reply_reachable] by blast

end
