(* ===== verification/Connection_Effects.thy ===== *)
theory Connection_Effects
  imports Connection_Calls
begin

text \<open>
  What the important operations of a connection do: closing finishes every reply, answers reach the reply of
  their serial, messages leave the queue in order; and on which ways the code goes wrong.
\<close>

subsection \<open>Closing\<close>

definition failed_with :: "error_code \<Rightarrow> pending_reply \<Rightarrow> pending_reply" where
  "failed_with e r = r\<lparr>p_error := (if isError (p_error r) then p_error r else e), p_isFinished := True, p_link := NoReply\<rparr>"

text \<open>What becomes of a waiting reply; the connection's own one is deleted with its receiver.\<close>

definition reply_failed :: "error_code \<Rightarrow> pending_reply \<Rightarrow> pending_reply option" where
  "reply_failed e r = (if p_receiver r = HelloReceiver then None else Some (failed_with e r))"

definition client_note :: "nat \<Rightarrow> pending_reply \<Rightarrow> nat list" where
  "client_note p r = (if p_receiver r = ClientReceiver then [p] else [])"

definition same_rest :: "connection \<Rightarrow> connection \<Rightarrow> bool" where
  "same_rest c c' \<longleftrightarrow> c_closing c' = c_closing c \<and> c_destroyed c' = c_destroyed c \<and> c_fault c' = c_fault c \<and>
     c_state c' = c_state c \<and> c_transport c' = c_transport c \<and> c_pendingReplies c' = c_pendingReplies c"

lemma deleteHelloReceiver_failed:
  assumes "c_helloReceiver c = Some p" and "c_replies c p = Some r" and "p_isFinished r" and "p_link r = NoReply"
  shows "deleteHelloReceiver alive c = c\<lparr>c_replies := (c_replies c)(p := None), c_helloReceiver := None\<rparr>"
  using assms by (simp add: deleteHelloReceiver_def reply_destroy_def deleteReply_def)

lemma handleError_again:
  fixes al :: "nat \<Rightarrow> bool"
  assumes inv: "reply_inv c" and r: "c_replies c p = Some r" "p_link r = Attached"
    and closing: "c_closing c" and alive: "\<not> c_destroyed c" and e: "isError e"
  defines "c' \<equiv> handleError closeAgain al p e c"
  shows "same_rest c c'" and "c_replies c' = (c_replies c)(p := reply_failed e r)"
    and "finished_notes c' = finished_notes c @ client_note p r"
proof -
  let ?f = "\<lambda>r. r\<lparr>p_error := (if isError (p_error r) then p_error r else e), p_isFinished := True, p_link := NoReply\<rparr>"
  let ?c1 = "c\<lparr>c_replies := (c_replies c)(p := Some (failed_with e r))\<rparr>"
  have c1: "updateReply p ?f c = ?c1" using r by (simp add: updateReply_def failed_with_def)
  have call: "c' = (case p_receiver r of NoReceiver \<Rightarrow> ?c1 | ClientReceiver \<Rightarrow> c_note (FinishedNote p) ?c1
     | HelloReceiver \<Rightarrow> handleHelloReply closeAgain al ?c1)"
    unfolding c'_def handleError_def using r alive
    by (simp add: c1 finishedCallback_def) (simp add: failed_with_def)
  have "same_rest c c' \<and> c_replies c' = (c_replies c)(p := reply_failed e r) \<and>
      finished_notes c' = finished_notes c @ client_note p r"
  proof (cases "p_receiver r")
    case HelloReceiver
    with inv r have h: "c_helloReceiver c = Some p" by (auto simp: reply_inv_def hello_ok_def hello_only_def)
    have "isError (p_error (failed_with e r))" using e by (simp add: failed_with_def)
    then have no: "hasNonErrorReply (Some p) ?c1 \<noteq> Some True" by (simp add: hasNonErrorReply_def)
    have del: "deleteHelloReceiver al ?c1 = ?c1\<lparr>c_replies := (c_replies c)(p := None), c_helloReceiver := None\<rparr>"
      using h by (simp add: deleteHelloReceiver_failed [of _ p "failed_with e r"] failed_with_def)
    have "handleHelloReply closeAgain al ?c1 = closeAgain RemoteDisconnect (deleteHelloReceiver al ?c1)"
      using h no by (simp add: handleHelloReply_def)
    with call HelloReceiver closing del show ?thesis
      by (simp add: closeAgain_def same_rest_def reply_failed_def client_note_def finished_notes_def)
  qed (simp_all add: call same_rest_def c_note_def reply_failed_def client_note_def finished_notes_def)
  then show "same_rest c c'" and "c_replies c' = (c_replies c)(p := reply_failed e r)"
    and "finished_notes c' = finished_notes c @ client_note p r" by blast+
qed

text \<open>The replies of a list of records, in order.\<close>

fun notes_for :: "(nat \<Rightarrow> pending_reply option) \<Rightarrow> (uint32 \<times> reply_record) list \<Rightarrow> nat list" where
  "notes_for R [] = []"
| "notes_for R ((s, ForReply p) # rs) = (case R p of None \<Rightarrow> [] | Some r \<Rightarrow> client_note p r) @ notes_for R rs"
| "notes_for R ((s, ForConnection k) # rs) = notes_for R rs"

lemma notes_for_cong:
  "(\<And>s p. (s, ForReply p) \<in> set rs \<Longrightarrow> R p = R' p) \<Longrightarrow> notes_for R rs = notes_for R' rs"
proof (induction R rs rule: notes_for.induct)
  case (2 R s p rs)
  have "R p = R' p" by (rule 2(2) [of s p]) simp
  moreover have "R p' = R' p'" if "(s', ForReply p') \<in> set rs" for s' p'
    by (rule 2(2) [of s' p']) (simp add: that)
  then have "notes_for R rs = notes_for R' rs" by (rule 2(1))
  ultimately show ?case by simp
qed simp_all

lemma cancelReplies_again:
  fixes al :: "nat \<Rightarrow> bool"
  assumes "reply_inv c" and "c_pendingReplies c = rs" and "c_closing c" and "\<not> c_destroyed c" and "isError e"
  defines "c' \<equiv> cancelReplies closeAgain al e rs c"
  shows "c_pendingReplies c' = [] \<and> c_closing c' = c_closing c \<and> c_destroyed c' = c_destroyed c \<and> c_fault c' = c_fault c \<and>
    c_state c' = c_state c \<and> c_transport c' = c_transport c \<and>
    (\<forall>p. c_replies c' p = (case c_replies c p of None \<Rightarrow> None
       | Some r \<Rightarrow> if \<exists>s. (s, ForReply p) \<in> set rs then reply_failed e r else Some r)) \<and>
    finished_notes c' = finished_notes c @ notes_for (c_replies c) rs"
  unfolding c'_def using assms(1-4)
proof (induction rs arbitrary: c)
  case Nil
  then show ?case by (auto split: option.split)
next
  case (Cons x rs)
  obtain s rec where x: "x = (s, rec)" by fastforce
  let ?c1 = "erasePending s c"
  have ok: "registry_ok c" using Cons.prems by (simp add: reply_inv_def)
  have inv1: "reply_inv ?c1" using Cons.prems reply_inv_erase by simp
  have dist: "s \<notin> fst ` set rs" "distinct (map fst rs)" using ok Cons.prems(2) x by (simp_all add: registry_ok_def)
  have "filter (\<lambda>x. fst x \<noteq> s) rs = rs" using dist(1) by (intro filter_True) force
  then have rs: "c_pendingReplies ?c1 = rs"
    using Cons.prems(2) x by (simp add: erasePending_def)
  have c1: "c_closing ?c1" "\<not> c_destroyed ?c1" "c_replies ?c1 = c_replies c" "c_fault ?c1 = c_fault c"
    "c_state ?c1 = c_state c" "c_transport ?c1 = c_transport c" "finished_notes ?c1 = finished_notes c"
    using Cons.prems by (simp_all add: erasePending_def)
  show ?case
  proof (cases rec)
    case (ForConnection k)
    with Cons.IH [OF inv1 rs c1(1,2)] Cons.prems(3,4) x c1 show ?thesis
      by (simp add: Let_def) (auto split: option.split)
  next
    case (ForReply p)
    from registered_reply [OF ok, of s p] Cons.prems(2) x ForReply
    obtain r where r: "c_replies c p = Some r" "p_link r = Attached" "p_serial r = s"
      by (auto simp: registered_def)
    let ?c2 = "handleError closeAgain al p e ?c1"
    have r1: "c_replies ?c1 p = Some r" using r c1 by simp
    note step = handleError_again [OF inv1 r1 r(2) c1(1,2) assms(5), of al]
    have "leads ?c1 ?c2"
      using r c1 not_registered_erased by (intro again.handleError_inv inv1) (auto simp: answered_def)
    then have inv2: "reply_inv ?c2" by (simp add: leads_def)
    have c2: "c_pendingReplies ?c2 = rs" "c_closing ?c2" "\<not> c_destroyed ?c2"
      using step(1) rs c1 by (simp_all add: same_rest_def)
    have other: "(s', ForReply p) \<notin> set rs" for s'
    proof
      assume "(s', ForReply p) \<in> set rs"
      with registered_reply [OF ok, of s' p] Cons.prems(2) r have "s' = s" by (auto simp: registered_def)
      with \<open>(s', ForReply p) \<in> set rs\<close> dist show False by force
    qed
    have same: "notes_for (c_replies ?c2) rs = notes_for (c_replies c) rs"
      using step(2) c1 other by (intro notes_for_cong) auto
    let ?c3 = "cancelReplies closeAgain al e rs ?c2"
    have ih: "\<forall>q. c_replies ?c3 q = (case c_replies ?c2 q of None \<Rightarrow> None
        | Some r \<Rightarrow> if \<exists>s. (s, ForReply q) \<in> set rs then reply_failed e r else Some r)"
      "finished_notes ?c3 = finished_notes ?c2 @ notes_for (c_replies ?c2) rs"
      "c_pendingReplies ?c3 = [] \<and> c_closing ?c3 = c_closing ?c2 \<and> c_destroyed ?c3 = c_destroyed ?c2 \<and>
        c_fault ?c3 = c_fault ?c2 \<and> c_state ?c3 = c_state ?c2 \<and> c_transport ?c3 = c_transport ?c2"
      using Cons.IH [OF inv2 c2] by blast+
    have "c_replies ?c3 q = (case c_replies c q of None \<Rightarrow> None
        | Some r \<Rightarrow> if \<exists>s. (s, ForReply q) \<in> set (x # rs) then reply_failed e r else Some r)" for q
    proof (cases "q = p")
      case True
      with ih(1) step(2) other r have "c_replies ?c3 q = reply_failed e r"
        by (simp split: option.split)
      moreover have "(s, ForReply q) \<in> set (x # rs)" using True x ForReply by simp
      ultimately show ?thesis using r True by auto
    next
      case False
      with ih(1) step(2) c1 have "c_replies ?c3 q = (case c_replies c q of None \<Rightarrow> None
        | Some r \<Rightarrow> if \<exists>s. (s, ForReply q) \<in> set rs then reply_failed e r else Some r)" by simp
      moreover have "(\<exists>s. (s, ForReply q) \<in> set (x # rs)) = (\<exists>s. (s, ForReply q) \<in> set rs)"
        using False x ForReply by auto
      ultimately show ?thesis by (simp only:)
    qed
    moreover have "finished_notes ?c3 = finished_notes c @ notes_for (c_replies c) (x # rs)"
      using ih(2) step(3) c1 r same x ForReply by simp
    moreover have "cancelReplies closeAgain al e (x # rs) c = ?c3" by (simp add: x ForReply Let_def)
    ultimately show ?thesis using ih(3) step(1) c1 Cons.prems(3,4) by (simp add: same_rest_def)
  qed
qed

lemma close_fails:
  assumes "conn_reachable c" and "\<not> c_closing c" and "\<not> c_destroyed c" and "isError e"
  shows "(let c' = conn_close alive e c in
    c_pendingReplies c' = [] \<and> c_sendQueue c' = [] \<and> c_state c' = Unconnected \<and> c_transport c' \<noteq> Some True \<and>
    c_fault c' = c_fault c \<and>
    finished_notes c' = finished_notes c @ notes_for (c_replies c) (c_pendingReplies c) \<and>
    c_replies c' = (\<lambda>p. case c_replies c p of None \<Rightarrow> None
      | Some r \<Rightarrow> if (p_serial r, ForReply p) \<in> set (c_pendingReplies c) then reply_failed e r else Some r))"
proof -
  have inv: "reply_inv c" using reachable_inv [OF assms(1)] .
  define c3 where "c3 = (let c1 = c\<lparr>c_closing := True\<rparr>;
      c2 = (case c_mainThreadConnection c1 of None \<Rightarrow> c1
            | Some k \<Rightarrow> if alive k then queueEvent k (SecondaryConnectionDisconnectEvent (c_id c1)) c1 else c1)
    in (queueEvents (filter alive (c_secondaryThreadLinks c2)) (MainConnectionDisconnectEvent e) c2)
         \<lparr>c_secondaryThreadLinks := []\<rparr>)"
  have reg: "registry c3 = registry c"
    by (simp add: c3_def Let_def registry_frame split: option.splits)
  have c3: "c_closing c3" "c_destroyed c3 = c_destroyed c" "c_fault c3 = c_fault c" "c_replies c3 = c_replies c"
    "c_pendingReplies c3 = c_pendingReplies c" "finished_notes c3 = finished_notes c"
    using reg by (simp_all add: c3_def Let_def queueEvent_def queueEvents_def registry_def split: option.splits)
  define c4 where "c4 = cancelReplies closeAgain alive e (c_pendingReplies c3) c3"
  have close: "conn_close alive e c =
      changeState Unconnected (closeTransport (c4\<lparr>c_sendQueue := [], c_connectionToNotify := False\<rparr>))"
    using assms(2) by (simp add: conn_close_def cancelAllPendingReplies_def c3_def c4_def Let_def)
  have inv3: "reply_inv c3" using inv reply_inv_cong [OF reg] by simp
  have c4: "c_pendingReplies c4 = [] \<and> c_fault c4 = c_fault c \<and>
      (\<forall>p. c_replies c4 p = (case c_replies c p of None \<Rightarrow> None
         | Some r \<Rightarrow> if \<exists>s. (s, ForReply p) \<in> set (c_pendingReplies c) then reply_failed e r else Some r)) \<and>
      finished_notes c4 = finished_notes c @ notes_for (c_replies c) (c_pendingReplies c)"
    using cancelReplies_again [OF inv3 c3(5) c3(1) _ assms(4), of alive] assms(3) c3
    unfolding c4_def c3(5) by simp
  have serial: "(\<exists>s. (s, ForReply p) \<in> set (c_pendingReplies c)) = ((p_serial r, ForReply p) \<in> set (c_pendingReplies c))"
    if "c_replies c p = Some r" for p r
    using registered_reply [of c _ p] inv that by (auto simp: reply_inv_def registered_def)
  have frame: "c_pendingReplies (changeState Unconnected (closeTransport x)) = c_pendingReplies x \<and>
      c_sendQueue (changeState Unconnected (closeTransport x)) = c_sendQueue x \<and>
      c_fault (changeState Unconnected (closeTransport x)) = c_fault x \<and>
      c_state (changeState Unconnected (closeTransport x)) = Unconnected \<and>
      c_transport (changeState Unconnected (closeTransport x)) \<noteq> Some True \<and>
      c_replies (changeState Unconnected (closeTransport x)) = c_replies x \<and>
      finished_notes (changeState Unconnected (closeTransport x)) = finished_notes x" for x
    by (simp add: changeState_def setNewState_def endStateChange_def notifyStateChange_def c_note_def closeTransport_def
        finished_notes_def split: option.splits)
  have "c_replies c4 = (\<lambda>p. case c_replies c p of None \<Rightarrow> None
      | Some r \<Rightarrow> if (p_serial r, ForReply p) \<in> set (c_pendingReplies c) then reply_failed e r else Some r)"
    using c4 serial by (auto simp: fun_eq_iff split: option.splits)
  then show ?thesis
    using c4 unfolding close Let_def by (simp add: frame) (simp add: finished_notes_def)
qed

text \<open>C20: Closing a connection fails every reply that waits through it: each is marked finished with the given error,
  unless it already has one of its own, the replies of clients are reported once, in the order of the records, and
  the connection's own one is deleted.  No record and no message in the queue is left, the transport is closed, and
  the connection is unconnected.\<close>

theorem close_fails_every_reply:
  assumes "conn_reachable c" and "\<not> c_closing c" and "\<not> c_destroyed c" and "isError e"
  shows "(let c' = conn_close alive e c in
    c_pendingReplies c' = [] \<and> c_sendQueue c' = [] \<and> c_state c' = Unconnected \<and> c_transport c' \<noteq> Some True \<and>
    c_fault c' = c_fault c \<and>
    finished_notes c' = finished_notes c @ notes_for (c_replies c) (c_pendingReplies c) \<and>
    c_replies c' = (\<lambda>p. case c_replies c p of None \<Rightarrow> None
      | Some r \<Rightarrow> if (p_serial r, ForReply p) \<in> set (c_pendingReplies c) then reply_failed e r else Some r))"
  using close_fails [OF assms, of alive] .

definition example_waiting :: connection where
  "example_waiting = conn_step (\<lambda>_. True) 0 (CallSetReceiver 0 True)
     (conn_step (\<lambda>_. True) 0 (CallSend 5 example_call 100) example_peer)"

lemma example_waiting_facts:
  "\<not> c_closing example_waiting \<and> \<not> c_destroyed example_waiting \<and> \<not> c_fault example_waiting \<and>
   c_helloReceiver example_waiting = None \<and> c_state example_waiting = Connected \<and>
   c_pendingReplies example_waiting = [(7, ForReply 0)] \<and> c_transport example_waiting = Some True"
  by code_simp

lemma example_waiting_reply:
  "\<exists>r. c_replies example_waiting 0 = Some r \<and> p_link r = Attached \<and> p_receiver r = ClientReceiver \<and> p_serial r = 7 \<and>
     p_error r = NoError \<and> t_isRunning (p_replyTimeout r) \<and> t_hasListener (p_replyTimeout r)"
proof -
  have "(case c_replies example_waiting 0 of None \<Rightarrow> False
     | Some r \<Rightarrow> (case p_link r of Attached \<Rightarrow> True | _ \<Rightarrow> False) \<and> p_receiver r = ClientReceiver \<and> p_serial r = 7 \<and>
         p_error r = NoError \<and> t_isRunning (p_replyTimeout r) \<and> t_hasListener (p_replyTimeout r))"
    by code_simp
  then show ?thesis by (auto split: option.splits connection_or_reply.splits)
qed

lemma example_waiting_reachable: "conn_reachable example_waiting"
  unfolding example_waiting_def
proof (rule conn_reachable.called)
  show "conn_reachable (conn_step (\<lambda>_. True) 0 (CallSend 5 example_call 100) example_peer)"
    by (rule conn_reachable.called [OF example_peer_reachable]) (simp add: example_peer_alive)
  show "call_allowed (CallSetReceiver 0 True) (conn_step (\<lambda>_. True) 0 (CallSend 5 example_call 100) example_peer)"
    by code_simp
qed

theorem close_fails_every_reply_witness:
  "finished_notes (conn_close (\<lambda>_. True) LocalDisconnect example_waiting) = finished_notes example_waiting @ [0] \<and>
   map_option p_error (c_replies (conn_close (\<lambda>_. True) LocalDisconnect example_waiting) 0) = Some LocalDisconnect"
proof -
  have "isError LocalDisconnect" by (simp add: isError_def)
  note c = close_fails_every_reply [OF example_waiting_reachable _ _ this, of "\<lambda>_. True"]
  from example_waiting_reply obtain r where "c_replies example_waiting 0 = Some r" "p_receiver r = ClientReceiver"
    "p_serial r = 7" "p_error r = NoError" by blast
  with c example_waiting_facts show ?thesis
    by (simp add: Let_def client_note_def reply_failed_def failed_with_def isError_def)
qed

subsection \<open>Answers\<close>

text \<open>C19: An answer reaches exactly the reply of its serial: when a message that is a return or an error arrives
  whose reply serial has the record of a reply of this connection, that reply is finished with the message, its timer
  is stopped, its receiver is told, the record is gone; all other replies and records stay, nothing else is told
  anybody, the connection goes on to receive, and \<^verbatim>\<open>takeReply\<close> gives the message.\<close>

theorem answer_reaches_its_reply:
  assumes "conn_reachable c" and "c_state c = Connected" and "c_transport c \<noteq> None"
    and "m_messageType msg = MethodReturnMessage \<or> m_messageType msg = ErrorMessage"
    and "(replySerial msg, ForReply p) \<in> set (c_pendingReplies c)"
    and "c_replies c p = Some r" and "p_receiver r \<noteq> HelloReceiver"
  shows "(let c' = conn_handleCompletion alive ReceiveTask (c\<lparr>c_receivingMessage := Some msg\<rparr>) in
    c' = c\<lparr>c_receivingMessage := Some (receive (Message (c_junk c))),
           c_pendingReplies := filter (\<lambda>x. fst x \<noteq> replySerial msg) (c_pendingReplies c),
           c_replies := (c_replies c)(p := Some (r\<lparr>p_isFinished := True, p_link := HeapReply (Some msg),
              p_replyTimeout := (p_replyTimeout r)\<lparr>t_isRunning := False\<rparr>\<rparr>)),
           c_notes := c_notes c @ map FinishedNote (client_note p r)\<rparr> \<and>
    fst (takeReply (Some p) c') = Some (Some msg))"
proof -
  have ok: "registry_ok c" using reachable_inv [OF assms(1)] by (simp add: reply_inv_def)
  have dist: "distinct (map fst (c_pendingReplies c))" using ok by (simp add: registry_ok_def)
  have look: "map_of (c_pendingReplies c) (replySerial msg) = Some (ForReply p)"
    using dist assms(5) by simp
  have att: "p_link r = Attached"
    using registered_reply [OF ok, of "replySerial msg" p] assms(5,6) by (auto simp: registered_def)
  define c0 where "c0 = c\<lparr>c_receivingMessage := Some msg\<rparr>"
  have c0: "c_state c0 = Connected" "c_receivingMessage c0 = Some msg" using assms(2) by (simp_all add: c0_def)
  let ?c = "conn_handleCompletion alive ReceiveTask c0"
  have c': "?c = c\<lparr>c_receivingMessage := Some (receive (Message (c_junk c))),
           c_pendingReplies := filter (\<lambda>x. fst x \<noteq> replySerial msg) (c_pendingReplies c),
           c_replies := (c_replies c)(p := Some (r\<lparr>p_isFinished := True, p_link := HeapReply (Some msg),
              p_replyTimeout := (p_replyTimeout r)\<lparr>t_isRunning := False\<rparr>\<rparr>)),
           c_notes := c_notes c @ map FinishedNote (client_note p r)\<rparr>"
  proof -
    define c1 where "c1 = c\<lparr>c_receivingMessage := Some (receive (Message (c_junk c)))\<rparr>"
    define c2 where "c2 = c1\<lparr>c_pendingReplies := filter (\<lambda>x. fst x \<noteq> replySerial msg) (c_pendingReplies c)\<rparr>"
    define r' where "r' = r\<lparr>p_isFinished := True, p_link := HeapReply (Some msg),
              p_replyTimeout := (p_replyTimeout r)\<lparr>t_isRunning := False\<rparr>\<rparr>"
    define c3 where "c3 = c2\<lparr>c_replies := (c_replies c)(p := Some r')\<rparr>"
    have next_message: "receiveNextMessage c0 = c1"
      using assms(3) by (cases "c_transport c") (simp_all add: receiveNextMessage_def c1_def c0_def)
    have erase: "erasePending (replySerial msg) c1 = c2" by (simp add: erasePending_def c1_def c2_def)
    have pend: "c_pendingReplies c1 = c_pendingReplies c" by (simp add: c1_def)
    have type: "m_messageType msg \<noteq> InvalidMessage" using assms(4) by (auto simp: message_type_defs)
    have dispatch: "maybeDispatchToPendingReply alive msg (HeapReply (Some msg)) c1 =
        (True, handleReceived (conn_close alive) alive p (HeapReply (Some msg)) c2)"
      using look assms(4) by (auto simp: maybeDispatchToPendingReply_def erase pend)
    have reply: "c_replies c2 p = Some r" "c_replies c2 = c_replies c" using assms(6) by (simp_all add: c2_def c1_def)
    have update: "handleReceived (conn_close alive) alive p (HeapReply (Some msg)) c2 = finishedCallback (conn_close alive) alive p c3"
      using att by (simp add: handleReceived_def reply assms(6) updateReply_def c3_def r'_def)
    have "p_receiver r' = p_receiver r" "c_replies c3 p = Some r'" by (simp_all add: r'_def c3_def)
    with assms(7) have "finishedCallback (conn_close alive) alive p c3 = c3\<lparr>c_notes := c_notes c @ map FinishedNote (client_note p r)\<rparr>"
      by (cases "p_receiver r") (simp_all add: finishedCallback_def client_note_def c_note_def c3_def c2_def c1_def)
    then show ?thesis
      using c0 type
      by (simp add: conn_handleCompletion_def handleReceiveCompletion_def next_message dispatch update)
        (simp add: c3_def c2_def c1_def r'_def)
  qed
  then have "c_replies ?c p = Some (r\<lparr>p_isFinished := True, p_link := HeapReply (Some msg),
              p_replyTimeout := (p_replyTimeout r)\<lparr>t_isRunning := False\<rparr>\<rparr>)" by simp
  then have "fst (takeReply (Some p) ?c) = Some (Some msg)" by (simp add: takeReply_def)
  with c' show ?thesis by (simp add: Let_def c0_def)
qed

definition example_answer :: message where
  "example_answer = setReplySerial 7 ((Message (\<lambda>_. 0))\<lparr>m_messageType := MethodReturnMessage\<rparr>)"

theorem answer_reaches_its_reply_witness:
  "fst (takeReply (Some 0) (conn_handleCompletion (\<lambda>_. True) ReceiveTask
     (example_waiting\<lparr>c_receivingMessage := Some example_answer\<rparr>))) = Some (Some example_answer)"
proof -
  from example_waiting_reply obtain r where r: "c_replies example_waiting 0 = Some r" "p_receiver r = ClientReceiver"
    by blast
  have serial: "replySerial example_answer = 7" by code_simp
  have "m_messageType example_answer = MethodReturnMessage" by code_simp
  with r example_waiting_facts serial
  have "c_state example_waiting = Connected" "c_transport example_waiting \<noteq> None"
    "m_messageType example_answer = MethodReturnMessage \<or> m_messageType example_answer = ErrorMessage"
    "(replySerial example_answer, ForReply 0) \<in> set (c_pendingReplies example_waiting)" "p_receiver r \<noteq> HelloReceiver"
    by simp_all
  from answer_reaches_its_reply [OF example_waiting_reachable this(1-4) r(1) this(5), of "\<lambda>_. True"]
  show ?thesis unfolding Let_def by (rule conjunct2)
qed

subsection \<open>Errors\<close>

text \<open>C39: A reply that was failed by the closing of its connection is not safe from its timer, which closing does not
  stop: when the timer fires later, the null pointer that the union holds by then is dereferenced.\<close>

theorem timeout_after_close_faults:
  assumes "conn_reachable c" and "\<not> c_closing c" and "\<not> c_destroyed c" and "isError e"
    and "c_replies c p = Some r" and "(p_serial r, ForReply p) \<in> set (c_pendingReplies c)"
    and "p_receiver r \<noteq> HelloReceiver" and "t_isRunning (p_replyTimeout r)" and "t_hasListener (p_replyTimeout r)"
  shows "c_fault (replyTimerFires alive2 p (conn_close alive e c))"
proof -
  let ?c = "conn_close alive e c"
  have "c_replies ?c p = Some (failed_with e r)"
    using close_fails [OF assms(1-4), of alive] assms(5-7) by (simp add: Let_def reply_failed_def)
  with assms(8,9) show ?thesis
    by (simp add: replyTimerFires_def failed_with_def updateReply_def handleTimeout_def handleError_def Let_def c_undefined_def)
qed

theorem timeout_after_close_faults_witness:
  "c_fault (replyTimerFires (\<lambda>_. True) 0 (conn_close (\<lambda>_. True) LocalDisconnect example_waiting)) \<and>
   \<not> c_fault (conn_close (\<lambda>_. True) LocalDisconnect example_waiting)"
proof -
  from example_waiting_reply obtain r where r: "c_replies example_waiting 0 = Some r" "p_receiver r = ClientReceiver"
    "p_serial r = 7" "t_isRunning (p_replyTimeout r)" "t_hasListener (p_replyTimeout r)" by blast
  have e: "isError LocalDisconnect" by (simp add: isError_def)
  from r timeout_after_close_faults [OF example_waiting_reachable _ _ e r(1), of "\<lambda>_. True" "\<lambda>_. True"]
    close_fails [OF example_waiting_reachable _ _ e, of "\<lambda>_. True"] example_waiting_facts
  show ?thesis by (simp add: Let_def)
qed

end
