(* ===== verification/Wire_Format.thy ===== *)
theory Wire_Format
  imports Signature_Check
begin

text \<open>
  The D-Bus wire format, written down from the D-Bus specification and independent of the code: typed
  values, their encoding in both byte orders, and what makes a value legal.  Reader and writer are
  compared with it.
\<close>

subsection \<open>Values and their encoding\<close>

datatype (plugins only: code size) bval =
    BByte byte | BBoolean bool | BInt16 int16 | BUint16 uint16 | BInt32 int32 | BUint32 uint32
  | BInt64 int64 | BUint64 uint64 | BDouble double
  | BString string | BPath string | BSig string | BFd int32

datatype dval =
    DBasic bval
  | DVariant dval
  | DArray dbus_type "dval list"
  | DDict char dbus_type "(bval \<times> dval) list"
  | DStruct "dval list"

fun letter_of :: "bval \<Rightarrow> char" where
  "letter_of (BByte _) = CHR ''y''" | "letter_of (BBoolean _) = CHR ''b''"
| "letter_of (BInt16 _) = CHR ''n''" | "letter_of (BUint16 _) = CHR ''q''"
| "letter_of (BInt32 _) = CHR ''i''" | "letter_of (BUint32 _) = CHR ''u''"
| "letter_of (BInt64 _) = CHR ''x''" | "letter_of (BUint64 _) = CHR ''t''"
| "letter_of (BDouble _) = CHR ''d''" | "letter_of (BString _) = CHR ''s''"
| "letter_of (BPath _) = CHR ''o''" | "letter_of (BSig _) = CHR ''g''" | "letter_of (BFd _) = CHR ''h''"

fun type_of :: "dval \<Rightarrow> dbus_type" where
  "type_of (DBasic b) = TBasic (letter_of b)"
| "type_of (DVariant _) = TVariant"
| "type_of (DArray t _) = TArray t"
| "type_of (DDict k t _) = TDict k t"
| "type_of (DStruct vs) = TStruct (map type_of vs)"

definition wire :: "bool \<Rightarrow> byte list \<Rightarrow> byte list" where
  "wire sw bs = (if sw then rev bs else bs)"

text \<open>A file descriptor is sent as its index in the table that travels beside the data.\<close>

definition fd_index :: "int list \<Rightarrow> int32 \<Rightarrow> nat" where
  "fd_index fds w = length (takeWhile (\<lambda>x. word_of_int x \<noteq> w) fds)"

fun basic_bytes :: "bool \<Rightarrow> int list \<Rightarrow> bval \<Rightarrow> byte list" where
  "basic_bytes sw fds (BByte b) = [b]"
| "basic_bytes sw fds (BBoolean b) = wire sw (writeUint32 (if b then 1 else 0))"
| "basic_bytes sw fds (BInt16 v) = wire sw (writeInt16 v)"
| "basic_bytes sw fds (BUint16 v) = wire sw (writeUint16 v)"
| "basic_bytes sw fds (BInt32 v) = wire sw (writeInt32 v)"
| "basic_bytes sw fds (BUint32 v) = wire sw (writeUint32 v)"
| "basic_bytes sw fds (BInt64 v) = wire sw (writeInt64 v)"
| "basic_bytes sw fds (BUint64 v) = wire sw (writeUint64 v)"
| "basic_bytes sw fds (BDouble v) = wire sw (writeDouble v)"
| "basic_bytes sw fds (BString s) = wire sw (writeUint32 (of_nat (length s))) @ map byte_of s @ [0]"
| "basic_bytes sw fds (BPath s) = wire sw (writeUint32 (of_nat (length s))) @ map byte_of s @ [0]"
| "basic_bytes sw fds (BSig s) = of_nat (length s) # map byte_of s @ [0]"
| "basic_bytes sw fds (BFd w) = wire sw (writeUint32 (of_nat (fd_index fds w)))"

definition letter_align :: "char \<Rightarrow> nat" where
  "letter_align c =
     (if c \<in> {CHR ''y'', CHR ''g'', CHR ''v''} then 1 else if c \<in> {CHR ''n'', CHR ''q''} then 2
      else if c \<in> {CHR ''x'', CHR ''t'', CHR ''d'', CHR ''('', CHR ''{''} then 8 else 4)"

definition type_align :: "dbus_type \<Rightarrow> nat" where
  "type_align t = letter_align (hd (sig_of t))"

definition up :: "nat \<Rightarrow> nat \<Rightarrow> nat" where
  "up p a = (p + (a - 1)) div a * a"

definition padding :: "nat \<Rightarrow> nat \<Rightarrow> byte list" where
  "padding p a = replicate (up p a - p) 0"

fun enc :: "bool \<Rightarrow> int list \<Rightarrow> nat \<Rightarrow> dval \<Rightarrow> byte list"
  and enc_seq :: "bool \<Rightarrow> int list \<Rightarrow> nat \<Rightarrow> dval list \<Rightarrow> byte list"
  and enc_entries :: "bool \<Rightarrow> int list \<Rightarrow> nat \<Rightarrow> (bval \<times> dval) list \<Rightarrow> byte list" where
  "enc sw fds p (DBasic b) = padding p (letter_align (letter_of b)) @ basic_bytes sw fds b"
| "enc sw fds p (DVariant v) =
     (let s = sig_of (type_of v)
      in of_nat (length s) # map byte_of s @ 0 # enc sw fds (p + length s + 2) v)"
| "enc sw fds p (DArray t vs) =
     (let q = up p 4; start = up (q + 4) (type_align t); body = enc_seq sw fds start vs
      in padding p 4 @ wire sw (writeUint32 (of_nat (length body))) @ padding (q + 4) (type_align t) @ body)"
| "enc sw fds p (DDict k t es) =
     (let q = up p 4; start = up (q + 4) 8; body = enc_entries sw fds start es
      in padding p 4 @ wire sw (writeUint32 (of_nat (length body))) @ padding (q + 4) 8 @ body)"
| "enc sw fds p (DStruct vs) = padding p 8 @ enc_seq sw fds (up p 8) vs"
| "enc_seq sw fds p [] = []"
| "enc_seq sw fds p (v # vs) =
     (let e = enc sw fds p v in e @ enc_seq sw fds (p + length e) vs)"
| "enc_entries sw fds p [] = []"
| "enc_entries sw fds p ((k, v) # es) =
     (let kb = enc sw fds (up p 8) (DBasic k);
          e = padding p 8 @ kb @ enc sw fds (up p 8 + length kb) v
      in e @ enc_entries sw fds (p + length e) es)"

text \<open>The values that fit the protocol: their strings, types and nesting.\<close>

fun basic_ok :: "int list \<Rightarrow> bval \<Rightarrow> bool" where
  "basic_ok fds (BString s) = (CHR 0x00 \<notin> set s)"
| "basic_ok fds (BPath s) = (isObjectPathValid (cstring_of s) = Some True)"
| "basic_ok fds (BSig s) = (isSignatureValid (cstring_of s) MethodSignature = Some True \<and> length s \<le> 254)"
| "basic_ok fds (BFd w) = (w \<in> word_of_int ` set fds \<and> length fds < 4294967296)"
| "basic_ok fds _ = True"

fun val_ok :: "int list \<Rightarrow> nesting \<Rightarrow> dval \<Rightarrow> bool" where
  "val_ok fds n (DBasic b) = basic_ok fds b"
| "val_ok fds n (DVariant v) =
     (fst (nestBeginVariant n) \<and> type_fits no_nesting (type_of v) \<and> length (sig_of (type_of v)) \<le> 255 \<and>
      val_ok fds (snd (nestBeginVariant n)) v)"
| "val_ok fds n (DArray t vs) =
     (fst (nestBeginArray n) \<and> type_fits (snd (nestBeginArray n)) t \<and>
      list_all (\<lambda>v. type_of v = t \<and> val_ok fds (snd (nestBeginArray n)) v) vs)"
| "val_ok fds n (DDict k t es) =
     (fst (nestBeginArray n) \<and> fst (nestBeginParen (snd (nestBeginArray n))) \<and>
      k \<in> set basic_type_letters \<and> type_fits (snd (nestBeginParen (snd (nestBeginArray n)))) t \<and>
      list_all (\<lambda>(b, v). letter_of b = k \<and> basic_ok fds b \<and> type_of v = t \<and>
        val_ok fds (snd (nestBeginParen (snd (nestBeginArray n)))) v) es)"
| "val_ok fds n (DStruct vs) =
     (fst (nestBeginParen n) \<and> vs \<noteq> [] \<and> list_all (val_ok fds (snd (nestBeginParen n))) vs)"

subsection \<open>Alignment, padding and stretches of the data\<close>

lemma align_up: "wire_alignment a \<Longrightarrow> p + 8 \<le> 4294967296 \<Longrightarrow> align p a = up p a"
  by (elim wire_alignment_cases) (simp_all add: align_cases up_def)

lemma up_bounds:
  "wire_alignment a \<Longrightarrow> p \<le> up p a" "wire_alignment a \<Longrightarrow> up p a < p + a"
  "wire_alignment a \<Longrightarrow> up (up p a) a = up p a"
  by (auto elim!: wire_alignment_cases simp: up_def; presburger)+

lemma length_padding [simp]: "length (padding p a) = up p a - p"
  by (simp add: padding_def)

lemma up_4_8 [simp]: "up (up p 8) 4 = up p 8" "up (up p 8) 8 = up p 8" "up (up p 4) 4 = up p 4"
  by (simp_all add: up_def; presburger)+

definition has :: "'a list \<Rightarrow> nat \<Rightarrow> 'a list \<Rightarrow> bool" where
  "has D p bs \<longleftrightarrow> p + length bs \<le> length D \<and> slice_at p (length bs) D = bs"

lemma has_append: "has D p (xs @ ys) \<longleftrightarrow> has D p xs \<and> has D (p + length xs) ys"
  by (auto simp: has_def slice_at_def take_add add.commute)

lemma has_Cons: "has D p (x # xs) \<longleftrightarrow> p < length D \<and> D ! p = x \<and> has D (Suc p) xs"
  using has_append [of D p "[x]" xs] by (auto simp: has_def slice_at_def take_Suc_conv_app_nth)

lemma has_Nil [simp]: "has D p [] \<longleftrightarrow> p \<le> length D"
  by (simp add: has_def slice_at_def)

lemma has_bound: "has D p xs \<Longrightarrow> p + length xs \<le> length D"
  by (simp add: has_def)

lemma has_padding:
  assumes "has D p (padding p a)" and "wire_alignment a"
  shows "up p a \<le> length D" and "isPaddingZero D p (up p a)"
proof -
  from assms up_bounds(1) [of a p] show *: "up p a \<le> length D" by (simp add: has_def)
  from assms(1) have "slice_at p (up p a - p) D = replicate (up p a - p) 0"
    by (simp add: has_def padding_def)
  then have "D ! i = 0" if "p \<le> i" "i < up p a" for i
    using that * nth_take [of "i - p" "up p a - p" "drop p D"]
    by (simp add: slice_at_def)
  with * show "isPaddingZero D p (up p a)"
    by (simp add: isPaddingZero_def list_all_iff)
qed

lemma wire_align [simp]: "wire_alignment (letter_align c)" "wire_alignment (type_align t)"
  by (simp_all add: letter_align_def type_align_def wire_alignment_def)

lemma up_1 [simp]: "up p (Suc 0) = p" and padding_1 [simp]: "padding p (Suc 0) = []"
  by (simp_all add: up_def padding_def)

subsection \<open>Bytes and lengths\<close>

lemma read_wire [simp]:
  "readInt16 (wire sw (writeInt16 v)) sw = v" "readUint16 (wire sw (writeUint16 v)) sw = v"
  "readInt32 (wire sw (writeInt32 w)) sw = w" "readUint32 (wire sw (writeUint32 w)) sw = w"
  "readInt64 (wire sw (writeInt64 x)) sw = x" "readUint64 (wire sw (writeUint64 x)) sw = x"
  "readDouble (wire sw (writeDouble x)) sw = x"
  by (cases sw; simp add: wire_def io_i16.rd_wr io_i16.rd_wr_swapped io_u16.rd_wr io_u16.rd_wr_swapped
      io_i32.rd_wr io_i32.rd_wr_swapped io_u32.rd_wr io_u32.rd_wr_swapped io_i64.rd_wr
      io_i64.rd_wr_swapped io_u64.rd_wr io_u64.rd_wr_swapped io_double.rd_wr io_double.rd_wr_swapped)+

lemma length_wire [simp]: "length (wire sw bs) = length bs"
  by (simp add: wire_def)

lemma length_write [simp]:
  "length (writeInt16 v) = 2" "length (writeUint16 v) = 2" "length (writeInt32 w) = 4"
  "length (writeUint32 w) = 4" "length (writeInt64 x) = 8" "length (writeUint64 x) = 8"
  "length (writeDouble x) = 8"
  by (simp_all add: basic_write_defs)

lemma fd_index_nth:
  assumes "w \<in> word_of_int ` set fds"
  shows "fd_index fds w < length fds" and "word_of_int (fds ! fd_index fds w) = w"
proof -
  from assms obtain x where "x \<in> set fds" "\<not> word_of_int x \<noteq> w" by auto
  then have "length (takeWhile (\<lambda>x. word_of_int x \<noteq> w) fds) < length fds"
    by (metis (mono_tags, lifting) length_takeWhile_le nat_less_le takeWhile_eq_all_conv
        takeWhile_eq_take take_all_iff order_refl)
  then show "fd_index fds w < length fds" "word_of_int (fds ! fd_index fds w) = w"
    using nth_length_takeWhile [of "\<lambda>x. word_of_int x \<noteq> w" fds] by (simp_all add: fd_index_def)
qed

definition sigs_of :: "dval list \<Rightarrow> string" where
  "sigs_of vs = concat (map (\<lambda>v. sig_of (type_of v)) vs)"

lemma sigs_of_simps [simp]: "sigs_of [] = []" "sigs_of (v # vs) = sig_of (type_of v) @ sigs_of vs"
  by (simp_all add: sigs_of_def)

lemma sig_of_type_struct: "sig_of (type_of (DStruct vs)) = CHR ''('' # sigs_of vs @ '')''"
  by (simp add: sigs_of_def comp_def)

lemma sig_pos [simp]: "0 < length (sig_of t)" "Suc (length (sig_of t) - Suc 0) = length (sig_of t)"
  using sig_of_nonempty [of t] by simp_all

subsection \<open>Types of values\<close>

lemma nest_begin_mono:
  "nest_le m n \<Longrightarrow> fst (nestBeginArray n) \<Longrightarrow> fst (nestBeginArray m)"
  "nest_le m n \<Longrightarrow> nest_le (snd (nestBeginArray m)) (snd (nestBeginArray n))"
  "nest_le m n \<Longrightarrow> fst (nestBeginParen n) \<Longrightarrow> fst (nestBeginParen m)"
  "nest_le m n \<Longrightarrow> nest_le (snd (nestBeginParen m)) (snd (nestBeginParen n))"
  "nest_le m n \<Longrightarrow> fst (nestBeginVariant n) \<Longrightarrow> fst (nestBeginVariant m)"
  by (auto simp: nest_defs nest_le_def Let_def)

lemma type_fits_mono: "type_fits n t \<Longrightarrow> nest_le m n \<Longrightarrow> type_fits m t"
proof (induction t arbitrary: m n)
  case (TStruct ts)
  then show ?case
    using nest_begin_mono(3,4) [of m n] by (fastforce simp: list_all_iff)
next
  case (TArray t)
  then show ?case using nest_begin_mono(1,2) [of m n] by auto
next
  case (TDict k t)
  then show ?case
    using nest_begin_mono(1,2) [of m n] nest_begin_mono(3,4) [of "snd (nestBeginArray m)" "snd (nestBeginArray n)"]
    by auto
qed (auto dest: nest_begin_mono)

lemma type_fits_no_nesting: "type_fits n t \<Longrightarrow> type_fits no_nesting t"
  by (rule type_fits_mono) (simp_all add: nest_le_def no_nesting_def)

lemma letter_of_basic: "letter_of b \<in> set basic_type_letters"
  by (cases b) (simp_all add: basic_type_letters_def)

lemma val_ok_type_fits: "val_ok fds n v \<Longrightarrow> type_fits n (type_of v)"
  by (induction v arbitrary: n) (auto simp: letter_of_basic list_all_iff)

lemma typeInfo_hd:
  assumes "type_fits n t"
  shows "map_option ti_alignment (typeInfo (hd (sig_of t))) = Some (type_align t)"
    and "hd (sig_of t) \<noteq> CHR ''{''"
proof -
  have "hd (sig_of t) \<in> set (''av('' @ basic_type_letters)"
    using assms by (cases t) simp_all
  moreover have "list_all (\<lambda>c. map_option ti_alignment (typeInfo c) = Some (letter_align c) \<and> c \<noteq> CHR ''{'')
      (''av('' @ basic_type_letters)"
    by (simp add: basic_type_letters_def typeInfo_letters letter_align_def type_row_def)
  ultimately show "map_option ti_alignment (typeInfo (hd (sig_of t))) = Some (type_align t)"
    "hd (sig_of t) \<noteq> CHR ''{''"
    unfolding list_all_iff type_align_def by blast+
qed

lemma basic_bytes_nonempty: "basic_bytes sw fds b \<noteq> []"
proof -
  have "0 < length (basic_bytes sw fds b)" by (cases b) simp_all
  then show ?thesis by blast
qed

lemma enc_nonempty: "val_ok fds' n v \<Longrightarrow> enc sw fds p v \<noteq> []"
proof (induction v arbitrary: p n)
  case (DArray t vs)
  have "0 < length (enc sw fds p (DArray t vs))" by (simp add: Let_def)
  then show ?case by blast
next
  case (DDict k t es)
  have "0 < length (enc sw fds p (DDict k t es))" by (simp add: Let_def)
  then show ?case by blast
next
  case (DStruct vs)
  then show ?case by (cases vs) (auto simp: Let_def)
qed (simp_all add: basic_bytes_nonempty Let_def)

subsection \<open>Signatures determine types\<close>

lemma basic_letters_not [simp]:
  "c \<in> set basic_type_letters \<Longrightarrow> c \<noteq> CHR ''a''" "c \<in> set basic_type_letters \<Longrightarrow> c \<noteq> CHR ''v''"
  "c \<in> set basic_type_letters \<Longrightarrow> c \<noteq> CHR ''(''" "c \<in> set basic_type_letters \<Longrightarrow> c \<noteq> CHR ''{''"
  "c \<in> set basic_type_letters \<Longrightarrow> c \<noteq> CHR '')''"
  by (auto simp: basic_type_letters_def)

lemma sig_of_head:
  assumes "type_fits n t"
  shows "\<exists>c s. sig_of t = c # s \<and> c \<noteq> CHR '')'' \<and> c \<noteq> CHR ''{''"
  using assms by (cases t) (auto simp: basic_type_letters_def)

lemma sig_of_inj:
  "type_fits n t \<Longrightarrow> type_fits n' t' \<Longrightarrow> sig_of t @ r = sig_of t' @ r' \<Longrightarrow> t = t' \<and> r = r'"
proof (induction t arbitrary: t' n n' r r')
  case (TBasic c)
  then show ?case by (cases t') auto
next
  case TVariant
  then show ?case by (cases t') (auto simp: basic_type_letters_def)
next
  case (TArray t)
  from TArray.prems(1) obtain c s where c: "sig_of t = c # s" "c \<noteq> CHR ''{''"
    using sig_of_head [of "snd (nestBeginArray n)" t] by auto
  show ?case
  proof (cases t')
    case (TArray u)
    with TArray.prems TArray.IH [of "snd (nestBeginArray n)" "snd (nestBeginArray n')" u r r'] show ?thesis by simp
  qed (use TArray.prems c in \<open>auto simp: basic_type_letters_def\<close>)
next
  case (TDict k t)
  show ?case
  proof (cases t')
    case (TArray u)
    with TDict.prems sig_of_head [of "snd (nestBeginArray n')" u] show ?thesis by auto
  next
    case (TDict k' u)
    with TDict.prems have "sig_of t @ CHR ''}'' # r = sig_of u @ CHR ''}'' # r'" "k = k'" by simp_all
    with TDict.IH [of "snd (nestBeginParen (snd (nestBeginArray n)))" "snd (nestBeginParen (snd (nestBeginArray n')))" u
        "CHR ''}'' # r" "CHR ''}'' # r'"]
      TDict.prems TDict show ?thesis by simp
  qed (use TDict.prems in \<open>auto simp: basic_type_letters_def\<close>)
next
  case (TStruct ts)
  have seq: "list_all (type_fits m) us \<Longrightarrow> list_all (type_fits m') us' \<Longrightarrow> set us \<subseteq> set ts \<Longrightarrow>
      concat (map sig_of us) @ CHR '')'' # r = concat (map sig_of us') @ CHR '')'' # r' \<Longrightarrow> us = us' \<and> r = r'"
    for us us' m m'
  proof (induction us arbitrary: us')
    case Nil
    show ?case
    proof (cases us')
      case (Cons w ws)
      with Nil.prems sig_of_head [of m' w] show ?thesis by auto
    qed (use Nil.prems in simp)
  next
    case (Cons u us)
    show ?case
    proof (cases us')
      case Nil
      with Cons.prems sig_of_head [of m u] show ?thesis by auto
    next
      case (Cons w ws)
      with Cons.prems TStruct.IH [of u m m' w] have "u = w"
        "concat (map sig_of us) @ CHR '')'' # r = concat (map sig_of ws) @ CHR '')'' # r'" by auto
      with Cons.IH [of ws] Cons.prems Cons show ?thesis by simp
    qed
  qed
  show ?case
  proof (cases t')
    case (TStruct us')
    with seq [of "snd (nestBeginParen n)" ts "snd (nestBeginParen n')" us'] TStruct.prems show ?thesis by simp
  qed (use TStruct.prems in \<open>auto simp: basic_type_letters_def\<close>)
qed

end
