(* ===== verification/Reader_Decode.thy ===== *)
theory Reader_Decode
  imports Wire_Format Reader_Ops
begin

text \<open>
  A client of \<^verbatim>\<open>Arguments::Reader\<close> that reads what the states of the reader ask for, and the
  first half of the proof that it gets back exactly the encoded values: the single steps of
  \<^verbatim>\<open>advanceState\<close>, strings, and values of basic types.
\<close>

subsection \<open>The client\<close>

text \<open>
  A client that reads one value with the calls of the reader, as far as the states ask for it:
  \<open>reads r v r'\<close> when it obtains \<open>v\<close> and leaves the reader as \<open>r'\<close>.
\<close>

inductive reads :: "reader \<Rightarrow> dval \<Rightarrow> reader \<Rightarrow> bool"
  and reads_until :: "io_state \<Rightarrow> reader \<Rightarrow> dval list \<Rightarrow> reader \<Rightarrow> bool"
  and reads_entries :: "reader \<Rightarrow> (bval \<times> dval) list \<Rightarrow> reader \<Rightarrow> bool" where
  rd_byte: "r_state r = Byte \<Longrightarrow> reader_readByte r = (Some y, r') \<Longrightarrow> reads r (DBasic (BByte y)) r'"
| rd_boolean: "r_state r = Boolean \<Longrightarrow> reader_readBoolean r = (Some b, r') \<Longrightarrow> reads r (DBasic (BBoolean b)) r'"
| rd_int16: "r_state r = Int16 \<Longrightarrow> reader_readInt16 r = (Some n, r') \<Longrightarrow> reads r (DBasic (BInt16 n)) r'"
| rd_uint16: "r_state r = Uint16 \<Longrightarrow> reader_readUint16 r = (Some q, r') \<Longrightarrow> reads r (DBasic (BUint16 q)) r'"
| rd_int32: "r_state r = Int32 \<Longrightarrow> reader_readInt32 r = (Some i, r') \<Longrightarrow> reads r (DBasic (BInt32 i)) r'"
| rd_uint32: "r_state r = Uint32 \<Longrightarrow> reader_readUint32 r = (Some u, r') \<Longrightarrow> reads r (DBasic (BUint32 u)) r'"
| rd_int64: "r_state r = Int64 \<Longrightarrow> reader_readInt64 r = (Some x, r') \<Longrightarrow> reads r (DBasic (BInt64 x)) r'"
| rd_uint64: "r_state r = Uint64 \<Longrightarrow> reader_readUint64 r = (Some t, r') \<Longrightarrow> reads r (DBasic (BUint64 t)) r'"
| rd_double: "r_state r = Double \<Longrightarrow> reader_readDouble r = (Some d, r') \<Longrightarrow> reads r (DBasic (BDouble d)) r'"
| rd_string: "r_state r = String \<Longrightarrow> reader_readString r = (Some cs, r') \<Longrightarrow>
    reads r (DBasic (BString (cs_chars cs))) r'"
| rd_path: "r_state r = ObjectPath \<Longrightarrow> reader_readObjectPath r = (Some cs, r') \<Longrightarrow>
    reads r (DBasic (BPath (cs_chars cs))) r'"
| rd_sig: "r_state r = Signature \<Longrightarrow> reader_readSignature r = (Some cs, r') \<Longrightarrow>
    reads r (DBasic (BSig (cs_chars cs))) r'"
| rd_fd: "r_state r = UnixFd \<Longrightarrow> reader_readUnixFd r = (Some i, r') \<Longrightarrow> reads r (DBasic (BFd i)) r'"
| rd_struct: "r_state r = BeginStruct \<Longrightarrow> reads_until EndStruct (reader_beginStruct r) vs r1 \<Longrightarrow>
    reads r (DStruct vs) (reader_endStruct r1)"
| rd_variant: "r_state r = BeginVariant \<Longrightarrow>
    cs_chars (currentSignature (reader_beginVariant r)) = sig_of (type_of v) \<Longrightarrow>
    reads_until EndVariant (reader_beginVariant r) [v] r1 \<Longrightarrow>
    reads r (DVariant v) (reader_endVariant r1)"
| rd_array: "r_state r = BeginArray \<Longrightarrow> type_fits no_nesting (TArray t) \<Longrightarrow>
    currentSingleCompleteTypeSignature r = Some (sig_of (TArray t)) \<Longrightarrow>
    reads_until EndArray (snd (reader_beginArray SkipIfEmpty r)) vs r1 \<Longrightarrow>
    reads r (DArray t vs) (reader_endArray r1)"
| rd_dict: "r_state r = BeginDict \<Longrightarrow> type_fits no_nesting (TDict k t) \<Longrightarrow>
    currentSingleCompleteTypeSignature r = Some (sig_of (TDict k t)) \<Longrightarrow>
    reads_entries (snd (reader_beginDict SkipIfEmpty r)) es r1 \<Longrightarrow>
    reads r (DDict k t es) (reader_endDict r1)"
| until_end: "r_state r = e \<Longrightarrow> reads_until e r [] r"
| until_value: "r_state r \<noteq> e \<Longrightarrow> reads r v r1 \<Longrightarrow> reads_until e r1 vs r2 \<Longrightarrow> reads_until e r (v # vs) r2"
| entries_end: "r_state r = EndDict \<Longrightarrow> reads_entries r [] r"
| entries_value: "r_state r \<noteq> EndDict \<Longrightarrow> isDictKey r \<Longrightarrow> reads r (DBasic k) r1 \<Longrightarrow> reads r1 v r2 \<Longrightarrow>
    reads_entries r2 es r3 \<Longrightarrow> reads_entries r ((k, v) # es) r3"

subsection \<open>The client's result is unique\<close>

lemma reads_struct_elim:
  assumes "reads r w r2" and "r_state r = BeginStruct"
  obtains vs r1 where "w = DStruct vs" "r2 = reader_endStruct r1" "reads_until EndStruct (reader_beginStruct r) vs r1"
  using assms by (elim reads.cases) simp_all

lemma reads_variant_elim:
  assumes "reads r w r2" and "r_state r = BeginVariant"
  obtains v r1 where "w = DVariant v" "r2 = reader_endVariant r1" "reads_until EndVariant (reader_beginVariant r) [v] r1"
  using assms by (elim reads.cases) simp_all

lemma reads_array_elim:
  assumes "reads r w r2" and "r_state r = BeginArray"
  obtains t vs r1 where "w = DArray t vs" "r2 = reader_endArray r1" "type_fits no_nesting (TArray t)"
    "currentSingleCompleteTypeSignature r = Some (sig_of (TArray t))"
    "reads_until EndArray (snd (reader_beginArray SkipIfEmpty r)) vs r1"
  using assms by (elim reads.cases) (simp_all del: sig_of.simps type_fits.simps)

lemma reads_dict_elim:
  assumes "reads r w r2" and "r_state r = BeginDict"
  obtains k t es r1 where "w = DDict k t es" "r2 = reader_endDict r1" "type_fits no_nesting (TDict k t)"
    "currentSingleCompleteTypeSignature r = Some (sig_of (TDict k t))"
    "reads_entries (snd (reader_beginDict SkipIfEmpty r)) es r1"
  using assms by (elim reads.cases) (simp_all del: sig_of.simps type_fits.simps)

lemma reads_basic_elim:
  "reads r w r2 \<Longrightarrow> r_state r = Byte \<Longrightarrow> \<exists>y. w = DBasic (BByte y) \<and> reader_readByte r = (Some y, r2)"
  "reads r w r2 \<Longrightarrow> r_state r = Boolean \<Longrightarrow> \<exists>y. w = DBasic (BBoolean y) \<and> reader_readBoolean r = (Some y, r2)"
  "reads r w r2 \<Longrightarrow> r_state r = Int16 \<Longrightarrow> \<exists>y. w = DBasic (BInt16 y) \<and> reader_readInt16 r = (Some y, r2)"
  "reads r w r2 \<Longrightarrow> r_state r = Uint16 \<Longrightarrow> \<exists>y. w = DBasic (BUint16 y) \<and> reader_readUint16 r = (Some y, r2)"
  "reads r w r2 \<Longrightarrow> r_state r = Int32 \<Longrightarrow> \<exists>y. w = DBasic (BInt32 y) \<and> reader_readInt32 r = (Some y, r2)"
  "reads r w r2 \<Longrightarrow> r_state r = Uint32 \<Longrightarrow> \<exists>y. w = DBasic (BUint32 y) \<and> reader_readUint32 r = (Some y, r2)"
  "reads r w r2 \<Longrightarrow> r_state r = Int64 \<Longrightarrow> \<exists>y. w = DBasic (BInt64 y) \<and> reader_readInt64 r = (Some y, r2)"
  "reads r w r2 \<Longrightarrow> r_state r = Uint64 \<Longrightarrow> \<exists>y. w = DBasic (BUint64 y) \<and> reader_readUint64 r = (Some y, r2)"
  "reads r w r2 \<Longrightarrow> r_state r = Double \<Longrightarrow> \<exists>y. w = DBasic (BDouble y) \<and> reader_readDouble r = (Some y, r2)"
  "reads r w r2 \<Longrightarrow> r_state r = String \<Longrightarrow> \<exists>y. w = DBasic (BString (cs_chars y)) \<and> reader_readString r = (Some y, r2)"
  "reads r w r2 \<Longrightarrow> r_state r = ObjectPath \<Longrightarrow> \<exists>y. w = DBasic (BPath (cs_chars y)) \<and> reader_readObjectPath r = (Some y, r2)"
  "reads r w r2 \<Longrightarrow> r_state r = Signature \<Longrightarrow> \<exists>y. w = DBasic (BSig (cs_chars y)) \<and> reader_readSignature r = (Some y, r2)"
  "reads r w r2 \<Longrightarrow> r_state r = UnixFd \<Longrightarrow> \<exists>y. w = DBasic (BFd y) \<and> reader_readUnixFd r = (Some y, r2)"
  by (elim reads.cases; simp)+

lemma reads_unique:
  "reads r v r1 \<Longrightarrow> reads r w r2 \<Longrightarrow> v = w \<and> r1 = r2"
  "reads_until e r vs r1 \<Longrightarrow> reads_until e r ws r2 \<Longrightarrow> vs = ws \<and> r1 = r2"
  "reads_entries r es r1 \<Longrightarrow> reads_entries r fs r2 \<Longrightarrow> es = fs \<and> r1 = r2"
proof (induction arbitrary: w r2 and ws r2 and fs r2 rule: reads_reads_until_reads_entries.inducts)
  case (rd_struct r vs r1)
  from rd_struct.prems rd_struct.hyps(1) show ?case
    by (rule reads_struct_elim) (use rd_struct.IH in blast)
next
  case (rd_variant r v r1)
  from rd_variant.prems rd_variant.hyps(1) show ?case
    by (rule reads_variant_elim) (use rd_variant.IH in blast)
next
  case (rd_array r t vs r1)
  from rd_array.prems rd_array.hyps(1) show ?case
  proof (rule reads_array_elim)
    fix t' vs' r1'
    assume a: "w = DArray t' vs'" "r2 = reader_endArray r1'" "type_fits no_nesting (TArray t')"
      "currentSingleCompleteTypeSignature r = Some (sig_of (TArray t'))"
      "reads_until EndArray (snd (reader_beginArray SkipIfEmpty r)) vs' r1'"
    from rd_array.hyps(3) a(4) have "sig_of (TArray t) @ [] = sig_of (TArray t') @ []"
      by (simp only: option.inject append_Nil2)
    from sig_of_inj [OF rd_array.hyps(2) a(3) this] have "t = t'" by simp
    with rd_array.IH [OF a(5)] show ?thesis unfolding a(1,2) by simp
  qed
next
  case (rd_dict r k t es r1)
  from rd_dict.prems rd_dict.hyps(1) show ?case
  proof (rule reads_dict_elim)
    fix k' t' es' r1'
    assume a: "w = DDict k' t' es'" "r2 = reader_endDict r1'" "type_fits no_nesting (TDict k' t')"
      "currentSingleCompleteTypeSignature r = Some (sig_of (TDict k' t'))"
      "reads_entries (snd (reader_beginDict SkipIfEmpty r)) es' r1'"
    from rd_dict.hyps(3) a(4) have "sig_of (TDict k t) @ [] = sig_of (TDict k' t') @ []"
      by (simp only: option.inject append_Nil2)
    from sig_of_inj [OF rd_dict.hyps(2) a(3) this] have "k = k' \<and> t = t'" by simp
    with rd_dict.IH [OF a(5)] show ?thesis unfolding a(1,2) by simp
  qed
next
  case (until_end r e)
  from until_end.prems show ?case
  proof (cases rule: reads_until.cases)
    case (until_value v' r1' vs')
    with until_end.hyps show ?thesis by blast
  qed blast
next
  case (until_value r e v r1 vs r2')
  from until_value.prems show ?case
  proof (cases rule: reads_until.cases)
    case (until_value v' r1' vs')
    with until_value.IH show ?thesis by blast
  qed (use until_value.hyps in simp)
next
  case (entries_end r)
  from entries_end.prems show ?case
  proof (cases rule: reads_entries.cases)
    case (entries_value k' r1' v' r2'' es')
    with entries_end.hyps show ?thesis by blast
  qed blast
next
  case (entries_value r k r1 v r2' es r3)
  from entries_value.prems show ?case
  proof (cases rule: reads_entries.cases)
    case (entries_value k' r1' v' r2'' es')
    with entries_value.IH show ?thesis by blast
  qed (use entries_value.hyps in simp)
next
  case (rd_byte r y r')
  with reads_basic_elim(1) show ?case by fastforce
next
  case (rd_boolean r b r')
  with reads_basic_elim(2) show ?case by fastforce
next
  case (rd_int16 r n r')
  with reads_basic_elim(3) show ?case by fastforce
next
  case (rd_uint16 r q r')
  with reads_basic_elim(4) show ?case by fastforce
next
  case (rd_int32 r i r')
  with reads_basic_elim(5) show ?case by fastforce
next
  case (rd_uint32 r u r')
  with reads_basic_elim(6) show ?case by fastforce
next
  case (rd_int64 r x r')
  with reads_basic_elim(7) show ?case by fastforce
next
  case (rd_uint64 r t r')
  with reads_basic_elim(8) show ?case by fastforce
next
  case (rd_double r d r')
  with reads_basic_elim(9) show ?case by fastforce
next
  case (rd_string r cs r')
  with reads_basic_elim(10) show ?case by fastforce
next
  case (rd_path r cs r')
  with reads_basic_elim(11) show ?case by fastforce
next
  case (rd_sig r cs r')
  with reads_basic_elim(12) show ?case by fastforce
next
  case (rd_fd r i r')
  with reads_basic_elim(13) show ?case by fastforce
qed

subsection \<open>Steps of the reader\<close>

lemma r_view_simps [simp]:
  "r_block (r\<lparr>r_sigpos := n\<rparr>) = r_block r" "r_block (r\<lparr>r_datapos := n\<rparr>) = r_block r"
  "r_block (r\<lparr>r_state := st\<rparr>) = r_block r" "r_block (r\<lparr>r_u := u\<rparr>) = r_block r"
  "r_block (r\<lparr>r_stack := k\<rparr>) = r_block r" "r_block (r\<lparr>r_nesting := m\<rparr>) = r_block r"
  "r_block (r\<lparr>r_nil := n\<rparr>) = r_block r" "r_block (r\<lparr>r_signature := p\<rparr>) = r_block r"
  "r_block (r\<lparr>r_siglen := n\<rparr>) = r_block r"
  "r_swapped (r\<lparr>r_sigpos := n\<rparr>) = r_swapped r" "r_swapped (r\<lparr>r_datapos := n\<rparr>) = r_swapped r"
  "r_swapped (r\<lparr>r_state := st\<rparr>) = r_swapped r" "r_swapped (r\<lparr>r_u := u\<rparr>) = r_swapped r"
  "r_swapped (r\<lparr>r_stack := k\<rparr>) = r_swapped r" "r_swapped (r\<lparr>r_nesting := m\<rparr>) = r_swapped r"
  "r_swapped (r\<lparr>r_nil := n\<rparr>) = r_swapped r" "r_swapped (r\<lparr>r_signature := p\<rparr>) = r_swapped r"
  "r_swapped (r\<lparr>r_siglen := n\<rparr>) = r_swapped r"
  "r_fds (r\<lparr>r_sigpos := n\<rparr>) = r_fds r" "r_fds (r\<lparr>r_datapos := n\<rparr>) = r_fds r"
  "r_fds (r\<lparr>r_state := st\<rparr>) = r_fds r" "r_fds (r\<lparr>r_u := u\<rparr>) = r_fds r"
  "r_fds (r\<lparr>r_stack := k\<rparr>) = r_fds r" "r_fds (r\<lparr>r_nesting := m\<rparr>) = r_fds r"
  "r_fds (r\<lparr>r_nil := n\<rparr>) = r_fds r" "r_fds (r\<lparr>r_signature := p\<rparr>) = r_fds r"
  "r_fds (r\<lparr>r_siglen := n\<rparr>) = r_fds r"
  by (auto simp: fun_eq_iff r_block_def r_swapped_def r_fds_def split: pointer.split)

lemma r_cstring_simps [simp]:
  "cs_block (r_cstring r p n) = r_block r p" "cs_length (r_cstring r p n) = n"
  by (simp_all add: r_cstring_def)

definition advanceOpen :: "nat \<Rightarrow> nat \<Rightarrow> reader \<Rightarrow> reader" where
  "advanceOpen s d c =
     (case advanceValue s d c of Inl r \<Rightarrow> r | Inr r \<Rightarrow> advanceAggregate s d r)"

lemma advanceState_open:
  assumes "r_state r \<noteq> InvalidData" and "advanceClosing r = Inr c"
  shows "advanceState r = advanceOpen (r_sigpos r) (r_datapos r) c"
  using assms by (simp add: advanceState_def advanceOpen_def)

lemma advanceState_return:
  assumes "r_state r \<noteq> InvalidData" and "advanceClosing r = Inl c"
  shows "advanceState r = c"
  using assms by (simp add: advanceState_def)

text \<open>The reader is inside a signature with these characters, which ends with its null.\<close>

definition sig_ctx :: "reader \<Rightarrow> string \<Rightarrow> bool" where
  "sig_ctx r full \<longleftrightarrow> (\<exists>rest. r_block r (r_signature r) = Some (full @ CHR 0x00 # rest)) \<and>
     r_siglen r = length full \<and> length full < 2147483648"

lemma sig_ctx_at: "sig_ctx r full \<Longrightarrow> i < length full \<Longrightarrow> r_sig_at r i = Some (full ! i)"
  by (auto simp: sig_ctx_def r_sig_at_def cs_at_def nth_append)

lemma sig_ctx_remaining:
  "sig_ctx r (pre @ s) \<Longrightarrow> r_sigpos r = length pre \<Longrightarrow> r_remaining r = Some s"
  by (auto simp: sig_ctx_def r_remaining_def)

lemma advanceOpen_type:
  assumes "r_sig_at c (r_sigpos c) = Some l" and "typeInfo l = Some ti" and "ti_state ti \<noteq> InvalidData"
    and "r_nil c = 0" and "has (r_data c) (r_datapos c) (padding (r_datapos c) (ti_alignment ti))"
    and "length (r_data c) \<le> 67108864"
    and "r2 = c\<lparr>r_state := ti_state ti, r_datapos := up (r_datapos c) (ti_alignment ti)\<rparr>"
    and "ti_isPrimitive ti \<or> ti_isString ti \<Longrightarrow> r_datapos r2 + ti_alignment ti \<le> length (r_data c)"
  shows "advanceOpen s d c =
    (if ti_isPrimitive ti
     then (doReadPrimitiveType r2)\<lparr>r_datapos := u32 (r_datapos (doReadPrimitiveType r2) + ti_alignment ti)\<rparr>
     else if ti_isString ti
     then (let r3 = doReadString (ti_alignment ti) r2
           in if r_state r3 = NeedMoreData then outNeedMoreData s d r3 else r3)
     else advanceAggregate s d r2)"
proof -
  have w: "wire_alignment (ti_alignment ti)" using typeInfo_alignment [OF assms(2)] .
  note pad = has_padding [OF assms(5) w]
  have a: "align (r_datapos c) (ti_alignment ti) = up (r_datapos c) (ti_alignment ti)"
    using w assms(6) pad(1) up_bounds(1) [OF w, of "r_datapos c"] by (intro align_up) simp_all
  have u: "ti_isPrimitive ti \<or> ti_isString ti \<Longrightarrow>
      \<not> length (r_data c) < u32 (up (r_datapos c) (ti_alignment ti) + ti_alignment ti)"
    using assms(6-8) by simp
  show ?thesis
    using assms(1-4) pad u a
    by (simp add: advanceOpen_def advanceValue_def Let_def assms(7))
qed

subsection \<open>Strings inside the data\<close>

lemma cs_view:
  assumes "cs_block c = Some (s @ CHR 0x00 # rest)" and "cs_length c = length s"
  shows "cs_at c (length s) = Some (CHR 0x00)" and "cs_chars c = s"
  using assms by (simp_all add: cs_at_def cs_chars_def nth_append)

lemma isStringValid_view:
  assumes "cs_block c = Some (s @ CHR 0x00 # rest)" and "cs_length c = length s"
    and "CHR 0x00 \<notin> set s" and "length s + 1 < MaxArrayLength"
  shows "isStringValid c = Some True"
proof -
  have "takeWhile (\<lambda>c. c \<noteq> CHR 0x00) (s @ CHR 0x00 # rest) = s"
    using assms(3) by (subst takeWhile_append2) auto
  then show ?thesis
    using assms cs_view [OF assms(1,2)] by (simp add: isStringValid_def strlen_def limit_defs)
qed

lemma isObjectPathValid_view:
  assumes "cs_block c = Some (s @ CHR 0x00 # rest)" and "cs_length c = length s"
  shows "isObjectPathValid c = isObjectPathValid (cstring_of s)"
  using assms cs_view [OF assms]
  by (simp add: isObjectPathValid_def cs_at_cstring_of nth_append Let_def)

lemma isSignatureValid_view:
  assumes "cs_block c = Some (s @ CHR 0x00 # rest)" and "cs_length c = length s"
  shows "isSignatureValid c ty = Some (fst (checkSignature s ty))"
  using assms cs_view [OF assms] by (simp add: isSignatureValid_def)

subsection \<open>Basic values\<close>

fun state_of :: "bval \<Rightarrow> io_state" where
  "state_of (BByte _) = Byte" | "state_of (BBoolean _) = Boolean" | "state_of (BInt16 _) = Int16"
| "state_of (BUint16 _) = Uint16" | "state_of (BInt32 _) = Int32" | "state_of (BUint32 _) = Uint32"
| "state_of (BInt64 _) = Int64" | "state_of (BUint64 _) = Uint64" | "state_of (BDouble _) = Double"
| "state_of (BString _) = String" | "state_of (BPath _) = ObjectPath"
| "state_of (BSig _) = Signature" | "state_of (BFd _) = UnixFd"

fun is_text :: "bval \<Rightarrow> bool" where
  "is_text (BString _) = True" | "is_text (BPath _) = True" | "is_text (BSig _) = True"
| "is_text _ = False"

fun text_of :: "bval \<Rightarrow> string" where
  "text_of (BString s) = s" | "text_of (BPath s) = s" | "text_of (BSig s) = s" | "text_of _ = []"

lemma typeInfo_letter_of:
  "typeInfo (letter_of b) = Some (type_row (state_of b) (letter_align (letter_of b)) (\<not> is_text b) (is_text b))"
  by (cases b) (simp_all add: typeInfo_letters letter_align_def)

lemma state_of_not [simp]:
  "state_of b \<noteq> InvalidData" "state_of b \<noteq> NeedMoreData" "state_of b \<noteq> EndArray"
  "state_of b \<noteq> EndDict" "state_of b \<noteq> EndStruct" "state_of b \<noteq> EndVariant"
  by (cases b; simp)+

lemma r_bytes_has:
  "has (r_data r) (r_datapos r) bs \<Longrightarrow> n = length bs \<Longrightarrow> r_bytes r n = Some bs"
  by (simp add: has_def r_bytes_def)



fun union_of :: "bval \<Rightarrow> data_union" where
  "union_of (BByte b) = UByte b" | "union_of (BBoolean b) = UBoolean b"
| "union_of (BInt16 v) = UInt16 v" | "union_of (BUint16 v) = UUint16 v"
| "union_of (BInt32 v) = UInt32 v" | "union_of (BUint32 v) = UUint32 v"
| "union_of (BInt64 v) = UInt64 v" | "union_of (BUint64 v) = UUint64 v"
| "union_of (BDouble v) = UDouble v" | "union_of (BFd v) = UInt32 v" | "union_of _ = UNone"

lemma doReadPrimitiveType_value:
  assumes "\<not> is_text b" and "r_state r = state_of b" and "basic_ok (r_fds r) b" and "r_nil r = 0"
    and "has (r_data r) (r_datapos r) (basic_bytes (r_swapped r) (r_fds r) b)"
  shows "doReadPrimitiveType r = r\<lparr>r_u := union_of b\<rparr>"
proof (cases b)
  case (BFd w)
  with assms show ?thesis
    using r_bytes_has [OF assms(5)] fd_index_nth [of w "r_fds r"]
    by (simp add: doReadPrimitiveType_def unat_of_nat_u32 u32_id order.strict_trans)
qed (use assms r_bytes_has [OF assms(5)] in \<open>simp_all add: doReadPrimitiveType_def\<close>)

lemma reads_primitive:
  assumes "\<not> is_text b" and "r_state r = state_of b" and "r_u r = union_of b"
  shows "reads r (DBasic b) (advanceState r)"
  using assms
  by (cases b)
    (auto simp: reader_read_defs intro: reads_reads_until_reads_entries.intros)

lemma basic_bytes_text:
  assumes "is_text b"
  shows "basic_bytes sw fds b =
    (if letter_of b = CHR ''g'' then [of_nat (length (text_of b))]
     else wire sw (writeUint32 (of_nat (length (text_of b))))) @ map byte_of (text_of b) @ [0]"
  using assms by (cases b) simp_all

lemma letter_align_text:
  "is_text b \<Longrightarrow> letter_align (letter_of b) = (if letter_of b = CHR ''g'' then 1 else 4)"
  by (cases b) (simp_all add: letter_align_def)

lemma map_char_of_byte_has:
  assumes "has D p (map byte_of s @ [0])"
  shows "map char_of_byte (drop p D) = s @ CHR 0x00 # map char_of_byte (drop (p + length s + 1) D)"
proof -
  have "drop p D = map byte_of s @ [0] @ drop (p + length s + 1) D"
    using assms append_take_drop_id [of "length s + 1" "drop p D"]
    by (simp add: has_def slice_at_def add.commute)
  then have "map char_of_byte (drop p D) =
      map char_of_byte (map byte_of s @ [0] @ drop (p + length s + 1) D)" by (rule arg_cong)
  then show ?thesis
    by (simp add: char_of_byte_def [of 0]) (simp add: char_of_def)
qed

lemma stringCheck_value:
  assumes "is_text b" and "basic_ok fds b" and "cs_block c = Some (text_of b @ CHR 0x00 # rest)"
    and "cs_length c = length (text_of b)" and "length (text_of b) + 1 < MaxArrayLength"
  shows "stringCheck (state_of b) c = Some True"
proof (cases b)
  case (BSig s)
  with assms isSignatureValid_view [OF assms(3,4)] show ?thesis
    by (simp add: stringCheck_def isSignatureValid_cstring_of)
qed (use assms isStringValid_view [OF assms(3,4)] isObjectPathValid_view [OF assms(3,4)] in
  \<open>simp_all add: stringCheck_def\<close>)

lemma doReadString_value:
  assumes "is_text b" and "r_state r = state_of b" and "basic_ok (r_fds r) b"
    and "has (r_data r) (r_datapos r) (basic_bytes (r_swapped r) (r_fds r) b)"
    and "length (r_data r) \<le> 67108864"
  shows "doReadString (letter_align (letter_of b)) r =
    r\<lparr>r_u := UString (DataPtr (r_datapos r + letter_align (letter_of b))) (length (text_of b)),
      r_datapos := r_datapos r + length (basic_bytes (r_swapped r) (r_fds r) b)\<rparr>"
proof -
  let ?al = "letter_align (letter_of b)" and ?s = "text_of b"
  define pre where "pre = (if letter_of b = CHR ''g'' then [of_nat (length ?s) :: byte]
     else wire (r_swapped r) (writeUint32 (of_nat (length ?s))))"
  have bytes: "basic_bytes (r_swapped r) (r_fds r) b = pre @ map byte_of ?s @ [0]"
    using basic_bytes_text [OF assms(1)] by (simp add: pre_def)
  have al: "?al = length pre" "length pre = 1 \<longleftrightarrow> letter_of b = CHR ''g''" "0 < length pre" "length pre \<le> 4"
    "letter_of b \<noteq> CHR ''g'' \<longrightarrow> length pre = 4"
    using letter_align_text [OF assms(1)] by (simp_all add: pre_def del: length_greater_0_conv)
  have h: "has (r_data r) (r_datapos r) pre" "has (r_data r) (r_datapos r + length pre) (map byte_of ?s @ [0])"
    using assms(4) unfolding bytes has_append by simp_all
  note len = has_bound [OF h(2)]
  have n: "(if ?al = 1 then u32 (1 + unat (pre ! 0)) else u32 (1 + unat (readUint32 pre (r_swapped r))))
      = length ?s + 1"
  proof (cases "letter_of b = CHR ''g''")
    case True
    with assms(1,3) have "length ?s \<le> 254" by (cases b) simp_all
    with True al show ?thesis by (simp add: pre_def unat_of_nat)
  next
    case False
    with al len assms(5) show ?thesis by (simp add: pre_def unat_of_nat_u32)
  qed
  have lt: "length ?s + 1 < MaxArrayLength"
    using al(3) len assms(5) by (simp add: limit_defs del: length_greater_0_conv)
  have check: "stringCheck (state_of b) (r_cstring r2 (DataPtr (r_datapos r + length pre)) (length ?s)) = Some True"
    if "r_data r2 = r_data r" for r2
    using map_char_of_byte_has [OF h(2)] lt
    by (intro stringCheck_value [OF assms(1,3)]) (simp_all add: r_block_def that)
  have nl: "\<not> (letter_of b \<noteq> CHR ''g'' \<and> 67108862 \<le> length ?s)"
    using al(5) len assms(5) by auto
  show ?thesis
    unfolding doReadString_def r_bytes_has [OF h(1) al(1)] option.case n
    using al len assms(2,5) check nl by (auto simp: bytes limit_defs Let_def)
qed

lemma reads_text:
  assumes "is_text b" and "r_state r = state_of b" and "r_u r = UString (DataPtr p) (length (text_of b))"
    and "has (r_data r) p (map byte_of (text_of b) @ [0])"
  shows "reads r (DBasic b) (advanceState r)"
proof -
  have c: "cs_chars (r_cstring r (DataPtr p) (length (text_of b))) = text_of b"
    using map_char_of_byte_has [OF assms(4)] by (intro cs_view(2)) (simp_all add: r_block_def)
  show ?thesis
  proof (cases b)
    case (BString s)
    with rd_string [of r _ "advanceState r"] assms(2,3) c show ?thesis
      by (simp add: reader_readString_def)
  next
    case (BPath s)
    with rd_path [of r _ "advanceState r"] assms(2,3) c show ?thesis
      by (simp add: reader_readObjectPath_def)
  next
    case (BSig s)
    with rd_sig [of r _ "advanceState r"] assms(2,3) c show ?thesis
      by (simp add: reader_readSignature_def)
  qed (use assms(1) in simp_all)
qed

text \<open>Reading starts at a value: what the data and the signature have at the position.\<close>

definition at_value :: "reader \<Rightarrow> string \<Rightarrow> dval \<Rightarrow> string \<Rightarrow> bool" where
  "at_value c pre v post \<longleftrightarrow>
     r_nil c = 0 \<and> length (r_data c) \<le> 67108864 \<and> val_ok (r_fds c) (r_nesting c) v \<and>
     sig_ctx c (pre @ sig_of (type_of v) @ post) \<and> r_sigpos c = length pre \<and>
     has (r_data c) (r_datapos c) (enc (r_swapped c) (r_fds c) (r_datapos c) v)"

definition behind :: "reader \<Rightarrow> dval \<Rightarrow> io_state \<Rightarrow> data_union \<Rightarrow> reader" where
  "behind c v st u = c\<lparr>r_sigpos := r_sigpos c + length (sig_of (type_of v)) - 1,
     r_datapos := r_datapos c + length (enc (r_swapped c) (r_fds c) (r_datapos c) v),
     r_state := st, r_u := u\<rparr>"

definition read_back :: "dval \<Rightarrow> bool" where
  "read_back v \<longleftrightarrow> (\<forall>c pre post s d. at_value c pre v post \<longrightarrow>
     (\<exists>st u. st \<noteq> InvalidData \<and> reads (advanceOpen s d c) v (advanceState (behind c v st u))))"

lemma open_basic:
  assumes a: "at_value c pre (DBasic b) post"
  shows "\<exists>st u. st \<noteq> InvalidData \<and> advanceOpen s d c = behind c (DBasic b) st u \<and>
    reads (advanceOpen s d c) (DBasic b) (advanceState (behind c (DBasic b) st u))"
proof -
  let ?al = "letter_align (letter_of b)"
  let ?bytes = "basic_bytes (r_swapped c) (r_fds c) b"
  let ?q = "up (r_datapos c) ?al"
  define r2 where "r2 = c\<lparr>r_state := state_of b, r_datapos := ?q\<rparr>"
  from a have at: "r_sig_at c (r_sigpos c) = Some (letter_of b)"
    using sig_ctx_at [of c "pre @ letter_of b # post" "length pre"] by (simp add: at_value_def)
  have q: "r_datapos c \<le> ?q" by (simp add: up_bounds)
  from a q have h: "has (r_data c) (r_datapos c) (padding (r_datapos c) ?al)" "has (r_data c) ?q ?bytes"
    by (simp_all add: at_value_def has_append)
  have r2: "r_state r2 = state_of b" "r_nil r2 = 0" "r_data r2 = r_data c" "r_datapos r2 = ?q"
    "r_swapped r2 = r_swapped c" "r_fds r2 = r_fds c" "basic_ok (r_fds r2) b"
    using a by (simp_all add: r2_def at_value_def)
  have len: "length (r_data c) \<le> 67108864" using a by (simp add: at_value_def)
  have al: "?al \<le> length ?bytes" by (cases b) (simp_all add: letter_align_def)
  have bh: "behind c (DBasic b) st u = r2\<lparr>r_datapos := ?q + length ?bytes, r_state := st, r_u := u\<rparr>" for st u
    using a q by (simp add: behind_def r2_def at_value_def)
  note open_eq = advanceOpen_type [OF at typeInfo_letter_of, simplified type_row_def, simplified,
      OF _ h(1) len r2_def]
  show ?thesis
  proof (cases "is_text b")
    case False
    have p: "length ?bytes = ?al" using False by (cases b) (simp_all add: letter_align_def)
    have "advanceOpen s d c = behind c (DBasic b) (state_of b) (union_of b)"
      using False open_eq r2 h(2) al a has_bound [OF h(2)] len doReadPrimitiveType_value [of b r2]
      by (simp add: p bh at_value_def r2_def)
    with reads_primitive [of b "advanceOpen s d c"] False show ?thesis
      by (intro exI [of _ "state_of b"] exI [of _ "union_of b"]) (simp add: bh)
  next
    case True
    let ?u = "UString (DataPtr (?q + ?al)) (length (text_of b))"
    have "advanceOpen s d c = behind c (DBasic b) (state_of b) ?u"
      using True open_eq r2 h(2) al a has_bound [OF h(2)] len doReadString_value [of b r2]
      by (simp add: bh at_value_def Let_def r2_def)
    moreover have "has (r_data c) (?q + ?al) (map byte_of (text_of b) @ [0])"
      using h(2) True by (simp add: basic_bytes_text letter_align_text has_append has_Cons split: if_splits)
    ultimately show ?thesis
      using reads_text [of b "advanceOpen s d c" "?q + ?al"] True r2(3)
      by (intro exI [of _ "state_of b"] exI [of _ ?u]) (simp add: bh)
  qed
qed

lemma read_back_basic: "read_back (DBasic b)"
  unfolding read_back_def using open_basic by blast

end
