(* ===== verification/Reader_Aggregates.thy ===== *)
theory Reader_Aggregates
  imports Reader_Decode
begin

text \<open>
  The second half of the proof that a reader gives back what was encoded: structs, variants, arrays
  and dicts, empty ones included, and whole argument lists.
\<close>

subsection \<open>Structs\<close>

lemma reads_state:
  "reads r v r' \<Longrightarrow> r_state r \<noteq> EndArray \<and> r_state r \<noteq> EndDict \<and> r_state r \<noteq> EndStruct \<and> r_state r \<noteq> EndVariant"
  by (cases rule: reads.cases) auto


lemma sig_ctx_simps [simp]:
  "sig_ctx (r\<lparr>r_sigpos := n\<rparr>) = sig_ctx r" "sig_ctx (r\<lparr>r_datapos := n\<rparr>) = sig_ctx r"
  "sig_ctx (r\<lparr>r_state := st\<rparr>) = sig_ctx r" "sig_ctx (r\<lparr>r_u := u\<rparr>) = sig_ctx r"
  "sig_ctx (r\<lparr>r_stack := k\<rparr>) = sig_ctx r" "sig_ctx (r\<lparr>r_nesting := m\<rparr>) = sig_ctx r"
  "sig_ctx (r\<lparr>r_nil := n\<rparr>) = sig_ctx r"
  by (simp_all add: sig_ctx_def fun_eq_iff)

lemma r_sig_at_simps [simp]:
  "r_sig_at (r\<lparr>r_sigpos := n\<rparr>) = r_sig_at r" "r_sig_at (r\<lparr>r_datapos := n\<rparr>) = r_sig_at r"
  "r_sig_at (r\<lparr>r_state := st\<rparr>) = r_sig_at r" "r_sig_at (r\<lparr>r_u := u\<rparr>) = r_sig_at r"
  "r_sig_at (r\<lparr>r_stack := k\<rparr>) = r_sig_at r" "r_sig_at (r\<lparr>r_nesting := m\<rparr>) = r_sig_at r"
  "r_sig_at (r\<lparr>r_nil := n\<rparr>) = r_sig_at r"
  by (simp_all add: r_sig_at_def r_cstring_def fun_eq_iff)


lemma seq_struct:
  assumes "\<And>v. v \<in> set vs \<Longrightarrow> read_back v"
    and "r_stack b = RStruct # k" and "r_state b \<noteq> InvalidData" and "r_nil b = 0"
    and "length (r_data b) \<le> 67108864" and "list_all (val_ok (r_fds b) (r_nesting b)) vs"
    and "sig_ctx b (pre @ sigs_of vs @ CHR '')'' # post)" and "u32 (r_sigpos b + 1) = length pre"
    and "has (r_data b) (r_datapos b) (enc_seq (r_swapped b) (r_fds b) (r_datapos b) vs)"
  shows "\<exists>u. reads_until EndStruct (advanceState b) vs (b\<lparr>r_sigpos := length pre + length (sigs_of vs),
     r_datapos := r_datapos b + length (enc_seq (r_swapped b) (r_fds b) (r_datapos b) vs),
     r_state := EndStruct, r_u := u\<rparr>)"
  using assms
proof (induction vs arbitrary: b pre)
  case Nil
  let ?c = "b\<lparr>r_sigpos := length pre\<rparr>"
  have "advanceClosing b = Inr ?c"
    using Nil.prems by (simp add: advanceClosing_def)
  moreover have "r_sig_at ?c (r_sigpos ?c) = Some (CHR '')'')"
    using Nil.prems(7) sig_ctx_at [of b "pre @ '')'' @ post" "length pre"] by simp
  ultimately have "advanceState b = ?c\<lparr>r_state := EndStruct, r_datapos := r_datapos b\<rparr>"
    using Nil.prems advanceOpen_type [of ?c "CHR '')''" "type_row EndStruct 1 False False"
        "?c\<lparr>r_state := EndStruct, r_datapos := r_datapos b\<rparr>" "r_sigpos b" "r_datapos b"]
    by (simp add: advanceState_open typeInfo_letters type_row_def advanceAggregate_def has_def slice_at_def)
  then show ?case
    by (intro exI [of _ "r_u b"]) (auto intro!: reads_reads_until_reads_entries.until_end)
next
  case (Cons v vs)
  let ?c = "b\<lparr>r_sigpos := length pre\<rparr>"
  have closing: "advanceClosing b = Inr ?c"
    using Cons.prems by (simp add: advanceClosing_def)
  have "at_value ?c pre v (sigs_of vs @ CHR '')'' # post)"
    using Cons.prems by (simp add: at_value_def has_append Let_def)
  with Cons.prems(1) obtain st u where r: "st \<noteq> InvalidData"
      "reads (advanceState b) v (advanceState (behind ?c v st u))"
    unfolding advanceState_open [OF Cons.prems(3) closing] read_back_def by (meson list.set_intros(1))
  have len: "r_sigpos (behind ?c v st u) + 1 = length (pre @ sig_of (type_of v))"
    using sig_pos [of "type_of v"] by (simp add: behind_def)
  have small: "length (pre @ sig_of (type_of v)) < 4294967296"
    using Cons.prems(7) by (simp add: sig_ctx_def)
  have b': "r_stack (behind ?c v st u) = RStruct # k" "r_state (behind ?c v st u) \<noteq> InvalidData"
    "r_nil (behind ?c v st u) = 0" "length (r_data (behind ?c v st u)) \<le> 67108864"
    "list_all (val_ok (r_fds (behind ?c v st u)) (r_nesting (behind ?c v st u))) vs"
    "sig_ctx (behind ?c v st u) ((pre @ sig_of (type_of v)) @ sigs_of vs @ CHR '')'' # post)"
    "u32 (r_sigpos (behind ?c v st u) + 1) = length (pre @ sig_of (type_of v))"
    "has (r_data (behind ?c v st u)) (r_datapos (behind ?c v st u))
      (enc_seq (r_swapped (behind ?c v st u)) (r_fds (behind ?c v st u)) (r_datapos (behind ?c v st u)) vs)"
    using Cons.prems(2-9) r(1) small unfolding len
    by (simp_all add: behind_def has_append Let_def)
  from Cons.IH [OF Cons.prems(1) b'] have "\<exists>u'. reads_until EndStruct (advanceState (behind ?c v st u)) vs
    ((behind ?c v st u)\<lparr>r_sigpos := length (pre @ sig_of (type_of v)) + length (sigs_of vs),
     r_datapos := r_datapos (behind ?c v st u) + length (enc_seq (r_swapped (behind ?c v st u))
       (r_fds (behind ?c v st u)) (r_datapos (behind ?c v st u)) vs),
     r_state := EndStruct, r_u := u'\<rparr>)" by simp
  then obtain u' where "reads_until EndStruct (advanceState (behind ?c v st u)) vs
    (b\<lparr>r_sigpos := length pre + length (sigs_of (v # vs)),
     r_datapos := r_datapos b + length (enc_seq (r_swapped b) (r_fds b) (r_datapos b) (v # vs)),
     r_state := EndStruct, r_u := u'\<rparr>)"
    by (auto simp: behind_def Let_def add.assoc)
  with until_value [OF _ r(2)] reads_state [OF r(2)] show ?case by blast
qed

lemma read_back_struct:
  assumes "\<And>v. v \<in> set vs \<Longrightarrow> read_back v"
  shows "read_back (DStruct vs)"
  unfolding read_back_def
proof (intro allI impI)
  fix c pre post s d
  assume a: "at_value c pre (DStruct vs) post"
  let ?q = "up (r_datapos c) 8"
  define nest where "nest = snd (nestBeginParen (r_nesting c))"
  define r2 where "r2 = c\<lparr>r_state := BeginStruct, r_datapos := ?q\<rparr>"
  define r where "r = r2\<lparr>r_nesting := nest\<rparr>"
  define b where "b = r\<lparr>r_stack := RStruct # r_stack c\<rparr>"
  from a have ctx: "sig_ctx c ((pre @ ''('') @ sigs_of vs @ CHR '')'' # post)"
    by (simp add: at_value_def sigs_of_def comp_def)
  from a have nest: "nestBeginParen (r_nesting c) = (True, nest)"
    by (simp add: at_value_def nest_def prod_eq_iff)
  have end_nest: "nestEndParen nest = r_nesting c" by (simp add: nest_def)
  have q: "r_datapos c \<le> ?q" by (simp add: up_bounds wire_alignment_def)
  from a q have h: "has (r_data c) (r_datapos c) (padding (r_datapos c) 8)"
    "has (r_data c) ?q (enc_seq (r_swapped c) (r_fds c) ?q vs)"
    by (simp_all add: at_value_def has_append)
  have "r_sig_at c (r_sigpos c) = Some (CHR ''('')"
    using a sig_ctx_at [OF ctx, of "length pre"] by (simp add: at_value_def nth_append)
  with a h(1) have "advanceOpen s d c = r"
    using advanceOpen_type [of c "CHR ''(''" "type_row BeginStruct 8 False False" r2 s d]
    by (simp add: typeInfo_letters type_row_def r2_def at_value_def advanceAggregate_def openStruct_def nest r_def)
  moreover have "\<exists>u. reads_until EndStruct (advanceState b) vs (b\<lparr>
      r_sigpos := length (pre @ ''('') + length (sigs_of vs),
      r_datapos := r_datapos b + length (enc_seq (r_swapped b) (r_fds b) (r_datapos b) vs),
      r_state := EndStruct, r_u := u\<rparr>)"
  proof (rule seq_struct [OF assms])
    show "sig_ctx b ((pre @ ''('') @ sigs_of vs @ CHR '')'' # post)"
      using ctx by (simp add: b_def r_def r2_def)
    show "u32 (r_sigpos b + 1) = length (pre @ ''('')"
      using a ctx by (simp add: b_def r_def r2_def at_value_def sig_ctx_def)
  qed (use a h(2) in \<open>simp_all add: b_def r_def r2_def at_value_def nest_def\<close>)
  then obtain u where "reads_until EndStruct (reader_beginStruct r) vs (b\<lparr>
      r_sigpos := length (pre @ ''('') + length (sigs_of vs),
      r_datapos := r_datapos b + length (enc_seq (r_swapped b) (r_fds b) (r_datapos b) vs),
      r_state := EndStruct, r_u := u\<rparr>)"
    by (auto simp: reader_beginStruct_def b_def r_def r2_def)
  from rd_struct [OF _ this] have "reads r (DStruct vs) (advanceState (behind c (DStruct vs) EndStruct u))"
    using a q
    by (simp add: reader_endStruct_def b_def r_def r2_def behind_def at_value_def sig_of_type_struct
        end_nest add.assoc del: sig_of.simps type_of.simps)
  ultimately show "\<exists>st u. st \<noteq> InvalidData \<and> reads (advanceOpen s d c) (DStruct vs)
      (advanceState (behind c (DStruct vs) st u))"
    by (intro exI [of _ EndStruct] exI [of _ u]) simp
qed

subsection \<open>What advanceState leaves alone\<close>

definition same_frame :: "reader \<Rightarrow> reader \<Rightarrow> bool" where
  "same_frame r r' \<longleftrightarrow> r_args r' = r_args r \<and> r_data r' = r_data r \<and> r_signature r' = r_signature r \<and>
     r_siglen r' = r_siglen r \<and> r_stack r' = r_stack r \<and> r_nil r' = r_nil r"

lemma same_frame_trans: "same_frame a b \<Longrightarrow> same_frame b c \<Longrightarrow> same_frame a c"
  by (simp add: same_frame_def)

lemma same_frame_refl [simp]: "same_frame r r"
  by (simp add: same_frame_def)

lemma same_frame_fail [simp]:
  "same_frame a (r_fail e r) = same_frame a r" "same_frame a (r_undefined r) = same_frame a r"
  "same_frame a (outNeedMoreData s d r) = same_frame a r"
  by (simp_all add: same_frame_def r_fail_def r_undefined_def outNeedMoreData_def)

lemma same_frame_upd [simp]:
  "same_frame a (r\<lparr>r_sigpos := n\<rparr>) = same_frame a r" "same_frame a (r\<lparr>r_datapos := n\<rparr>) = same_frame a r"
  "same_frame a (r\<lparr>r_state := st\<rparr>) = same_frame a r" "same_frame a (r\<lparr>r_u := u\<rparr>) = same_frame a r"
  "same_frame a (r\<lparr>r_nesting := m\<rparr>) = same_frame a r"
  by (simp_all add: same_frame_def)

lemma advanceClosing_frame:
  "advanceClosing r = Inl r' \<or> advanceClosing r = Inr r' \<Longrightarrow> same_frame r r'"
  by (auto simp: advanceClosing_def Let_def split: list.splits reader_aggregate.splits if_splits)

lemma doReadPrimitiveType_frame [simp]: "same_frame a (doReadPrimitiveType r) = same_frame a r"
  by (simp add: doReadPrimitiveType_def Let_def split: io_state.split option.split)

lemma doReadString_frame [simp]: "same_frame a (doReadString n r) = same_frame a r"
  by (simp add: doReadString_def Let_def split: option.split)

lemma advanceValue_frame:
  "advanceValue s d r = Inl r' \<or> advanceValue s d r = Inr r' \<Longrightarrow> same_frame r r'"
  by (auto simp: advanceValue_def Let_def split: option.splits if_splits)

lemma openStruct_frame [simp]: "same_frame a (openStruct r) = same_frame a r"
  by (simp add: openStruct_def Let_def split: prod.split)

lemma openVariant_frame [simp]: "same_frame a (openVariant s d r) = same_frame a r"
  by (simp add: openVariant_def Let_def split: prod.split option.split)

lemma openArray_frame [simp]: "same_frame r (openArray s d r)"
  by (auto simp: openArray_def Let_def split: prod.splits option.splits sum.splits if_splits)

lemma advanceState_frame: "same_frame r (advanceState r)"
proof -
  have "same_frame r (advanceAggregate s d r)" for s d r
    by (simp add: advanceAggregate_def split: io_state.split)
  then show ?thesis
    by (auto simp: advanceState_def split: sum.split dest!: advanceClosing_frame [OF disjI1]
        advanceClosing_frame [OF disjI2] advanceValue_frame [OF disjI1] advanceValue_frame [OF disjI2]
        intro: same_frame_trans)
qed

lemma r_block_frame: "same_frame r r' \<Longrightarrow> r_block r' = r_block r"
  by (simp add: same_frame_def r_block_def fun_eq_iff split: pointer.split)

subsection \<open>Variants\<close>

lemma sig_of_chars:
  assumes "block = Some (s @ CHR 0x00 # rest)" and "r_block r (r_signature r) = block" and "r_siglen r = length s"
  shows "cs_chars (currentSignature r) = s"
  using assms by (simp add: currentSignature_def cs_chars_def)

lemma read_back_variant:
  assumes "read_back v"
  shows "read_back (DVariant v)"
  unfolding read_back_def
proof (intro allI impI)
  fix c pre post sv dt
  assume a: "at_value c pre (DVariant v) post"
  let ?s = "sig_of (type_of v)"
  let ?D = "r_data c"
  let ?e = "enc (r_swapped c) (r_fds c) (r_datapos c + length ?s + 2) v"
  define nest where "nest = snd (nestBeginVariant (r_nesting c))"
  define start where "start = r_datapos c + 1"
  define r2 where "r2 = c\<lparr>r_state := BeginVariant\<rparr>"
  define r where "r = c\<lparr>r_state := BeginVariant, r_datapos := start + length ?s + 1, r_nesting := nest,
    r_u := UString (DataPtr start) (length ?s)\<rparr>"
  define b where "b = r\<lparr>r_stack := RVariant (r_signature c) (r_siglen c) (r_sigpos c) # r_stack c,
    r_signature := DataPtr start, r_siglen := length ?s, r_sigpos := 4294967295\<rparr>"
  let ?b0 = "b\<lparr>r_sigpos := 0\<rparr>"
  have ctx: "sig_ctx c (pre @ CHR ''v'' # post)" using a by (simp add: at_value_def)
  have ok: "type_fits no_nesting (type_of v)" "length ?s \<le> 255" "val_ok (r_fds c) nest v"
    and nest: "nestBeginVariant (r_nesting c) = (True, nest)"
    using a by (simp_all add: at_value_def nest_def prod_eq_iff)
  have end_nest: "nestEndVariant nest = r_nesting c" by (simp add: nest_def)
  have h: "r_datapos c < length ?D" "?D ! r_datapos c = of_nat (length ?s)"
      "has ?D start (map byte_of ?s @ [0])" "has ?D (start + length ?s + 1) ?e"
    using a by (simp_all add: at_value_def has_Cons has_append start_def Let_def)
  have small: "length ?D \<le> 67108864" using a by (simp add: at_value_def)
  have len: "unat (?D ! r_datapos c) = length ?s" using h(2) ok(2) by (simp add: unat_of_nat)
  have block: "r_block x (DataPtr start) =
      Some (?s @ CHR 0x00 # map char_of_byte (drop (start + length ?s + 1) ?D))" if "r_data x = ?D" for x
    using map_char_of_byte_has [OF h(3)] that by (simp add: r_block_def)
  have sig_ok: "isSignatureValid (r_cstring x (DataPtr start) (length ?s)) VariantSignature = Some True"
    if "r_data x = ?D" for x
    using isSignatureValid_view [of "r_cstring x (DataPtr start) (length ?s)" ?s] block [OF that]
      signature_check_complete(2) [OF ok(1)] by simp
  have "r_sig_at c (r_sigpos c) = Some (CHR ''v'')"
    using a sig_ctx_at [OF ctx, of "length pre"] by (simp add: at_value_def)
  then have "advanceOpen sv dt c = advanceAggregate sv dt r2"
    using a small advanceOpen_type [of c "CHR ''v''" "type_row BeginVariant 1 False False" r2 sv dt]
    by (simp add: typeInfo_letters type_row_def r2_def at_value_def has_def slice_at_def)
  also have "\<dots> = r"
    using a small h(1) has_bound [OF h(3)] sig_ok nest
    by (simp add: advanceAggregate_def openVariant_def Let_def at_value_def r2_def r_def len start_def)
  finally have open_eq: "advanceOpen sv dt c = r" .
  have begin_eq: "reader_beginVariant r = advanceState b"
    by (simp add: reader_beginVariant_def r_def b_def)
  have "advanceClosing b = Inr ?b0"
    using sig_pos [of "type_of v"] by (simp add: advanceClosing_def b_def u32_def)
  then have adv: "advanceState b = advanceOpen (r_sigpos b) (r_datapos b) ?b0"
    by (intro advanceState_open) (simp_all add: b_def r_def)
  have "at_value ?b0 [] v []"
    using a ok h(4) block [of b] has_bound [OF h(3)] small
    by (simp add: at_value_def b_def r_def sig_ctx_def start_def add.assoc)
  with assms obtain st u where v: "st \<noteq> InvalidData" "reads (advanceState b) v (advanceState (behind ?b0 v st u))"
    unfolding adv read_back_def by blast
  define e where "e = (behind ?b0 v st u)\<lparr>r_sigpos := length ?s, r_state := EndVariant\<rparr>"
  have "advanceClosing (behind ?b0 v st u) = Inl e"
    using ok(2) sig_pos [of "type_of v"] by (simp add: advanceClosing_def behind_def b_def e_def Let_def)
  then have "advanceState (behind ?b0 v st u) = e"
    using v(1) by (intro advanceState_return) (simp_all add: behind_def)
  with v(2) have "reads_until EndVariant (reader_beginVariant r) [v] e"
    using reads_state [OF v(2)] unfolding begin_eq
    by (auto simp: e_def intro!: reads_reads_until_reads_entries.until_value
        reads_reads_until_reads_entries.until_end)
  moreover have "cs_chars (currentSignature (reader_beginVariant r)) = ?s"
    using advanceState_frame [of b] block [of b] r_block_frame [OF advanceState_frame [of b]]
    unfolding begin_eq by (intro sig_of_chars) (auto simp: same_frame_def b_def r_def)
  ultimately have "reads r (DVariant v) (reader_endVariant e)"
    by (intro rd_variant) (simp_all add: r_def)
  moreover have "reader_endVariant e = advanceState (behind c (DVariant v) EndVariant u)"
  proof -
    have "e\<lparr>r_nesting := nestEndVariant (r_nesting e), r_signature := r_signature c, r_siglen := r_siglen c,
        r_sigpos := r_sigpos c, r_stack := r_stack c\<rparr> = behind c (DVariant v) EndVariant u"
      by (simp add: e_def behind_def b_def r_def end_nest start_def Let_def add.assoc)
    moreover have "r_stack e = RVariant (r_signature c) (r_siglen c) (r_sigpos c) # r_stack c"
      by (simp add: e_def behind_def b_def)
    ultimately show ?thesis by (simp add: reader_endVariant_def) (simp add: e_def)
  qed
  ultimately show "\<exists>st u. st \<noteq> InvalidData \<and> reads (advanceOpen sv dt c) (DVariant v)
      (advanceState (behind c (DVariant v) st u))"
    unfolding open_eq by (intro exI [of _ EndVariant] exI [of _ u]) simp
qed

lemma currentSingle_type:
  assumes "sig_ctx r (pre @ sig_of t @ post)" and "r_sigpos r = length pre" and "type_fits no_nesting t"
  shows "currentSingleCompleteTypeSignature r = Some (sig_of t)"
  using parse_complete [OF assms(3), of post] sig_ctx_remaining [OF assms(1,2)]
  by (simp add: currentSingleCompleteTypeSignature_def)

subsection \<open>Arrays\<close>

lemma skip_signature_array:
  assumes "sig_ctx b (pre @ sig_of (TArray t) @ post)" and "r_sigpos b = length pre"
    and "nestBeginArray n = (True, r_nesting b)" and "type_fits n (TArray t)"
  shows "skipArrayOrDictSignature False b = b\<lparr>r_sigpos := length pre + length (sig_of t)\<rparr>"
proof -
  have n: "nestEndArray (r_nesting b) = n"
    using nest_end_begin(1) [of n] assms(3) by simp
  have rem: "r_remaining (b\<lparr>r_nesting := n\<rparr>) = Some (sig_of (TArray t) @ post)"
    using assms(1,2) by (intro sig_ctx_remaining) (simp_all del: sig_of.simps)
  have "r_siglen b = length pre + (length (sig_of t) + 1) + length post" "length pre + length (sig_of t) + length post < 2147483647"
    using assms(1) by (auto simp: sig_ctx_def)
  then have "sub32 (sub32 (r_siglen b) (length post)) 1 = length pre + length (sig_of t)" by simp
  then show ?thesis
    using rem parse_complete [OF assms(4), of post] assms(3)
    by (simp add: skipArrayOrDictSignature_def n del: sig_of.simps type_fits.simps)
qed

lemma seq_array:
  assumes "\<And>v. v \<in> set vs \<Longrightarrow> read_back v"
    and "r_stack b = RArray dataEnd (length pre) # k" and "r_state b \<noteq> InvalidData" and "r_nil b = 0"
    and "length (r_data b) \<le> 67108864"
    and "list_all (\<lambda>v. type_of v = t \<and> val_ok (r_fds b) (r_nesting b) v) vs"
    and "sig_ctx b (pre @ sig_of t @ post)"
    and "r_sigpos b + 1 = length pre \<and> vs \<noteq> [] \<or> r_sigpos b + 1 = length pre + length (sig_of t)"
    and "has (r_data b) (r_datapos b) (enc_seq (r_swapped b) (r_fds b) (r_datapos b) vs)"
    and "dataEnd = r_datapos b + length (enc_seq (r_swapped b) (r_fds b) (r_datapos b) vs)"
  shows "\<exists>u. reads_until EndArray (advanceState b) vs (b\<lparr>r_sigpos := length pre + length (sig_of t),
     r_datapos := dataEnd, r_state := EndArray, r_u := u\<rparr>)"
  using assms
proof (induction vs arbitrary: b)
  case Nil
  have small: "length pre + length (sig_of t) < 2147483648" using Nil.prems(7) by (auto simp: sig_ctx_def)
  let ?e = "b\<lparr>r_sigpos := length pre + length (sig_of t), r_state := EndArray\<rparr>"
  have "u32 (Suc (r_sigpos b)) = length pre + length (sig_of t)"
    using Nil.prems(8) small by simp
  then have "advanceClosing b = Inl ?e"
    using Nil.prems(2,4,10) sig_pos [of t] by (simp add: advanceClosing_def Let_def)
  then have "advanceState b = ?e" using Nil.prems(3) by (rule advanceState_return [rotated])
  then show ?case
    using Nil.prems(10) by (intro exI [of _ "r_u b"]) (auto intro!: reads_reads_until_reads_entries.until_end)
next
  case (Cons v vs)
  let ?c = "b\<lparr>r_sigpos := length pre\<rparr>"
  have small: "length pre + length (sig_of t) < 2147483648" using Cons.prems(7) by (auto simp: sig_ctx_def)
  have vt: "type_of v = t" "val_ok (r_fds b) (r_nesting b) v" using Cons.prems(6) by simp_all
  have data: "r_datapos b < dataEnd"
    using enc_nonempty [OF vt(2)] by (simp add: Cons.prems(10) Let_def)
  have closing: "advanceClosing b = Inr ?c"
    using Cons.prems(2,4,8) small data by (auto simp: advanceClosing_def Let_def)
  have "at_value ?c pre v post"
    using Cons.prems(4,5,7,9) vt by (simp add: at_value_def has_append Let_def)
  with Cons.prems(1) obtain st u where r: "st \<noteq> InvalidData"
      "reads (advanceState b) v (advanceState (behind ?c v st u))"
    unfolding advanceState_open [OF Cons.prems(3) closing] read_back_def by (meson list.set_intros(1))
  let ?b = "behind ?c v st u"
  have b': "r_stack ?b = RArray dataEnd (length pre) # k" "r_state ?b \<noteq> InvalidData"
    "r_nil ?b = 0" "length (r_data ?b) \<le> 67108864"
    "list_all (\<lambda>v. type_of v = t \<and> val_ok (r_fds ?b) (r_nesting ?b) v) vs"
    "sig_ctx ?b (pre @ sig_of t @ post)"
    "r_sigpos ?b + 1 = length pre \<and> vs \<noteq> [] \<or> r_sigpos ?b + 1 = length pre + length (sig_of t)"
    "has (r_data ?b) (r_datapos ?b) (enc_seq (r_swapped ?b) (r_fds ?b) (r_datapos ?b) vs)"
    "dataEnd = r_datapos ?b + length (enc_seq (r_swapped ?b) (r_fds ?b) (r_datapos ?b) vs)"
    using Cons.prems(2-10) r(1) vt sig_pos(1) [of t]
    by (simp_all add: behind_def has_append Let_def del: sig_pos)
  from Cons.IH [OF Cons.prems(1) b'] obtain u' where
    "reads_until EndArray (advanceState ?b) vs (?b\<lparr>r_sigpos := length pre + length (sig_of t),
      r_datapos := dataEnd, r_state := EndArray, r_u := u'\<rparr>)" by auto
  then have "reads_until EndArray (advanceState ?b) vs (b\<lparr>r_sigpos := length pre + length (sig_of t),
      r_datapos := dataEnd, r_state := EndArray, r_u := u'\<rparr>)" by (simp add: behind_def)
  with until_value [OF _ r(2)] reads_state [OF r(2)] show ?case by blast
qed

lemma until_end_eq: "r_state r = e \<Longrightarrow> r' = r \<Longrightarrow> reads_until e r [] r'"
  by (simp add: reads_reads_until_reads_entries.until_end)

lemma openArray_value:
  assumes "r_nil r = 0" and "r_state r = BeginArray" and "length (r_data r) \<le> 67108864"
    and "has (r_data r) (r_datapos r)
      (wire (r_swapped r) (writeUint32 (of_nat (length body))) @ padding (r_datapos r + 4) al @ body)"
    and "r_sig_at r (r_sigpos r + 1) = Some l" and "r_sigpos r + 1 < 4294967296" and "wire_alignment al"
    and "(if l = CHR ''{'' then Some StructAlignment else map_option ti_alignment (typeInfo l)) = Some al"
    and "nestBeginArray (r_nesting r) = (True, n1)"
    and "if l = CHR ''{'' then nestBeginParen n1 = (True, nest) else nest = n1"
  shows "openArray s d r = r\<lparr>r_state := (if l = CHR ''{'' then BeginDict else BeginArray),
    r_datapos := up (r_datapos r + 4) al, r_nesting := nest,
    r_u := UUint32 (of_nat (up (r_datapos r + 4) al + length body))\<rparr>"
proof -
  let ?q = "r_datapos r" and ?n = "length body" and ?start = "up (r_datapos r + 4) al"
  have h: "has (r_data r) ?q (wire (r_swapped r) (writeUint32 (of_nat ?n)))"
    "has (r_data r) (?q + 4) (padding (?q + 4) al)" "has (r_data r) ?start body"
    using assms(4) up_bounds(1) [OF assms(7), of "?q + 4"] by (simp_all add: has_append)
  have bytes: "r_bytes r 4 = Some (wire (r_swapped r) (writeUint32 (of_nat ?n)))"
    using h(1) by (rule r_bytes_has) simp
  have b: "?q + 4 \<le> ?start" "?start + ?n \<le> length (r_data r)"
    using up_bounds(1) [OF assms(7), of "?q + 4"] has_bound [OF h(3)] by simp_all
  have n: "unat (of_nat ?n :: uint32) = ?n" using b assms(3) by (simp add: unat_of_nat_u32)
  have al: "align (?q + 4) al = ?start"
    using b assms(3) by (intro align_up assms(7)) simp_all
  note pad = has_padding [OF h(2) assms(7)]
  have st: "r\<lparr>r_state := BeginArray\<rparr> = r" using assms(2) by simp
  have e: "u32 (?start + ?n) = ?start + ?n" "u32 (?q + 4) = ?q + 4" using b assms(3) by simp_all
  show ?thesis
  proof (cases "l = CHR ''{''")
    case True
    with assms b n al pad(2) bytes e show ?thesis
      by (simp add: openArray_def limit_defs Let_def StructAlignment_def)
  next
    case False
    with assms(8) obtain ti where "typeInfo l = Some ti" "ti_alignment ti = al" by auto
    with False assms b n al pad(2) bytes e show ?thesis
      by (subst st [symmetric]) (simp add: openArray_def limit_defs Let_def)
  qed
qed

lemma read_back_array:
  assumes "\<And>v. v \<in> set vs \<Longrightarrow> read_back v"
  shows "read_back (DArray t vs)"
  unfolding read_back_def
proof (intro allI impI)
  fix c pre post s d
  assume a: "at_value c pre (DArray t vs) post"
  let ?q = "up (r_datapos c) 4" and ?al = "type_align t"
  define start where "start = up (?q + 4) ?al"
  define body where "body = enc_seq (r_swapped c) (r_fds c) start vs"
  define nest where "nest = snd (nestBeginArray (r_nesting c))"
  define r2 where "r2 = c\<lparr>r_state := BeginArray, r_datapos := ?q\<rparr>"
  define dataEnd where "dataEnd = start + length body"
  define r where "r = c\<lparr>r_state := BeginArray, r_datapos := start, r_nesting := nest,
    r_u := UUint32 (of_nat dataEnd)\<rparr>"
  define b where "b = r\<lparr>r_stack := RArray dataEnd (length (pre @ ''a'')) # r_stack c\<rparr>"
  have ctx: "sig_ctx c (pre @ CHR ''a'' # sig_of t @ post)" using a by (simp add: at_value_def)
  then have small: "length pre + length (sig_of t) + length post < 2147483647" by (auto simp: sig_ctx_def)
  have nest: "nestBeginArray (r_nesting c) = (True, nest)" and fits: "type_fits nest t"
    and vs: "list_all (\<lambda>v. type_of v = t \<and> val_ok (r_fds c) nest v) vs"
    using a by (simp_all add: at_value_def nest_def prod_eq_iff)
  have end_nest: "nestEndArray nest = r_nesting c" by (simp add: nest_def)
  have q: "r_datapos c \<le> ?q" "?q + 4 \<le> start"
    using up_bounds(1) [of 4 "r_datapos c"] up_bounds(1) [of ?al "?q + 4"]
    by (simp_all add: start_def) (simp add: wire_alignment_def)
  have h: "has (r_data c) (r_datapos c) (padding (r_datapos c) 4)"
    "has (r_data c) ?q (wire (r_swapped c) (writeUint32 (of_nat (length body))) @ padding (?q + 4) ?al @ body)"
    using a q by (simp_all add: at_value_def has_append Let_def body_def start_def)
  have enc_len: "r_datapos c + length (enc (r_swapped c) (r_fds c) (r_datapos c) (DArray t vs)) = dataEnd"
    using q by (simp add: dataEnd_def body_def start_def Let_def)
  have hb: "has (r_data c) start body" using h(2) q by (simp add: has_append start_def)
  have len: "dataEnd \<le> length (r_data c)" "length (r_data c) \<le> 67108864"
    using has_bound [OF hb] a by (simp_all add: dataEnd_def at_value_def)
  have at: "r_sig_at c (length pre) = Some (CHR ''a'')" "r_sig_at c (Suc (length pre)) = Some (hd (sig_of t))"
    using sig_ctx_at [OF ctx, of "length pre"] sig_ctx_at [OF ctx, of "Suc (length pre)"] sig_of_nonempty [of t]
    by (simp_all add: nth_append hd_conv_nth)
  note hd = typeInfo_hd [OF fits]
  have "advanceOpen s d c = advanceAggregate s d r2"
    using a h(1) at(1) advanceOpen_type [of c "CHR ''a''" "type_row BeginArray 4 False False" r2 s d]
    by (simp add: typeInfo_letters type_row_def r2_def at_value_def)
  also have "\<dots> = r"
    using a h(2) at(2) small hd nest
      openArray_value [of r2 body ?al "hd (sig_of t)" nest nest s d]
    by (simp add: advanceAggregate_def r2_def r_def at_value_def start_def dataEnd_def)
  finally have open_eq: "advanceOpen s d c = r" .
  have fits0: "type_fits (r_nesting c) (TArray t)" using a by (simp add: at_value_def)
  have sig: "currentSingleCompleteTypeSignature r = Some (sig_of (TArray t))"
    using a ctx type_fits_no_nesting [OF fits0]
    by (intro currentSingle_type [of r pre _ post]) (simp_all add: r_def at_value_def)
  have unat_end: "unat (of_nat dataEnd :: uint32) = dataEnd" using len by (simp add: unat_of_nat_u32)
  have pos: "r_sigpos r = length pre" using a by (simp add: r_def at_value_def)
  have "\<exists>u. reads_until EndArray (snd (reader_beginArray SkipIfEmpty r)) vs (b\<lparr>
      r_nil := (if vs = [] then 1 else 0), r_sigpos := length (pre @ ''a'') + length (sig_of t),
      r_datapos := dataEnd, r_state := EndArray, r_u := u\<rparr>)"
  proof (cases "vs = []")
    case False
    from False vs obtain v where "v \<in> set vs" "val_ok (r_fds c) nest v" by (cases vs) auto
    have body: "start < dataEnd"
      using False vs enc_nonempty by (cases vs) (auto simp: dataEnd_def body_def Let_def)
    then have "snd (reader_beginArray SkipIfEmpty r) = advanceState b"
      using a len small pos unat_end
      by (simp add: reader_beginArray_def u_dataEnd_def r_def b_def at_value_def Let_def)
    moreover have "\<exists>u. reads_until EndArray (advanceState b) vs (b\<lparr>
      r_sigpos := length (pre @ ''a'') + length (sig_of t), r_datapos := dataEnd, r_state := EndArray, r_u := u\<rparr>)"
    proof (rule seq_array [OF assms])
      show "sig_ctx b ((pre @ ''a'') @ sig_of t @ post)" using ctx by (simp add: b_def r_def)
    qed (use a vs hb False pos in \<open>simp_all add: b_def r_def at_value_def dataEnd_def body_def\<close>)
    moreover have "b\<lparr>r_nil := 0\<rparr> = b" using a by (simp add: b_def r_def at_value_def)
    ultimately show ?thesis using False by simp
  next
    case True
    then have d: "dataEnd = start" by (simp add: dataEnd_def body_def)
    let ?b1 = "b\<lparr>r_nil := 1, r_sigpos := length pre + length (sig_of t)\<rparr>"
    let ?e = "?b1\<lparr>r_sigpos := length (pre @ ''a'') + length (sig_of t), r_state := EndArray\<rparr>"
    have "skipArrayOrDictSignature False (b\<lparr>r_nil := 1\<rparr>) = ?b1"
      using ctx pos nest fits0
      by (subst skip_signature_array [of _ pre t post "r_nesting c"]) (simp_all add: b_def r_def)
    then have "snd (reader_beginArray SkipIfEmpty r) = advanceState ?b1"
      using a len small pos unat_end d
      by (simp add: reader_beginArray_def u_dataEnd_def r_def b_def at_value_def Let_def)
    also have "advanceClosing ?b1 = Inl ?e"
      using small sig_pos(1) [of t] d by (simp add: advanceClosing_def Let_def b_def r_def del: sig_pos)
    then have "advanceState ?b1 = ?e" by (intro advanceState_return) (simp_all add: b_def r_def)
    finally show ?thesis
      using True d by (intro exI [of _ "r_u b"])
        (auto simp: b_def r_def intro!: until_end_eq)
  qed
  then obtain u where "reads_until EndArray (snd (reader_beginArray SkipIfEmpty r)) vs (b\<lparr>
      r_nil := (if vs = [] then 1 else 0), r_sigpos := length (pre @ ''a'') + length (sig_of t),
      r_datapos := dataEnd, r_state := EndArray, r_u := u\<rparr>)" by blast
  then obtain e where e: "reads_until EndArray (snd (reader_beginArray SkipIfEmpty r)) vs e"
    "e = b\<lparr>r_nil := (if vs = [] then 1 else 0), r_sigpos := length (pre @ ''a'') + length (sig_of t),
      r_datapos := dataEnd, r_state := EndArray, r_u := u\<rparr>" by blast
  from rd_array [OF _ type_fits_no_nesting [OF fits0] sig e(1)] have "reads r (DArray t vs) (reader_endArray e)" by (simp add: r_def)
  moreover have "r_leaveNil (e\<lparr>r_sigpos := sub32 (r_sigpos e) 1, r_nesting := nestEndArray (r_nesting e),
      r_stack := tl (r_stack e)\<rparr>) = behind c (DArray t vs) EndArray u"
    using a enc_len pos small
    by (simp add: e(2) r_leaveNil_def behind_def end_nest b_def r_def at_value_def del: enc.simps)
  then have "reader_endArray e = advanceState (behind c (DArray t vs) EndArray u)"
    by (simp add: reader_endArray_def) (simp add: e(2))
  ultimately show "\<exists>st u. st \<noteq> InvalidData \<and> reads (advanceOpen s d c) (DArray t vs)
      (advanceState (behind c (DArray t vs) st u))"
    unfolding open_eq by (intro exI [of _ EndArray] exI [of _ u]) simp
qed

subsection \<open>Dicts\<close>

lemma skip_signature_dict:
  assumes "sig_ctx b (pre @ sig_of (TDict k t) @ post)" and "r_sigpos b = length pre + 1"
    and "nestBeginArray n = (True, n1)" and "nestBeginParen n1 = (True, r_nesting b)"
    and "type_fits n (TDict k t)"
  shows "skipArrayOrDictSignature True b = b\<lparr>r_sigpos := length pre + length (sig_of t) + 2\<rparr>"
proof -
  have n: "nestEndParen (nestEndArray (r_nesting b)) = n"
    using nest_end_begin(2) [of n1] nest_end_begin(1) [of n] assms(3,4)
    by (auto simp: nestEndParen_def nestEndArray_def)
  have small: "length pre + 1 < 4294967296" using assms(1) by (auto simp: sig_ctx_def)
  have rem: "r_remaining (b\<lparr>r_nesting := n, r_sigpos := length pre\<rparr>) = Some (sig_of (TDict k t) @ post)"
    using assms(1) by (intro sig_ctx_remaining) (simp_all del: sig_of.simps)
  have "r_siglen b = length pre + (length (sig_of t) + 4) + length post" "length pre + length (sig_of t) + length post < 2147483644"
    using assms(1) by (auto simp: sig_ctx_def)
  then have "sub32 (sub32 (sub32 (r_siglen b) (length post)) 1) 1 = length pre + length (sig_of t) + 2"
    "sub32 (sub32 (r_siglen b) (length post)) 1 = length pre + length (sig_of t) + 3" by simp_all
  then show ?thesis
    using rem parse_complete [OF assms(5), of post] assms(2-4) small
    by (simp add: skipArrayOrDictSignature_def n Let_def del: sig_of.simps type_fits.simps)
qed

lemma seq_dict:
  assumes "\<And>v. v \<in> snd ` set es \<Longrightarrow> read_back v"
    and "r_stack b = RDict dataEnd (length pre) # kk" and "r_state b \<noteq> InvalidData" and "r_nil b = 0"
    and "length (r_data b) \<le> 67108864"
    and "list_all (\<lambda>(x, v). letter_of x = k \<and> basic_ok (r_fds b) x \<and> type_of v = t \<and>
      val_ok (r_fds b) (r_nesting b) v) es"
    and "sig_ctx b (pre @ k # sig_of t @ post)"
    and "r_sigpos b + 1 = length pre \<and> es \<noteq> [] \<and> up (r_datapos b) 8 = r_datapos b \<or>
      r_sigpos b + 1 = length pre + 1 + length (sig_of t)"
    and "has (r_data b) (r_datapos b) (enc_entries (r_swapped b) (r_fds b) (r_datapos b) es)"
    and "dataEnd = r_datapos b + length (enc_entries (r_swapped b) (r_fds b) (r_datapos b) es)"
  shows "\<exists>u. reads_entries (advanceState b) es (b\<lparr>r_sigpos := length pre + 1 + length (sig_of t),
     r_datapos := dataEnd, r_state := EndDict, r_u := u\<rparr>)"
  using assms
proof (induction es arbitrary: b)
  case Nil
  have small: "length pre + length (sig_of t) < 2147483648" using Nil.prems(7) by (auto simp: sig_ctx_def)
  let ?e = "b\<lparr>r_sigpos := length pre + 1 + length (sig_of t), r_state := EndDict\<rparr>"
  have "u32 (Suc (r_sigpos b)) = length pre + 1 + length (sig_of t)"
    using Nil.prems(8) small by simp
  then have "advanceClosing b = Inl ?e"
    using Nil.prems(2,4,10) sig_pos [of t] small by (simp add: advanceClosing_def Let_def)
  then have "advanceState b = ?e" using Nil.prems(3) by (rule advanceState_return [rotated])
  then show ?case
    using Nil.prems(10)
    by (intro exI [of _ "r_u b"]) (auto intro!: reads_reads_until_reads_entries.entries_end)
next
  case (Cons e es)
  obtain x v where e: "e = (x, v)" by (cases e)
  let ?p = "up (r_datapos b) 8"
  let ?c = "b\<lparr>r_datapos := ?p, r_sigpos := length pre\<rparr>"
  let ?kb = "enc (r_swapped b) (r_fds b) ?p (DBasic x)"
  let ?p1 = "?p + length ?kb"
  have small: "length pre + length (sig_of t) < 2147483648" using Cons.prems(7) by (auto simp: sig_ctx_def)
  have ok: "letter_of x = k" "basic_ok (r_fds b) x" "type_of v = t" "val_ok (r_fds b) (r_nesting b) v"
    using Cons.prems(6) by (simp_all add: e)
  have p: "r_datapos b \<le> ?p" by (simp add: up_bounds wire_alignment_def)
  let ?rest = "enc_entries (r_swapped b) (r_fds b) (?p1 + length (enc (r_swapped b) (r_fds b) ?p1 v)) es"
  have enc_eq: "enc_entries (r_swapped b) (r_fds b) (r_datapos b) (e # es) =
      padding (r_datapos b) 8 @ ?kb @ enc (r_swapped b) (r_fds b) ?p1 v @ ?rest"
    using p by (simp add: e Let_def add.assoc del: enc.simps)
  have h: "has (r_data b) ?p ?kb" "has (r_data b) ?p1 (enc (r_swapped b) (r_fds b) ?p1 v)"
    "has (r_data b) (?p1 + length (enc (r_swapped b) (r_fds b) ?p1 v)) ?rest"
    using Cons.prems(9) p unfolding enc_eq has_append by (simp_all del: enc.simps)
  have dataEnd: "dataEnd = ?p1 + length (enc (r_swapped b) (r_fds b) ?p1 v) + length ?rest"
    using Cons.prems(10) p unfolding enc_eq by (simp del: enc.simps)
  have data: "r_datapos b < dataEnd"
  proof -
    have "0 < length (enc (r_swapped b) (r_fds b) ?p1 v)"
      using enc_nonempty [OF ok(4)] by (simp only: length_greater_0_conv not_False_eq_True)
    with p dataEnd show ?thesis by linarith
  qed
  have al: "align (r_datapos b) 8 = ?p"
    using has_bound [OF h(1)] Cons.prems(5) p by (intro align_up) (simp_all add: wire_alignment_def)
  have closing: "advanceClosing b = Inr ?c"
    using Cons.prems(2,4,8) small data al sig_of_nonempty [of t]
    by (auto simp: advanceClosing_def Let_def)
  have kv: "at_value ?c pre (DBasic x) (sig_of t @ post)"
    using Cons.prems(4,5,7) ok h(1) by (simp add: at_value_def del: enc.simps)
  obtain st u where r: "st \<noteq> InvalidData" "advanceState b = behind ?c (DBasic x) st u"
      "reads (advanceState b) (DBasic x) (advanceState (behind ?c (DBasic x) st u))"
    using open_basic [OF kv] unfolding advanceState_open [OF Cons.prems(3) closing] by blast
  have key: "isDictKey (advanceState b)"
    using r(2) Cons.prems(2) by (simp add: isDictKey_def behind_def)
  let ?b1 = "behind ?c (DBasic x) st u"
  let ?c1 = "?b1\<lparr>r_sigpos := length (pre @ [k])\<rparr>"
  have closing1: "advanceClosing ?b1 = Inr ?c1"
    using Cons.prems(2) small by (simp add: advanceClosing_def Let_def behind_def)
  have "at_value ?c1 (pre @ [k]) v post"
    using Cons.prems(4,5,7) ok h(2) by (simp add: at_value_def behind_def del: enc.simps)
  moreover have "read_back v" using Cons.prems(1) [of v] by (simp add: e)
  ultimately obtain st' u' where "st' \<noteq> InvalidData"
      "reads (advanceOpen (r_sigpos ?b1) (r_datapos ?b1) ?c1) v (advanceState (behind ?c1 v st' u'))"
    unfolding read_back_def by blast
  moreover have "r_state ?b1 \<noteq> InvalidData" using r(1) by (simp add: behind_def)
  ultimately have r1: "st' \<noteq> InvalidData" "reads (advanceState ?b1) v (advanceState (behind ?c1 v st' u'))"
    using advanceState_open [OF _ closing1] by simp_all
  let ?b = "behind ?c1 v st' u'"
  have b': "r_stack ?b = RDict dataEnd (length pre) # kk" "r_state ?b \<noteq> InvalidData"
    "r_nil ?b = 0" "length (r_data ?b) \<le> 67108864"
    "list_all (\<lambda>(x, v). letter_of x = k \<and> basic_ok (r_fds ?b) x \<and> type_of v = t \<and>
      val_ok (r_fds ?b) (r_nesting ?b) v) es"
    "sig_ctx ?b (pre @ k # sig_of t @ post)"
    "r_sigpos ?b + 1 = length pre \<and> es \<noteq> [] \<and> up (r_datapos ?b) 8 = r_datapos ?b \<or>
      r_sigpos ?b + 1 = length pre + 1 + length (sig_of t)"
    "has (r_data ?b) (r_datapos ?b) (enc_entries (r_swapped ?b) (r_fds ?b) (r_datapos ?b) es)"
    "dataEnd = r_datapos ?b + length (enc_entries (r_swapped ?b) (r_fds ?b) (r_datapos ?b) es)"
    using Cons.prems(2-7) r1(1) ok h(3) dataEnd sig_pos(1) [of t]
    by (simp_all add: behind_def add.assoc del: enc.simps sig_pos)
  have "\<And>v. v \<in> snd ` set es \<Longrightarrow> read_back v" using Cons.prems(1) by auto
  from Cons.IH [OF this b'] obtain u'' where
    "reads_entries (advanceState ?b) es (?b\<lparr>r_sigpos := length pre + 1 + length (sig_of t),
      r_datapos := dataEnd, r_state := EndDict, r_u := u''\<rparr>)" by auto
  then have "reads_entries (advanceState ?b) es (b\<lparr>r_sigpos := length pre + 1 + length (sig_of t),
      r_datapos := dataEnd, r_state := EndDict, r_u := u''\<rparr>)" by (simp add: behind_def)
  with entries_value [OF _ key r(3) r1(2)] reads_state [OF r(3)] show ?case unfolding e by blast
qed

lemma entries_end_eq: "r_state r = EndDict \<Longrightarrow> r' = r \<Longrightarrow> reads_entries r [] r'"
  by (simp add: reads_reads_until_reads_entries.entries_end)

lemma read_back_dict:
  assumes "\<And>v. v \<in> snd ` set es \<Longrightarrow> read_back v"
  shows "read_back (DDict k t es)"
  unfolding read_back_def
proof (intro allI impI)
  fix c pre post s d
  assume a: "at_value c pre (DDict k t es) post"
  let ?q = "up (r_datapos c) 4"
  define start where "start = up (?q + 4) 8"
  define body where "body = enc_entries (r_swapped c) (r_fds c) start es"
  define n1 where "n1 = snd (nestBeginArray (r_nesting c))"
  define nest where "nest = snd (nestBeginParen n1)"
  define r2 where "r2 = c\<lparr>r_state := BeginArray, r_datapos := ?q\<rparr>"
  define dataEnd where "dataEnd = start + length body"
  define r where "r = c\<lparr>r_state := BeginDict, r_datapos := start, r_nesting := nest,
    r_u := UUint32 (of_nat dataEnd)\<rparr>"
  define b where "b = r\<lparr>r_sigpos := length pre + 1, r_stack := RDict dataEnd (length (pre @ ''a{'')) # r_stack c\<rparr>"
  have ctx: "sig_ctx c (pre @ CHR ''a'' # CHR ''{'' # k # sig_of t @ CHR ''}'' # post)"
    using a by (simp add: at_value_def)
  then have small: "length pre + length (sig_of t) + length post < 2147483644" by (auto simp: sig_ctx_def)
  have nest: "nestBeginArray (r_nesting c) = (True, n1)" "nestBeginParen n1 = (True, nest)"
    and es: "list_all (\<lambda>(x, v). letter_of x = k \<and> basic_ok (r_fds c) x \<and> type_of v = t \<and> val_ok (r_fds c) nest v) es"
    and fits: "type_fits (r_nesting c) (TDict k t)"
    using a by (simp_all add: at_value_def nest_def n1_def prod_eq_iff)
  have end_nest: "nestEndArray (nestEndParen nest) = r_nesting c" by (simp add: nest_def n1_def)
  have q: "r_datapos c \<le> ?q" "?q + 4 \<le> start" "up start 8 = start"
    using up_bounds(1) [of 4 "r_datapos c"] up_bounds(1) [of 8 "?q + 4"]
    by (simp_all add: start_def wire_alignment_def)
  have h: "has (r_data c) (r_datapos c) (padding (r_datapos c) 4)"
    "has (r_data c) ?q (wire (r_swapped c) (writeUint32 (of_nat (length body))) @ padding (?q + 4) 8 @ body)"
    using a q by (simp_all add: at_value_def has_append Let_def body_def start_def)
  have enc_len: "r_datapos c + length (enc (r_swapped c) (r_fds c) (r_datapos c) (DDict k t es)) = dataEnd"
    using q by (simp add: dataEnd_def body_def start_def Let_def)
  have hb: "has (r_data c) start body" using h(2) q by (simp add: has_append start_def)
  have len: "dataEnd \<le> length (r_data c)" "length (r_data c) \<le> 67108864"
    using has_bound [OF hb] a by (simp_all add: dataEnd_def at_value_def)
  have at: "r_sig_at c (length pre) = Some (CHR ''a'')" "r_sig_at c (Suc (length pre)) = Some (CHR ''{'')"
    using sig_ctx_at [OF ctx, of "length pre"] sig_ctx_at [OF ctx, of "Suc (length pre)"]
    by (simp_all add: nth_append)
  have "advanceOpen s d c = advanceAggregate s d r2"
    using a h(1) at(1) advanceOpen_type [of c "CHR ''a''" "type_row BeginArray 4 False False" r2 s d]
    by (simp add: typeInfo_letters type_row_def r2_def at_value_def)
  also have "\<dots> = r"
    using a h(2) at(2) small nest openArray_value [of r2 body 8 "CHR ''{''" n1 nest s d]
    by (simp add: advanceAggregate_def r2_def r_def at_value_def start_def dataEnd_def StructAlignment_def
        wire_alignment_def)
  finally have open_eq: "advanceOpen s d c = r" .
  have sig: "currentSingleCompleteTypeSignature r = Some (sig_of (TDict k t))"
    using a ctx type_fits_no_nesting [OF fits]
    by (intro currentSingle_type [of r pre _ post]) (simp_all add: r_def at_value_def)
  have unat_end: "unat (of_nat dataEnd :: uint32) = dataEnd" using len by (simp add: unat_of_nat_u32)
  have pos: "r_sigpos r = length pre" using a by (simp add: r_def at_value_def)
  let ?fin = "length (pre @ ''a{'') + 1 + length (sig_of t)"
  have "\<exists>u. reads_entries (snd (reader_beginDict SkipIfEmpty r)) es (b\<lparr>
      r_nil := (if es = [] then 1 else 0), r_sigpos := ?fin, r_datapos := dataEnd, r_state := EndDict, r_u := u\<rparr>)"
  proof (cases "es = []")
    case False
    have body: "start < dataEnd"
      using False basic_bytes_nonempty by (cases es) (auto simp: dataEnd_def body_def Let_def)
    then have "snd (reader_beginDict SkipIfEmpty r) = advanceState b"
      using a len small pos unat_end
      by (simp add: reader_beginDict_def u_dataEnd_def r_def b_def at_value_def Let_def)
    moreover have "\<exists>u. reads_entries (advanceState b) es (b\<lparr>
      r_sigpos := ?fin, r_datapos := dataEnd, r_state := EndDict, r_u := u\<rparr>)"
    proof (rule seq_dict [OF assms])
      show "sig_ctx b ((pre @ ''a{'') @ k # sig_of t @ CHR ''}'' # post)" using ctx by (simp add: b_def r_def)
    qed (use a es hb False q(3) in \<open>simp_all add: b_def r_def at_value_def dataEnd_def body_def\<close>)
    moreover have "b\<lparr>r_nil := 0\<rparr> = b" using a by (simp add: b_def r_def at_value_def)
    ultimately show ?thesis using False by simp
  next
    case True
    then have d: "dataEnd = start" by (simp add: dataEnd_def body_def)
    let ?b1 = "b\<lparr>r_nil := 1, r_sigpos := length pre + length (sig_of t) + 2\<rparr>"
    let ?e = "?b1\<lparr>r_sigpos := ?fin, r_state := EndDict\<rparr>"
    have "skipArrayOrDictSignature True (b\<lparr>r_nil := 1\<rparr>) = ?b1"
      using ctx nest fits
      by (subst skip_signature_dict [of _ pre k t post "r_nesting c" n1]) (simp_all add: b_def r_def)
    then have "snd (reader_beginDict SkipIfEmpty r) = advanceState ?b1"
      using a len small pos unat_end d
      by (simp add: reader_beginDict_def u_dataEnd_def r_def b_def at_value_def Let_def)
    also have "advanceClosing ?b1 = Inl ?e"
      using small sig_pos(1) [of t] d by (simp add: advanceClosing_def Let_def b_def r_def del: sig_pos)
    then have "advanceState ?b1 = ?e" by (intro advanceState_return) (simp_all add: b_def r_def)
    finally show ?thesis
      using True d by (intro exI [of _ "r_u b"])
        (auto simp: b_def r_def intro!: entries_end_eq)
  qed
  then obtain u e where e: "reads_entries (snd (reader_beginDict SkipIfEmpty r)) es e"
    "e = b\<lparr>r_nil := (if es = [] then 1 else 0), r_sigpos := ?fin, r_datapos := dataEnd,
      r_state := EndDict, r_u := u\<rparr>" by blast
  from rd_dict [OF _ type_fits_no_nesting [OF fits] sig e(1)] have "reads r (DDict k t es) (reader_endDict e)" by (simp add: r_def)
  moreover have "r_leaveNil (e\<lparr>r_nesting := nestEndArray (nestEndParen (r_nesting e)),
      r_stack := tl (r_stack e)\<rparr>) = behind c (DDict k t es) EndDict u"
    using a enc_len pos small
    by (simp add: e(2) r_leaveNil_def behind_def end_nest b_def r_def at_value_def del: enc.simps)
  then have "reader_endDict e = advanceState (behind c (DDict k t es) EndDict u)"
    by (simp add: reader_endDict_def) (simp add: e(2))
  ultimately show "\<exists>st u. st \<noteq> InvalidData \<and> reads (advanceOpen s d c) (DDict k t es)
      (advanceState (behind c (DDict k t es) st u))"
    unfolding open_eq by (intro exI [of _ EndDict] exI [of _ u]) simp
qed

lemma read_back: "read_back v"
proof (induction v)
  case (DDict k t es)
  then show ?case by (intro read_back_dict) auto
qed (simp_all add: read_back_basic read_back_variant read_back_array read_back_struct)

subsection \<open>Whole argument lists\<close>

lemma seq_top:
  assumes "r_stack b = []" and "r_state b \<noteq> InvalidData" and "r_nil b = 0"
    and "length (r_data b) \<le> 67108864" and "list_all (val_ok (r_fds b) (r_nesting b)) vs"
    and "sig_ctx b (pre @ sigs_of vs)" and "u32 (r_sigpos b + 1) = length pre"
    and "has (r_data b) (r_datapos b) (enc_seq (r_swapped b) (r_fds b) (r_datapos b) vs)"
  shows "\<exists>u. reads_until Finished (advanceState b) vs (b\<lparr>r_sigpos := length (pre @ sigs_of vs),
     r_datapos := r_datapos b + length (enc_seq (r_swapped b) (r_fds b) (r_datapos b) vs),
     r_state := Finished, r_u := u\<rparr>)"
  using assms
proof (induction vs arbitrary: b pre)
  case Nil
  let ?e = "b\<lparr>r_sigpos := length pre, r_state := Finished\<rparr>"
  have "advanceClosing b = Inl ?e"
    using Nil.prems by (simp add: advanceClosing_def sig_ctx_def)
  then have "advanceState b = ?e" using Nil.prems(2) by (rule advanceState_return [rotated])
  then show ?case by (intro exI [of _ "r_u b"]) (auto intro!: until_end_eq)
next
  case (Cons v vs)
  let ?c = "b\<lparr>r_sigpos := length pre\<rparr>"
  have closing: "advanceClosing b = Inr ?c"
    using Cons.prems sig_of_nonempty [of "type_of v"] by (simp add: advanceClosing_def sig_ctx_def)
  have "at_value ?c pre v (sigs_of vs)"
    using Cons.prems by (simp add: at_value_def has_append Let_def)
  with read_back obtain st u where r: "st \<noteq> InvalidData"
      "reads (advanceState b) v (advanceState (behind ?c v st u))"
    unfolding advanceState_open [OF Cons.prems(2) closing] read_back_def by blast
  let ?b = "behind ?c v st u"
  have len: "r_sigpos ?b + 1 = length (pre @ sig_of (type_of v))"
    using sig_pos [of "type_of v"] by (simp add: behind_def)
  have small: "length (pre @ sig_of (type_of v)) < 4294967296"
    using Cons.prems(6) by (simp add: sig_ctx_def)
  have b': "r_stack ?b = []" "r_state ?b \<noteq> InvalidData" "r_nil ?b = 0" "length (r_data ?b) \<le> 67108864"
    "list_all (val_ok (r_fds ?b) (r_nesting ?b)) vs"
    "sig_ctx ?b ((pre @ sig_of (type_of v)) @ sigs_of vs)"
    "u32 (r_sigpos ?b + 1) = length (pre @ sig_of (type_of v))"
    "has (r_data ?b) (r_datapos ?b) (enc_seq (r_swapped ?b) (r_fds ?b) (r_datapos ?b) vs)"
    using Cons.prems r(1) small unfolding len
    by (simp_all add: behind_def has_append Let_def)
  from Cons.IH [OF b'] obtain u' where "reads_until Finished (advanceState ?b) vs
      (?b\<lparr>r_sigpos := length ((pre @ sig_of (type_of v)) @ sigs_of vs),
        r_datapos := r_datapos ?b + length (enc_seq (r_swapped ?b) (r_fds ?b) (r_datapos ?b) vs),
        r_state := Finished, r_u := u'\<rparr>)" by blast
  then have "reads_until Finished (advanceState ?b) vs (b\<lparr>r_sigpos := length (pre @ sigs_of (v # vs)),
     r_datapos := r_datapos b + length (enc_seq (r_swapped b) (r_fds b) (r_datapos b) (v # vs)),
     r_state := Finished, r_u := u'\<rparr>)"
    by (simp add: behind_def Let_def add.assoc)
  moreover have "r_state (advanceState b) \<noteq> Finished" using r(2) by (cases rule: reads.cases) auto
  ultimately show ?case using until_value [OF _ r(2)] by blast
qed

lemma reader_reads:
  assumes "list_all (val_ok fds no_nesting) vs" and "length (sigs_of vs) < 2 ^ 31"
    and "length (enc_seq sw fds 0 vs) + length rest \<le> 2 ^ 26"
  shows "\<exists>r. reads_until Finished (Reader (new_arguments_fds mem (cstring_of (sigs_of vs))
      (enc_seq sw fds 0 vs @ rest) fds sw)) vs r \<and> reader_isFinished r \<and> \<not> r_fault r \<and>
      r_error r = NoError \<and> r_datapos r = length (enc_seq sw fds 0 vs)"
proof -
  let ?a = "new_arguments_fds mem (cstring_of (sigs_of vs)) (enc_seq sw fds 0 vs @ rest) fds sw"
  define b where "b = (newReader (Some ?a))\<lparr>r_signature := SigPtr, r_siglen := length (sigs_of vs),
    r_data := enc_seq sw fds 0 vs @ rest\<rparr>"
  have a: "a_signature ?a = cstring_of (sigs_of vs)" "a_data ?a = enc_seq sw fds 0 vs @ rest"
    "a_isByteSwapped ?a = sw" "a_fileDescriptors ?a = fds"
    by (simp_all add: new_arguments_fds_def)
  have "list_all (type_fits no_nesting) (map type_of vs)"
    using assms(1) by (auto simp: list_all_iff val_ok_type_fits)
  then have "isSignatureValid (cstring_of (sigs_of vs)) MethodSignature = Some True"
    using signature_check_complete(1) [of "map type_of vs"]
    by (simp add: isSignatureValid_cstring_of sigs_of_def comp_def)
  then have start: "Reader ?a = advanceState b"
    by (simp add: Reader_def beginRead_def newReader_def a b_def Let_def)
  have views: "r_swapped b = sw" "r_fds b = fds" "r_block b SigPtr = Some (sigs_of vs @ [CHR 0x00])"
    by (simp_all add: b_def newReader_def r_swapped_def r_fds_def r_block_def a)
  have "\<exists>u. reads_until Finished (advanceState b) vs (b\<lparr>r_sigpos := length ([] @ sigs_of vs),
     r_datapos := r_datapos b + length (enc_seq (r_swapped b) (r_fds b) (r_datapos b) vs),
     r_state := Finished, r_u := u\<rparr>)"
  proof (rule seq_top)
    show "sig_ctx b ([] @ sigs_of vs)"
      using assms(2) views by (simp add: sig_ctx_def) (simp add: b_def newReader_def)
  qed (use assms in \<open>simp_all add: views\<close>, simp_all add: b_def newReader_def u32_def has_def slice_at_def)
  then obtain u where "reads_until Finished (advanceState b) vs (b\<lparr>r_sigpos := length (sigs_of vs),
     r_datapos := r_datapos b + length (enc_seq sw fds (r_datapos b) vs), r_state := Finished, r_u := u\<rparr>)"
    by (auto simp: views)
  then show ?thesis
    unfolding start
    by (intro exI conjI) (assumption, simp_all add: reader_isFinished_def, simp_all add: b_def newReader_def)
qed

text \<open>C1: For every list of legal values and either byte order, a Reader on their encoding according to
  the D-Bus specification lets a client read exactly these values, whatever data follows, ends in the
  state Finished with its position behind the encoding, and never leaves its memory.\<close>

theorem reader_reads_encoding:
  assumes "list_all (val_ok fds no_nesting) vs" and "length (sigs_of vs) < 2 ^ 31"
    and "length (enc_seq sw fds 0 vs) + length rest \<le> 2 ^ 26"
  shows "\<exists>r. (\<forall>ws r'. reads_until Finished (Reader (new_arguments_fds mem (cstring_of (sigs_of vs))
      (enc_seq sw fds 0 vs @ rest) fds sw)) ws r' \<longleftrightarrow> ws = vs \<and> r' = r) \<and>
      reader_isFinished r \<and> \<not> r_fault r \<and> r_error r = NoError \<and>
      r_datapos r = length (enc_seq sw fds 0 vs)"
  using reader_reads [OF assms] reads_unique(2) by blast

definition example_values :: "dval list" where
  "example_values =
     [DStruct [DBasic (BByte 1), DBasic (BString ''ab'')],
      DDict (CHR ''s'') TVariant [(BString ''k'', DVariant (DBasic (BBoolean True)))],
      DArray (TBasic (CHR ''t'')) []]"

lemma example_encoding:
  "enc_seq False [] 0 example_values =
     [1, 0, 0, 0, 2, 0, 0, 0, 97, 98, 0, 0, 16, 0, 0, 0,
      1, 0, 0, 0, 107, 0, 1, 98, 0, 0, 0, 0, 1, 0, 0, 0, 0, 0, 0, 0, 0, 0, 0, 0]"
  "sigs_of example_values = ''(ys)a{sv}at''"
  "list_all (val_ok [] no_nesting) example_values"
  by code_simp+

theorem reader_reads_encoding_witness:
  "\<exists>r. reads_until Finished (Reader (new_arguments_fds None (cstring_of ''(ys)a{sv}at'')
     [1, 0, 0, 0, 2, 0, 0, 0, 97, 98, 0, 0, 16, 0, 0, 0,
      1, 0, 0, 0, 107, 0, 1, 98, 0, 0, 0, 0, 1, 0, 0, 0, 0, 0, 0, 0, 0, 0, 0, 0] [] False))
     example_values r \<and> r_datapos r = 40"
  using reader_reads_encoding [of "[]" example_values False "[]" None] by (auto simp: example_encoding)

end
