(* ===== verification/Connection_Errors.thy ===== *)
theory Connection_Errors
  imports Connection_Effects Reader_Aggregates
begin

text \<open>
  Where the code of connections goes wrong: closing while waiting for a client, messages for other threads,
  messages that are queued too early.
\<close>

subsection \<open>Waiting for a client\<close>

text \<open>Closing a connection that waits for its one client does not stop the server: it looks closed, but the next
  client that connects makes it connected again, and from then on closing it does nothing, because it was closed
  before.\<close>

theorem closed_server_accepts_client:
  assumes "ca_role ca = PeerServer" and "ca_addrType ca \<noteq> NoneType"
  shows "(let c = conn_close alive e (conn_open ca True opened (ConnectionPrivate k junk dup uid fds));
              c' = conn_step alive ms (CallIo (ClientInput (Some True))) c
          in c_state c = Unconnected \<and> c_state c' = Connected \<and> isConnected c' \<and> \<not> c_fault c' \<and>
             conn_close alive e' c' = c')"
  using assms
  by (simp add: conn_open_defs conn_close_def cancelAllPendingReplies_def closeTransport_def queueEvents_def Let_def
      conn_handleIoReady_def downstream_handleIoReady_def handleClientConnected_def afterIo_def isConnected_def)

definition example_server :: connect_address where
  "example_server = ConnectAddress\<lparr>ca_addrType := UnixPath, ca_role := PeerServer\<rparr>"

theorem closed_server_accepts_client_witness:
  "isConnected (conn_step (\<lambda>_. True) 0 (CallIo (ClientInput (Some True))) (conn_close (\<lambda>_. True) LocalDisconnect
     (conn_open example_server True None (ConnectionPrivate 1 (\<lambda>_. 0) id 0 0))))"
proof -
  have "ca_role example_server = PeerServer" "ca_addrType example_server \<noteq> NoneType"
    by (simp_all add: example_server_def)
  from closed_server_accepts_client [OF this, of "\<lambda>_. True" LocalDisconnect None 1 "\<lambda>_. 0" id 0 0 0] show ?thesis
    by (simp add: Let_def)
qed

subsection \<open>Connections of other threads\<close>

lemma tellSecondaries_null:
  assumes "list_all alive ks"
  shows "c_outbox (tellSecondaries alive ks None c) =
    c_outbox c @ map (\<lambda>k. (k, SpontaneousMessageReceivedEvent None)) ks"
  using assms
proof (induction ks arbitrary: c)
  case (Cons k ks)
  then show ?case
    by (simp add: message_copy_assign_def message_copy_construct_def message_move_assign_def queueEvent_def)
qed simp

text \<open>A spontaneous message is lost for the other threads when the main connection has a receiver, too: the message
  is moved to the receiver before it is copied into the events, which hold a null message each; a thread with a
  receiver that processes such an event dereferences the null pointer.\<close>

theorem spontaneous_message_lost_for_threads:
  assumes "c_client c" and "list_all alive (c_secondaryThreadLinks c)"
  shows "c_outbox (dispatchSpontaneous alive msg c) =
      c_outbox c @ map (\<lambda>k. (k, SpontaneousMessageReceivedEvent None)) (c_secondaryThreadLinks c) \<and>
    c_fault (processEvent alive2 (SpontaneousMessageReceivedEvent None) (setSpontaneousMessageReceiver True c2))"
  using assms tellSecondaries_null [of alive "c_secondaryThreadLinks c" "c_note (SpontaneousNote msg) c"]
  by (simp add: dispatchSpontaneous_def processEvent_def message_move_construct_def setSpontaneousMessageReceiver_def
      c_undefined_def c_note_def)

theorem spontaneous_message_lost_for_threads_witness:
  "map fst (c_outbox (dispatchSpontaneous (\<lambda>_. True) example_answer
     (example_peer\<lparr>c_client := True, c_secondaryThreadLinks := [4, 5], c_outbox := []\<rparr>))) = [4, 5]"
  using spontaneous_message_lost_for_threads
    [of "example_peer\<lparr>c_client := True, c_secondaryThreadLinks := [4, 5], c_outbox := []\<rparr>" "\<lambda>_. True" example_answer]
  by simp

text \<open>A connection of another thread that registers while the main connection does not have its unique name yet
  becomes connected at once, with an empty name: the welcome event is sent whether the name is known or not.\<close>

theorem secondary_connected_without_name:
  assumes "c_uniqueName main = []" and "commRef \<in> set (c_unredeemedCommRefs main)" and "alive k"
    and "c_state main = AwaitingUniqueName" and "c_state sec = AwaitingUniqueName"
  shows "(let main' = processEvent alive (SecondaryConnectionConnectEvent k commRef) main;
              sec' = processEvent alive2 (snd (last (c_outbox main'))) sec
          in fst (last (c_outbox main')) = k \<and> c_state main' = AwaitingUniqueName \<and>
             c_state sec' = Connected \<and> c_uniqueName sec' = [])"
  using assms
  by (simp add: processEvent_def queueEvent_def Let_def changeState_def setNewState_def endStateChange_def
      notifyStateChange_def c_note_def)

definition example_thread :: connection where
  "example_thread = conn_open_secondary (\<lambda>_. True) 1 9 ConnectAddress (ConnectionPrivate 2 (\<lambda>_. 0) id 0 0)"

theorem secondary_connected_without_name_witness:
  "c_state (processEvent (\<lambda>_. True) (snd (last (c_outbox (processEvent (\<lambda>_. True) (SecondaryConnectionConnectEvent 2 9)
     (createCommRef 9 (example_peer\<lparr>c_state := AwaitingUniqueName\<rparr>)))))) example_thread) = Connected"
proof -
  let ?main = "createCommRef 9 (example_peer\<lparr>c_state := AwaitingUniqueName\<rparr>)"
  have "c_uniqueName ?main = [] \<and> 9 \<in> set (c_unredeemedCommRefs ?main) \<and> c_state ?main = AwaitingUniqueName \<and>
      c_state example_thread = AwaitingUniqueName"
    by code_simp
  with secondary_connected_without_name [of ?main 9 "\<lambda>_. True" 2 example_thread "\<lambda>_. True"] show ?thesis
    by (simp add: Let_def)
qed

subsection \<open>Messages that are queued too early\<close>

lemma listening_steps:
  "m_writeListening (reserveBuffer n m) = m_writeListening m"
  "m_writeListening (clearBuffer m) = m_writeListening m"
  "m_writeListening (serializeFixedHeaders m) = m_writeListening m"
  "m_writeListening (snd (layoutBuffer h u m)) = m_writeListening m"
  "m_writeListening (snd (requiredHeadersPresent m)) = m_writeListening m"
  by (simp_all add: reserveBuffer_def clearBuffer_def serializeFixedHeaders_def layoutBuffer_def
      requiredHeadersPresent_def Let_def)

lemma listening_layout: "m_writeListening (snd (layoutMessage h m)) = m_writeListening m"
  by (simp add: layoutMessage_def Let_def listening_steps)

lemma listening_headers: "m_writeListening (snd (serializeVariableHeaders m)) = m_writeListening m"
  by (simp add: serializeVariableHeaders_def Let_def split: sum.split)

lemma serialize_writeListening: "m_writeListening (snd (serialize m)) = m_writeListening m"
proof -
  obtain p m1 where 1: "requiredHeadersPresent (clearBuffer m) = (p, m1)" by fastforce
  obtain a m2 where 2: "serializeVariableHeaders m1 = (a, m2)" by fastforce
  have "m_writeListening m1 = m_writeListening m" "m_writeListening m2 = m_writeListening m1"
    using listening_steps(5) [of "clearBuffer m"] listening_headers [of m1] 1 2 by (simp_all add: listening_steps)
  then show ?thesis by (simp add: serialize_def Let_def 1 2 listening_layout listening_steps)
qed

lemma prepareSend_parts2:
  assumes "prepareSend alive ms msg c = (e, msg1, c1)"
  shows "m_writeListening msg1 = m_writeListening msg" "c_sendQueue c1 = c_sendQueue c"
    "c_mainThreadConnection c1 = c_mainThreadConnection c" "c_transport c1 = c_transport c"
proof -
  have wl: "m_writeListening (setSerial s m) = m_writeListening m" for s m by (simp add: setSerial_def Let_def)
  have ser: "serialize m = (ok, m') \<Longrightarrow> m_writeListening m' = m_writeListening m" for m ok m'
    using serialize_writeListening [of m] by simp
  show "m_writeListening msg1 = m_writeListening msg" "c_sendQueue c1 = c_sendQueue c"
    "c_mainThreadConnection c1 = c_mainThreadConnection c" "c_transport c1 = c_transport c"
    using assms by (auto simp: prepareSend_def takeSerial_def Let_def wl dest!: ser split: if_splits option.splits prod.splits)
qed

text \<open>
  Either the connection has no transport to write to any more, or the message \<open>m\<close> is the first in its queue; nothing
  was written beyond \<open>w\<close>.
\<close>

definition stuck :: "message \<Rightarrow> byte list list \<Rightarrow> connection \<Rightarrow> bool" where
  "stuck m w c \<longleftrightarrow> c_written c = w \<and> c_state c \<noteq> Authenticating \<and>
     (c_downstream c = NoDownstream \<or>
      c_downstream c = TransportDownstream \<and> c_transport c = Some True \<and> c_sendQueue c \<noteq> [] \<and> hd (c_sendQueue c) = m)"

text \<open>What sending depends on; most operations leave it alone.\<close>

definition sending_part ::
  "connection \<Rightarrow> byte list list \<times> connection_state \<times> downstream \<times> bool option \<times> message list" where
  "sending_part c = (c_written c, c_state c, c_downstream c, c_transport c, c_sendQueue c)"

lemma stuck_cong: "sending_part c' = sending_part c \<Longrightarrow> stuck m w c' = stuck m w c"
  by (simp add: stuck_def sending_part_def)

lemma part_basic:
  "sending_part (c_undefined c) = sending_part c" "sending_part (queueEvent k e c) = sending_part c"
  "sending_part (queueEvents ks e c) = sending_part c" "sending_part (c_note n c) = sending_part c"
  "sending_part (updateReply p f c) = sending_part c" "sending_part (erasePending s c) = sending_part c"
  "sending_part (emplacePending s rec c) = sending_part c" "sending_part (deleteReply p c) = sending_part c"
  "sending_part (endStateChange old c) = sending_part c" "sending_part (receiveNextMessage c) = sending_part c"
  "sending_part (discardPendingRepliesForSecondaryThread k c) = sending_part c"
  "sending_part (snd (takeSerial c)) = sending_part c"
  by (simp_all add: sending_part_def c_undefined_def queueEvent_def queueEvents_def c_note_def updateReply_def
      erasePending_def emplacePending_def deleteReply_def endStateChange_def notifyStateChange_def receiveNextMessage_def
      discardPendingRepliesForSecondaryThread_def takeSerial_def split: option.splits prod.splits)

lemma part_update:
  "sending_part (c\<lparr>c_replies := R\<rparr>) = sending_part c" "sending_part (c\<lparr>c_nextReply := n\<rparr>) = sending_part c"
  "sending_part (c\<lparr>c_helloReceiver := h\<rparr>) = sending_part c" "sending_part (c\<lparr>c_uniqueName := u\<rparr>) = sending_part c"
  "sending_part (c\<lparr>c_closing := b\<rparr>) = sending_part c" "sending_part (c\<lparr>c_secondaryThreadLinks := ks\<rparr>) = sending_part c"
  "sending_part (c\<lparr>c_receivingMessage := rm\<rparr>) = sending_part c" "sending_part (c\<lparr>c_authClient := a\<rparr>) = sending_part c"
  "sending_part (c\<lparr>c_connectionToNotify := b\<rparr>) = sending_part c" "sending_part (c\<lparr>c_unredeemedCommRefs := ids\<rparr>) = sending_part c"
  "sending_part (c\<lparr>c_destroyed := b\<rparr>) = sending_part c"
  by (simp_all add: sending_part_def)

lemma part_unregister: "sending_part (unregisterPendingReply alive p c) = sending_part c"
  by (simp add: unregisterPendingReply_def Let_def part_basic split: option.split)

lemma part_destroyReply: "sending_part (reply_destroy alive d c) = sending_part c"
  by (simp add: reply_destroy_def part_basic part_unregister split: option.split connection_or_reply.split)

lemma part_takeReply: "sending_part (snd (takeReply d c)) = sending_part c"
  by (simp add: takeReply_def part_basic split: option.split connection_or_reply.split)

lemma part_receiver: "sending_part (setReceiver d rcv c) = sending_part c" "sending_part (setCookie d ck c) = sending_part c"
  "sending_part (reply_owned owner d c) = sending_part c" "sending_part (reply_move_assign owner d other c) = sending_part c"
  by (simp_all add: setReceiver_def setCookie_def reply_owned_def reply_move_assign_def part_basic split: option.split)

lemma part_deleteHello: "sending_part (deleteHelloReceiver alive c) = sending_part c"
  by (simp add: deleteHelloReceiver_def part_update part_destroyReply)

lemma part_setters: "sending_part (setSpontaneousMessageReceiver b c) = sending_part c"
  "sending_part (setConnectionStateListener b c) = sending_part c" "sending_part (setDefaultReplyTimeout t c) = sending_part c"
  "sending_part (createCommRef commRef c) = sending_part c"
  by (simp_all add: sending_part_def setSpontaneousMessageReceiver_def setConnectionStateListener_def
      setDefaultReplyTimeout_def createCommRef_def)

lemmas part_simps = part_basic part_update part_unregister part_destroyReply part_takeReply part_receiver
  part_deleteHello part_setters

lemma stuck_simps [simp]:
  "stuck m w (c_undefined c) = stuck m w c" "stuck m w (queueEvent k e c) = stuck m w c"
  "stuck m w (queueEvents ks e c) = stuck m w c" "stuck m w (c_note n c) = stuck m w c"
  "stuck m w (updateReply p f c) = stuck m w c" "stuck m w (erasePending s c) = stuck m w c"
  "stuck m w (emplacePending s rec c) = stuck m w c" "stuck m w (deleteReply p c) = stuck m w c"
  "stuck m w (endStateChange old c) = stuck m w c" "stuck m w (receiveNextMessage c) = stuck m w c"
  "stuck m w (discardPendingRepliesForSecondaryThread k c) = stuck m w c"
  "stuck m w (snd (takeSerial c)) = stuck m w c" "stuck m w (unregisterPendingReply alive p c) = stuck m w c"
  "stuck m w (reply_destroy alive d c) = stuck m w c" "stuck m w (snd (takeReply d c)) = stuck m w c"
  "stuck m w (setReceiver d rcv c) = stuck m w c" "stuck m w (setCookie d ck c) = stuck m w c"
  "stuck m w (reply_owned owner d c) = stuck m w c" "stuck m w (reply_move_assign owner d other c) = stuck m w c"
  "stuck m w (deleteHelloReceiver alive c) = stuck m w c" "stuck m w (setSpontaneousMessageReceiver b c) = stuck m w c"
  "stuck m w (setConnectionStateListener b c) = stuck m w c" "stuck m w (setDefaultReplyTimeout t c) = stuck m w c"
  "stuck m w (createCommRef commRef c) = stuck m w c"
  by (rule stuck_cong, simp only: part_simps)+

lemma stuck_updates [simp]:
  "stuck m w (c\<lparr>c_replies := R\<rparr>) = stuck m w c" "stuck m w (c\<lparr>c_nextReply := n\<rparr>) = stuck m w c"
  "stuck m w (c\<lparr>c_helloReceiver := h\<rparr>) = stuck m w c" "stuck m w (c\<lparr>c_uniqueName := u\<rparr>) = stuck m w c"
  "stuck m w (c\<lparr>c_closing := b\<rparr>) = stuck m w c" "stuck m w (c\<lparr>c_secondaryThreadLinks := ks\<rparr>) = stuck m w c"
  "stuck m w (c\<lparr>c_receivingMessage := rm\<rparr>) = stuck m w c" "stuck m w (c\<lparr>c_authClient := a\<rparr>) = stuck m w c"
  "stuck m w (c\<lparr>c_connectionToNotify := b\<rparr>) = stuck m w c" "stuck m w (c\<lparr>c_unredeemedCommRefs := ids\<rparr>) = stuck m w c"
  "stuck m w (c\<lparr>c_destroyed := b\<rparr>) = stuck m w c"
  by (rule stuck_cong, simp only: part_simps)+

lemma stuck_changeState: "stuck m w c \<Longrightarrow> st \<noteq> Authenticating \<Longrightarrow> stuck m w (changeState st c)"
  by (simp add: changeState_def) (simp add: stuck_def setNewState_def)

text \<open>Closing the transport is the end of all writing.\<close>

lemma stuck_closeTransport: "stuck m w c \<Longrightarrow> stuck m w (closeTransport c)"
  by (auto simp: stuck_def closeTransport_def split: option.split)

lemma closed_stuck: "stuck m w c \<Longrightarrow> stuck m w (closeTransport (c\<lparr>c_sendQueue := q\<rparr>))"
  by (auto simp: stuck_def closeTransport_def split: option.split)

lemma stuck_sendPrepared: "stuck m w c \<Longrightarrow> stuck m w (sendPreparedMessage msg c)"
  by (auto simp: stuck_def sendPreparedMessage_def Let_def startSending_def c_undefined_def)

lemma part_prepareSend: "prepareSend alive ms msg c = (e, msg1, c1) \<Longrightarrow> sending_part c1 = sending_part c"
  using part_basic(12) [of c] by (auto simp: prepareSend_def Let_def split: if_splits option.splits prod.splits)

lemma stuck_prepareSend: "prepareSend alive ms msg c = (e, msg1, c1) \<Longrightarrow> stuck m w c1 = stuck m w c"
  by (rule stuck_cong) (rule part_prepareSend)

lemma stuck_send: "stuck m w c \<Longrightarrow> stuck m w (snd (conn_send alive ms owner msg t c))"
proof -
  assume c: "stuck m w c"
  obtain e m1 c1 where prep: "prepareSend alive ms msg c = (e, m1, c1)" by (metis prod_cases3)
  have "stuck m w c1" using stuck_prepareSend [OF prep] c by simp
  then show "stuck m w (snd (conn_send alive ms owner msg t c))"
    by (auto simp: conn_send_def prep Let_def intro!: stuck_sendPrepared split: option.split)
qed

lemma stuck_sendNoReply: "stuck m w c \<Longrightarrow> stuck m w (snd (sendNoReply alive ms msg c))"
proof -
  assume c: "stuck m w c"
  obtain e m1 c1 where prep: "prepareSend alive ms msg c = (e, m1, c1)" by (metis prod_cases3)
  have "stuck m w c1" using stuck_prepareSend [OF prep] c by simp
  then show "stuck m w (snd (sendNoReply alive ms msg c))"
    by (auto simp: sendNoReply_def prep Let_def intro!: stuck_sendPrepared split: option.split)
qed

text \<open>Finishing replies, and closing because of it.\<close>

lemma stuck_helloReply:
  assumes close: "\<And>c e. stuck m w c \<Longrightarrow> stuck m w (closeF e c)" and c: "stuck m w c"
  shows "stuck m w (handleHelloReply closeF alive c)"
proof -
  obtain res c1 where take: "takeReply (c_helloReceiver c) c = (res, c1)" by fastforce
  have "stuck m w c1" using c stuck_simps(15) [of m w "c_helloReceiver c" c] take by simp
  with c take show ?thesis
    by (auto simp: handleHelloReply_def Let_def stuck_changeState close split: option.split prod.split)
qed

lemma stuck_finished:
  assumes close: "\<And>c e. stuck m w c \<Longrightarrow> stuck m w (closeF e c)" and c: "stuck m w c"
  shows "stuck m w (finishedCallback closeF alive p c)" "stuck m w (handleReceived closeF alive p link c)"
    "stuck m w (handleError closeF alive p e c)"
proof -
  have call: "stuck m w c \<Longrightarrow> stuck m w (finishedCallback closeF alive p c)" for c
    by (auto simp: finishedCallback_def stuck_helloReply [OF close] split: option.split receiver.split)
  with c show "stuck m w (finishedCallback closeF alive p c)" "stuck m w (handleReceived closeF alive p link c)"
    "stuck m w (handleError closeF alive p e c)"
    by (auto simp: handleReceived_def handleError_def split: option.split)
qed

lemma stuck_cancelReplies:
  assumes close: "\<And>c e. stuck m w c \<Longrightarrow> stuck m w (closeF e c)"
  shows "stuck m w c \<Longrightarrow> stuck m w (cancelReplies closeF alive e rs c)"
proof (induction rs arbitrary: c)
  case (Cons x rs)
  obtain s rec where x: "x = (s, rec)" by fastforce
  show ?case
    using Cons.prems by (cases rec) (simp_all add: x Let_def Cons.IH stuck_finished(3) [OF close])
qed simp

lemma stuck_close:
  assumes "stuck m w c" shows "stuck m w (conn_close alive e c)"
proof (cases "c_closing c")
  case False
  define c3 where "c3 = (let c1 = c\<lparr>c_closing := True\<rparr>;
      c2 = (case c_mainThreadConnection c1 of None \<Rightarrow> c1
            | Some k \<Rightarrow> if alive k then queueEvent k (SecondaryConnectionDisconnectEvent (c_id c1)) c1 else c1)
    in (queueEvents (filter alive (c_secondaryThreadLinks c2)) (MainConnectionDisconnectEvent e) c2)
         \<lparr>c_secondaryThreadLinks := []\<rparr>)"
  define c4 where "c4 = cancelReplies closeAgain alive e (c_pendingReplies c3) c3"
  have again: "stuck m w x \<Longrightarrow> stuck m w (closeAgain e' x)" for x e' by (simp add: closeAgain_def)
  have "stuck m w c3" using assms by (simp add: c3_def Let_def split: option.split)
  with stuck_cancelReplies [where closeF = closeAgain] again have "stuck m w c4" unfolding c4_def by blast
  then have "stuck m w (closeTransport ((c4\<lparr>c_connectionToNotify := False\<rparr>)\<lparr>c_sendQueue := []\<rparr>))"
    by (intro closed_stuck) simp
  moreover have "(c4\<lparr>c_connectionToNotify := False\<rparr>)\<lparr>c_sendQueue := []\<rparr> = c4\<lparr>c_sendQueue := [], c_connectionToNotify := False\<rparr>"
    by simp
  ultimately have "stuck m w (changeState Unconnected (closeTransport (c4\<lparr>c_sendQueue := [], c_connectionToNotify := False\<rparr>)))"
    by (intro stuck_changeState) simp_all
  with False show ?thesis by (simp add: conn_close_def cancelAllPendingReplies_def c3_def c4_def Let_def)
qed (simp add: conn_close_def assms)

lemmas stuck_dispatch = stuck_finished [of m w "conn_close alive" for m w alive, OF stuck_close]

subsection \<open>Reading, events and timers do not start the queue\<close>

lemma stuck_maybeDispatch: "stuck m w c \<Longrightarrow> stuck m w (snd (maybeDispatchToPendingReply alive msg link c))"
  by (auto simp: maybeDispatchToPendingReply_def Let_def stuck_dispatch
      split: option.split reply_record.split connection_or_reply.split)

lemma stuck_tellSecondaries: "stuck m w c \<Longrightarrow> stuck m w (tellSecondaries alive ks h c)"
  by (induction ks arbitrary: h c) (auto split: option.split prod.split)

lemma stuck_receive: "stuck m w c \<Longrightarrow> stuck m w (handleReceiveCompletion alive c)"
proof -
  assume c: "stuck m w c"
  have disp: "maybeDispatchToPendingReply alive msg link (receiveNextMessage c) = (b, c2) \<Longrightarrow> stuck m w c2" for msg link b c2
    using stuck_maybeDispatch [of m w "receiveNextMessage c" alive msg link] c by simp
  show "stuck m w (handleReceiveCompletion alive c)"
    using c by (auto simp: handleReceiveCompletion_def Let_def handleHelloFailed_def stuck_close dispatchSpontaneous_def
        stuck_tellSecondaries dest: disp split: option.split prod.split bool.split)
qed

lemma stuck_completion: "stuck m w c \<Longrightarrow> task = AuthTask \<or> task = ReceiveTask \<Longrightarrow> stuck m w (conn_handleCompletion alive task c)"
  by (auto simp: conn_handleCompletion_def stuck_receive split: connection_state.split) (simp_all add: stuck_def)

text \<open>The disconnection of a main connection is only told to the connections of other threads.\<close>

fun main_disconnects :: "event \<Rightarrow> bool" where
  "main_disconnects (MainConnectionDisconnectEvent e) = True"
| "main_disconnects evt = False"

lemma stuck_processEvent: "stuck m w c \<Longrightarrow> \<not> main_disconnects evt \<Longrightarrow> stuck m w (processEvent alive evt c)"
  by (cases evt) (auto simp: processEvent_def Let_def stuck_sendPrepared stuck_maybeDispatch stuck_dispatch
      stuck_changeState split: option.split reply_record.split)

lemma stuck_events:
  assumes "stuck m w c" and "list_all (\<lambda>evt. \<not> main_disconnects evt) evts"
  shows "stuck m w (processAuxEvents alive evts c)"
proof -
  have "stuck m w (fold (processAuxEvent alive) evts c)"
    using assms by (induction evts arbitrary: c) (simp_all add: processAuxEvent_def stuck_processEvent)
  with assms(1) show ?thesis by (simp add: processAuxEvents_def)
qed

lemma stuck_timer: "stuck m w c \<Longrightarrow> stuck m w (replyTimerFires alive p c)"
  by (auto simp: replyTimerFires_def handleTimeout_def Let_def stuck_dispatch split: option.split connection_or_reply.split)

lemma stuck_destroy: "stuck m w c \<Longrightarrow> stuck m w (conn_destroy alive c)"
proof -
  assume "stuck m w c"
  then have "stuck m w (conn_close alive LocalDisconnect c)" by (rule stuck_close)
  then have "stuck m w ((closeTransport (conn_close alive LocalDisconnect c))\<lparr>c_transport := None\<rparr>)"
    by (auto simp: stuck_def closeTransport_def split: option.split)
  then show "stuck m w (conn_destroy alive c)" by (simp add: conn_destroy_def)
qed

text \<open>Only a failed write reports an error of its message.\<close>

lemma read_status: "handleTransportCanRead answers m = Some (m', st) \<Longrightarrow> st \<noteq> PayloadError"
proof -
  have step: "canReadStep a m \<noteq> Some (m1, PayloadError, left)" for a m m1 left
    by (auto simp: canReadStep_def Let_def split: option.splits if_splits)
  have "canReadLoop answers m = Some (m', st) \<Longrightarrow> st \<noteq> PayloadError" for answers m m' st
    by (induction answers m rule: canReadLoop.induct) (auto simp: step split: option.splits if_splits)
  then show "handleTransportCanRead answers m = Some (m', st) \<Longrightarrow> st \<noteq> PayloadError"
    by (auto simp: handleTransportCanRead_def split: if_splits)
qed

lemma stuck_read:
  assumes "stuck m w c"
  shows "downstream_read alive answers c = Some (st, c') \<Longrightarrow> stuck m w c' \<and> st \<noteq> PayloadError"
    "downstream_auth alive cs b c = Some (st, c') \<Longrightarrow> stuck m w c' \<and> st \<noteq> PayloadError"
  using assms read_status
  by (auto simp: downstream_read_def downstream_auth_def stuck_completion split: option.splits if_splits prod.splits)

lemma stuck_write: "\<not> m_writeListening m \<Longrightarrow> stuck m w c \<Longrightarrow> c_downstream c = TransportDownstream \<Longrightarrow> downstream_write alive ws c = None"
  by (auto simp: stuck_def downstream_write_def split: list.split)

lemma stuck_io:
  assumes m: "\<not> m_writeListening m" and c: "stuck m w c" and io: "conn_handleIoReady alive inp c = Some (st, c')"
  shows "stuck m w c'"
proof (cases "c_destroyed c")
  case False
  with io obtain c1 where down: "downstream_handleIoReady alive inp c = Some (st, c1)" "c' = afterIo alive st c1"
    by (auto simp: conn_handleIoReady_def)
  have tr: "stuck m w (afterTransport b c)" for b using c by (simp add: afterTransport_def stuck_closeTransport)
  have "c_downstream c \<noteq> ServerDownstream" using c by (auto simp: stuck_def)
  with down(1) c stuck_write [OF m c] stuck_read [OF tr] have "stuck m w c1 \<and> st \<noteq> PayloadError"
    by (auto simp: downstream_handleIoReady_def split: downstream.splits io_input.splits if_splits)
  with down(2) show ?thesis by (auto simp: afterIo_def stuck_close)
qed (use io c in \<open>auto simp: conn_handleIoReady_def\<close>)

fun tells_main_disconnect :: "conn_call \<Rightarrow> bool" where
  "tells_main_disconnect (CallEvents evts) = list_ex main_disconnects evts"
| "tells_main_disconnect call = False"

lemma stuck_step:
  assumes m: "\<not> m_writeListening m" and c: "stuck m w c" and call: "\<not> tells_main_disconnect call"
  shows "stuck m w (conn_step alive ms call c)"
proof (cases call)
  case (CallIo inp)
  with stuck_io [OF m c] c show ?thesis by (auto split: option.split)
next
  case (CallEvents evts)
  with c call show ?thesis by (auto intro!: stuck_events simp: list_all_iff list_ex_iff)
next
  case (CallWait inps)
  with c show ?thesis by (auto simp: waitForConnectionEstablished_def stuck_def)
qed (use c in \<open>simp_all add: stuck_send stuck_sendNoReply stuck_close stuck_destroy stuck_timer\<close>)

lemma stuck_run:
  assumes "\<not> m_writeListening m"
  shows "stuck m w c \<Longrightarrow> list_all (\<lambda>(alive, ms, call). \<not> tells_main_disconnect call) later \<Longrightarrow>
    stuck m w (fold (\<lambda>(alive, ms, call). conn_step alive ms call) later c)"
  by (induction later arbitrary: c) (auto intro: stuck_step [OF assms])

subsection \<open>The answer to the hello message\<close>

lemma read_single_string:
  assumes "val_ok fds no_nesting (DBasic (BString name))" and "length (enc_seq sw fds 0 [DBasic (BString name)]) \<le> 2 ^ 26"
  shows "\<exists>cs rd. reader_readString (Reader (new_arguments_fds mem (cstring_of ''s'') (enc_seq sw fds 0 [DBasic (BString name)]) fds sw)) =
      (Some cs, rd) \<and> cs_chars cs = name \<and> r_state rd = Finished"
proof -
  let ?v = "DBasic (BString name)"
  let ?R = "Reader (new_arguments_fds mem (cstring_of ''s'') (enc_seq sw fds 0 [?v]) fds sw)"
  have "sigs_of [?v] = ''s''" by (simp add: sigs_of_def)
  with reader_reads [of fds "[?v]" sw "[]" mem] assms obtain r where "reads_until Finished ?R [?v] r" by auto
  then obtain r1 where "reads ?R ?v r1" "reads_until Finished r1 [] r" by (cases rule: reads_until.cases) auto
  moreover from this(2) have "r_state r1 = Finished" by (cases rule: reads_until.cases) auto
  moreover from calculation(1) obtain cs where "reader_readString ?R = (Some cs, r1)" "cs_chars cs = name"
    by (cases rule: reads.cases) auto
  ultimately show ?thesis by blast
qed

lemma hello_answer:
  assumes "c_helloReceiver c = Some p" and "c_replies c p = Some r" and "p_isFinished r" and "\<not> isError (p_error r)"
    and "p_link r = HeapReply (Some msg)"
    and "m_mainArguments msg = new_arguments_fds mem (cstring_of ''s'') (enc_seq sw fds 0 [DBasic (BString name)]) fds sw"
    and "val_ok fds no_nesting (DBasic (BString name))" and "length (enc_seq sw fds 0 [DBasic (BString name)]) \<le> 2 ^ 26"
  shows "handleHelloReply closeF alive c =
    changeState Connected (queueEvents (filter alive (c_secondaryThreadLinks c)) (UniqueNameReceivedEvent name)
      (c\<lparr>c_replies := (c_replies c)(p := None), c_helloReceiver := None, c_uniqueName := name\<rparr>))"
proof -
  from read_single_string [OF assms(7,8)] obtain cs rd where
    rd: "reader_readString (Reader (m_mainArguments msg)) = (Some cs, rd)" "cs_chars cs = name" "r_state rd = Finished"
    unfolding assms(6) by blast
  let ?c1 = "c\<lparr>c_replies := (c_replies c)(p := Some (r\<lparr>p_link := NoReply\<rparr>))\<rparr>"
  have take: "takeReply (Some p) c = (Some (Some msg), ?c1)" using assms by (simp add: takeReply_def updateReply_def)
  have del: "deleteHelloReceiver alive ?c1 = c\<lparr>c_replies := (c_replies c)(p := None), c_helloReceiver := None\<rparr>"
    using deleteHelloReceiver_failed [of ?c1 p "r\<lparr>p_link := NoReply\<rparr>" alive] assms by simp
  have "hasNonErrorReply (Some p) c = Some True" using assms by (simp add: hasNonErrorReply_def)
  then show ?thesis
    using assms(1) rd by (simp add: handleHelloReply_def take del Let_def)
qed

text \<open>C22: The answer to the hello message connects, in every state with the invariant of the registry: when the message with the serial of the connection's own reply
  arrives and holds one string, the connection gets that string, byte for byte as the specification encodes it, as its
  unique name, is connected, tells the connections of other threads the name, and has deleted the reply and its record;
  the listener is told of the change from connecting to connected.\<close>

theorem hello_answer_connects:
  assumes "reply_inv c" and "c_state c = AwaitingUniqueName" and "c_transport c \<noteq> None"
    and "m_messageType msg = MethodReturnMessage"
    and "c_helloReceiver c = Some p" and "(replySerial msg, ForReply p) \<in> set (c_pendingReplies c)"
    and "map_option (\<lambda>r. isError (p_error r)) (c_replies c p) = Some False"
    and "m_mainArguments msg = new_arguments_fds mem (cstring_of ''s'') (enc_seq sw fds 0 [DBasic (BString name)]) fds sw"
    and "val_ok fds no_nesting (DBasic (BString name))" and "length (enc_seq sw fds 0 [DBasic (BString name)]) \<le> 2 ^ 26"
  shows "(let c' = conn_handleCompletion alive ReceiveTask (c\<lparr>c_receivingMessage := Some msg\<rparr>) in
    c_state c' = Connected \<and> c_uniqueName c' = name \<and> c_helloReceiver c' = None \<and> c_replies c' p = None \<and>
    c_pendingReplies c' = filter (\<lambda>x. fst x \<noteq> replySerial msg) (c_pendingReplies c) \<and>
    c_sendQueue c' = c_sendQueue c \<and> c_fault c' = c_fault c \<and>
    c_outbox c' = c_outbox c @ map (\<lambda>k. (k, UniqueNameReceivedEvent name)) (filter alive (c_secondaryThreadLinks c)) \<and>
    c_notes c' = c_notes c @ (if c_connectionStateListener c then [StateNote UserConnecting UserConnected] else []))"
proof -
  have inv: "reply_inv c" by (rule assms(1))
  then have ok: "registry_ok c" by (simp add: reply_inv_def)
  have look: "map_of (c_pendingReplies c) (replySerial msg) = Some (ForReply p)"
    using ok assms(6) by (simp add: registry_ok_def)
  from assms(7) obtain r where r: "c_replies c p = Some r" "\<not> isError (p_error r)" by auto
  have att: "p_link r = Attached" "p_receiver r = HelloReceiver"
    using inv assms(5) r by (auto simp: reply_inv_def hello_ok_def)
  define c1 where "c1 = c\<lparr>c_receivingMessage := Some (receive (Message (c_junk c)))\<rparr>"
  define c2 where "c2 = c1\<lparr>c_pendingReplies := filter (\<lambda>x. fst x \<noteq> replySerial msg) (c_pendingReplies c)\<rparr>"
  define r' where "r' = r\<lparr>p_isFinished := True, p_link := HeapReply (Some msg),
              p_replyTimeout := (p_replyTimeout r)\<lparr>t_isRunning := False\<rparr>\<rparr>"
  define c3 where "c3 = c2\<lparr>c_replies := (c_replies c)(p := Some r')\<rparr>"
  have next_message: "receiveNextMessage (c\<lparr>c_receivingMessage := Some msg\<rparr>) = c1"
    using assms(3) by (cases "c_transport c") (simp_all add: receiveNextMessage_def c1_def)
  have erase: "erasePending (replySerial msg) c1 = c2" by (simp add: erasePending_def c1_def c2_def)
  have pend: "c_pendingReplies c1 = c_pendingReplies c" by (simp add: c1_def)
  have dispatch: "maybeDispatchToPendingReply alive msg (HeapReply (Some msg)) c1 =
      (True, handleReceived (conn_close alive) alive p (HeapReply (Some msg)) c2)"
    using look assms(4) by (simp add: maybeDispatchToPendingReply_def erase pend)
  have reply: "c_replies c2 = c_replies c" by (simp add: c2_def c1_def)
  have "c_replies c3 p = Some r'" "p_receiver r' = HelloReceiver" using att by (simp_all add: c3_def r'_def)
  then have "handleReceived (conn_close alive) alive p (HeapReply (Some msg)) c2 = handleHelloReply (conn_close alive) alive c3"
    using att by (simp add: handleReceived_def reply r updateReply_def c3_def [symmetric] r'_def [symmetric] finishedCallback_def)
  moreover have "c_helloReceiver c3 = Some p" "c_replies c3 p = Some r'" "p_isFinished r'" "\<not> isError (p_error r')"
      "p_link r' = HeapReply (Some msg)"
    using assms(5) r by (simp_all add: c3_def c2_def c1_def r'_def)
  note hello_answer [OF this assms(8-10), of "conn_close alive" alive]
  ultimately have "handleReceived (conn_close alive) alive p (HeapReply (Some msg)) c2 =
    changeState Connected (queueEvents (filter alive (c_secondaryThreadLinks c3)) (UniqueNameReceivedEvent name)
      (c3\<lparr>c_replies := (c_replies c3)(p := None), c_helloReceiver := None, c_uniqueName := name\<rparr>))" by simp
  moreover have "conn_handleCompletion alive ReceiveTask (c\<lparr>c_receivingMessage := Some msg\<rparr>) =
      handleReceived (conn_close alive) alive p (HeapReply (Some msg)) c2"
    using assms(2,4) by (simp add: conn_handleCompletion_def handleReceiveCompletion_def next_message dispatch message_type_defs)
  ultimately show ?thesis
    using assms(2) by (simp add: changeState_def setNewState_def endStateChange_def notifyStateChange_def c_note_def
        queueEvents_def c3_def c2_def c1_def Let_def)
qed

text \<open>C38: A message that is sent after the hello message has left and before its answer has arrived is never sent: it
  is put into the empty queue without being started, because the connection is not connected yet, and whatever happens
  from then on, be it the answer to the hello message, messages, errors, events, timeouts, sending, closing or
  destruction, does not start it.  It stays at the head of the queue, and nothing at all is written to the transport
  any more, until the transport is closed.  The events exclude the one that tells a connection of another thread that
  its main connection has gone.\<close>

theorem early_message_stalls_queue:
  assumes "c_state c = AwaitingUniqueName" and "c_sendQueue c = []" and "c_mainThreadConnection c = None"
    and "c_downstream c = TransportDownstream" and "c_transport c = Some True"
    and "\<not> m_writeListening m" and "fst (sendNoReply alive ms m c) = NoError"
    and "list_all (\<lambda>(alive, ms, call). \<not> tells_main_disconnect call) later"
  shows "(let c1 = snd (sendNoReply alive ms m c);
              c2 = fold (\<lambda>(alive, ms, call). conn_step alive ms call) later c1
          in c_written c2 = c_written c \<and>
             (c_downstream c2 = NoDownstream \<or>
              c_transport c2 = Some True \<and> c_sendQueue c2 \<noteq> [] \<and> hd (c_sendQueue c2) = hd (c_sendQueue c1) \<and>
              m_writeListening (hd (c_sendQueue c2)) = False))"
proof -
  let ?c1 = "snd (sendNoReply alive ms m c)"
  let ?c2 = "fold (\<lambda>(alive, ms, call). conn_step alive ms call) later ?c1"
  obtain e m1 c0 where prep: "prepareSend alive ms m c = (e, m1, c0)" by (metis prod_cases3)
  have part: "c_written c0 = c_written c" "c_state c0 = AwaitingUniqueName" "c_downstream c0 = TransportDownstream"
    "c_transport c0 = Some True" "c_sendQueue c0 = []"
    using part_prepareSend [OF prep] assms(1-5) by (simp_all add: sending_part_def)
  have ok: "\<not> isError e" using assms(7) part(2) unfolding sendNoReply_def prep by (auto simp: isError_def split: if_splits)
  have c1: "?c1 = c0\<lparr>c_sendQueue := [m1]\<rparr>"
    using ok part prepareSend_parts2 [OF prep] assms(3) by (simp add: sendNoReply_def prep sendPreparedMessage_def Let_def)
  have m1: "\<not> m_writeListening m1" using prepareSend_parts2(1) [OF prep] assms(6) by simp
  have "stuck m1 (c_written c) ?c1" unfolding c1 by (simp add: stuck_def part)
  from stuck_run [OF m1 this assms(8)] have "stuck m1 (c_written c) ?c2" .
  with m1 show ?thesis unfolding Let_def c1 by (auto simp: stuck_def)
qed

text \<open>A connection that waits for its name, and an answer with the name \<open>:1\<close>.\<close>

definition example_hello_answer :: message where
  "example_hello_answer = (Message (\<lambda>_. 0))\<lparr>m_messageType := MethodReturnMessage, m_mainArguments :=
     new_arguments_fds None (cstring_of ''s'') (enc_seq False [] 0 [DBasic (BString '':1'')]) [] False\<rparr>"

definition example_awaiting :: connection where
  "example_awaiting = (ConnectionPrivate 1 (\<lambda>_. 0) id 0 0)\<lparr>c_state := AwaitingUniqueName, c_transport := Some True,
     c_downstream := TransportDownstream, c_helloReceiver := Some 0, c_nextReply := 1,
     c_replies := [0 \<mapsto> (PendingReplyPrivate 100)\<lparr>p_receiver := HelloReceiver\<rparr>],
     c_pendingReplies := [(0, ForReply 0)]\<rparr>"

lemma example_hello_text:
  "val_ok [] no_nesting (DBasic (BString '':1''))" "length (enc_seq False [] 0 [DBasic (BString '':1'')]) \<le> 2 ^ 26"
proof -
  show "val_ok [] no_nesting (DBasic (BString '':1''))" by code_simp
  have "length (enc_seq False [] 0 [DBasic (BString '':1'')]) = 7" by code_simp
  then show "length (enc_seq False [] 0 [DBasic (BString '':1'')]) \<le> 2 ^ 26" by simp
qed

lemma example_early_send:
  "sendNoReply alive ms example_call example_awaiting = (NoError, example_awaiting\<lparr>c_sendQueue := [example_call]\<rparr>)"
proof -
  have "serialize example_call = (True, example_call)" by (rule serialize_done) (simp_all add: example_call_def)
  moreover have "m_serial example_call \<noteq> 0" by (simp add: example_call_def)
  moreover have "c_state example_awaiting = AwaitingUniqueName" "c_sendQueue example_awaiting = []"
      "c_mainThreadConnection example_awaiting = None"
    by (simp_all add: example_awaiting_def ConnectionPrivate_def)
  ultimately show ?thesis
    by (simp add: sendNoReply_def prepareSend_def isError_def sendPreparedMessage_def Let_def)
qed

text \<open>
  Here, the answer is processed, the client sends again, the transport becomes readable and writable, time passes, and
  the connection of another thread reports.
\<close>

definition example_later :: "((nat \<Rightarrow> bool) \<times> uint32 \<times> conn_call) list" where
  "example_later = [(\<lambda>_. True, 0, CallEvents [PendingReplySuccessEvent example_hello_answer]),
     (\<lambda>_. True, 0, CallSend 5 example_call 100), (\<lambda>_. True, 0, CallIo (ReadInput [] True)),
     (\<lambda>_. False, 0, CallSendNoReply example_call), (\<lambda>_. True, 0, CallIo (WriteInput [])), (\<lambda>_. True, 0, CallTimer 0),
     (\<lambda>_. True, 0, CallEvents [UniqueNameReceivedEvent '':1'', SendMessageEvent example_call])]"

theorem early_message_stalls_queue_witness:
  "c_written (fold (\<lambda>(alive, ms, call). conn_step alive ms call) example_later
     (snd (sendNoReply (\<lambda>_. True) 0 example_call example_awaiting))) = []"
proof -
  have start: "c_state example_awaiting = AwaitingUniqueName" "c_sendQueue example_awaiting = []"
      "c_mainThreadConnection example_awaiting = None" "c_downstream example_awaiting = TransportDownstream"
      "c_transport example_awaiting = Some True" "\<not> m_writeListening example_call"
    and none: "c_written example_awaiting = []"
    by (simp_all add: example_awaiting_def ConnectionPrivate_def example_call_def Message_def)
  have "fst (sendNoReply (\<lambda>_. True) 0 example_call example_awaiting) = NoError" by (simp add: example_early_send)
  moreover have "list_all (\<lambda>(alive, ms, call). \<not> tells_main_disconnect call) example_later"
    by (simp add: example_later_def)
  ultimately show ?thesis
    using early_message_stalls_queue [OF start] none by (simp add: Let_def)
qed

definition example_hello_sent :: connection where
  "example_hello_sent = (ConnectionPrivate 1 (\<lambda>_. 0) id 0 0)\<lparr>c_state := AwaitingUniqueName, c_transport := Some True,
     c_helloReceiver := Some 0, c_nextReply := 1, c_pendingReplies := [(1, ForReply 0)],
     c_replies := [0 \<mapsto> (PendingReplyPrivate 100)\<lparr>p_receiver := HelloReceiver, p_serial := 1\<rparr>]\<rparr>"

lemma example_hello_inv: "reply_inv example_hello_sent"
  by (auto simp: example_hello_sent_def reply_inv_def registry_ok_def registered_def hello_ok_def hello_only_def
      finished_notes_def link_typed_def answered_def ConnectionPrivate_def PendingReplyPrivate_def split: if_splits)

theorem hello_answer_connects_witness:
  "c_uniqueName (conn_handleCompletion (\<lambda>_. True) ReceiveTask
     (example_hello_sent\<lparr>c_receivingMessage := Some (setReplySerial 1 example_hello_answer)\<rparr>)) = '':1''"
proof -
  let ?m = "setReplySerial 1 example_hello_answer"
  have "c_state example_hello_sent = AwaitingUniqueName" "c_transport example_hello_sent \<noteq> None"
    "c_helloReceiver example_hello_sent = Some 0"
    "map_option (\<lambda>r. isError (p_error r)) (c_replies example_hello_sent 0) = Some False"
    "c_pendingReplies example_hello_sent = [(1, ForReply 0)]"
    by (simp_all add: example_hello_sent_def ConnectionPrivate_def PendingReplyPrivate_def isError_def)
  note c = this
  have arg: "m_mainArguments ?m = new_arguments_fds None (cstring_of ''s'') (enc_seq False [] 0 [DBasic (BString '':1'')]) [] False"
    and type: "m_messageType ?m = MethodReturnMessage"
    by (simp_all add: setReplySerial_def msg_setIntHeader_def example_hello_answer_def)
  have "replySerial ?m = 1"
    unfolding setReplySerial_def msg_setIntHeader_def replySerial_def msg_intHeader_def by code_simp
  with c have rec: "(replySerial ?m, ForReply 0) \<in> set (c_pendingReplies example_hello_sent)" by simp
  from hello_answer_connects [OF example_hello_inv c(1,2) type c(3) rec c(4) arg example_hello_text, of "\<lambda>_. True"]
  show ?thesis by (simp add: Let_def)
qed

end
