(* ===== verification/Locks.thy ===== *)
theory Locks
  imports Dfer_Prelude
begin

text \<open>
  Locks between threads (\<^verbatim>\<open>util/commutex.h\<close>, \<^verbatim>\<open>util/spinlock.h\<close>) and the cache of memory blocks
  (\<^verbatim>\<open>util/malloccache.h\<close>).  Each atomic operation is one step; the threads' steps interleave in any order.
\<close>

subsection \<open>Commutex\<close>

datatype commutex_state = Free | Locked | Broken

datatype try_result = TransientFailure | PermanentFailure | Success

text \<open>\<^verbatim>\<open>compare_exchange_strong\<close>: whether it succeeded, the previous value, the new value.\<close>

definition compare_exchange :: "'a \<Rightarrow> 'a \<Rightarrow> 'a \<Rightarrow> bool \<times> 'a \<times> 'a" where
  "compare_exchange expected new cur = (if cur = expected then (True, cur, new) else (False, cur, cur))"

definition commutex_tryLock :: "commutex_state \<Rightarrow> try_result \<times> commutex_state" where
  "commutex_tryLock st =
     (case compare_exchange Free Locked st of (ok, prevState, st') \<Rightarrow>
        if ok then (Success, st')
        else (if prevState = Broken then PermanentFailure else TransientFailure, st'))"

definition commutex_unlock :: "commutex_state \<Rightarrow> bool \<times> commutex_state" where
  "commutex_unlock st = (case compare_exchange Locked Free st of (ok, prevState, st') \<Rightarrow> (ok, st'))"

definition commutex_tryUnlink :: "commutex_state \<Rightarrow> bool \<times> commutex_state" where
  "commutex_tryUnlink st =
     (case compare_exchange Free Broken st of (wasFree, prevState, st') \<Rightarrow> (wasFree \<or> prevState = Broken, st'))"

definition commutex_unlinkFromLocked :: "commutex_state \<Rightarrow> bool \<times> commutex_state" where
  "commutex_unlinkFromLocked st = (case compare_exchange Locked Broken st of (success, prevState, st') \<Rightarrow> (success, st'))"

subsection \<open>The two peers of a link\<close>

datatype side = LeftSide | RightSide

fun other_side :: "side \<Rightarrow> side" where
  "other_side LeftSide = RightSide"
| "other_side RightSide = LeftSide"

text \<open>\<open>l_comm s\<close>: the pointer of the peer on side \<open>s\<close> is set; \<open>l_asserted\<close>: every assertion on the way held.\<close>

record link =
  l_state :: commutex_state
  l_comm :: "side \<Rightarrow> bool"
  l_asserted :: bool

definition createLink :: link where
  "createLink = \<lparr>l_state = Free, l_comm = (\<lambda>_. True), l_asserted = True\<rparr>"

definition reset_comm :: "side \<Rightarrow> link \<Rightarrow> link" where
  "reset_comm s l = l\<lparr>l_comm := (l_comm l)(s := False)\<rparr>"

definition peer_tryLock :: "side \<Rightarrow> link \<Rightarrow> try_result \<times> link" where
  "peer_tryLock s l =
     (if \<not> l_comm l s then (PermanentFailure, l)
      else (case commutex_tryLock (l_state l) of (ret, st) \<Rightarrow>
              (let l1 = l\<lparr>l_state := st\<rparr> in (ret, if ret = PermanentFailure then reset_comm s l1 else l1))))"

text \<open>\<^verbatim>\<open>unlock\<close> asserts that a failure is due to the state \<^verbatim>\<open>Broken\<close>.\<close>

definition peer_unlock :: "side \<Rightarrow> link \<Rightarrow> link" where
  "peer_unlock s l =
     (if \<not> l_comm l s then l
      else (case commutex_unlock (l_state l) of (ok, st) \<Rightarrow>
              l\<lparr>l_state := st, l_asserted := (l_asserted l \<and> (ok \<or> l_state l = Broken))\<rparr>))"

definition peer_tryUnlink :: "side \<Rightarrow> link \<Rightarrow> bool \<times> link" where
  "peer_tryUnlink s l =
     (if \<not> l_comm l s then (True, l)
      else (case commutex_tryUnlink (l_state l) of (ret, st) \<Rightarrow>
              (let l1 = l\<lparr>l_state := st\<rparr> in (ret, if ret then reset_comm s l1 else l1))))"

definition peer_unlinkFromLocked :: "side \<Rightarrow> link \<Rightarrow> link" where
  "peer_unlinkFromLocked s l =
     (if \<not> l_comm l s then l
      else (case commutex_unlinkFromLocked (l_state l) of (success, st) \<Rightarrow>
              l\<lparr>l_state := st, l_asserted := (l_asserted l \<and> success)\<rparr>))"

definition peer_state :: "side \<Rightarrow> link \<Rightarrow> commutex_state" where
  "peer_state s l = (if \<not> l_comm l s then Broken else l_state l)"

subsection \<open>Threads that use a link\<close>

text \<open>
  Where the thread of a side is: outside; in the constructor of a \<^verbatim>\<open>CommutexLocker\<close>, which spins in \<^verbatim>\<open>lock\<close>; in the
  scope of one, with the lock or without; in the constructor of a \<^verbatim>\<open>CommutexUnlinker\<close> (with \<^verbatim>\<open>mustSucceed\<close> or not);
  in the scope of one, with a result; in the destructor of the peer, which spins in \<^verbatim>\<open>unlink\<close>; behind it.
\<close>

datatype point =
    Outside
  | Locking
  | LockerScope bool
  | Unlinking bool
  | UnlinkerScope try_result
  | Destroying
  | Destroyed

type_synonym lsystem = "link \<times> (side \<Rightarrow> point)"

text \<open>
  One step of one side.  Outside it chooses what to do.  In the scope of a \<^verbatim>\<open>CommutexUnlinker\<close> it calls
  \<^verbatim>\<open>unlinkNow\<close> only when \<^verbatim>\<open>willSucceed\<close>, as the assertion there demands.
\<close>

inductive side_step :: "side \<Rightarrow> link \<Rightarrow> point \<Rightarrow> link \<Rightarrow> point \<Rightarrow> bool" for s where
  locker: "side_step s l Outside l Locking"
| unlinker: "side_step s l Outside l (Unlinking mustSucceed)"
| destructor: "side_step s l Outside l Destroying"
| lock: "peer_tryLock s l = (ret, l') \<Longrightarrow>
    side_step s l Locking l' (if ret = TransientFailure then Locking else LockerScope (ret = Success))"
| locker_end: "side_step s l (LockerScope hasLock) (if hasLock then peer_unlock s l else l) Outside"
| unlinker_try: "peer_tryLock s l = (ret, l') \<Longrightarrow>
    side_step s l (Unlinking mustSucceed) l'
      (if mustSucceed \<and> ret = TransientFailure then Unlinking mustSucceed else UnlinkerScope ret)"
| unlinker_end: "side_step s l (UnlinkerScope ret) (if ret = Success then peer_unlinkFromLocked s l else l) Outside"
| unlinkNow: "ret \<noteq> TransientFailure \<Longrightarrow>
    side_step s l (UnlinkerScope ret) (if ret = Success then peer_unlinkFromLocked s l else l) (UnlinkerScope PermanentFailure)"
| unlink: "peer_tryUnlink s l = (ret, l') \<Longrightarrow> side_step s l Destroying l' (if ret then Destroyed else Destroying)"

inductive link_step :: "lsystem \<Rightarrow> lsystem \<Rightarrow> bool" where
  "side_step s l (pc s) l' p' \<Longrightarrow> link_step (l, pc) (l', pc(s := p'))"

definition link_start :: lsystem where
  "link_start = (createLink, \<lambda>_. Outside)"

text \<open>The thread has the lock.\<close>

definition has_lock :: "point \<Rightarrow> bool" where
  "has_lock p \<longleftrightarrow> p = LockerScope True \<or> p = UnlinkerScope Success"

subsection \<open>Systems that exclude\<close>

text \<open>
  What it takes that two participants are never in their critical sections together: an invariant of the steps that
  has at most one holder.
\<close>

locale exclusive =
  fixes start :: 'c and step :: "'c \<Rightarrow> 'c \<Rightarrow> bool" and holds :: "'c \<Rightarrow> 't \<Rightarrow> bool" and inv :: "'c \<Rightarrow> bool"
  assumes inv_start: "inv start"
    and inv_step: "inv c \<Longrightarrow> step c c' \<Longrightarrow> inv c'"
    and one_holder: "inv c \<Longrightarrow> holds c s \<Longrightarrow> holds c t \<Longrightarrow> s = t"
begin

lemma inv_reachable: "step\<^sup>*\<^sup>* start c \<Longrightarrow> inv c"
  by (induction rule: rtranclp_induct) (auto intro: inv_start inv_step)

lemma excludes: "step\<^sup>*\<^sup>* start c \<Longrightarrow> holds c s \<Longrightarrow> holds c t \<Longrightarrow> s = t"
  using inv_reachable one_holder by blast

lemma excludes_later: "step\<^sup>*\<^sup>* start c \<Longrightarrow> step\<^sup>*\<^sup>* c c' \<Longrightarrow> holds c' s \<Longrightarrow> holds c' t \<Longrightarrow> s = t"
  using excludes rtranclp_trans by metis

end

subsection \<open>The commutex excludes\<close>

lemma all_sides: "(\<forall>s. P s) \<longleftrightarrow> P LeftSide \<and> P RightSide"
  by (metis side.exhaust)

lemma ex_side: "(\<exists>s. P s) \<longleftrightarrow> P LeftSide \<or> P RightSide"
  by (metis side.exhaust)

definition link_inv :: "lsystem \<Rightarrow> bool" where
  "link_inv = (\<lambda>(l, pc). l_asserted l \<and>
     (\<forall>s. has_lock (pc s) \<longrightarrow> l_comm l s \<and> l_state l = Locked) \<and>
     (l_state l = Locked \<longrightarrow> (\<exists>s. has_lock (pc s))) \<and>
     \<not> (has_lock (pc LeftSide) \<and> has_lock (pc RightSide)) \<and>
     (\<forall>s. \<not> l_comm l s \<longrightarrow> l_state l = Broken) \<and>
     (\<forall>s. pc s = Destroyed \<longrightarrow> \<not> l_comm l s))"

lemmas peer_defs = peer_tryLock_def peer_unlock_def peer_tryUnlink_def peer_unlinkFromLocked_def reset_comm_def
  commutex_tryLock_def commutex_unlock_def commutex_tryUnlink_def commutex_unlinkFromLocked_def compare_exchange_def

lemma link_inv_step:
  assumes "link_inv c" and "link_step c c'"
  shows "link_inv c'"
  using assms(2,1)
proof (cases rule: link_step.cases)
  case (1 s l pc l' p')
  have inv: "link_inv (l, pc)" using assms(1) 1(1) by simp
  from 1(3) have "link_inv (l', pc(s := p'))"
  proof (cases rule: side_step.cases)
    case (lock ret)
    with inv show ?thesis
      by (cases s; cases "l_state l"; cases "l_comm l s")
        (auto simp: link_inv_def all_sides ex_side has_lock_def peer_defs Let_def)
  next
    case (locker_end hasLock)
    with inv show ?thesis
      by (cases s; cases "l_state l"; cases "l_comm l s"; cases hasLock)
        (auto simp: link_inv_def all_sides ex_side has_lock_def peer_defs Let_def)
  next
    case (unlinker_try ret mustSucceed)
    with inv show ?thesis
      by (cases s; cases "l_state l"; cases "l_comm l s"; cases mustSucceed)
        (auto simp: link_inv_def all_sides ex_side has_lock_def peer_defs Let_def)
  next
    case (unlinker_end ret)
    with inv show ?thesis
      by (cases s; cases "l_state l"; cases "l_comm l s"; cases ret)
        (auto simp: link_inv_def all_sides ex_side has_lock_def peer_defs Let_def)
  next
    case (unlinkNow ret)
    with inv show ?thesis
      by (cases s; cases "l_state l"; cases "l_comm l s"; cases ret)
        (auto simp: link_inv_def all_sides ex_side has_lock_def peer_defs Let_def)
  next
    case (unlink ret)
    with inv show ?thesis
      by (cases s; cases "l_state l"; cases "l_comm l s")
        (auto simp: link_inv_def all_sides ex_side has_lock_def peer_defs Let_def)
  qed (use inv in \<open>cases s; simp add: link_inv_def all_sides ex_side has_lock_def\<close>)+
  then show ?thesis using 1(2) by simp
qed

interpretation commutex: exclusive link_start link_step "\<lambda>(l, pc) s. has_lock (pc s)" link_inv
proof
  show "link_inv link_start" by (simp add: link_inv_def link_start_def createLink_def has_lock_def)
  show "link_inv c \<Longrightarrow> link_step c c' \<Longrightarrow> link_inv c'" for c c' by (rule link_inv_step)
  show "link_inv c \<Longrightarrow> (case c of (l, pc) \<Rightarrow> \<lambda>s. has_lock (pc s)) s \<Longrightarrow>
      (case c of (l, pc) \<Rightarrow> \<lambda>s. has_lock (pc s)) t \<Longrightarrow> s = t" for c s t
    by (cases s; cases t) (auto simp: link_inv_def)
qed

lemma link_reachable_inv: "link_step\<^sup>*\<^sup>* link_start c \<Longrightarrow> link_inv c"
  by (rule commutex.inv_reachable)

text \<open>
  The lock that a commutex is meant to be: free, held by one side, or broken for good.
\<close>

datatype abstract_lock = AFree | AHeld side | ABroken

inductive alock_step :: "abstract_lock \<Rightarrow> abstract_lock \<Rightarrow> bool" where
  acquire: "alock_step AFree (AHeld s)"
| release: "alock_step (AHeld s) AFree"
| break_held: "alock_step (AHeld s) ABroken"
| break_free: "alock_step AFree ABroken"

fun abs_lock :: "lsystem \<Rightarrow> abstract_lock" where
  "abs_lock (l, pc) =
     (if l_state l = Broken then ABroken
      else if has_lock (pc LeftSide) then AHeld LeftSide
      else if has_lock (pc RightSide) then AHeld RightSide
      else AFree)"

inductive_simps alock_step_simps [simp]:
  "alock_step AFree x" "alock_step (AHeld s) x" "alock_step ABroken x"

lemma commutex_step_abs:
  assumes "link_inv c" and "link_step c c'"
  shows "abs_lock c' = abs_lock c \<or> alock_step (abs_lock c) (abs_lock c')"
  using assms(2,1)
proof (cases rule: link_step.cases)
  case (1 s l pc l' p')
  have inv: "link_inv (l, pc)" using assms(1) 1(1) by simp
  from 1(3) have "abs_lock (l', pc(s := p')) = abs_lock (l, pc) \<or> alock_step (abs_lock (l, pc)) (abs_lock (l', pc(s := p')))"
  proof (cases rule: side_step.cases)
    case (lock ret)
    with inv show ?thesis
      by (cases s; cases "l_state l"; cases "l_comm l s")
        (auto simp: link_inv_def all_sides ex_side has_lock_def peer_defs Let_def)
  next
    case (locker_end hasLock)
    with inv show ?thesis
      by (cases s; cases "l_state l"; cases "l_comm l s"; cases hasLock)
        (auto simp: link_inv_def all_sides ex_side has_lock_def peer_defs Let_def)
  next
    case (unlinker_try ret mustSucceed)
    with inv show ?thesis
      by (cases s; cases "l_state l"; cases "l_comm l s"; cases mustSucceed)
        (auto simp: link_inv_def all_sides ex_side has_lock_def peer_defs Let_def)
  next
    case (unlinker_end ret)
    with inv show ?thesis
      by (cases s; cases "l_state l"; cases "l_comm l s"; cases ret)
        (auto simp: link_inv_def all_sides ex_side has_lock_def peer_defs Let_def)
  next
    case (unlinkNow ret)
    with inv show ?thesis
      by (cases s; cases "l_state l"; cases "l_comm l s"; cases ret)
        (auto simp: link_inv_def all_sides ex_side has_lock_def peer_defs Let_def)
  next
    case (unlink ret)
    with inv show ?thesis
      by (cases s; cases "l_state l"; cases "l_comm l s")
        (auto simp: link_inv_def all_sides ex_side has_lock_def peer_defs Let_def)
  qed (cases s; simp add: has_lock_def)+
  then show ?thesis using 1(1,2) by simp
qed

lemma broken_stays:
  assumes "link_step\<^sup>*\<^sup>* c c'" and "link_inv c" and "abs_lock c = ABroken"
  shows "link_inv c' \<and> abs_lock c' = ABroken"
  using assms
proof (induction rule: rtranclp_induct)
  case (step c1 c2)
  then show ?case using link_inv_step [of c1 c2] commutex_step_abs [of c1 c2] by auto
qed simp

text \<open>C10: The commutex refines an abstract lock: every step of the two threads, through tryLock, unlock, unlink and
  their loops, either changes nothing for them or takes the free lock, gives it back, or breaks it for good; and on no
  way an assertion of the code fails.\<close>

theorem commutex_refines_lock:
  assumes "link_step\<^sup>*\<^sup>* link_start c" and "link_step c c'"
  shows "(abs_lock c' = abs_lock c \<or> alock_step (abs_lock c) (abs_lock c')) \<and> l_asserted (fst c')"
proof -
  have inv: "link_inv c" by (rule link_reachable_inv [OF assms(1)])
  have "l_asserted (fst c')" using link_inv_step [OF inv assms(2)] by (auto simp: link_inv_def split: prod.splits)
  with commutex_step_abs [OF inv assms(2)] show ?thesis by blast
qed

lemma example_destroying: "link_step link_start (createLink, (\<lambda>_. Outside)(LeftSide := Destroying))"
  unfolding link_start_def by (rule link_step.intros) (rule side_step.destructor)

lemma example_destroyed:
  "link_step (createLink, (\<lambda>_. Outside)(LeftSide := Destroying))
     (createLink\<lparr>l_state := Broken, l_comm := (\<lambda>_. True)(LeftSide := False)\<rparr>, (\<lambda>_. Outside)(LeftSide := Destroyed))"
proof -
  have "side_step LeftSide createLink Destroying (createLink\<lparr>l_state := Broken, l_comm := (\<lambda>_. True)(LeftSide := False)\<rparr>)
      (if True then Destroyed else Destroying)"
    by (rule side_step.unlink) (simp add: createLink_def peer_defs Let_def)
  then have "side_step LeftSide createLink (((\<lambda>_. Outside)(LeftSide := Destroying)) LeftSide)
      (createLink\<lparr>l_state := Broken, l_comm := (\<lambda>_. True)(LeftSide := False)\<rparr>) Destroyed" by simp
  from link_step.intros [where pc = "(\<lambda>_. Outside)(LeftSide := Destroying)", OF this] show ?thesis
    by (simp add: fun_upd_def if_distrib cong: if_cong)
qed

theorem commutex_refines_lock_witness:
  "alock_step (abs_lock (createLink, (\<lambda>_. Outside)(LeftSide := Destroying)))
     (abs_lock (createLink\<lparr>l_state := Broken, l_comm := (\<lambda>_. True)(LeftSide := False)\<rparr>, (\<lambda>_. Outside)(LeftSide := Destroyed)))"
  using commutex_refines_lock [OF r_into_rtranclp [of link_step, OF example_destroying] example_destroyed]
  by (simp add: createLink_def)

text \<open>C29: After the peer of one side is destroyed, or the link was broken otherwise, the other side never has the lock
  again: the code in the scope of a \<^verbatim>\<open>CommutexLocker\<close> with the lock never touches a destroyed counterpart.\<close>

theorem no_lock_after_destruction:
  assumes "link_step\<^sup>*\<^sup>* link_start (l, pc)" and "pc s = Destroyed \<or> l_state l = Broken"
    and "link_step\<^sup>*\<^sup>* (l, pc) (l', pc')"
  shows "\<not> has_lock (pc' t) \<and> fst (peer_tryLock t l') = PermanentFailure"
proof -
  have inv: "link_inv (l, pc)" by (rule link_reachable_inv [OF assms(1)])
  then have "l_state l = Broken" using assms(2) by (auto simp: link_inv_def)
  then have "abs_lock (l, pc) = ABroken" by simp
  from broken_stays [OF assms(3) inv this] have "link_inv (l', pc')" "l_state l' = Broken"
    by (auto split: if_splits)
  then show ?thesis by (auto simp: link_inv_def peer_defs Let_def)
qed

theorem no_lock_after_destruction_witness:
  "fst (peer_tryLock RightSide (createLink\<lparr>l_state := Broken, l_comm := (\<lambda>_. True)(LeftSide := False)\<rparr>)) = PermanentFailure"
proof -
  let ?c = "(createLink\<lparr>l_state := Broken, l_comm := (\<lambda>_. True)(LeftSide := False)\<rparr>, (\<lambda>_. Outside)(LeftSide := Destroyed))"
  have "link_step\<^sup>*\<^sup>* link_start ?c"
    by (rule rtranclp.rtrancl_into_rtrancl [OF r_into_rtranclp [of link_step, OF example_destroying] example_destroyed])
  from no_lock_after_destruction [OF this _ rtranclp.rtrancl_refl, of LeftSide RightSide] show ?thesis by simp
qed

text \<open>A thread that spins waits for a thread that has the lock, never for a broken or free one.\<close>

lemma spins_only_for_holder:
  assumes "link_step\<^sup>*\<^sup>* link_start (l, pc)"
  shows "fst (peer_tryLock s l) = TransientFailure \<Longrightarrow> \<exists>t. has_lock (pc t)"
    and "\<not> fst (peer_tryUnlink s l) \<Longrightarrow> \<exists>t. has_lock (pc t)"
  using link_reachable_inv [OF assms]
  by (cases "l_state l"; auto simp: link_inv_def peer_defs Let_def split: if_splits)+

subsection \<open>Spinlock\<close>

definition test_and_set :: "bool \<Rightarrow> bool \<times> bool" where
  "test_and_set m_locked = (m_locked, True)"

datatype spin_point = SpinOutside | Spinning | SpinScope

type_synonym spin_system = "bool \<times> (nat \<Rightarrow> spin_point)"

text \<open>The threads are numbers; each uses \<^verbatim>\<open>SpinLocker\<close>s.\<close>

inductive spin_step :: "spin_system \<Rightarrow> spin_system \<Rightarrow> bool" where
  spin_start: "pc i = SpinOutside \<Longrightarrow> spin_step (m_locked, pc) (m_locked, pc(i := Spinning))"
| spin_lock: "pc i = Spinning \<Longrightarrow> test_and_set m_locked = (was_locked, m_locked') \<Longrightarrow>
    spin_step (m_locked, pc) (m_locked', pc(i := (if was_locked then Spinning else SpinScope)))"
| spin_unlock: "pc i = SpinScope \<Longrightarrow> spin_step (m_locked, pc) (False, pc(i := SpinOutside))"

definition spin_inv :: "spin_system \<Rightarrow> bool" where
  "spin_inv = (\<lambda>(m_locked, pc).
     (\<forall>i j. pc i = SpinScope \<longrightarrow> pc j = SpinScope \<longrightarrow> i = j) \<and> (m_locked \<longleftrightarrow> (\<exists>i. pc i = SpinScope)))"

lemma spin_inv_step:
  assumes "spin_inv c" and "spin_step c c'"
  shows "spin_inv c'"
  using assms(2,1)
proof (cases rule: spin_step.cases)
  case (spin_start pc i m_locked)
  then have "(pc(i := Spinning)) j = SpinScope \<longleftrightarrow> pc j = SpinScope" for j by auto
  with spin_start assms(1) show ?thesis by (simp add: spin_inv_def del: fun_upd_apply)
next
  case (spin_lock pc i m_locked was_locked m_locked')
  show ?thesis
  proof (cases m_locked)
    case True
    then have "(pc(i := Spinning)) j = SpinScope \<longleftrightarrow> pc j = SpinScope" for j using spin_lock by auto
    with True spin_lock assms(1) show ?thesis by (simp add: spin_inv_def test_and_set_def del: fun_upd_apply)
  next
    case False
    then have "(pc(i := SpinScope)) j = SpinScope \<longleftrightarrow> j = i" for j
      using spin_lock assms(1) by (auto simp: spin_inv_def)
    with False spin_lock show ?thesis by (simp add: spin_inv_def test_and_set_def del: fun_upd_apply)
  qed
next
  case (spin_unlock pc i m_locked)
  then have "(pc(i := SpinOutside)) j \<noteq> SpinScope" for j
    using assms(1) by (auto simp: spin_inv_def)
  with spin_unlock show ?thesis by (simp add: spin_inv_def del: fun_upd_apply)
qed

interpretation spinlock: exclusive "(False, \<lambda>_. SpinOutside)" spin_step "\<lambda>(m_locked, pc) i. pc i = SpinScope" spin_inv
proof
  show "spin_inv (False, \<lambda>_. SpinOutside)" by (simp add: spin_inv_def)
  show "spin_inv c \<Longrightarrow> spin_step c c' \<Longrightarrow> spin_inv c'" for c c'
    by (rule spin_inv_step)
  show "spin_inv c \<Longrightarrow> (case c of (m_locked, pc) \<Rightarrow> \<lambda>i. pc i = SpinScope) s \<Longrightarrow>
      (case c of (m_locked, pc) \<Rightarrow> \<lambda>i. pc i = SpinScope) t \<Longrightarrow> s = t" for c s t
    by (auto simp: spin_inv_def)
qed

lemma spinlock_excludes:
  "spin_step\<^sup>*\<^sup>* (False, \<lambda>_. SpinOutside) (m_locked, pc) \<Longrightarrow> pc i = SpinScope \<Longrightarrow> pc j = SpinScope \<Longrightarrow> i = j"
  using spinlock.excludes [of "(m_locked, pc)" i j] by simp

subsection \<open>The cache of memory blocks\<close>

text \<open>Blocks are numbers; \<open>mc_blocks\<close> are the first \<^verbatim>\<open>m_blocksCached\<close> entries of \<^verbatim>\<open>m_blocks\<close>.\<close>

record malloc_cache =
  mc_blocks :: "nat list"

text \<open>\<open>fresh\<close> is what \<^verbatim>\<open>malloc\<close> returns, if it is called.\<close>

definition mc_allocate :: "nat \<Rightarrow> malloc_cache \<Rightarrow> nat \<times> malloc_cache" where
  "mc_allocate fresh c =
     (if mc_blocks c \<noteq> [] then (last (mc_blocks c), c\<lparr>mc_blocks := butlast (mc_blocks c)\<rparr>) else (fresh, c))"

text \<open>The flag: the block goes back to the system.\<close>

definition mc_free :: "nat \<Rightarrow> nat \<Rightarrow> malloc_cache \<Rightarrow> bool \<times> malloc_cache" where
  "mc_free blockCount b c =
     (if length (mc_blocks c) < blockCount then (False, c\<lparr>mc_blocks := mc_blocks c @ [b]\<rparr>) else (True, c))"

text \<open>The cache and the blocks that are in use by its clients, which free only those.\<close>

inductive cache_reachable :: "nat \<Rightarrow> malloc_cache \<Rightarrow> nat list \<Rightarrow> bool" for blockCount where
  cache_new: "cache_reachable blockCount \<lparr>mc_blocks = []\<rparr> []"
| cache_allocate: "cache_reachable blockCount c used \<Longrightarrow> fresh \<notin> set (mc_blocks c) \<Longrightarrow> fresh \<notin> set used \<Longrightarrow>
    mc_allocate fresh c = (b, c') \<Longrightarrow> cache_reachable blockCount c' (b # used)"
| cache_free: "cache_reachable blockCount c used \<Longrightarrow> b \<in> set used \<Longrightarrow> mc_free blockCount b c = (released, c') \<Longrightarrow>
    cache_reachable blockCount c' (remove1 b used)"

lemma cache_blocks_exclusive:
  assumes "cache_reachable blockCount c used"
  shows "distinct (mc_blocks c @ used) \<and> length (mc_blocks c) \<le> blockCount"
  using assms
proof (induction rule: cache_reachable.induct)
  case (cache_allocate c used fresh b c')
  show ?case
  proof (cases "mc_blocks c = []")
    case False
    then have "mc_blocks c = butlast (mc_blocks c) @ [last (mc_blocks c)]" by simp
    then obtain xs x where c: "mc_blocks c = xs @ [x]" by blast
    with cache_allocate show ?thesis by (auto simp: mc_allocate_def)
  qed (use cache_allocate in \<open>auto simp: mc_allocate_def\<close>)
next
  case (cache_free c used b released c')
  then show ?case by (auto simp: mc_free_def split: if_splits)
qed simp

end
