(* ===== verification/Sockets.thy ===== *)
theory Sockets
  imports Message_IO Connect_Address
begin

text \<open>
  Sockets as transports (\<^verbatim>\<open>transport/localsocket.cpp\<close>, \<^verbatim>\<open>transport/ipsocket.cpp\<close>,
  \<^verbatim>\<open>transport/ipresolver.cpp\<close>, \<^verbatim>\<open>ITransport::close\<close>), and messages that are sent and received over them.
  The operating system is a parameter: the list of the results of the system calls, in their order.
\<close>

subsection \<open>System calls\<close>

text \<open>A call returns a value, or fails with EINTR, with EAGAIN or EWOULDBLOCK, or with another error.\<close>

datatype 'a syscall = Returns 'a | Interrupted | TryAgain | Fails

text \<open>
  \<open>so_watched\<close>: \<^verbatim>\<open>ioEventSource()\<close> is set.  \<open>so_osClosed\<close>: the descriptors given to \<^verbatim>\<open>::close\<close>.  \<open>so_fault\<close>: the
  system call broke its contract and returned more than was asked for.
\<close>

record socket =
  so_fd :: int
  so_supportedUnixFdsCount :: nat
  so_watched :: bool
  so_osClosed :: "int list"
  so_fault :: bool

definition new_socket :: "int \<Rightarrow> nat \<Rightarrow> socket" where
  "new_socket fd fdsCount = \<lparr>so_fd = fd, so_supportedUnixFdsCount = fdsCount, so_watched = False, so_osClosed = [],
     so_fault = False\<rparr>"

definition isValidFileDescriptor :: "int \<Rightarrow> bool" where
  "isValidFileDescriptor fd = (0 \<le> fd)"

definition platformClose :: "socket \<Rightarrow> socket" where
  "platformClose s = (if 0 \<le> so_fd s then s\<lparr>so_osClosed := so_osClosed s @ [so_fd s], so_fd := - 1\<rparr> else s)"

definition local_isOpen :: "socket \<Rightarrow> bool" where
  "local_isOpen s = (so_fd s \<noteq> - 1)"

definition ip_isOpen :: "socket \<Rightarrow> bool" where
  "ip_isOpen s = isValidFileDescriptor (so_fd s)"

definition transport_close :: "(socket \<Rightarrow> bool) \<Rightarrow> socket \<Rightarrow> socket" where
  "transport_close isOpen s =
     (if \<not> isOpen s then s
      else platformClose (if so_watched s then s\<lparr>so_watched := False\<rparr> else s))"

subsection \<open>Opening\<close>

definition MaxFds :: nat where "MaxFds = 16"

text \<open>
  \<open>fd\<close> is the result of \<^verbatim>\<open>socket\<close>, \<open>connected\<close> whether \<^verbatim>\<open>connect\<close> succeeds, \<open>sunPathSize\<close> the size of
  \<^verbatim>\<open>sockaddr_un::sun_path\<close>.
\<close>

definition LocalSocket :: "nat \<Rightarrow> int \<Rightarrow> bool \<Rightarrow> string \<Rightarrow> socket" where
  "LocalSocket sunPathSize fd connected socketFilePath =
     (let s = new_socket (- 1) MaxFds in
      if fd < 0 then s
      else (let ok = (length socketFilePath + 1 \<le> sunPathSize); ok2 = (ok \<and> connected)
            in if ok2 then s\<lparr>so_fd := fd\<rparr> else s\<lparr>so_osClosed := [fd]\<rparr>))"

definition LocalSocket_fd :: "int \<Rightarrow> socket" where
  "LocalSocket_fd fd = new_socket fd 0"

definition resolved_hostname :: "connect_address \<Rightarrow> string" where
  "resolved_hostname ca =
     (if ca_hostname ca = [] \<or> ca_hostname ca = ''localhost'' then ''127.0.0.1'' else ca_hostname ca)"

text \<open>
  \<open>inet_aton\<close> gives the address of a numeric host name.  The result: address and port in host byte order.
\<close>

definition IpResolver :: "(string \<Rightarrow> 'addr option) \<Rightarrow> connect_address \<Rightarrow> ('addr \<times> nat) option" where
  "IpResolver inet_aton ca =
     map_option (\<lambda>a. (a, nat (ca_port ca mod 65536))) (inet_aton (resolved_hostname ca))"

text \<open>\<open>connected\<close>: the result of \<^verbatim>\<open>connect\<close> for an address; \<open>flags\<close>: \<^verbatim>\<open>F_GETFL\<close> succeeds.\<close>

definition setNonBlocking :: "bool \<Rightarrow> bool" where
  "setNonBlocking flags = (if \<not> flags then False else True)"

definition IpSocket ::
  "(string \<Rightarrow> 'addr option) \<Rightarrow> int \<Rightarrow> ('addr \<times> nat \<Rightarrow> bool) \<Rightarrow> bool \<Rightarrow> connect_address \<Rightarrow> socket" where
  "IpSocket inet_aton fd connected flags ca =
     (let s = new_socket (- 1) 0 in
      if ca_addrType ca \<noteq> Tcp \<and> ca_addrType ca \<noteq> Tcp4 then s
      else if \<not> isValidFileDescriptor fd then s
      else (let ok = (case IpResolver inet_aton ca of None \<Rightarrow> False | Some a \<Rightarrow> connected a);
                ok2 = (ok \<and> setNonBlocking flags)
            in if ok2 then s\<lparr>so_fd := fd\<rparr> else s\<lparr>so_osClosed := [fd]\<rparr>))"

definition IpSocket_fd :: "bool \<Rightarrow> int \<Rightarrow> socket" where
  "IpSocket_fd flags fd =
     (let s = new_socket fd 0 in
      if \<not> setNonBlocking flags then s\<lparr>so_osClosed := [fd], so_fd := - 1\<rparr> else s)"

subsection \<open>Writing\<close>

text \<open>
  \<open>acc\<close> is what the system took: the bytes of each call with the file descriptors that went with them.  A result
  has the answer, the socket, \<open>acc\<close> and the system calls that remain; \<open>None\<close>: the list of calls is too short.
\<close>

type_synonym chunks = "(byte list \<times> int list) list"
type_synonym write_result = "write_answer \<times> socket \<times> chunks \<times> nat syscall list"

fun sendLoop ::
  "(socket \<Rightarrow> bool) \<Rightarrow> io_status \<Rightarrow> nat \<Rightarrow> nat syscall list \<Rightarrow> byte list \<Rightarrow> socket \<Rightarrow> chunks \<Rightarrow> write_result option" where
  "sendLoop isOpen onError initialLength calls data s acc =
     (if data = [] then Some (\<lparr>wa_status = IO_OK, wa_length = initialLength - length data\<rparr>, s, acc, calls)
      else case calls of
        [] \<Rightarrow> None
      | Interrupted # rest \<Rightarrow> sendLoop isOpen onError initialLength rest data s acc
      | TryAgain # rest \<Rightarrow> Some (\<lparr>wa_status = IO_OK, wa_length = initialLength - length data\<rparr>, s, acc, rest)
      | Fails # rest \<Rightarrow> Some (\<lparr>wa_status = onError, wa_length = 0\<rparr>, transport_close isOpen s, acc, rest)
      | Returns nbytes # rest \<Rightarrow>
          if nbytes = 0 then Some (\<lparr>wa_status = IO_OK, wa_length = initialLength - length data\<rparr>, s, acc, rest)
          else if length data < nbytes then Some (\<lparr>wa_status = IO_OK, wa_length = 0\<rparr>, s\<lparr>so_fault := True\<rparr>, acc, rest)
          else sendLoop isOpen onError initialLength rest (drop nbytes data) s (acc @ [(take nbytes data, [])]))"

declare sendLoop.simps [simp del]

definition local_write :: "nat syscall list \<Rightarrow> byte list \<Rightarrow> socket \<Rightarrow> write_result option" where
  "local_write calls data s =
     (if data = [] then Some (\<lparr>wa_status = IO_OK, wa_length = 0\<rparr>, s, [], calls)
      else if so_fd s < 0 then Some (\<lparr>wa_status = InternalError, wa_length = 0\<rparr>, s, [], calls)
      else sendLoop local_isOpen RemoteClosed (length data) calls data s [])"

definition ip_write :: "nat syscall list \<Rightarrow> byte list \<Rightarrow> socket \<Rightarrow> write_result option" where
  "ip_write calls data s =
     (if \<not> isValidFileDescriptor (so_fd s) then Some (\<lparr>wa_status = InternalError, wa_length = 0\<rparr>, s, [], calls)
      else sendLoop ip_isOpen InternalError (length data) calls data s [])"

text \<open>
  \<^verbatim>\<open>sendmsg\<close> with a control message until the first success.  On an error the length is what was written before.
\<close>

fun sendmsgLoop ::
  "nat \<Rightarrow> int list \<Rightarrow> nat syscall list \<Rightarrow> byte list \<Rightarrow> socket \<Rightarrow> chunks \<Rightarrow> write_result option" where
  "sendmsgLoop initialLength control calls data s acc =
     (if data = [] then Some (\<lparr>wa_status = IO_OK, wa_length = initialLength - length data\<rparr>, s, acc, calls)
      else case calls of
        [] \<Rightarrow> None
      | Interrupted # rest \<Rightarrow> sendmsgLoop initialLength control rest data s acc
      | TryAgain # rest \<Rightarrow> Some (\<lparr>wa_status = IO_OK, wa_length = initialLength - length data\<rparr>, s, acc, rest)
      | Fails # rest \<Rightarrow>
          Some (\<lparr>wa_status = RemoteClosed, wa_length = initialLength - length data\<rparr>, transport_close local_isOpen s,
            acc, rest)
      | Returns nbytes # rest \<Rightarrow>
          if nbytes = 0 then Some (\<lparr>wa_status = IO_OK, wa_length = initialLength - length data\<rparr>, s, acc, rest)
          else if length data < nbytes then Some (\<lparr>wa_status = IO_OK, wa_length = 0\<rparr>, s\<lparr>so_fault := True\<rparr>, acc, rest)
          else sendmsgLoop initialLength [] rest (drop nbytes data) s (acc @ [(take nbytes data, control)]))"

declare sendmsgLoop.simps [simp del]

definition local_writeWithFileDescriptors ::
  "int list \<Rightarrow> nat syscall list \<Rightarrow> byte list \<Rightarrow> socket \<Rightarrow> write_result option" where
  "local_writeWithFileDescriptors fileDescriptors calls data s =
     (if data = [] then Some (\<lparr>wa_status = IO_OK, wa_length = 0\<rparr>, s, [], calls)
      else if so_fd s < 0 then Some (\<lparr>wa_status = InternalError, wa_length = 0\<rparr>, s, [], calls)
      else if MaxFds < length fileDescriptors then
        Some (\<lparr>wa_status = InternalError, wa_length = 0\<rparr>, transport_close local_isOpen s, [], calls)
      else sendmsgLoop (length data) fileDescriptors calls data s [])"

text \<open>The fallback of \<^verbatim>\<open>ITransport\<close>, which an IP socket has.\<close>

definition ip_writeWithFileDescriptors ::
  "int list \<Rightarrow> nat syscall list \<Rightarrow> byte list \<Rightarrow> socket \<Rightarrow> write_result option" where
  "ip_writeWithFileDescriptors fileDescriptors calls data s =
     Some (\<lparr>wa_status = LocalClosed, wa_length = 0\<rparr>, s, [], calls)"

subsection \<open>Reading\<close>

text \<open>
  A successful call gives the bytes, none at an orderly shutdown, and the file descriptors of its control message.
  The answer is the one that \<^verbatim>\<open>Message\<close> sees, with \<^verbatim>\<open>isOpen()\<close> after the call.
\<close>

type_synonym recv = "(byte list \<times> int list) syscall"
type_synonym read_result = "read_answer \<times> socket \<times> recv list"

definition read_result :: "(socket \<Rightarrow> bool) \<Rightarrow> io_status \<Rightarrow> byte list \<Rightarrow> int list \<Rightarrow> socket \<Rightarrow> recv list \<Rightarrow> read_result" where
  "read_result isOpen status got fds s rest =
     (\<lparr>ra_status = status, ra_bytes = got, ra_fds = fds, ra_isOpen = isOpen s\<rparr>, s, rest)"

text \<open>\<open>control\<close>: there is a buffer for a control message.\<close>

fun recvLoop ::
  "(socket \<Rightarrow> bool) \<Rightarrow> nat \<Rightarrow> bool \<Rightarrow> recv list \<Rightarrow> byte list \<Rightarrow> int list \<Rightarrow> socket \<Rightarrow> read_result option" where
  "recvLoop isOpen maxSize control calls got fds s =
     (if maxSize \<le> length got then Some (read_result isOpen IO_OK got fds s calls)
      else case calls of
        [] \<Rightarrow> None
      | Interrupted # rest \<Rightarrow> recvLoop isOpen maxSize control rest got fds s
      | TryAgain # rest \<Rightarrow> Some (read_result isOpen IO_OK got fds s rest)
      | Fails # rest \<Rightarrow> Some (read_result isOpen RemoteClosed got fds (transport_close isOpen s) rest)
      | Returns (bs, cfds) # rest \<Rightarrow>
          if bs = [] then Some (read_result isOpen RemoteClosed got fds (transport_close isOpen s) rest)
          else if maxSize < length got + length bs then
            Some (read_result isOpen IO_OK got fds (s\<lparr>so_fault := True\<rparr>) rest)
          else recvLoop isOpen maxSize False rest (got @ bs) (if control then fds @ cfds else fds) s)"

declare recvLoop.simps [simp del]

definition local_read :: "nat \<Rightarrow> recv list \<Rightarrow> socket \<Rightarrow> read_result option" where
  "local_read maxSize calls s =
     (if maxSize = 0 then Some (read_result local_isOpen IO_OK [] [] s calls)
      else if so_fd s < 0 then Some (read_result local_isOpen InternalError [] [] s calls)
      else recvLoop local_isOpen maxSize False calls [] [] s)"

definition local_readWithFileDescriptors :: "nat \<Rightarrow> recv list \<Rightarrow> socket \<Rightarrow> read_result option" where
  "local_readWithFileDescriptors maxSize calls s =
     (if maxSize = 0 then Some (read_result local_isOpen IO_OK [] [] s calls)
      else if so_fd s < 0 then Some (read_result local_isOpen InternalError [] [] s calls)
      else recvLoop local_isOpen maxSize True calls [] [] s)"

definition ip_read :: "nat \<Rightarrow> recv list \<Rightarrow> socket \<Rightarrow> read_result option" where
  "ip_read maxSize calls s =
     (if maxSize = 0 then Some (read_result ip_isOpen InternalError [] [] s calls)
      else recvLoop ip_isOpen maxSize False calls [] [] s)"


definition ip_readWithFileDescriptors :: "nat \<Rightarrow> recv list \<Rightarrow> socket \<Rightarrow> read_result option" where
  "ip_readWithFileDescriptors maxSize calls s = ip_read maxSize calls s"

subsection \<open>The contract of writing\<close>

definition taken_bytes :: "chunks \<Rightarrow> byte list" where
  "taken_bytes chunks = concat (map fst chunks)"

lemma taken_bytes_simps [simp]:
  "taken_bytes [] = []" "taken_bytes (c # cs) = fst c @ taken_bytes cs"
  "taken_bytes (xs @ ys) = taken_bytes xs @ taken_bytes ys"
  by (simp_all add: taken_bytes_def)

text \<open>The file descriptors go with the first bytes and with no others.\<close>

definition fds_first :: "int list \<Rightarrow> chunks \<Rightarrow> bool" where
  "fds_first fds chunks \<longleftrightarrow>
     chunks = [] \<or> fst (hd chunks) \<noteq> [] \<and> snd (hd chunks) = fds \<and> (\<forall>c \<in> set (tl chunks). snd c = [])"

lemma fds_first_append:
  "fds_first fds xs \<Longrightarrow> fds_first [] ys \<Longrightarrow> taken_bytes xs \<noteq> [] \<Longrightarrow> fds_first fds (xs @ ys)"
  by (cases xs; cases ys) (auto simp: fds_first_def)

text \<open>
  What a client may rely on: the system gets a beginning of the data, in order; the answer tells its length unless it
  is an error; the file descriptors go along once.
\<close>

locale byte_writer =
  fixes put :: "nat syscall list \<Rightarrow> byte list \<Rightarrow> socket \<Rightarrow> write_result option" and fds :: "int list"
  assumes took: "put calls data s = Some (a, s', acc, rest) \<Longrightarrow> taken_bytes acc = take (length (taken_bytes acc)) data"
    and told: "put calls data s = Some (a, s', acc, rest) \<Longrightarrow> wa_status a = IO_OK \<Longrightarrow> \<not> so_fault s' \<Longrightarrow>
      wa_length a = length (taken_bytes acc)"
    and once: "put calls data s = Some (a, s', acc, rest) \<Longrightarrow> fds_first fds acc"
    and fault_kept: "put calls data s = Some (a, s', acc, rest) \<Longrightarrow> so_fault s \<Longrightarrow> so_fault s'"

lemma transport_close_fault [simp]: "so_fault (transport_close isOpen s) = so_fault s"
  by (simp add: transport_close_def platformClose_def)

lemma sendLoop_took:
  assumes "sendLoop isOpen onError n calls data s acc = Some (a, s', acc', rest)" and "length data \<le> n"
    and "onError \<noteq> IO_OK"
  shows "\<exists>new. acc' = acc @ new \<and> taken_bytes new = take (length (taken_bytes new)) data \<and>
    (wa_status a = IO_OK \<and> \<not> so_fault s' \<longrightarrow> wa_length a = n - length data + length (taken_bytes new)) \<and>
    fds_first [] new \<and> (so_fault s \<longrightarrow> so_fault s')"
  using assms
proof (induction isOpen onError n calls data s acc rule: sendLoop.induct)
  case (1 isOpen onError n calls data s acc)
  show ?case
  proof (cases "data = []")
    case True
    with 1(3) show ?thesis by (auto simp: sendLoop.simps [of _ _ _ _ "[]"] fds_first_def)
  next
    case data: False
    show ?thesis
    proof (cases calls)
      case Nil
      with 1(3) data show ?thesis by (simp add: sendLoop.simps [of _ _ _ "[]"])
    next
      case (Cons c rest1)
      show ?thesis
      proof (cases c)
        case (Returns k)
        consider "k = 0" | "length data < k" | "0 < k" "k \<le> length data" by linarith
        then show ?thesis
        proof cases
          case 3
          with 1(3) data Cons Returns have rec: "sendLoop isOpen onError n rest1 (drop k data) s (acc @ [(take k data, [])])
              = Some (a, s', acc', rest)"
            by (simp add: sendLoop.simps [of _ _ _ "_ # _"])
          have side: "k \<noteq> 0" "\<not> length data < k" "length (drop k data) \<le> n" using 3 1(4) by auto
          from 1(1) [OF data Cons Returns side(1,2) rec side(3) 1(5)] obtain new where
            new: "acc' = (acc @ [(take k data, [])]) @ new" "taken_bytes new = take (length (taken_bytes new)) (drop k data)"
              "wa_status a = IO_OK \<and> \<not> so_fault s' \<longrightarrow>
                wa_length a = n - length (drop k data) + length (taken_bytes new)"
              "fds_first [] new" "so_fault s \<longrightarrow> so_fault s'" by blast
          have ne: "take k data \<noteq> []" using 3 by auto
          have eq: "take (k + length (taken_bytes new)) data = take k data @ taken_bytes new"
            using new(2) by (simp add: take_add)
          have "fds_first [] ((take k data, []) # new)"
            using new(4) ne by (cases new) (auto simp: fds_first_def)
          with new 3 1(4) eq show ?thesis
            by (intro exI [of _ "(take k data, []) # new"]) (auto simp: min_def)
        qed (use 1(3) data Cons Returns in \<open>auto simp: sendLoop.simps [of _ _ _ "_ # _"] fds_first_def\<close>)
      next
        case Interrupted
        with 1(3) data Cons have "sendLoop isOpen onError n rest1 data s acc = Some (a, s', acc', rest)"
          by (simp add: sendLoop.simps [of _ _ _ "_ # _"])
        from 1(2) [OF data Cons Interrupted this 1(4,5)] show ?thesis .
      qed (use 1(3,5) data Cons in \<open>auto simp: sendLoop.simps [of _ _ _ "_ # _"] fds_first_def\<close>)
    qed
  qed
qed

lemma sendmsgLoop_took:
  assumes "sendmsgLoop n control calls data s acc = Some (a, s', acc', rest)" and "length data \<le> n"
  shows "\<exists>new. acc' = acc @ new \<and> taken_bytes new = take (length (taken_bytes new)) data \<and>
    (wa_status a = IO_OK \<and> \<not> so_fault s' \<longrightarrow> wa_length a = n - length data + length (taken_bytes new)) \<and>
    fds_first control new \<and> (so_fault s \<longrightarrow> so_fault s')"
  using assms
proof (induction n control calls data s acc rule: sendmsgLoop.induct)
  case (1 n control calls data s acc)
  show ?case
  proof (cases "data = []")
    case True
    with 1(3) show ?thesis by (auto simp: sendmsgLoop.simps [of _ _ _ "[]"] fds_first_def)
  next
    case data: False
    show ?thesis
    proof (cases calls)
      case Nil
      with 1(3) data show ?thesis by (simp add: sendmsgLoop.simps [of _ _ "[]"])
    next
      case (Cons c rest1)
      show ?thesis
      proof (cases c)
        case (Returns k)
        consider "k = 0" | "length data < k" | "0 < k" "k \<le> length data" by linarith
        then show ?thesis
        proof cases
          case 3
          with 1(3) data Cons Returns have rec: "sendmsgLoop n [] rest1 (drop k data) s (acc @ [(take k data, control)])
              = Some (a, s', acc', rest)"
            by (simp add: sendmsgLoop.simps [of _ _ "_ # _"])
          have side: "k \<noteq> 0" "\<not> length data < k" "length (drop k data) \<le> n" using 3 1(4) by auto
          from 1(1) [OF data Cons Returns side(1,2) rec side(3)] obtain new where
            new: "acc' = (acc @ [(take k data, control)]) @ new"
              "taken_bytes new = take (length (taken_bytes new)) (drop k data)"
              "wa_status a = IO_OK \<and> \<not> so_fault s' \<longrightarrow>
                wa_length a = n - length (drop k data) + length (taken_bytes new)"
              "fds_first [] new" "so_fault s \<longrightarrow> so_fault s'" by blast
          have ne: "take k data \<noteq> []" using 3 by auto
          have eq: "take (k + length (taken_bytes new)) data = take k data @ taken_bytes new"
            using new(2) by (simp add: take_add)
          have "fds_first control ((take k data, control) # new)"
            using new(4) ne by (cases new) (auto simp: fds_first_def)
          with new 3 1(4) eq show ?thesis
            by (intro exI [of _ "(take k data, control) # new"]) (auto simp: min_def)
        qed (use 1(3) data Cons Returns in \<open>auto simp: sendmsgLoop.simps [of _ _ "_ # _"] fds_first_def\<close>)
      next
        case Interrupted
        with 1(3) data Cons have "sendmsgLoop n control rest1 data s acc = Some (a, s', acc', rest)"
          by (simp add: sendmsgLoop.simps [of _ _ "_ # _"])
        from 1(2) [OF data Cons Interrupted this 1(4)] show ?thesis .
      qed (use 1(3) data Cons in \<open>auto simp: sendmsgLoop.simps [of _ _ "_ # _"] fds_first_def\<close>)
    qed
  qed
qed


interpretation local_plain: byte_writer local_write "[]"
proof
  fix calls data s a s' acc rest
  assume w: "local_write calls data s = Some (a, s', acc, rest)"
  have "taken_bytes acc = take (length (taken_bytes acc)) data \<and>
    (wa_status a = IO_OK \<and> \<not> so_fault s' \<longrightarrow> wa_length a = length (taken_bytes acc)) \<and> fds_first [] acc \<and>
    (so_fault s \<longrightarrow> so_fault s')"
    using w sendLoop_took [of local_isOpen RemoteClosed "length data" calls data s "[]" a s' acc rest]
    by (auto simp: local_write_def fds_first_def split: if_splits)
  then show "taken_bytes acc = take (length (taken_bytes acc)) data" and "fds_first [] acc"
    and "wa_status a = IO_OK \<Longrightarrow> \<not> so_fault s' \<Longrightarrow> wa_length a = length (taken_bytes acc)"
    and "so_fault s \<Longrightarrow> so_fault s'" by blast+
qed

interpretation ip_plain: byte_writer ip_write "[]"
proof
  fix calls data s a s' acc rest
  assume w: "ip_write calls data s = Some (a, s', acc, rest)"
  have "taken_bytes acc = take (length (taken_bytes acc)) data \<and>
    (wa_status a = IO_OK \<and> \<not> so_fault s' \<longrightarrow> wa_length a = length (taken_bytes acc)) \<and> fds_first [] acc \<and>
    (so_fault s \<longrightarrow> so_fault s')"
    using w sendLoop_took [of ip_isOpen InternalError "length data" calls data s "[]" a s' acc rest]
    by (auto simp: ip_write_def fds_first_def split: if_splits)
  then show "taken_bytes acc = take (length (taken_bytes acc)) data" and "fds_first [] acc"
    and "wa_status a = IO_OK \<Longrightarrow> \<not> so_fault s' \<Longrightarrow> wa_length a = length (taken_bytes acc)"
    and "so_fault s \<Longrightarrow> so_fault s'" by blast+
qed

lemma local_writeWithFileDescriptors_writer: "byte_writer (local_writeWithFileDescriptors fds) fds"
proof
  fix calls data s a s' acc rest
  assume w: "local_writeWithFileDescriptors fds calls data s = Some (a, s', acc, rest)"
  have "taken_bytes acc = take (length (taken_bytes acc)) data \<and>
    (wa_status a = IO_OK \<and> \<not> so_fault s' \<longrightarrow> wa_length a = length (taken_bytes acc)) \<and> fds_first fds acc \<and>
    (so_fault s \<longrightarrow> so_fault s')"
    using w sendmsgLoop_took [of "length data" fds calls data s "[]" a s' acc rest]
    by (auto simp: local_writeWithFileDescriptors_def fds_first_def split: if_splits)
  then show "taken_bytes acc = take (length (taken_bytes acc)) data" and "fds_first fds acc"
    and "wa_status a = IO_OK \<Longrightarrow> \<not> so_fault s' \<Longrightarrow> wa_length a = length (taken_bytes acc)"
    and "so_fault s \<Longrightarrow> so_fault s'" by blast+
qed

interpretation local_fds: byte_writer "local_writeWithFileDescriptors fds" fds for fds
  by (rule local_writeWithFileDescriptors_writer)

interpretation ip_fds: byte_writer "ip_writeWithFileDescriptors fds" fds for fds
  by unfold_locales (auto simp: ip_writeWithFileDescriptors_def fds_first_def)

subsection \<open>The contract of reading\<close>

definition delivered :: "recv list \<Rightarrow> byte list" where
  "delivered calls = concat (map (\<lambda>c. case c of Returns (bs, _) \<Rightarrow> bs | _ \<Rightarrow> []) calls)"

lemma delivered_simps [simp]:
  "delivered [] = []" "delivered (Returns (bs, fds) # cs) = bs @ delivered cs" "delivered (Interrupted # cs) = delivered cs"
  "delivered (TryAgain # cs) = delivered cs" "delivered (Fails # cs) = delivered cs"
  by (simp_all add: delivered_def)

text \<open>At most \<^verbatim>\<open>maxSize\<close> bytes, and none of what the system delivers is lost or repeated.\<close>

locale byte_reader =
  fixes get :: "nat \<Rightarrow> recv list \<Rightarrow> socket \<Rightarrow> read_result option"
  assumes bounded: "get maxSize calls s = Some (a, s', rest) \<Longrightarrow> length (ra_bytes a) \<le> maxSize"
    and nothing_lost: "get maxSize calls s = Some (a, s', rest) \<Longrightarrow> \<not> so_fault s' \<Longrightarrow>
      delivered calls = ra_bytes a @ delivered rest"
    and fault_kept: "get maxSize calls s = Some (a, s', rest) \<Longrightarrow> so_fault s \<Longrightarrow> so_fault s'"

lemma recvLoop_got:
  assumes "recvLoop isOpen maxSize control calls got fds s = Some (a, s', rest)" and "length got \<le> maxSize"
  shows "length (ra_bytes a) \<le> maxSize \<and> (\<not> so_fault s' \<longrightarrow> got @ delivered calls = ra_bytes a @ delivered rest) \<and>
    (so_fault s \<longrightarrow> so_fault s')"
  using assms
proof (induction isOpen maxSize control calls got fds s rule: recvLoop.induct)
  case (1 isOpen maxSize control calls got fds s)
  show ?case
  proof (cases "maxSize \<le> length got")
    case True
    with 1(3,4) show ?thesis by (auto simp: recvLoop.simps [of _ _ _ calls] read_result_def)
  next
    case more: False
    show ?thesis
    proof (cases calls)
      case Nil
      with 1(3) more show ?thesis by (simp add: recvLoop.simps [of _ _ _ "[]"])
    next
      case (Cons c rest1)
      show ?thesis
      proof (cases c)
        case (Returns p)
        obtain bs cfds where p: "p = (bs, cfds)" by force
        consider "bs = []" | "bs \<noteq> []" "maxSize < length got + length bs"
          | "bs \<noteq> []" "length got + length bs \<le> maxSize" by linarith
        then show ?thesis
        proof cases
          case 3
          with 1(3) more Cons Returns p have rec: "recvLoop isOpen maxSize False rest1 (got @ bs)
              (if control then fds @ cfds else fds) s = Some (a, s', rest)"
            by (simp add: recvLoop.simps [of _ _ _ "_ # _"])
          from 1(1) [OF more Cons Returns p [symmetric] _ _ rec] 3 Cons Returns p show ?thesis by auto
        qed (use 1(3,4) more Cons Returns p in \<open>auto simp: recvLoop.simps [of _ _ _ "_ # _"] read_result_def\<close>)
      next
        case Interrupted
        with 1(3) more Cons have "recvLoop isOpen maxSize control rest1 got fds s = Some (a, s', rest)"
          by (simp add: recvLoop.simps [of _ _ _ "_ # _"])
        from 1(2) [OF more Cons Interrupted this 1(4)] Cons Interrupted show ?thesis by simp
      qed (use 1(3,4) more Cons in \<open>auto simp: recvLoop.simps [of _ _ _ "_ # _"] read_result_def\<close>)
    qed
  qed
qed

interpretation local_in: byte_reader local_read
proof
  fix maxSize calls s a s' rest
  assume w: "local_read maxSize calls s = Some (a, s', rest)"
  have "length (ra_bytes a) \<le> maxSize \<and> (\<not> so_fault s' \<longrightarrow> delivered calls = ra_bytes a @ delivered rest) \<and>
    (so_fault s \<longrightarrow> so_fault s')"
    using w recvLoop_got [of local_isOpen maxSize False calls "[]" "[]" s a s' rest]
    by (auto simp: local_read_def read_result_def split: if_splits)
  then show "length (ra_bytes a) \<le> maxSize" and "so_fault s \<Longrightarrow> so_fault s'"
    and "\<not> so_fault s' \<Longrightarrow> delivered calls = ra_bytes a @ delivered rest" by blast+
qed

interpretation local_fds_in: byte_reader local_readWithFileDescriptors
proof
  fix maxSize calls s a s' rest
  assume w: "local_readWithFileDescriptors maxSize calls s = Some (a, s', rest)"
  have "length (ra_bytes a) \<le> maxSize \<and> (\<not> so_fault s' \<longrightarrow> delivered calls = ra_bytes a @ delivered rest) \<and>
    (so_fault s \<longrightarrow> so_fault s')"
    using w recvLoop_got [of local_isOpen maxSize True calls "[]" "[]" s a s' rest]
    by (auto simp: local_readWithFileDescriptors_def read_result_def split: if_splits)
  then show "length (ra_bytes a) \<le> maxSize" and "so_fault s \<Longrightarrow> so_fault s'"
    and "\<not> so_fault s' \<Longrightarrow> delivered calls = ra_bytes a @ delivered rest" by blast+
qed

interpretation ip_in: byte_reader ip_read
proof
  fix maxSize calls s a s' rest
  assume w: "ip_read maxSize calls s = Some (a, s', rest)"
  have "length (ra_bytes a) \<le> maxSize \<and> (\<not> so_fault s' \<longrightarrow> delivered calls = ra_bytes a @ delivered rest) \<and>
    (so_fault s \<longrightarrow> so_fault s')"
    using w recvLoop_got [of ip_isOpen maxSize False calls "[]" "[]" s a s' rest]
    by (auto simp: ip_read_def read_result_def split: if_splits)
  then show "length (ra_bytes a) \<le> maxSize" and "so_fault s \<Longrightarrow> so_fault s'"
    and "\<not> so_fault s' \<Longrightarrow> delivered calls = ra_bytes a @ delivered rest" by blast+
qed

end
