(* ===== verification/Socket_Sending.thy ===== *)
theory Socket_Sending
  imports Sockets
begin

text \<open>
  Messages that are sent over a socket: the loop of \<^verbatim>\<open>MessagePrivate::handleTransportCanWrite\<close> with the writes of a
  socket in the place of given answers, and what the system gets from it.
\<close>

subsection \<open>Sending over a socket\<close>

text \<open>
  The writes of one call of \<^verbatim>\<open>handleTransportCanWrite\<close>: at the first position with \<open>first\<close>, then with \<open>put\<close>.  Only
  writes that make a system call are followed by another one.
\<close>

type_synonym writer_fun = "nat syscall list \<Rightarrow> byte list \<Rightarrow> socket \<Rightarrow> write_result option"

function messageWrites ::
  "writer_fun \<Rightarrow> writer_fun \<Rightarrow> nat \<Rightarrow> nat syscall list \<Rightarrow> byte list \<Rightarrow> socket \<Rightarrow> write_answer list \<times> chunks \<times> socket" where
  "messageWrites first put pos calls data s =
     (if data = [] then ([], [], s)
      else case (if pos = 0 then first else put) calls data s of
        None \<Rightarrow> ([], [], s)
      | Some (a, s1, acc, rest) \<Rightarrow>
          if wa_status a \<noteq> IO_OK \<or> length calls \<le> length rest then ([a], acc, s1)
          else (case messageWrites first put (pos + wa_length a) rest (drop (wa_length a) data) s1 of
                  (as, acc2, s2) \<Rightarrow> (a # as, acc @ acc2, s2)))"
  by pat_completeness auto
termination by (relation "measure (\<lambda>(first, put, pos, calls, data, s). length calls)") auto

declare messageWrites.simps [simp del]

locale message_writer =
  plain: byte_writer put "[]" + starting: byte_writer first fds for put first fds
begin

abbreviation writer_at :: "nat \<Rightarrow> writer_fun" where
  "writer_at pos \<equiv> if pos = 0 then first else put"

lemma writer_at_facts:
  assumes "writer_at pos calls data s = Some (a, s', acc, rest)"
  shows "taken_bytes acc = take (length (taken_bytes acc)) data" and "so_fault s \<Longrightarrow> so_fault s'"
    and "wa_status a = IO_OK \<Longrightarrow> \<not> so_fault s' \<Longrightarrow> wa_length a = length (taken_bytes acc)"
    and "fds_first (if pos = 0 then fds else []) acc"
  using assms plain.took plain.told plain.once plain.fault_kept starting.took starting.told starting.once
    starting.fault_kept by (auto split: if_splits)

lemma messageWrites_fault:
  "messageWrites first put pos calls data s = (as, acc, s') \<Longrightarrow> so_fault s \<Longrightarrow> so_fault s'"
proof (induction "length calls" arbitrary: pos calls data s s' as acc rule: less_induct)
  case less
  show ?case
  proof (cases "data = [] \<or> writer_at pos calls data s = None")
    case True
    with less(2,3) show ?thesis by (auto simp: messageWrites.simps [of first put pos calls] split: if_splits)
  next
    case False
    then obtain a s1 acc1 rest where data: "data \<noteq> []" and w: "writer_at pos calls data s = Some (a, s1, acc1, rest)"
      by auto
    have s1: "so_fault s1" by (rule writer_at_facts(2) [OF w less(3)])
    obtain as2 acc2 s2 where rec: "messageWrites first put (pos + wa_length a) rest (drop (wa_length a) data) s1
        = (as2, acc2, s2)" by (metis prod_cases3)
    show ?thesis
      using less(1) [OF _ rec s1] less(2) data w rec s1
      by (simp add: messageWrites.simps [of first put pos calls] split: if_splits)
  qed
qed

text \<open>Together with the loop of the message, which sees the answers.\<close>

lemma messageWrites_prefix:
  assumes "messageWrites first put pos calls data s = (as, acc, s')" and "\<not> so_fault s'"
    and "data = drop pos (m_buffer m)" and "m_bufferPos m = pos" and "pos \<le> length (m_buffer m)"
    and "length (m_buffer m) < 2 ^ 32" and "length (a_fileDescriptors (m_mainArguments m)) \<le> k"
    and "canWriteLoop k as m written = Some (m', status, ws)"
  shows "\<exists>rest. data = taken_bytes acc @ rest \<and> (status = IO_OK \<longrightarrow> rest = [])"
    and "fds_first (if pos = 0 then fds else []) acc"
proof -
  have "(\<exists>rest. data = taken_bytes acc @ rest \<and> (status = IO_OK \<longrightarrow> rest = [])) \<and>
      fds_first (if pos = 0 then fds else []) acc"
    using assms
  proof (induction "length calls" arbitrary: pos calls data s s' as acc m written rule: less_induct)
    case less
    note run = less(2)
    show ?case
    proof (cases "data = []")
      case True
      with run show ?thesis by (simp add: messageWrites.simps [of first put pos calls] fds_first_def)
    next
      case data: False
      show ?thesis
      proof (cases "writer_at pos calls data s")
        case None
        with run data have "as = []" "acc = []" by (simp_all add: messageWrites.simps [of first put pos calls])
        moreover have "canWriteLoop k [] m written = None"
          using data less(4,5,8) by (simp add: canWriteLoop.simps [of k "[]"] Let_def)
        ultimately show ?thesis using less(9) by simp
      next
        case (Some r)
        then obtain a s1 acc1 rest where w: "writer_at pos calls data s = Some (a, s1, acc1, rest)"
          by (cases r) auto
        note facts = writer_at_facts [OF w]
        have pre: "data = taken_bytes acc1 @ drop (length (taken_bytes acc1)) data"
          using facts(1) by (metis append_take_drop_id)
        show ?thesis
        proof (cases "wa_status a \<noteq> IO_OK \<or> length calls \<le> length rest")
          case True
          with run data w have eq: "as = [a]" "acc = acc1" "s1 = s'"
            by (auto simp: messageWrites.simps [of first put pos calls])
          have step: "canWriteLoop k [a] m written =
              (if wa_status a \<noteq> IO_OK then canWriteLoop k [a] m written
               else canWriteLoop k [] (m\<lparr>m_bufferPos := u32 (m_bufferPos m + wa_length a)\<rparr>)
                      (written @ [take (wa_length a) data]))"
            using data less(4,5,8) by (simp add: canWriteLoop.simps [of k "[a]"] Let_def)
          show ?thesis
          proof (cases "wa_status a = IO_OK")
            case ok: True
            have len: "wa_length a = length (taken_bytes acc1)" using facts(3) ok less(3) eq by simp
            have le: "length (taken_bytes acc1) \<le> length data" using pre by (metis le_add1 length_append)
            then have u: "u32 (m_bufferPos m + wa_length a) = pos + length (taken_bytes acc1)"
              using less(4-7) len by simp
            have "drop (pos + length (taken_bytes acc1)) (m_buffer m) = []"
              using less(9) eq step ok u len less(8)
              by (auto simp: canWriteLoop.simps [of k "[]"] Let_def split: if_splits)
            then have "drop (length (taken_bytes acc1)) data = []"
              using less(4) by (simp add: add.commute)
            with pre have "data = taken_bytes acc1 @ []" by metis
            then show ?thesis using eq facts(4) by blast
          next
            case bad: False
            then have "status \<noteq> IO_OK"
              using less(9) eq data less(4,5,8)
              by (auto simp: canWriteLoop.simps [of k "[a]"] Let_def split: if_splits)
            then show ?thesis using pre eq facts(4) by blast
          qed
        next
          case False
          define m1 where "m1 = m\<lparr>m_bufferPos := u32 (m_bufferPos m + wa_length a)\<rparr>"
          obtain as2 acc2 s2 where rec: "messageWrites first put (pos + wa_length a) rest (drop (wa_length a) data) s1
              = (as2, acc2, s2)" by (metis prod_cases3)
          with run data w False have eq: "as = a # as2" "acc = acc1 @ acc2" "s2 = s'"
            by (auto simp: messageWrites.simps [of first put pos calls])
          have nf: "\<not> so_fault s1" using messageWrites_fault [OF rec] less(3) eq by blast
          then have len: "wa_length a = length (taken_bytes acc1)" using facts(3) False by simp
          have le: "length (taken_bytes acc1) \<le> length data" using pre by (metis le_add1 length_append)
          then have u: "u32 (m_bufferPos m + wa_length a) = pos + wa_length a"
            and le2: "pos + wa_length a \<le> length (m_buffer m)"
            using less(4-7) len by simp_all
          have w2: "canWriteLoop k as2 m1 (written @ [take (wa_length a) data]) = Some (m', status, ws)"
            using less(9) eq data less(4,5,8) False
            by (simp add: canWriteLoop.simps [of k "a # as2"] Let_def m1_def split: if_splits)
          have "(\<exists>rest. drop (wa_length a) data = taken_bytes acc2 @ rest \<and> (status = IO_OK \<longrightarrow> rest = [])) \<and>
              fds_first (if pos + wa_length a = 0 then fds else []) acc2"
          proof (rule less(1) [OF _ rec _ _ _ _ _ _ w2])
            show "length rest < length calls" using False by simp
            show "\<not> so_fault s2" using less(3) eq by simp
            show "drop (wa_length a) data = drop (pos + wa_length a) (m_buffer m1)"
              using less(4) by (simp add: m1_def add.commute)
            show "m_bufferPos m1 = pos + wa_length a" using u by (simp add: m1_def)
            show "length (m_buffer m1) < 2 ^ 32" using less(7) by (simp add: m1_def)
            show "length (a_fileDescriptors (m_mainArguments m1)) \<le> k" using less(8) by (simp add: m1_def)
          qed (use le2 in \<open>simp add: m1_def\<close>)
          moreover have "fds_first (if pos = 0 then fds else []) (acc1 @ acc2)"
            if "fds_first (if pos + wa_length a = 0 then fds else []) acc2"
          proof (cases "taken_bytes acc1 = []")
            case True
            then have "acc1 = []" using facts(4) by (cases acc1) (auto simp: fds_first_def)
            with that len True show ?thesis by simp
          next
            case ne: False
            then have "0 < wa_length a" using len by simp
            with that have "fds_first [] acc2" by simp
            then show ?thesis using fds_first_append [OF facts(4) _ ne] by simp
          qed
          ultimately show ?thesis using pre eq len by (metis append.assoc taken_bytes_simps(3))
        qed
      qed
    qed
  qed
  then show "\<exists>rest. data = taken_bytes acc @ rest \<and> (status = IO_OK \<longrightarrow> rest = [])"
    and "fds_first (if pos = 0 then fds else []) acc" by blast+
qed

end

interpretation local_sending: message_writer local_write "local_writeWithFileDescriptors fds" fds for fds
  by unfold_locales

interpretation ip_sending: message_writer ip_write "ip_writeWithFileDescriptors fds" fds for fds
  by unfold_locales


text \<open>What the loop calls at the first position, where it may have file descriptors to pass.\<close>

definition local_firstWrite :: "int list \<Rightarrow> writer_fun" where
  "local_firstWrite fds = (if fds = [] then local_write else local_writeWithFileDescriptors fds)"

lemma local_firstWrite_writer: "byte_writer (local_firstWrite fds) fds"
  using local_plain.byte_writer_axioms local_writeWithFileDescriptors_writer
  by (cases "fds = []") (simp_all add: local_firstWrite_def)

interpretation local_message: message_writer local_write "local_firstWrite fds" fds for fds
  by (intro message_writer.intro local_plain.byte_writer_axioms local_firstWrite_writer)

text \<open>C4: A message that is sent over a local socket: whatever the system calls return, the system has taken a
  beginning of the serialized message, without a gap or a repetition, and all of it when sending completes; the file
  descriptors of the message went along with its first bytes, exactly once.\<close>

theorem message_on_the_wire:
  assumes "messageWrites (local_firstWrite fds) local_write 0 calls (m_buffer m) s = (answers, chunks, s')"
    and "handleTransportCanWrite (so_supportedUnixFdsCount s) answers m = Some (m', status, ws)"
    and "m_state m = Sending" and "m_bufferPos m = 0" and "length (m_buffer m) < 2 ^ 32"
    and "a_fileDescriptors (m_mainArguments m) = fds" and "length fds \<le> so_supportedUnixFdsCount s"
    and "\<not> so_fault s'"
  shows "(\<exists>rest. m_buffer m = taken_bytes chunks @ rest \<and> (status = IO_OK \<longrightarrow> rest = [])) \<and> fds_first fds chunks"
proof -
  have "canWriteLoop (so_supportedUnixFdsCount s) answers m [] = Some (m', status, ws)"
    using assms(2,3) by (simp add: handleTransportCanWrite_def)
  from local_message.messageWrites_prefix [OF assms(1,8) _ assms(4) _ assms(5) _ this] assms(6,7)
  show ?thesis by simp
qed

theorem message_on_the_wire_witness:
  "\<exists>answers chunks s' m' ws.
     messageWrites (local_firstWrite [7]) local_write 0 [Returns 2, TryAgain, Interrupted, Returns 1] [1, 2, 3]
       (LocalSocket 108 4 True ''/bus'') = (answers, chunks, s') \<and> fds_first [7] chunks \<and> [1, 2, 3] = taken_bytes chunks"
proof -
  let ?s = "LocalSocket 108 4 True ''/bus''"
  let ?calls = "[Returns 2, TryAgain, Interrupted, Returns 1]"
  let ?answers = "[\<lparr>wa_status = IO_OK, wa_length = 2\<rparr>, \<lparr>wa_status = IO_OK, wa_length = 1\<rparr>]"
  let ?m = "example_sending\<lparr>m_mainArguments := empty_arguments\<lparr>a_fileDescriptors := [7]\<rparr>\<rparr>"
  have run: "messageWrites (local_firstWrite [7]) local_write 0 ?calls (m_buffer ?m) ?s =
      (?answers, [([1, 2], [7]), ([3], [])], ?s)"
    by (simp add: example_sending_def) code_simp
  have "\<exists>m' ws. handleTransportCanWrite (so_supportedUnixFdsCount ?s) ?answers ?m = Some (m', IO_OK, ws)"
    by (simp add: handleTransportCanWrite_def example_sending_def Message_def canWriteLoop.simps Let_def
        empty_arguments_def LocalSocket_def new_socket_def MaxFds_def)
  then obtain m' ws where "handleTransportCanWrite (so_supportedUnixFdsCount ?s) ?answers ?m = Some (m', IO_OK, ws)"
    by blast
  from message_on_the_wire [OF run this]
  have "(\<exists>rest. m_buffer ?m = taken_bytes [([1, 2], [7]), ([3], [])] @ rest \<and> (IO_OK = IO_OK \<longrightarrow> rest = [])) \<and>
      fds_first [7] [([1, 2], [7]), ([3], [])]"
    by (simp add: example_sending_def Message_def LocalSocket_def new_socket_def MaxFds_def)
  with run show ?thesis by (simp add: example_sending_def)
qed

end
