(* ===== verification/Socket_Receiving.thy ===== *)
theory Socket_Receiving
  imports Socket_Sending
begin

text \<open>
  Messages that are received over a socket: the loop of \<^verbatim>\<open>MessagePrivate::handleTransportCanRead\<close> with the reads of a
  socket in the place of given answers, what it takes from the stream, and when it does not return.
\<close>

lemma receiveHeaders_keeps:
  assumes "receiveHeaders m = Some (ok, m1)"
  shows "m_buffer m1 = m_buffer m" and "m_bufferPos m1 = m_bufferPos m" and "m_state m1 = m_state m"
    and "0 < m_headerLength m \<or> m_bufferPos m < 16 \<Longrightarrow>
      m_headerLength m1 = m_headerLength m \<and> m_bodyLength m1 = m_bodyLength m"
    and "m_headerLength m = 0 \<Longrightarrow> 16 \<le> m_bufferPos m \<Longrightarrow> ok \<Longrightarrow>
      u32 (m_headerLength m1 + m_bodyLength m1) \<le> MaxMessageLength"
proof -
  have f: "m_buffer (snd (deserializeFixedHeaders m)) = m_buffer m \<and>
      m_bufferPos (snd (deserializeFixedHeaders m)) = m_bufferPos m \<and>
      m_state (snd (deserializeFixedHeaders m)) = m_state m \<and>
      (fst (deserializeFixedHeaders m) \<longrightarrow>
        u32 (m_headerLength (snd (deserializeFixedHeaders m)) + m_bodyLength (snd (deserializeFixedHeaders m)))
          \<le> MaxMessageLength)"
    by (simp add: deserializeFixedHeaders_def Let_def)
  have v: "m_buffer m2 = m_buffer m' \<and> m_bufferPos m2 = m_bufferPos m' \<and> m_state m2 = m_state m' \<and>
      m_headerLength m2 = m_headerLength m' \<and> m_bodyLength m2 = m_bodyLength m'"
    if "deserializeVariableHeaders m' = Some (ok2, m2)" for m' ok2 m2
    using that
    by (auto simp: deserializeVariableHeaders_def Let_def split: option.splits if_splits prod.splits)
  let ?p = "if m_headerLength m = 0 \<and> s_extendedFixedHeaderLength \<le> m_bufferPos m
    then deserializeFixedHeaders m else (True, m)"
  obtain ok1 m' where p: "?p = (ok1, m')" by force
  from assms p have "m1 = m' \<or> (\<exists>ok2. deserializeVariableHeaders m' = Some (ok2, m1))" and "\<not> ok1 \<longrightarrow> \<not> ok"
    by (auto simp: receiveHeaders_def split: if_splits option.splits prod.splits)
  then have same: "m_buffer m1 = m_buffer m' \<and> m_bufferPos m1 = m_bufferPos m' \<and> m_state m1 = m_state m' \<and>
      m_headerLength m1 = m_headerLength m' \<and> m_bodyLength m1 = m_bodyLength m'" and ok: "\<not> ok1 \<longrightarrow> \<not> ok"
    using v by blast+
  have p1: "deserializeFixedHeaders m = (ok1, m')" if "m_headerLength m = 0" "16 \<le> m_bufferPos m"
    using p that by (simp add: fixed_length_defs)
  have p2: "m' = m" if "0 < m_headerLength m \<or> m_bufferPos m < 16"
    using p that by (auto simp: fixed_length_defs split: if_splits)
  have "m_buffer m' = m_buffer m \<and> m_bufferPos m' = m_bufferPos m \<and> m_state m' = m_state m"
    using p1 p2 f by (metis gr0I not_le snd_conv)
  with same show "m_buffer m1 = m_buffer m" and "m_bufferPos m1 = m_bufferPos m" and "m_state m1 = m_state m"
    by simp_all
  show "0 < m_headerLength m \<or> m_bufferPos m < 16 \<Longrightarrow>
      m_headerLength m1 = m_headerLength m \<and> m_bodyLength m1 = m_bodyLength m"
    using same p2 by metis
  show "m_headerLength m = 0 \<Longrightarrow> 16 \<le> m_bufferPos m \<Longrightarrow> ok \<Longrightarrow>
      u32 (m_headerLength m1 + m_bodyLength m1) \<le> MaxMessageLength"
    using same p1 f ok by (metis fst_conv snd_conv)
qed


text \<open>\<open>got\<close> are the bytes of the message so far.\<close>

definition receiving_inv :: "message \<Rightarrow> byte list \<Rightarrow> bool" where
  "receiving_inv m got \<longleftrightarrow>
     m_state m = Receiving \<and>
     (m_buffer m = [] \<and> m_bufferPos m = 0 \<or> 256 \<le> length (m_buffer m)) \<and>
     m_bufferPos m \<le> length (m_buffer m) \<and> take (m_bufferPos m) (m_buffer m) = got \<and>
     (if m_headerLength m = 0 then m_bufferPos m \<le> 16
      else 16 \<le> m_headerLength m \<and> m_headerLength m + m_bodyLength m \<le> MaxMessageLength \<and>
           m_bufferPos m \<le> m_headerLength m + m_bodyLength m)"

text \<open>Lengths that do not wrap around.\<close>

definition sane_lengths :: "message \<Rightarrow> bool" where
  "sane_lengths m \<longleftrightarrow> 16 \<le> m_headerLength m \<and> m_headerLength m + m_bodyLength m < 2 ^ 32"

lemma reserve_for_read:
  assumes "receiving_inv m got"
  defines "m1 \<equiv> reserveBuffer (u32 (m_bufferPos m + readMax m)) m"
  shows "m_bufferPos m + readMax m \<le> length (m_buffer m1)" and "256 \<le> length (m_buffer m1)"
    and "take (m_bufferPos m) (m_buffer m1) = got" and "m1 = m\<lparr>m_buffer := m_buffer m1\<rparr>"
    and "m_bufferPos m + readMax m = (if m_headerLength m = 0 then 16 else m_headerLength m + m_bodyLength m)"
proof -
  let ?n = "m_bufferPos m + readMax m"
  show n: "?n = (if m_headerLength m = 0 then 16 else m_headerLength m + m_bodyLength m)"
    using assms(1)
    by (auto simp: receiving_inv_def readMax_def fixed_length_defs MaxMessageLength_def split: if_splits)
  then have le: "16 \<le> ?n" "?n \<le> 2 ^ 27" and u: "u32 ?n = ?n"
    using assms(1) by (auto simp: receiving_inv_def MaxMessageLength_def split: if_splits)
  have sizes: "?n \<le> length (m_buffer m1)"
    "m_buffer m = [] \<or> 256 < ?n \<longrightarrow> take (length (m_buffer m)) (m_buffer m1) = m_buffer m"
    using reserveBuffer_sizes [of ?n m] le(2) unfolding m1_def u by simp_all
  show "?n \<le> length (m_buffer m1)" by (rule sizes(1))
  show "m1 = m\<lparr>m_buffer := m_buffer m1\<rparr>" by (simp add: m1_def reserveBuffer_def Let_def)
  have same: "m1 = m" if "?n \<le> length (m_buffer m)" using that by (simp add: m1_def reserveBuffer_def u)
  have "m_buffer m = [] \<or> 256 < ?n \<or> ?n \<le> length (m_buffer m)"
    using assms(1) by (auto simp: receiving_inv_def)
  then have kept: "take (length (m_buffer m)) (m_buffer m1) = m_buffer m" using sizes(2) same by auto
  have "take (m_bufferPos m) (m_buffer m1) = take (m_bufferPos m) (take (length (m_buffer m)) (m_buffer m1))"
    using assms(1) by (simp add: receiving_inv_def min_def)
  also have "\<dots> = got" unfolding kept using assms(1) by (simp add: receiving_inv_def)
  finally show "take (m_bufferPos m) (m_buffer m1) = got" .
  show "256 \<le> length (m_buffer m1)"
  proof (cases "m_buffer m = []")
    case True
    then show ?thesis
    proof (cases "?n \<le> 256")
      case True
      with \<open>m_buffer m = []\<close> le show ?thesis by (simp add: m1_def reserveBuffer_def u) linarith
    qed (use sizes(1) in simp)
  next
    case False
    then have "256 \<le> length (m_buffer m)" using assms(1) by (auto simp: receiving_inv_def)
    moreover have "length (m_buffer m) \<le> length (m_buffer m1)"
      using kept by (metis length_take min.cobounded1 min.commute)
    ultimately show ?thesis by simp
  qed
qed

lemma acceptRead_stores:
  assumes "receiving_inv m got" and "length (ra_bytes a) \<le> readMax m"
  defines "m1 \<equiv> acceptRead (readMax m) a (reserveBuffer (u32 (m_bufferPos m + readMax m)) m)"
  shows "take (m_bufferPos m1) (m_buffer m1) = got @ ra_bytes a" and "256 \<le> length (m_buffer m1)"
    and "m_bufferPos m1 = m_bufferPos m + length (ra_bytes a)" and "m_bufferPos m1 \<le> length (m_buffer m1)"
    and "m_state m1 = Receiving" and "m_headerLength m1 = m_headerLength m" and "m_bodyLength m1 = m_bodyLength m"
proof -
  define m0 where "m0 = reserveBuffer (u32 (m_bufferPos m + readMax m)) m"
  note r = reserve_for_read [OF assms(1), folded m0_def]
  have m0: "m_bufferPos m0 = m_bufferPos m" "m_state m0 = m_state m" "m_headerLength m0 = m_headerLength m"
    "m_bodyLength m0 = m_bodyLength m"
    by (subst r(4); simp)+
  define m2 where "m2 = (if m_bufferPos m0 = 0 then setArgUnixFds (argUnixFds m0 @ ra_fds a) m0 else m0)"
  have m2: "m_buffer m2 = m_buffer m0" "m_bufferPos m2 = m_bufferPos m" "m_state m2 = m_state m"
    "m_headerLength m2 = m_headerLength m" "m_bodyLength m2 = m_bodyLength m"
    by (simp_all add: m2_def m0 setArgUnixFds_def)
  have fits: "m_bufferPos m + length (ra_bytes a) \<le> length (m_buffer m0)" using r(1) assms(2) by simp
  have small: "m_bufferPos m + length (ra_bytes a) < 4294967296"
    using r(5) assms(1,2) by (auto simp: receiving_inv_def MaxMessageLength_def split: if_splits)
  have m1: "m1 = m2\<lparr>m_buffer := overwrite (m_bufferPos m) (ra_bytes a) (m_buffer m0),
      m_bufferPos := m_bufferPos m + length (ra_bytes a)\<rparr>"
    using assms(2) fits small unfolding m1_def m0_def [symmetric] acceptRead_def Let_def m2_def [symmetric]
    by (simp add: m2 m0)
  show "m_bufferPos m1 = m_bufferPos m + length (ra_bytes a)" and "m_headerLength m1 = m_headerLength m"
    and "m_bodyLength m1 = m_bodyLength m" by (simp_all add: m1 m2)
  show "m_state m1 = Receiving" using assms(1) by (simp add: m1 m2 receiving_inv_def)
  show "256 \<le> length (m_buffer m1)" "m_bufferPos m1 \<le> length (m_buffer m1)"
    using r(2) fits by (simp_all add: m1)
  show "take (m_bufferPos m1) (m_buffer m1) = got @ ra_bytes a"
    using take_overwrite_all [OF add_leD1 [OF fits], of "ra_bytes a"] r(3) by (simp add: m1)
qed

lemma canReadStep_cases:
  assumes "receiving_inv m got" and "length (ra_bytes a) \<le> readMax m"
    and "canReadStep a m = Some (m1, ret, leave)"
  obtains (failed) "ret \<noteq> IO_OK" "leave"
  | (complete) "ret = IO_OK" "leave" "m_state m1 = Serialized"
      "sane_lengths m1 \<Longrightarrow> m_bufferPos m1 = m_headerLength m1 + m_bodyLength m1 \<and>
         take (m_bufferPos m1) (m_buffer m1) = got @ ra_bytes a"
      "0 < m_headerLength m \<Longrightarrow> m_headerLength m1 = m_headerLength m \<and> m_bodyLength m1 = m_bodyLength m"
  | (more) "ret = IO_OK" "m_state m1 = Receiving"
      "m_headerLength m1 = 0 \<or> sane_lengths m1 \<Longrightarrow> receiving_inv m1 (got @ ra_bytes a)"
      "0 < m_headerLength m \<Longrightarrow> m_headerLength m1 = m_headerLength m \<and> m_bodyLength m1 = m_bodyLength m"
proof -
  define n where "n = readMax m"
  define m0 where "m0 = reserveBuffer (u32 (m_bufferPos m + n)) m"
  define m2 where "m2 = acceptRead n a m0"
  note st = acceptRead_stores [OF assms(1,2), folded n_def, folded m0_def, folded m2_def]
  note r = reserve_for_read [OF assms(1), folded n_def, folded m0_def]
  have hd: "m_bufferPos m2 \<le> (if m_headerLength m = 0 then 16 else m_headerLength m + m_bodyLength m)"
    using r(5) st(3) assms(2) by (simp add: n_def)
  obtain ok m3 where h: "(if headersDone m0 then Some (True, m2) else receiveHeaders m2) = Some (ok, m3)"
    and res: "(m1, ret, leave) = (if \<not> ok then (m3\<lparr>m_error := MalformedReply\<rparr>, RemoteClosed, True)
          else if 0 < m_headerLength m3 \<and> u32 (m_headerLength m3 + m_bodyLength m3) \<le> m_bufferPos m3
          then (completeReceive m3, IO_OK, True)
          else if \<not> ra_isOpen a then (m3, RemoteClosed, True)
          else (m3, IO_OK, ra_status a \<noteq> IO_OK))"
    using assms(3) unfolding canReadStep_def Let_def n_def [symmetric] m0_def [symmetric] m2_def [symmetric]
    by (auto split: option.splits)
  have m3: "m_buffer m3 = m_buffer m2" "m_bufferPos m3 = m_bufferPos m2" "m_state m3 = m_state m2"
    using h receiveHeaders_keeps(1-3) [of m2 ok m3] by (auto split: if_splits)
  have m0h: "m_headerLength m0 = m_headerLength m" by (subst r(4); simp)
  have keep: "m_headerLength m3 = m_headerLength m \<and> m_bodyLength m3 = m_bodyLength m"
    if "0 < m_headerLength m \<or> m_bufferPos m2 < 16"
    using h receiveHeaders_keeps(4) [of m2 ok m3] that st(6,7) by (auto split: if_splits)
  have chk: "u32 (m_headerLength m3 + m_bodyLength m3) \<le> MaxMessageLength"
    if "m_headerLength m = 0" "16 \<le> m_bufferPos m2" ok
    using h receiveHeaders_keeps(5) [of m2 ok m3] that st(6) m0h by (auto simp: headersDone_def split: if_splits)
  have pos: "m_bufferPos m3 \<le> m_headerLength m3 + m_bodyLength m3"
    if "sane_lengths m3"
  proof (cases "m_headerLength m = 0")
    case True
    then have "m_bufferPos m3 \<le> 16" using hd m3(2) by simp
    with that show ?thesis by (simp add: sane_lengths_def)
  qed (use keep hd m3(2) in simp)
  have bound: "m_headerLength m3 + m_bodyLength m3 \<le> MaxMessageLength"
    if "sane_lengths m3" ok
  proof (cases "0 < m_headerLength m")
    case True
    with keep assms(1) show ?thesis by (auto simp: receiving_inv_def split: if_splits)
  next
    case False
    moreover have "16 \<le> m_bufferPos m2"
    proof (rule ccontr)
      assume "\<not> 16 \<le> m_bufferPos m2"
      with keep False that(1) show False by (simp add: sane_lengths_def)
    qed
    ultimately show ?thesis using chk that by (simp add: sane_lengths_def)
  qed
  consider "\<not> ok" | "ok" "0 < m_headerLength m3 \<and> u32 (m_headerLength m3 + m_bodyLength m3) \<le> m_bufferPos m3"
    | "ok" "\<not> (0 < m_headerLength m3 \<and> u32 (m_headerLength m3 + m_bodyLength m3) \<le> m_bufferPos m3)" "\<not> ra_isOpen a"
    | "ok" "\<not> (0 < m_headerLength m3 \<and> u32 (m_headerLength m3 + m_bodyLength m3) \<le> m_bufferPos m3)" "ra_isOpen a"
    by blast
  then show ?thesis
  proof cases
    case 1
    with res failed show ?thesis by simp
  next
    case 2
    with res have m1: "m1 = completeReceive m3" "ret = IO_OK" "leave" by simp_all
    have f: "m_state m1 = Serialized" "m_buffer m1 = m_buffer m3" "m_bufferPos m1 = m_bufferPos m3"
      "m_headerLength m1 = m_headerLength m3" "m_bodyLength m1 = m_bodyLength m3"
      by (simp_all add: m1 completeReceive_def Let_def notifyCompletionListener_def)
    show ?thesis
    proof (rule complete)
      assume "sane_lengths m1"
      then have s3: "sane_lengths m3" by (simp add: sane_lengths_def f)
      then have "m_headerLength m3 + m_bodyLength m3 \<le> m_bufferPos m3" using 2 by (simp add: sane_lengths_def)
      with pos [OF s3] have "m_bufferPos m1 = m_headerLength m1 + m_bodyLength m1" by (simp add: f)
      moreover have "take (m_bufferPos m1) (m_buffer m1) = got @ ra_bytes a" using st(1) by (simp add: f m3)
      ultimately show "m_bufferPos m1 = m_headerLength m1 + m_bodyLength m1 \<and>
        take (m_bufferPos m1) (m_buffer m1) = got @ ra_bytes a" ..
    qed (use m1 f keep in auto)
  next
    case 3
    with res failed show ?thesis by simp
  next
    case 4
    with res have m1: "m1 = m3" "ret = IO_OK" by simp_all
    show ?thesis
    proof (rule more)
      assume a: "m_headerLength m1 = 0 \<or> sane_lengths m1"
      have p0: "m_bufferPos m3 \<le> 16" if "m_headerLength m3 = 0"
      proof (cases "m_headerLength m = 0")
        case True
        then show ?thesis using hd m3(2) by simp
      qed (use keep that in simp)
      from a show "receiving_inv m1 (got @ ra_bytes a)"
        using st(1,2,4,5) m3 p0 pos bound \<open>ok\<close>
        by (auto simp: receiving_inv_def m1 sane_lengths_def)
    qed (use m1 m3 st(5) keep in auto)
  qed
qed


subsection \<open>Receiving over a socket\<close>

text \<open>
  One call of \<^verbatim>\<open>handleTransportCanRead\<close>; \<open>None\<close>: it does not return within the given system calls.  Where a read makes
  no system call and the loop goes on, it goes on for ever.
\<close>

type_synonym reader_fun = "nat \<Rightarrow> recv list \<Rightarrow> socket \<Rightarrow> read_result option"

function canReadSocket ::
  "reader_fun \<Rightarrow> reader_fun \<Rightarrow> recv list \<Rightarrow> socket \<Rightarrow> message \<Rightarrow> (message \<times> io_status \<times> socket \<times> recv list) option" where
  "canReadSocket first get calls s m =
     (case (if m_bufferPos m = 0 then first else get) (readMax m) calls s of
        None \<Rightarrow> None
      | Some (a, s1, rest) \<Rightarrow>
          (case canReadStep a m of
             None \<Rightarrow> None
           | Some (m1, ret, leave) \<Rightarrow>
               if leave then Some (m1, ret, s1, rest)
               else if length calls \<le> length rest then None
               else canReadSocket first get rest s1 m1))"
  by pat_completeness auto
termination by (relation "measure (\<lambda>(first, get, calls, s, m). length calls)") auto

declare canReadSocket.simps [simp del]

text \<open>It is the loop of \<open>Message_IO\<close> on the answers of the socket.\<close>

lemma canReadSocket_loop:
  "canReadSocket first get calls s m = Some (m', ret, s', rest) \<Longrightarrow> \<exists>answers. canReadLoop answers m = Some (m', ret)"
proof (induction first get calls s m rule: canReadSocket.induct)
  case (1 first get calls s m)
  obtain a s1 rest1 m1 ret1 leave where
    r: "(if m_bufferPos m = 0 then first else get) (readMax m) calls s = Some (a, s1, rest1)"
      "canReadStep a m = Some (m1, ret1, leave)"
    using 1(2) by (subst (asm) canReadSocket.simps) (auto split: option.splits)
  show ?case
  proof (cases leave)
    case True
    with 1(2) r have "m1 = m' \<and> ret1 = ret" by (subst (asm) canReadSocket.simps) auto
    with r True have "canReadLoop [a] m = Some (m', ret)" by simp
    then show ?thesis ..
  next
    case False
    with 1(2) r have rec: "\<not> length calls \<le> length rest1" "canReadSocket first get rest1 s1 m1 = Some (m', ret, s', rest)"
      by (subst (asm) canReadSocket.simps; auto split: if_splits)+
    from 1(1) [OF r(1) refl refl r(2) refl refl False rec] obtain answers where
      "canReadLoop answers m1 = Some (m', ret)" by blast
    with r False have "canReadLoop (a # answers) m = Some (m', ret)" by simp
    then show ?thesis ..
  qed
qed

lemma canReadStep_lengths:
  assumes "canReadStep a m = Some (m1, ret, leave)" and "0 < m_headerLength m"
  shows "m_headerLength m1 = m_headerLength m \<and> m_bodyLength m1 = m_bodyLength m"
proof -
  have r: "m_headerLength (reserveBuffer n m) = m_headerLength m" "m_bodyLength (reserveBuffer n m) = m_bodyLength m"
    for n by (simp_all add: reserveBuffer_def Let_def)
  have a: "m_headerLength (acceptRead n a m0) = m_headerLength m0" "m_bodyLength (acceptRead n a m0) = m_bodyLength m0"
    for n m0 by (simp_all add: acceptRead_def Let_def setArgUnixFds_def)
  have c: "m_headerLength (completeReceive m0) = m_headerLength m0" "m_bodyLength (completeReceive m0) = m_bodyLength m0"
    for m0 by (simp_all add: completeReceive_def Let_def notifyCompletionListener_def)
  from assms show ?thesis
    unfolding canReadStep_def Let_def
    using receiveHeaders_keeps(4)
    by (auto simp: r a c split: option.splits if_splits)
qed

lemma canReadSocket_lengths:
  "canReadSocket first get calls s m = Some (m', ret, s', rest) \<Longrightarrow> 0 < m_headerLength m \<Longrightarrow>
    m_headerLength m' = m_headerLength m \<and> m_bodyLength m' = m_bodyLength m"
proof -
  have "canReadLoop answers m = Some (m', ret) \<Longrightarrow> 0 < m_headerLength m \<Longrightarrow>
    m_headerLength m' = m_headerLength m \<and> m_bodyLength m' = m_bodyLength m" for answers
  proof (induction answers arbitrary: m)
    case (Cons a answers)
    then show ?case
      using canReadStep_lengths [of a m] by (fastforce split: option.splits if_splits)
  qed simp
  then show "canReadSocket first get calls s m = Some (m', ret, s', rest) \<Longrightarrow> 0 < m_headerLength m \<Longrightarrow>
    m_headerLength m' = m_headerLength m \<and> m_bodyLength m' = m_bodyLength m"
    using canReadSocket_loop by blast
qed

locale message_reader = plain: byte_reader get + starting: byte_reader first for get first
begin

lemma reader_at_facts:
  assumes "(if m_bufferPos m = 0 then first else get) n calls s = Some (a, s', rest)"
  shows "length (ra_bytes a) \<le> n" and "\<not> so_fault s' \<Longrightarrow> delivered calls = ra_bytes a @ delivered rest"
    and "so_fault s \<Longrightarrow> so_fault s'"
  using assms plain.bounded plain.nothing_lost plain.fault_kept starting.bounded starting.nothing_lost
    starting.fault_kept by (auto split: if_splits)

lemma canReadSocket_fault:
  "canReadSocket first get calls s m = Some (m', ret, s', rest) \<Longrightarrow> so_fault s \<Longrightarrow> so_fault s'"
proof (induction "length calls" arbitrary: calls s m rule: less_induct)
  case less
  obtain a s1 rest1 m1 ret1 leave where
    r: "(if m_bufferPos m = 0 then first else get) (readMax m) calls s = Some (a, s1, rest1)"
      "canReadStep a m = Some (m1, ret1, leave)"
    using less(2) by (subst (asm) canReadSocket.simps) (auto split: option.splits)
  have s1: "so_fault s1" by (rule reader_at_facts(3) [OF r(1) less(3)])
  show ?case
  proof (cases leave)
    case True
    with less(2) r s1 show ?thesis by (subst (asm) canReadSocket.simps) auto
  next
    case False
    with less(2) r have "length rest1 < length calls" "canReadSocket first get rest1 s1 m1 = Some (m', ret, s', rest)"
      by (subst (asm) canReadSocket.simps; auto split: if_splits)+
    with less(1) s1 show ?thesis by blast
  qed
qed

lemma canReadSocket_complete:
  assumes "canReadSocket first get calls s m = Some (m', ret, s', rest)" and "receiving_inv m got"
    and "\<not> so_fault s'" and "ret = IO_OK" and "m_state m' = Serialized" and "sane_lengths m'"
  shows "m_bufferPos m' = m_headerLength m' + m_bodyLength m' \<and>
    got @ delivered calls = take (m_headerLength m' + m_bodyLength m') (m_buffer m') @ delivered rest"
  using assms
proof (induction "length calls" arbitrary: calls s m got rule: less_induct)
  case less
  obtain a s1 rest1 m1 ret1 leave where
    r: "(if m_bufferPos m = 0 then first else get) (readMax m) calls s = Some (a, s1, rest1)"
      "canReadStep a m = Some (m1, ret1, leave)"
    using less(2) by (subst (asm) canReadSocket.simps) (auto split: option.splits)
  note facts = reader_at_facts [OF r(1)]
  show ?case
  proof (cases leave)
    case True
    with less(2) r have eq: "m1 = m'" "ret1 = ret" "s1 = s'" "rest1 = rest" by (subst (asm) canReadSocket.simps; auto)+
    from less(3) facts(1) r(2) show ?thesis
    proof (cases rule: canReadStep_cases)
      case complete
      have pos: "m_bufferPos m' = m_headerLength m' + m_bodyLength m'"
        and buf: "take (m_bufferPos m') (m_buffer m') = got @ ra_bytes a"
        using complete(4) less(7) unfolding eq by blast+
      have del: "delivered calls = ra_bytes a @ delivered rest" using facts(2) eq less(4) by simp
      show ?thesis unfolding del pos [symmetric] buf using pos by simp
    qed (use less(5,6) eq in auto)
  next
    case False
    with less(2) r have rec: "length rest1 < length calls" "canReadSocket first get rest1 s1 m1 = Some (m', ret, s', rest)"
      by (subst (asm) canReadSocket.simps; auto split: if_splits)+
    have nf: "\<not> so_fault s1" using canReadSocket_fault [OF rec(2)] less(4) by blast
    from less(3) facts(1) r(2) show ?thesis
    proof (cases rule: canReadStep_cases)
      case more
      have "m_headerLength m1 = 0 \<or> sane_lengths m1"
        using canReadSocket_lengths [OF rec(2)] less(7) by (auto simp: sane_lengths_def)
      with more have "receiving_inv m1 (got @ ra_bytes a)" by simp
      from less(1) [OF rec this less(4-7)] facts(2) [OF nf] show ?thesis by simp
    qed (use False in auto)
  qed
qed

end

interpretation local_receiving: message_reader local_read local_readWithFileDescriptors by unfold_locales
interpretation ip_receiving: message_reader ip_read ip_read by unfold_locales


lemma receive_inv: "receiving_inv (receive (Message junk)) []"
  by (simp add: receiving_inv_def receive_def Message_def inIoState_def)

text \<open>C3: A message that is received over a local socket takes its own bytes from the stream, no more and no less,
  whatever the sizes in which the system delivers them: what was there before and what was delivered is the content of
  the message's buffer, up to the end of the body, followed by what is left for the next message.\<close>

theorem receive_takes_exactly_message:
  assumes "canReadSocket local_readWithFileDescriptors local_read calls s m = Some (m', IO_OK, s', rest)"
    and "receiving_inv m got" and "\<not> so_fault s'" and "m_state m' = Serialized" and "sane_lengths m'"
  shows "got @ delivered calls = take (m_headerLength m' + m_bodyLength m') (m_buffer m') @ delivered rest \<and>
    m_bufferPos m' = m_headerLength m' + m_bodyLength m'"
  using local_receiving.canReadSocket_complete [OF assms(1-3) refl assms(4,5)] by blast

definition example_receiving :: message where
  "example_receiving = (receive (Message (\<lambda>_. 0)))
     \<lparr>m_buffer := replicate 256 0, m_bufferPos := 16, m_headerLength := 16, m_bodyLength := 2\<rparr>"

lemma example_receiving_run:
  "\<exists>m'. canReadSocket local_readWithFileDescriptors local_read
      [Interrupted, Returns ([1], []), TryAgain, Returns ([2], []), Returns ([9], [])] (LocalSocket_fd 4) example_receiving
      = Some (m', IO_OK, LocalSocket_fd 4, [Returns ([9], [])]) \<and> m_state m' = Serialized \<and> sane_lengths m'"
  by (simp add: canReadSocket.simps [of _ _ "_ # _"] example_receiving_def receive_def Message_def inIoState_def
      local_read_def LocalSocket_fd_def new_socket_def recvLoop.simps read_result_def readMax_def canReadStep_def Let_def
      reserveBuffer_def acceptRead_def headersDone_def completeReceive_def notifyCompletionListener_def sane_lengths_def
      local_isOpen_def setArgUnixFds_def)

theorem receive_takes_exactly_message_witness:
  "\<exists>m'. canReadSocket local_readWithFileDescriptors local_read
      [Interrupted, Returns ([1], []), TryAgain, Returns ([2], []), Returns ([9], [])] (LocalSocket_fd 4) example_receiving
      = Some (m', IO_OK, LocalSocket_fd 4, [Returns ([9], [])]) \<and> take 18 (m_buffer m') = replicate 16 0 @ [1, 2]"
proof -
  from example_receiving_run obtain m' where
    r: "canReadSocket local_readWithFileDescriptors local_read
      [Interrupted, Returns ([1], []), TryAgain, Returns ([2], []), Returns ([9], [])] (LocalSocket_fd 4) example_receiving
      = Some (m', IO_OK, LocalSocket_fd 4, [Returns ([9], [])])" "m_state m' = Serialized" "sane_lengths m'" by blast
  have inv: "receiving_inv example_receiving (replicate 16 0)"
    by (simp add: receiving_inv_def example_receiving_def receive_def Message_def inIoState_def MaxMessageLength_def)
  have nf: "\<not> so_fault (LocalSocket_fd 4)" by (simp add: LocalSocket_fd_def new_socket_def)
  have len: "m_headerLength m' = 16" "m_bodyLength m' = 2"
    using canReadSocket_lengths [OF r(1)]
    by (simp_all add: example_receiving_def receive_def Message_def inIoState_def)
  from receive_takes_exactly_message [OF r(1) inv nf r(2,3)]
  have "take 18 (m_buffer m') = replicate 16 0 @ [1, 2]" by (simp add: len)
  with r(1) show ?thesis by blast
qed

lemma unfinished_step:
  assumes "receiving_inv m got" and "m_bufferPos m < (if m_headerLength m = 0 then 16 else m_headerLength m + m_bodyLength m)"
  defines "a \<equiv> \<lparr>ra_status = IO_OK, ra_bytes = [], ra_fds = [], ra_isOpen = True\<rparr>"
  shows "\<exists>m1. canReadStep a m = Some (m1, IO_OK, False) \<and> receiving_inv m1 got \<and>
    m_bufferPos m1 < (if m_headerLength m1 = 0 then 16 else m_headerLength m1 + m_bodyLength m1)"
proof -
  define n where "n = readMax m"
  define m0 where "m0 = reserveBuffer (u32 (m_bufferPos m + n)) m"
  define m2 where "m2 = acceptRead n a m0"
  have "length (ra_bytes a) \<le> readMax m" by (simp add: a_def)
  note st = acceptRead_stores [OF assms(1) this, folded n_def, folded m0_def, folded m2_def]
  note r = reserve_for_read [OF assms(1), folded n_def, folded m0_def]
  have m0: "m_headerLength m0 = m_headerLength m" "m_bufferPos m0 = m_bufferPos m" by (subst r(4); simp)+
  have pos: "m_bufferPos m2 = m_bufferPos m" using st(3) by (simp add: a_def)
  have "(if headersDone m0 then Some (True, m2) else receiveHeaders m2) = Some (True, m2)"
    using assms(2) by (auto simp: receiveHeaders_def headersDone_def m0 st(6,7) pos fixed_length_defs)
  moreover have "\<not> (0 < m_headerLength m2 \<and> u32 (m_headerLength m2 + m_bodyLength m2) \<le> m_bufferPos m2)"
    using assms(1,2) by (auto simp: st(6,7) pos receiving_inv_def MaxMessageLength_def)
  ultimately have "canReadStep a m = Some (m2, IO_OK, False)"
    unfolding canReadStep_def Let_def n_def [symmetric] m0_def [symmetric] m2_def [symmetric] by (simp add: a_def)
  moreover have "receiving_inv m2 got"
    using st(1,2,4,5) assms(1) by (simp add: receiving_inv_def st(6,7) pos) (simp add: a_def)
  ultimately show ?thesis using assms(2) by (auto simp: st(6,7) pos split: if_splits)
qed

text \<open>C40: A peer that sends a message in part makes the receiver spin: while the system has no more bytes, the call of
  handleTransportCanRead does not return, and with it the event loop does not go on.\<close>

theorem half_message_spins:
  assumes "receiving_inv m got" and "m_bufferPos m < (if m_headerLength m = 0 then 16 else m_headerLength m + m_bodyLength m)"
    and "0 \<le> so_fd s"
  shows "canReadSocket local_readWithFileDescriptors local_read (replicate n TryAgain) s m = None"
  using assms(1,2)
proof (induction n arbitrary: m)
  case (Suc n)
  have "0 < readMax m" using reserve_for_read(5) [OF Suc.prems(1)] Suc.prems(2) by simp
  then have "(if m_bufferPos m = 0 then local_readWithFileDescriptors else local_read) (readMax m)
      (replicate (Suc n) TryAgain) s =
      Some (\<lparr>ra_status = IO_OK, ra_bytes = [], ra_fds = [], ra_isOpen = True\<rparr>, s, replicate n TryAgain)"
    using assms(3)
    by (simp add: local_readWithFileDescriptors_def local_read_def recvLoop.simps read_result_def local_isOpen_def)
  with unfinished_step [OF Suc.prems] Suc.IH show ?case
    by (subst canReadSocket.simps) auto
next
  case 0
  have "0 < readMax m" using reserve_for_read(5) [OF 0(1)] 0(2) by simp
  then show ?case
    using assms(3)
    by (subst canReadSocket.simps) (simp add: local_readWithFileDescriptors_def local_read_def recvLoop.simps)
qed

theorem half_message_spins_witness:
  "canReadSocket local_readWithFileDescriptors local_read (replicate 1000 TryAgain) (LocalSocket_fd 4) example_receiving = None"
  by (rule half_message_spins [of _ "replicate 16 0"])
    (simp_all add: receiving_inv_def example_receiving_def receive_def Message_def inIoState_def MaxMessageLength_def
      LocalSocket_fd_def new_socket_def)


subsection \<open>A length that wraps around\<close>

text \<open>The array of variable headers has \<open>2 ^ 32 - 16\<close> bytes.\<close>

definition hanging_header :: "byte list" where
  "hanging_header = [108, 1, 0, 1,  0, 0, 0, 0,  1, 0, 0, 0,  240, 255, 255, 255]"

lemma deserialize_hanging_header:
  assumes "take 16 (m_buffer m) = hanging_header"
  shows "\<exists>m1. deserializeFixedHeaders m = (True, m1) \<and> m_headerLength m1 = 0 \<and> m_buffer m1 = m_buffer m \<and>
    m_bufferPos m1 = m_bufferPos m \<and> m_state m1 = m_state m"
proof -
  let ?b = "m_buffer m"
  have len: "16 \<le> length ?b" using arg_cong [OF assms, of length] by (simp add: hanging_header_def)
  have nth: "?b ! i = hanging_header ! i" if "i < 16" for i
    using arg_cong [OF assms, of "\<lambda>l. l ! i"] that by simp
  have sl: "slice_at 4 4 ?b = [0, 0, 0, 0]" "slice_at 12 4 ?b = [240, 255, 255, 255]" "?b ! 0 = 108"
    using len by (auto simp: slice_at_def nth take_Suc_conv_app_nth numeral_eq_Suc hanging_header_def
        intro!: nth_equalityI simp: less_Suc_eq)
  have rd: "unat (readUint32 [0, 0, 0, 0] False) = 0" "unat (readUint32 [240, 255, 255, 255] False) = 4294967280"
    by (simp_all add: basic_read_eq unat_of_nat_u32 u32_def)
  have e: "s_thisMachineEndianness = 108" "byte_of (CHR ''l'') = 108" "byte_of (CHR ''B'') = 66"
    by (simp_all add: s_thisMachineEndianness_def byte_of_def)
  have u: "u32 (s_extendedFixedHeaderLength + 4294967280) = 0" "align 0 8 = 0"
    by (simp_all add: fixed_length_defs u32_def align_def align_word_def)
  show ?thesis
    using len unfolding deserializeFixedHeaders_def Let_def
    by (simp add: sl rd e u MaxMessageLength_def)
qed

definition hanging :: "message \<Rightarrow> bool" where
  "hanging m \<longleftrightarrow> m_headerLength m = 0 \<and> m_bufferPos m = 16 \<and> take 16 (m_buffer m) = hanging_header"

lemma hanging_receiveHeaders:
  assumes "m_headerLength m = 0" and "m_bufferPos m = 16" and "take 16 (m_buffer m) = hanging_header"
  shows "\<exists>m1. receiveHeaders m = Some (True, m1) \<and> hanging m1"
  using deserialize_hanging_header [OF assms(3)] assms
  by (auto simp: receiveHeaders_def headersDone_def fixed_length_defs hanging_def)

lemma hanging_step:
  assumes "hanging m"
  shows "\<exists>m1. canReadStep \<lparr>ra_status = IO_OK, ra_bytes = [], ra_fds = [], ra_isOpen = True\<rparr> m = Some (m1, IO_OK, False) \<and>
    hanging m1"
proof -
  have len: "16 \<le> length (m_buffer m)"
    using arg_cong [of _ _ length, OF conjunct2 [OF conjunct2 [OF assms [unfolded hanging_def]]]]
    by (simp add: hanging_header_def)
  have r: "readMax m = 0" and m0: "reserveBuffer (u32 (m_bufferPos m + 0)) m = m"
    using assms len by (simp_all add: hanging_def readMax_def fixed_length_defs reserveBuffer_def)
  have a: "acceptRead 0 \<lparr>ra_status = IO_OK, ra_bytes = [], ra_fds = [], ra_isOpen = True\<rparr> m = m"
    using assms len by (simp add: acceptRead_def hanging_def)
  from assms hanging_receiveHeaders [of m] obtain m1 where "receiveHeaders m = Some (True, m1)" "hanging m1"
    by (auto simp: hanging_def)
  moreover have "\<not> headersDone m" using assms by (simp add: headersDone_def hanging_def)
  ultimately show ?thesis
    unfolding canReadStep_def Let_def r m0 a by (simp add: hanging_def)
qed

lemma hanging_loop:
  "hanging m \<Longrightarrow>
    canReadLoop (replicate n \<lparr>ra_status = IO_OK, ra_bytes = [], ra_fds = [], ra_isOpen = True\<rparr>) m = None"
  by (induction n arbitrary: m) (use hanging_step in fastforce)+

text \<open>The length of the variable headers is added to 16 in 32 bits.  Sixteen bytes from the peer that make the sum
  wrap to zero leave the message without a header length; then every read asks for no bytes, a local socket grants
  that at once, and the receiving loop never ends, whatever else arrives.\<close>

theorem wrapped_header_length_hangs:
  "local_read 0 calls (LocalSocket_fd (int fd)) =
     Some (\<lparr>ra_status = IO_OK, ra_bytes = [], ra_fds = [], ra_isOpen = True\<rparr>, LocalSocket_fd (int fd), calls) \<and>
   handleTransportCanRead
     (\<lparr>ra_status = IO_OK, ra_bytes = hanging_header, ra_fds = [], ra_isOpen = True\<rparr> #
      replicate n \<lparr>ra_status = IO_OK, ra_bytes = [], ra_fds = [], ra_isOpen = True\<rparr>)
     (receive (Message junk)) = None"
proof -
  define a where "a = \<lparr>ra_status = IO_OK, ra_bytes = hanging_header, ra_fds = [], ra_isOpen = True\<rparr>"
  define m where "m = receive (Message junk)"
  have m: "m_state m = Receiving" "m_headerLength m = 0" "m_bufferPos m = 0" "m_buffer m = []"
    by (simp_all add: m_def receive_def Message_def inIoState_def)
  have inv: "receiving_inv m []" unfolding m_def by (rule receive_inv)
  have n: "readMax m = 16" by (simp add: readMax_def m fixed_length_defs)
  have len: "length (ra_bytes a) \<le> readMax m" by (simp add: n a_def hanging_header_def)
  define m0 where "m0 = reserveBuffer (u32 (m_bufferPos m + 16)) m"
  define m2 where "m2 = acceptRead 16 a m0"
  note st = acceptRead_stores [OF inv len, unfolded n, folded m0_def, folded m2_def]
  have pos: "m_bufferPos m2 = 16" using st(3) by (simp add: m a_def hanging_header_def)
  have "take 16 (m_buffer m2) = hanging_header" using st(1) unfolding pos by (simp add: a_def)
  then obtain m3 where h: "receiveHeaders m2 = Some (True, m3)" "hanging m3"
    using hanging_receiveHeaders [of m2] st(6) pos m(2) by auto
  have "\<not> headersDone m0" by (simp add: m0_def reserveBuffer_def Let_def headersDone_def m)
  then have step: "canReadStep a m = Some (m3, IO_OK, False)"
    using h unfolding canReadStep_def Let_def n m0_def [symmetric] m2_def [symmetric]
    by (simp add: hanging_def a_def)
  have "canReadLoop (a # replicate n \<lparr>ra_status = IO_OK, ra_bytes = [], ra_fds = [], ra_isOpen = True\<rparr>) m = None"
    using step hanging_loop [OF h(2)] by simp
  then have "handleTransportCanRead (a # replicate n \<lparr>ra_status = IO_OK, ra_bytes = [], ra_fds = [], ra_isOpen = True\<rparr>) m
      = None" using m(1) by (simp add: handleTransportCanRead_def)
  then show ?thesis
    unfolding a_def [symmetric] m_def [symmetric]
    by (simp add: local_read_def read_result_def local_isOpen_def LocalSocket_fd_def new_socket_def)
qed

end
