(* ===== verification/Servers.thy ===== *)
theory Servers
  imports Socket_Sending
begin

text \<open>
  Listening servers (\<^verbatim>\<open>transport/localserver.cpp\<close>, \<^verbatim>\<open>transport/ipserver.cpp\<close>, \<^verbatim>\<open>transport/iserver.cpp\<close>), their public
  face (\<^verbatim>\<open>connection/server.cpp\<close>), and the choice of a transport for an address (\<^verbatim>\<open>ITransport::create\<close>).  The results of
  system calls are arguments.
\<close>

subsection \<open>Listening sockets\<close>

datatype server_kind = LocalKind | IpKind

text \<open>\<open>sv_completions\<close>: the calls of the listener for new connections.  \<open>sv_unlinked\<close>: the files that were removed.\<close>

record listening =
  sv_kind :: server_kind
  sv_listenFd :: int
  sv_incomingConnections :: "socket list"
  sv_newConnectionListener :: bool
  sv_completions :: nat
  sv_watched :: bool
  sv_ioInterestRead :: bool
  sv_osClosed :: "int list"
  sv_unlinked :: "string list"

definition IServer :: "server_kind \<Rightarrow> listening" where
  "IServer kind = \<lparr>sv_kind = kind, sv_listenFd = - 1, sv_incomingConnections = [], sv_newConnectionListener = False,
     sv_completions = 0, sv_watched = False, sv_ioInterestRead = True, sv_osClosed = [], sv_unlinked = []\<rparr>"

text \<open>\<open>bound\<close> and \<open>listening\<close>: whether \<^verbatim>\<open>bind\<close> and \<^verbatim>\<open>listen\<close> succeed.\<close>

definition LocalServer :: "nat \<Rightarrow> int \<Rightarrow> bool \<Rightarrow> bool \<Rightarrow> string \<Rightarrow> listening" where
  "LocalServer sunPathSize fd bound listening socketFilePath =
     (let s = IServer LocalKind in
      if fd < 0 then s
      else (let ok = (length socketFilePath + 1 \<le> sunPathSize);
                s1 = (if socketFilePath \<noteq> [] \<and> socketFilePath ! 0 \<noteq> CHR 0x00
                      then s\<lparr>sv_unlinked := sv_unlinked s @ [socketFilePath]\<rparr> else s);
                ok2 = (ok \<and> bound); ok3 = (ok2 \<and> listening)
            in if ok3 then s1\<lparr>sv_listenFd := fd\<rparr> else s1\<lparr>sv_osClosed := [fd]\<rparr>))"

definition IpServer ::
  "(string \<Rightarrow> 'addr option) \<Rightarrow> int \<Rightarrow> ('addr \<times> nat \<Rightarrow> bool) \<Rightarrow> bool \<Rightarrow> connect_address \<Rightarrow> listening" where
  "IpServer inet_aton fd bound listening ca =
     (let s = IServer IpKind in
      if \<not> isValidFileDescriptor fd then s
      else (let ok = (case IpResolver inet_aton ca of None \<Rightarrow> False | Some a \<Rightarrow> bound a); ok2 = (ok \<and> listening)
            in if ok2 then s\<lparr>sv_listenFd := fd\<rparr> else s\<lparr>sv_osClosed := [fd]\<rparr>))"

definition server_isListening :: "listening \<Rightarrow> bool" where
  "server_isListening s = (0 \<le> sv_listenFd s)"

definition server_platformClose :: "listening \<Rightarrow> listening" where
  "server_platformClose s =
     (if 0 \<le> sv_listenFd s then s\<lparr>sv_osClosed := sv_osClosed s @ [sv_listenFd s], sv_listenFd := - 1\<rparr> else s)"

definition server_close :: "listening \<Rightarrow> listening" where
  "server_close s =
     (if \<not> server_isListening s then s
      else server_platformClose (if sv_watched s then s\<lparr>sv_watched := False\<rparr> else s))"

definition setNewConnectionListener :: "bool \<Rightarrow> listening \<Rightarrow> listening" where
  "setNewConnectionListener listener s = s\<lparr>sv_newConnectionListener := listener\<rparr>"

text \<open>A new client is queued and announced.\<close>

definition enqueueClient :: "socket \<Rightarrow> listening \<Rightarrow> listening" where
  "enqueueClient c s =
     (let s1 = s\<lparr>sv_incomingConnections := sv_incomingConnections s @ [c]\<rparr>
      in if sv_newConnectionListener s1 then s1\<lparr>sv_completions := sv_completions s1 + 1\<rparr> else s1)"

datatype rw = ReadReady | WriteReady

text \<open>\<open>calls\<close> are the results of \<^verbatim>\<open>accept\<close>; \<open>None\<close>: too few.\<close>

fun acceptLoop :: "int syscall list \<Rightarrow> (int option \<times> int syscall list) option" where
  "acceptLoop [] = None"
| "acceptLoop (c # rest) =
     (case c of
        Returns connFd \<Rightarrow> if 0 \<le> connFd then Some (Some connFd, rest) else Some (None, rest)
      | Interrupted \<Rightarrow> acceptLoop rest
      | TryAgain \<Rightarrow> Some (None, rest)
      | Fails \<Rightarrow> Some (None, rest))"

definition local_server_handleIoReady ::
  "rw \<Rightarrow> int syscall list \<Rightarrow> listening \<Rightarrow> (io_status \<times> listening \<times> int syscall list) option" where
  "local_server_handleIoReady rw calls s =
     (if rw \<noteq> ReadReady then Some (InternalError, s, calls)
      else if sv_listenFd s < 0 then Some (LocalClosed, s, calls)
      else (case acceptLoop calls of
              None \<Rightarrow> None
            | Some (None, rest) \<Rightarrow> Some (IO_OK, s, rest)
            | Some (Some connFd, rest) \<Rightarrow> Some (IO_OK, enqueueClient (LocalSocket_fd connFd) s, rest)))"

text \<open>\<open>flags\<close>: \<^verbatim>\<open>F_GETFL\<close> succeeds on the new descriptor.\<close>

definition ip_server_handleIoReady ::
  "rw \<Rightarrow> bool \<Rightarrow> int syscall list \<Rightarrow> listening \<Rightarrow> (io_status \<times> listening \<times> int syscall list) option" where
  "ip_server_handleIoReady rw flags calls s =
     (if rw \<noteq> ReadReady then Some (InternalError, s, calls)
      else (case calls of
              [] \<Rightarrow> None
            | Returns connFd # rest \<Rightarrow>
                if isValidFileDescriptor connFd then Some (IO_OK, enqueueClient (IpSocket_fd flags connFd) s, rest)
                else Some (RemoteClosed, s, rest)
            | _ # rest \<Rightarrow> Some (RemoteClosed, s, rest)))"

definition server_handleIoReady ::
  "rw \<Rightarrow> bool \<Rightarrow> int syscall list \<Rightarrow> listening \<Rightarrow> (io_status \<times> listening \<times> int syscall list) option" where
  "server_handleIoReady rw flags calls s =
     (case sv_kind s of
        LocalKind \<Rightarrow> local_server_handleIoReady rw calls s
      | IpKind \<Rightarrow> ip_server_handleIoReady rw flags calls s)"

definition iserver_takeNextClient :: "listening \<Rightarrow> socket option \<times> listening" where
  "iserver_takeNextClient s =
     (if sv_incomingConnections s = [] then (None, s)
      else (Some (hd (sv_incomingConnections s)), s\<lparr>sv_incomingConnections := tl (sv_incomingConnections s)\<rparr>))"

text \<open>The destructor: the listening socket, then the clients that nobody took.\<close>

definition socket_destroy :: "(socket \<Rightarrow> bool) \<Rightarrow> socket \<Rightarrow> socket" where
  "socket_destroy isOpen s = transport_close isOpen s"

definition server_destroy :: "listening \<Rightarrow> listening" where
  "server_destroy s0 =
     (let s = server_close s0;
          isOpen = (case sv_kind s of LocalKind \<Rightarrow> local_isOpen | IpKind \<Rightarrow> ip_isOpen);
          closed = concat (map (\<lambda>c. drop (length (so_osClosed c)) (so_osClosed (socket_destroy isOpen c)))
                             (sv_incomingConnections s))
      in s\<lparr>sv_osClosed := sv_osClosed s @ closed, sv_incomingConnections := []\<rparr>)"

subsection \<open>Which socket for which address\<close>

text \<open>\<open>random\<close> are the 16 bytes from the random number generator.\<close>

definition randomDbusSocketName :: "string \<Rightarrow> string" where
  "randomDbusSocketName random = ''/dbus-'' @ hexEncode random"

text \<open>A null pointer from \<^verbatim>\<open>getenv\<close> is not a valid argument of the string constructor: \<open>None\<close>.\<close>

definition xdgRuntimeDir :: "(string \<Rightarrow> string option) \<Rightarrow> string option" where
  "xdgRuntimeDir getenv = getenv ''XDG_RUNTIME_DIR''"

text \<open>A server with its concrete address, the null pointer, or undefined behaviour.\<close>

datatype created =
    NoServer
  | CreatedLocal string connect_address
  | CreatedIp connect_address connect_address
  | CreateUndefined

definition createLocal :: "bool \<Rightarrow> string \<Rightarrow> connect_address \<Rightarrow> created" where
  "createLocal isAbstract unixSocketPath listenAddr =
     (let concreteAddr = listenAddr\<lparr>ca_addrType := (if isAbstract then AbstractUnixPath else UnixPath),
                                    ca_path := unixSocketPath\<rparr>
      in CreatedLocal (if isAbstract then CHR 0x00 # unixSocketPath else unixSocketPath) concreteAddr)"

definition iserver_create :: "(string \<Rightarrow> string option) \<Rightarrow> string \<Rightarrow> connect_address \<Rightarrow> created" where
  "iserver_create getenv random listenAddr =
     (if ca_role listenAddr \<noteq> PeerServer then NoServer
      else case ca_addrType listenAddr of
        UnixPath \<Rightarrow> createLocal False (ca_path listenAddr) listenAddr
      | UnixDir \<Rightarrow> createLocal False (ca_path listenAddr @ randomDbusSocketName random) listenAddr
      | RuntimeDir \<Rightarrow>
          (case xdgRuntimeDir getenv of
             None \<Rightarrow> CreateUndefined
           | Some dir \<Rightarrow> createLocal False (dir @ randomDbusSocketName random) listenAddr)
      | TmpDir \<Rightarrow> createLocal True (ca_path listenAddr @ randomDbusSocketName random) listenAddr
      | AbstractUnixPath \<Rightarrow> createLocal True (ca_path listenAddr) listenAddr
      | Tcp \<Rightarrow> CreatedIp listenAddr listenAddr
      | Tcp4 \<Rightarrow> CreatedIp listenAddr listenAddr
      | Tcp6 \<Rightarrow> CreatedIp listenAddr listenAddr
      | NoneType \<Rightarrow> NoServer)"

text \<open>What the client connects to; \<open>None\<close>: the null pointer.\<close>

datatype transport_target = LocalTarget string | IpTarget connect_address

definition itransport_create :: "connect_address \<Rightarrow> transport_target option" where
  "itransport_create ci =
     (case ca_addrType ci of
        UnixPath \<Rightarrow> Some (LocalTarget (ca_path ci))
      | AbstractUnixPath \<Rightarrow> Some (LocalTarget (CHR 0x00 # ca_path ci))
      | Tcp \<Rightarrow> Some (IpTarget ci)
      | Tcp4 \<Rightarrow> Some (IpTarget ci)
      | Tcp6 \<Rightarrow> Some (IpTarget ci)
      | _ \<Rightarrow> None)"

subsection \<open>The class Server\<close>

text \<open>\<open>srv_announced\<close>: the calls of \<^verbatim>\<open>handleNewConnection\<close>.\<close>

record server =
  srv_listenAddress :: connect_address
  srv_concreteAddress :: connect_address
  srv_newConnectionListener :: bool
  srv_announced :: nat
  srv_transportServer :: "listening option"

text \<open>\<open>build\<close> makes the listening socket of what \<^verbatim>\<open>IServer::create\<close> chose.\<close>

definition Server ::
  "(string \<Rightarrow> string option) \<Rightarrow> string \<Rightarrow> (created \<Rightarrow> listening) \<Rightarrow> connect_address \<Rightarrow> server option" where
  "Server getenv random build listenAddress =
     (let s = \<lparr>srv_listenAddress = listenAddress, srv_concreteAddress = ConnectAddress,
               srv_newConnectionListener = False, srv_announced = 0, srv_transportServer = None\<rparr>;
          made = iserver_create getenv random listenAddress;
          keep = (\<lambda>concrete. let t = build made; s1 = s\<lparr>srv_concreteAddress := concrete\<rparr>
                  in if server_isListening t
                     then s1\<lparr>srv_transportServer := Some (setNewConnectionListener True (t\<lparr>sv_watched := True\<rparr>))\<rparr>
                     else s1)
      in case made of
           CreateUndefined \<Rightarrow> None
         | NoServer \<Rightarrow> Some s
         | CreatedLocal _ concrete \<Rightarrow> Some (keep concrete)
         | CreatedIp _ concrete \<Rightarrow> Some (keep concrete))"

definition server_setListener :: "bool \<Rightarrow> server \<Rightarrow> server" where
  "server_setListener listener s = s\<lparr>srv_newConnectionListener := listener\<rparr>"

definition server_handleCompletion :: "server \<Rightarrow> server" where
  "server_handleCompletion s = (if srv_newConnectionListener s then s\<lparr>srv_announced := srv_announced s + 1\<rparr> else s)"

text \<open>The listener of the listening socket is the server itself.\<close>

definition server_ioReady ::
  "rw \<Rightarrow> bool \<Rightarrow> int syscall list \<Rightarrow> server \<Rightarrow> (io_status \<times> server \<times> int syscall list) option" where
  "server_ioReady rw flags calls s =
     (case srv_transportServer s of
        None \<Rightarrow> None
      | Some t \<Rightarrow>
          map_option (\<lambda>(status, t1, rest).
              (status, (if sv_completions t1 = sv_completions t then id else server_handleCompletion)
                         (s\<lparr>srv_transportServer := Some t1\<rparr>), rest))
            (server_handleIoReady rw flags calls t))"

text \<open>The client's transport with the address that its \<^verbatim>\<open>Connection\<close> is made with.\<close>

definition server_takeNextClient :: "server \<Rightarrow> (socket \<times> connect_address) option \<times> server" where
  "server_takeNextClient s =
     (case srv_transportServer s of
        None \<Rightarrow> (None, s)
      | Some t \<Rightarrow>
          (case iserver_takeNextClient t of
             (None, t1) \<Rightarrow> (None, s\<lparr>srv_transportServer := Some t1\<rparr>)
           | (Some c, t1) \<Rightarrow> (Some (c, srv_concreteAddress s), s\<lparr>srv_transportServer := Some t1\<rparr>)))"

definition server_listens :: "server \<Rightarrow> bool" where
  "server_listens s = (case srv_transportServer s of None \<Rightarrow> False | Some t \<Rightarrow> server_isListening t)"


subsection \<open>Clients of a local server\<close>

datatype server_event = Ready "int syscall list" | Take

fun server_events :: "server_event list \<Rightarrow> server \<Rightarrow> ((socket \<times> connect_address) list \<times> server) option" where
  "server_events [] s = Some ([], s)"
| "server_events (Ready calls # es) s =
     (case server_ioReady ReadReady True calls s of None \<Rightarrow> None | Some (_, s1, _) \<Rightarrow> server_events es s1)"
| "server_events (Take # es) s =
     (case server_takeNextClient s of (r, s1) \<Rightarrow>
        map_option (\<lambda>(cs, s2). (case r of None \<Rightarrow> cs | Some c \<Rightarrow> c # cs, s2)) (server_events es s1))"

definition accepted :: "int syscall list \<Rightarrow> int list" where
  "accepted calls = (case acceptLoop calls of Some (Some fd, _) \<Rightarrow> [fd] | _ \<Rightarrow> [])"

fun accepted_fds :: "server_event list \<Rightarrow> int list" where
  "accepted_fds [] = []"
| "accepted_fds (Ready calls # es) = accepted calls @ accepted_fds es"
| "accepted_fds (Take # es) = accepted_fds es"

text \<open>The listening socket is there, is a local one, and tells its server.\<close>

definition serving :: "server \<Rightarrow> listening \<Rightarrow> bool" where
  "serving s t \<longleftrightarrow> srv_transportServer s = Some t \<and> sv_kind t = LocalKind \<and> 0 \<le> sv_listenFd t \<and> sv_newConnectionListener t"

lemma server_ioReady_local:
  assumes "serving s t" and "server_ioReady ReadReady flags calls s = Some (status, s1, rest)"
  shows "status = IO_OK \<and> srv_concreteAddress s1 = srv_concreteAddress s \<and>
    srv_newConnectionListener s1 = srv_newConnectionListener s \<and>
    (srv_newConnectionListener s \<longrightarrow> srv_announced s1 = srv_announced s + length (accepted calls)) \<and>
    (\<exists>t1. serving s1 t1 \<and> sv_incomingConnections t1 = sv_incomingConnections t @ map LocalSocket_fd (accepted calls))"
proof -
  have t: "srv_transportServer s = Some t" "sv_kind t = LocalKind" "\<not> sv_listenFd t < 0" "sv_newConnectionListener t"
    using assms(1) by (simp_all add: serving_def)
  from assms(2) t obtain r rest1 where a: "acceptLoop calls = Some (r, rest1)"
    by (auto simp: server_ioReady_def server_handleIoReady_def local_server_handleIoReady_def split: option.splits)
  show ?thesis
  proof (cases r)
    case None
    with a assms t show ?thesis
      by (auto simp: server_ioReady_def server_handleIoReady_def local_server_handleIoReady_def accepted_def serving_def)
  next
    case (Some fd)
    with a assms t show ?thesis
      by (auto simp: server_ioReady_def server_handleIoReady_def local_server_handleIoReady_def accepted_def serving_def
          enqueueClient_def server_handleCompletion_def Let_def split: if_splits)
  qed
qed

lemma server_takeNextClient_local:
  assumes "serving s t" and "server_takeNextClient s = (r, s1)"
  shows "srv_concreteAddress s1 = srv_concreteAddress s \<and> srv_newConnectionListener s1 = srv_newConnectionListener s \<and>
    srv_announced s1 = srv_announced s \<and>
    (\<exists>t1. serving s1 t1 \<and>
      sv_incomingConnections t = (case r of None \<Rightarrow> [] | Some c \<Rightarrow> [fst c]) @ sv_incomingConnections t1) \<and>
    (\<forall>c. r = Some c \<longrightarrow> snd c = srv_concreteAddress s)"
  using assms
  by (cases "sv_incomingConnections t")
    (auto simp: server_takeNextClient_def iserver_takeNextClient_def serving_def)

lemma server_events_local:
  assumes "server_events es s = Some (clients, s')" and "serving s t"
  shows "(\<forall>c \<in> set clients. snd c = srv_concreteAddress s) \<and>
    (srv_newConnectionListener s \<longrightarrow> srv_announced s' = srv_announced s + length (accepted_fds es)) \<and>
    (\<exists>t'. serving s' t' \<and> map fst clients @ sv_incomingConnections t' =
       sv_incomingConnections t @ map LocalSocket_fd (accepted_fds es))"
  using assms
proof (induction es arbitrary: s t clients)
  case (Cons e es)
  show ?case
  proof (cases e)
    case (Ready calls)
    with Cons.prems(1) obtain status s1 rest where
      r: "server_ioReady ReadReady True calls s = Some (status, s1, rest)" "server_events es s1 = Some (clients, s')"
      by (auto split: option.splits)
    note f = server_ioReady_local [OF Cons.prems(2) r(1)]
    then obtain t1 where t1: "serving s1 t1"
      "sv_incomingConnections t1 = sv_incomingConnections t @ map LocalSocket_fd (accepted calls)" by blast
    from Cons.IH [OF r(2) t1(1)] f t1(2) Ready show ?thesis by simp
  next
    case Take
    obtain r s1 where r: "server_takeNextClient s = (r, s1)" by force
    note f = server_takeNextClient_local [OF Cons.prems(2) r]
    then obtain t1 where t1: "serving s1 t1"
      "sv_incomingConnections t = (case r of None \<Rightarrow> [] | Some c \<Rightarrow> [fst c]) @ sv_incomingConnections t1" by blast
    from Cons.prems(1) Take r obtain cs where cs: "server_events es s1 = Some (cs, s')"
      "clients = (case r of None \<Rightarrow> cs | Some c \<Rightarrow> c # cs)" by auto
    from Cons.IH [OF cs(1) t1(1)] f t1(2) cs(2) Take show ?thesis by (cases r) auto
  qed
qed auto

text \<open>C21: The clients of a local server: whatever accept returns, errors and interruptions included, the server keeps
  listening, and the clients that were taken, followed by those that wait, are the accepted ones in the order in which
  they came, each once; each is taken with the concrete address, and the listener was told of each.\<close>

theorem clients_in_order:
  assumes "server_events es s = Some (clients, s')" and "serving s t"
  shows "(\<forall>c \<in> set clients. snd c = srv_concreteAddress s) \<and>
    (srv_newConnectionListener s \<longrightarrow> srv_announced s' = srv_announced s + length (accepted_fds es)) \<and>
    (\<exists>t'. serving s' t' \<and> map fst clients @ sv_incomingConnections t' =
       sv_incomingConnections t @ map LocalSocket_fd (accepted_fds es))"
  using assms by (rule server_events_local)

definition example_server :: server where
  "example_server = server_setListener True (the (Server (\<lambda>_. None) [] (\<lambda>_. LocalServer 108 3 True True ''/bus'')
     (ConnectAddress\<lparr>ca_addrType := UnixPath, ca_role := PeerServer, ca_path := ''/bus''\<rparr>)))"

theorem clients_in_order_witness:
  "\<exists>clients s' (t' :: listening). server_events [Ready [Interrupted, Returns 5], Ready [Fails], Ready [Returns 6], Take] example_server =
      Some (clients, s') \<and> srv_announced s' = 2 \<and>
      map fst clients @ sv_incomingConnections t' = [LocalSocket_fd 5, LocalSocket_fd 6]"
proof -
  let ?t = "the (srv_transportServer example_server)"
  let ?es = "[Ready [Interrupted, Returns 5], Ready [Fails], Ready [Returns 6], Take]"
  have t: "serving example_server ?t" unfolding serving_def by code_simp
  have l: "srv_newConnectionListener example_server \<and> srv_announced example_server = 0" by code_simp
  have "server_events ?es example_server \<noteq> None" by code_simp
  then obtain clients s' where r: "server_events ?es example_server = Some (clients, s')" by auto
  have e: "sv_incomingConnections ?t = []" "accepted_fds ?es = [5, 6]" by code_simp+
  from clients_in_order [OF r t, unfolded e] l obtain t' :: listening where
    "srv_announced s' = 0 + length [5 :: int, 6]" "map fst clients @ sv_incomingConnections t' = [] @ map LocalSocket_fd [5, 6]"
    by auto
  then have "srv_announced s' = 2" "map fst clients @ sv_incomingConnections t' = [LocalSocket_fd 5, LocalSocket_fd 6]"
    by simp_all
  with r show ?thesis by blast
qed

text \<open>C31: A client that gets the concrete address of a local server as a string, and parses it, connects to the path
  that the server listens on.\<close>

theorem server_address_reaches_server:
  assumes "iserver_create getenv random listenAddr = CreatedLocal boundPath concrete" and "printable_address concrete"
  shows "\<exists>a. setAddressFromString (toString concrete) b = (True, a) \<and> itransport_create a = Some (LocalTarget boundPath)"
proof -
  from address_read_back [OF assms(2)] obtain a where
    a: "setAddressFromString (toString concrete) b = (True, a)" "sameAddress a (concrete\<lparr>ca_role := ca_role b\<rparr>)" by blast
  from assms(1) obtain abstract p where
    c: "createLocal abstract p listenAddr = CreatedLocal boundPath concrete"
    by (auto simp: iserver_create_def split: if_splits address_type.splits option.splits)
  then have "ca_addrType concrete = (if abstract then AbstractUnixPath else UnixPath)" "ca_path concrete = p"
    "boundPath = (if abstract then CHR 0x00 # p else p)" by (auto simp: createLocal_def Let_def)
  with a(2) have "itransport_create a = Some (LocalTarget boundPath)"
    by (auto simp: sameAddress_def isSomeTcpType_def itransport_create_def split: if_splits)
  with a(1) show ?thesis by blast
qed

theorem server_address_reaches_server_witness:
  "\<exists>a. setAddressFromString ''unix:abstract=/tmp/dbus-00ff'' ConnectAddress = (True, a) \<and>
     itransport_create a = Some (LocalTarget (CHR 0x00 # ''/tmp/dbus-00ff''))"
proof -
  let ?l = "ConnectAddress\<lparr>ca_addrType := TmpDir, ca_role := PeerServer, ca_path := ''/tmp''\<rparr>"
  let ?c = "?l\<lparr>ca_addrType := AbstractUnixPath, ca_path := ''/tmp/dbus-00ff''\<rparr>"
  have "iserver_create (\<lambda>_. None) [CHR 0x00, CHR 0xFF] ?l = CreatedLocal (CHR 0x00 # ''/tmp/dbus-00ff'') ?c"
    by code_simp
  moreover have "printable_address ?c" by code_simp
  ultimately have "\<exists>a. setAddressFromString (toString ?c) ConnectAddress = (True, a) \<and>
      itransport_create a = Some (LocalTarget (CHR 0x00 # ''/tmp/dbus-00ff''))"
    by (rule server_address_reaches_server)
  moreover have "toString ?c = ''unix:abstract=/tmp/dbus-00ff''" by code_simp
  ultimately show ?thesis by simp
qed

text \<open>A local socket that a server accepted says that it passes no file descriptors, though it could pass as many as
  the socket of the client: a message with descriptors is refused as soon as it is to be sent over it.\<close>

theorem accepted_client_passes_no_fds:
  assumes "server_events es s = Some (clients, s')" and "serving s t" and "sv_incomingConnections t = []"
    and "c \<in> set clients"
    and "m_state m = Sending" and "m_bufferPos m = 0" and "m_buffer m \<noteq> []" and "argUnixFds m \<noteq> []"
  shows "\<exists>m'. handleTransportCanWrite (so_supportedUnixFdsCount (fst c)) answers m = Some (m', PayloadError, []) \<and>
    m_error m' = SendingTooManyUnixFds"
proof -
  from server_events_local [OF assms(1,2), unfolded assms(3)] obtain t' :: listening where
    "map fst clients @ sv_incomingConnections t' = [] @ map LocalSocket_fd (accepted_fds es)" by blast
  then have "set (map fst clients) \<subseteq> set (map LocalSocket_fd (accepted_fds es))" by (metis append_Nil set_append sup_ge1)
  then have none: "so_supportedUnixFdsCount (fst c) = 0"
    using assms(4) by (auto simp: LocalSocket_fd_def new_socket_def image_def subset_iff)
  show ?thesis
    using assms(5-8)
    by (simp add: none handleTransportCanWrite_def canWriteLoop.simps [of 0 answers] Let_def argUnixFds_def)
qed

theorem accepted_client_passes_no_fds_witness:
  "\<exists>c m'. c \<in> set (fst (the (server_events [Ready [Returns 5], Take] example_server))) \<and>
     handleTransportCanWrite (so_supportedUnixFdsCount (fst c)) []
       (example_sending\<lparr>m_mainArguments := empty_arguments\<lparr>a_fileDescriptors := [7]\<rparr>\<rparr>) = Some (m', PayloadError, [])"
proof -
  let ?t = "the (srv_transportServer example_server)"
  let ?m = "example_sending\<lparr>m_mainArguments := empty_arguments\<lparr>a_fileDescriptors := [7]\<rparr>\<rparr>"
  have t: "serving example_server ?t" "sv_incomingConnections ?t = []" unfolding serving_def by code_simp+
  have "server_events [Ready [Returns 5], Take] example_server \<noteq> None" by code_simp
  then obtain clients s' where r: "server_events [Ready [Returns 5], Take] example_server = Some (clients, s')" by auto
  have "fst (the (server_events [Ready [Returns 5], Take] example_server)) \<noteq> []" by code_simp
  with r obtain c where c: "c \<in> set clients" by (cases clients) auto
  have m: "m_state ?m = Sending" "m_bufferPos ?m = 0" "m_buffer ?m \<noteq> []" "argUnixFds ?m \<noteq> []"
    by (simp_all add: example_sending_def Message_def argUnixFds_def)
  from accepted_client_passes_no_fds [OF r t c m, of "[]"] obtain m' where
    "handleTransportCanWrite (so_supportedUnixFdsCount (fst c)) [] ?m = Some (m', PayloadError, [])" by blast
  with c show ?thesis unfolding r option.sel fst_conv by blast
qed

end
