(* ===== verification/Io_Listeners.thy ===== *)
theory Io_Listeners
  imports Dfer_Types
begin

text \<open>
  Who waits for which file descriptor: sources and listeners of I/O events (\<^verbatim>\<open>events/iioeventsource.cpp\<close>,
  \<^verbatim>\<open>events/iioeventlistener.cpp\<close>, \<^verbatim>\<open>events/iioeventforwarder.cpp\<close>), the I/O part of \<^verbatim>\<open>events/eventdispatcher.cpp\<close>,
  and the listeners of transports (\<^verbatim>\<open>transport/itransport.cpp\<close>, \<^verbatim>\<open>transport/itransportlistener.cpp\<close>).  The poller is
  a parameter: its operations, which may throw.
\<close>

subsection \<open>The interface of a poller\<close>

definition ReadBit :: uint32 where "ReadBit = 1"
definition WriteBit :: uint32 where "WriteBit = 2"

text \<open>\<open>None\<close>: the operation throws an exception, which nobody catches.\<close>

record 'p poller =
  pl_add :: "int \<Rightarrow> uint32 \<Rightarrow> 'p \<Rightarrow> 'p option"
  pl_remove :: "int \<Rightarrow> 'p \<Rightarrow> 'p option"
  pl_set :: "int \<Rightarrow> uint32 \<Rightarrow> 'p \<Rightarrow> 'p option"

text \<open>
  What the dispatcher relies on: the poller waits for exactly the interests it was told, for descriptors that it can
  handle.
\<close>

locale event_poller =
  fixes P :: "'p poller" and watched :: "'p \<Rightarrow> int \<Rightarrow> uint32 option" and good :: "'p \<Rightarrow> bool" and fits :: "int \<Rightarrow> bool"
  assumes add: "good p \<Longrightarrow> fits fd \<Longrightarrow> rw \<le> 3 \<Longrightarrow> watched p fd = None \<Longrightarrow>
      \<exists>p'. pl_add P fd rw p = Some p' \<and> good p' \<and> watched p' = (watched p)(fd := Some rw)"
    and remove: "good p \<Longrightarrow> fits fd \<Longrightarrow> watched p fd \<noteq> None \<Longrightarrow>
      \<exists>p'. pl_remove P fd p = Some p' \<and> good p' \<and> watched p' = (watched p)(fd := None)"
    and set_interest: "good p \<Longrightarrow> fits fd \<Longrightarrow> rw \<le> 3 \<Longrightarrow> watched p fd \<noteq> None \<Longrightarrow>
      \<exists>p'. pl_set P fd rw p = Some p' \<and> good p' \<and> watched p' = (watched p)(fd := Some rw)"

subsection \<open>State\<close>

text \<open>
  A plain listener is a transport or a listening server; a forwarder is a listener and a source (connections and
  servers are).  \<open>io_fd\<close>: what \<^verbatim>\<open>fileDescriptor()\<close> returns for a plain listener.  \<open>io_fault\<close>: a null pointer was
  used, or an exception was thrown.
\<close>

datatype io_listener = Plain nat | Forwarder nat

datatype io_source = Dispatcher | ForwarderSource nat

record 'p io =
  io_source :: "io_listener \<Rightarrow> io_source option"       \<comment> \<open>\<^verbatim>\<open>m_eventSource\<close>\<close>
  io_interest :: "io_listener \<Rightarrow> uint32"               \<comment> \<open>\<^verbatim>\<open>m_ioInterest\<close>\<close>
  io_fd :: "nat \<Rightarrow> int"
  io_downstream :: "nat \<Rightarrow> nat option"                 \<comment> \<open>\<^verbatim>\<open>m_downstream\<close> of a forwarder\<close>
  io_registered :: "int \<Rightarrow> io_listener option"         \<comment> \<open>\<^verbatim>\<open>m_ioListeners\<close>\<close>
  io_poller :: 'p
  io_readListener :: "nat \<Rightarrow> nat option"               \<comment> \<open>of a transport\<close>
  io_writeListener :: "nat \<Rightarrow> nat option"
  io_readTransport :: "nat \<Rightarrow> nat option"              \<comment> \<open>of an \<^verbatim>\<open>ITransportListener\<close>\<close>
  io_writeTransport :: "nat \<Rightarrow> nat option"
  io_fault :: bool

definition io_start :: "'p \<Rightarrow> 'p io" where
  "io_start p = \<lparr>io_source = \<lambda>_. None, io_interest = \<lambda>_. 0, io_fd = \<lambda>_. - 1, io_downstream = \<lambda>_. None,
     io_registered = \<lambda>_. None, io_poller = p, io_readListener = \<lambda>_. None, io_writeListener = \<lambda>_. None,
     io_readTransport = \<lambda>_. None, io_writeTransport = \<lambda>_. None, io_fault = False\<rparr>"

definition io_undefined :: "'p io \<Rightarrow> 'p io" where
  "io_undefined s = s\<lparr>io_fault := True\<rparr>"

definition listener_fd :: "io_listener \<Rightarrow> 'p io \<Rightarrow> int option" where
  "listener_fd l s =
     (case l of Plain i \<Rightarrow> Some (io_fd s i) | Forwarder f \<Rightarrow> map_option (io_fd s) (io_downstream s f))"

subsection \<open>The event source of the dispatcher\<close>

definition call_poller :: "('p \<Rightarrow> 'p option) \<Rightarrow> 'p io \<Rightarrow> 'p io" where
  "call_poller f s = (case f (io_poller s) of None \<Rightarrow> io_undefined s | Some p \<Rightarrow> s\<lparr>io_poller := p\<rparr>)"

definition disp_addIoListenerInternal :: "'p poller \<Rightarrow> io_listener \<Rightarrow> uint32 \<Rightarrow> 'p io \<Rightarrow> 'p io" where
  "disp_addIoListenerInternal P l ioRw s =
     (case listener_fd l s of
        None \<Rightarrow> io_undefined s
      | Some fd \<Rightarrow>
          if io_registered s fd = None
          then call_poller (pl_add P fd ioRw) (s\<lparr>io_registered := (io_registered s)(fd := Some l)\<rparr>)
          else s)"

definition disp_removeIoListenerInternal :: "'p poller \<Rightarrow> io_listener \<Rightarrow> 'p io \<Rightarrow> 'p io" where
  "disp_removeIoListenerInternal P l s =
     (case listener_fd l s of
        None \<Rightarrow> io_undefined s
      | Some fd \<Rightarrow>
          if io_registered s fd \<noteq> None
          then call_poller (pl_remove P fd) (s\<lparr>io_registered := (io_registered s)(fd := None)\<rparr>)
          else s)"

definition disp_updateIoInterestInternal :: "'p poller \<Rightarrow> io_listener \<Rightarrow> uint32 \<Rightarrow> 'p io \<Rightarrow> 'p io" where
  "disp_updateIoInterestInternal P l ioRw s =
     (case listener_fd l s of None \<Rightarrow> io_undefined s | Some fd \<Rightarrow> call_poller (pl_set P fd ioRw) s)"

subsection \<open>The class IIoEventSource, with its virtual functions as arguments\<close>

definition addIoListener ::
  "(io_source \<Rightarrow> io_listener \<Rightarrow> 'p io \<Rightarrow> 'p io) \<Rightarrow> (io_listener \<Rightarrow> uint32 \<Rightarrow> 'p io \<Rightarrow> 'p io) \<Rightarrow>
     io_source \<Rightarrow> io_listener \<Rightarrow> 'p io \<Rightarrow> 'p io" where
  "addIoListener removeFrom addInternal this iol s =
     (let s1 = (case io_source s iol of
                  None \<Rightarrow> s
                | Some src \<Rightarrow> if src \<noteq> this then removeFrom src iol s else s);
          s2 = s1\<lparr>io_source := (io_source s1)(iol := Some this)\<rparr>
      in addInternal iol (io_interest s2 iol) s2)"

definition removeIoListener ::
  "(io_listener \<Rightarrow> 'p io \<Rightarrow> 'p io) \<Rightarrow> io_source \<Rightarrow> io_listener \<Rightarrow> 'p io \<Rightarrow> 'p io" where
  "removeIoListener removeInternal this iol s =
     (if io_source s iol \<noteq> Some this then s
      else removeInternal iol (s\<lparr>io_source := (io_source s)(iol := None)\<rparr>))"

definition updateIoInterest ::
  "(io_listener \<Rightarrow> uint32 \<Rightarrow> 'p io \<Rightarrow> 'p io) \<Rightarrow> io_source \<Rightarrow> io_listener \<Rightarrow> 'p io \<Rightarrow> 'p io" where
  "updateIoInterest updateInternal this iol s =
     (if io_source s iol \<noteq> Some this then s else updateInternal iol (io_interest s iol) s)"

text \<open>\<^verbatim>\<open>IIoEventListener::setIoInterest\<close>; \<open>update\<close> is \<^verbatim>\<open>updateIoInterest\<close> of a source.\<close>

definition setIoInterest ::
  "(io_source \<Rightarrow> io_listener \<Rightarrow> 'p io \<Rightarrow> 'p io) \<Rightarrow> io_listener \<Rightarrow> uint32 \<Rightarrow> 'p io \<Rightarrow> 'p io" where
  "setIoInterest update iol ioRw s =
     (if io_interest s iol = ioRw then s
      else (let s1 = s\<lparr>io_interest := (io_interest s)(iol := ioRw)\<rparr>
            in case io_source s1 iol of None \<Rightarrow> s1 | Some src \<Rightarrow> update src iol s1))"

subsection \<open>Forwarders\<close>

text \<open>
  The upstream source of every forwarder is the dispatcher.  A forwarder is never added to a forwarder; the functions
  that stand for this are not defined behaviour.
\<close>

definition disp_removeIoListener :: "'p poller \<Rightarrow> io_listener \<Rightarrow> 'p io \<Rightarrow> 'p io" where
  "disp_removeIoListener P = removeIoListener (disp_removeIoListenerInternal P) Dispatcher"

definition disp_updateIoInterest :: "'p poller \<Rightarrow> io_source \<Rightarrow> io_listener \<Rightarrow> 'p io \<Rightarrow> 'p io" where
  "disp_updateIoInterest P src iol s =
     (case src of
        Dispatcher \<Rightarrow> updateIoInterest (disp_updateIoInterestInternal P) Dispatcher iol s
      | ForwarderSource f \<Rightarrow> io_undefined s)"

definition fwd_removeIoListenerInternal :: "'p poller \<Rightarrow> nat \<Rightarrow> io_listener \<Rightarrow> 'p io \<Rightarrow> 'p io" where
  "fwd_removeIoListenerInternal P f iol s =
     (let s1 = disp_removeIoListener P (Forwarder f) s in s1\<lparr>io_downstream := (io_downstream s1)(f := None)\<rparr>)"

definition fwd_updateIoInterestInternal :: "'p poller \<Rightarrow> nat \<Rightarrow> io_listener \<Rightarrow> uint32 \<Rightarrow> 'p io \<Rightarrow> 'p io" where
  "fwd_updateIoInterestInternal P f iol ioRw s = setIoInterest (disp_updateIoInterest P) (Forwarder f) ioRw s"

definition source_removeIoListener :: "'p poller \<Rightarrow> io_source \<Rightarrow> io_listener \<Rightarrow> 'p io \<Rightarrow> 'p io" where
  "source_removeIoListener P src iol s =
     (case src of
        Dispatcher \<Rightarrow> disp_removeIoListener P iol s
      | ForwarderSource f \<Rightarrow> removeIoListener (fwd_removeIoListenerInternal P f) (ForwarderSource f) iol s)"

definition source_updateIoInterest :: "'p poller \<Rightarrow> io_source \<Rightarrow> io_listener \<Rightarrow> 'p io \<Rightarrow> 'p io" where
  "source_updateIoInterest P src iol s =
     (case src of
        Dispatcher \<Rightarrow> updateIoInterest (disp_updateIoInterestInternal P) Dispatcher iol s
      | ForwarderSource f \<Rightarrow> updateIoInterest (fwd_updateIoInterestInternal P f) (ForwarderSource f) iol s)"

definition disp_addIoListener :: "'p poller \<Rightarrow> io_listener \<Rightarrow> 'p io \<Rightarrow> 'p io" where
  "disp_addIoListener P = addIoListener (source_removeIoListener P) (disp_addIoListenerInternal P) Dispatcher"

definition fwd_addIoListenerInternal :: "'p poller \<Rightarrow> nat \<Rightarrow> io_listener \<Rightarrow> uint32 \<Rightarrow> 'p io \<Rightarrow> 'p io" where
  "fwd_addIoListenerInternal P f iol ioRw s =
     (case iol of
        Forwarder g \<Rightarrow> io_undefined s
      | Plain i \<Rightarrow>
          (let s1 = setIoInterest (disp_updateIoInterest P) (Forwarder f) ioRw s;
               s2 = s1\<lparr>io_downstream := (io_downstream s1)(f := Some i)\<rparr>
           in disp_addIoListener P (Forwarder f) s2))"

definition fwd_addIoListener :: "'p poller \<Rightarrow> nat \<Rightarrow> io_listener \<Rightarrow> 'p io \<Rightarrow> 'p io" where
  "fwd_addIoListener P f = addIoListener (source_removeIoListener P) (fwd_addIoListenerInternal P f) (ForwarderSource f)"

subsection \<open>Transports and their listeners\<close>

definition setTransportInterest :: "'p poller \<Rightarrow> nat \<Rightarrow> uint32 \<Rightarrow> 'p io \<Rightarrow> 'p io" where
  "setTransportInterest P t = setIoInterest (source_updateIoInterest P) (Plain t)"

definition updateTransportIoInterest :: "'p poller \<Rightarrow> nat \<Rightarrow> 'p io \<Rightarrow> 'p io" where
  "updateTransportIoInterest P t s =
     setTransportInterest P t ((if io_readListener s t \<noteq> None then ReadBit else 0) OR
                               (if io_writeListener s t \<noteq> None then WriteBit else 0)) s"

definition clearReadListener :: "'p poller \<Rightarrow> nat \<Rightarrow> 'p io \<Rightarrow> 'p io" where
  "clearReadListener P t s =
     updateTransportIoInterest P t
       (case io_readListener s t of
          None \<Rightarrow> s
        | Some old \<Rightarrow> s\<lparr>io_readTransport := (io_readTransport s)(old := None),
                        io_readListener := (io_readListener s)(t := None)\<rparr>)"

text \<open>The listener is taken from another transport first, which is told so.\<close>

definition setReadListener :: "'p poller \<Rightarrow> nat \<Rightarrow> nat option \<Rightarrow> 'p io \<Rightarrow> 'p io" where
  "setReadListener P t listener s =
     (case listener of
        None \<Rightarrow> clearReadListener P t s
      | Some l \<Rightarrow>
          updateTransportIoInterest P t
            (if io_readListener s t = Some l then s
             else (let s1 = (case io_readListener s t of
                               None \<Rightarrow> s
                             | Some old \<Rightarrow> s\<lparr>io_readTransport := (io_readTransport s)(old := None)\<rparr>);
                       s2 = (case io_readTransport s1 l of None \<Rightarrow> s1 | Some t2 \<Rightarrow> clearReadListener P t2 s1)
                   in s2\<lparr>io_readTransport := (io_readTransport s2)(l := Some t),
                         io_readListener := (io_readListener s2)(t := Some l)\<rparr>)))"

definition clearWriteListener :: "'p poller \<Rightarrow> nat \<Rightarrow> 'p io \<Rightarrow> 'p io" where
  "clearWriteListener P t s =
     updateTransportIoInterest P t
       (case io_writeListener s t of
          None \<Rightarrow> s
        | Some old \<Rightarrow> s\<lparr>io_writeTransport := (io_writeTransport s)(old := None),
                        io_writeListener := (io_writeListener s)(t := None)\<rparr>)"

definition setWriteListener :: "'p poller \<Rightarrow> nat \<Rightarrow> nat option \<Rightarrow> 'p io \<Rightarrow> 'p io" where
  "setWriteListener P t listener s =
     (case listener of
        None \<Rightarrow> clearWriteListener P t s
      | Some l \<Rightarrow>
          updateTransportIoInterest P t
            (if io_writeListener s t = Some l then s
             else (let s1 = (case io_writeListener s t of
                               None \<Rightarrow> s
                             | Some old \<Rightarrow> s\<lparr>io_writeTransport := (io_writeTransport s)(old := None)\<rparr>);
                       s2 = (case io_writeTransport s1 l of None \<Rightarrow> s1 | Some t2 \<Rightarrow> clearWriteListener P t2 s1)
                   in s2\<lparr>io_writeTransport := (io_writeTransport s2)(l := Some t),
                         io_writeListener := (io_writeListener s2)(t := Some l)\<rparr>)))"

text \<open>\<^verbatim>\<open>ITransport::close\<close> and the destructors.\<close>

definition io_close :: "'p poller \<Rightarrow> nat \<Rightarrow> 'p io \<Rightarrow> 'p io" where
  "io_close P t s =
     (if io_fd s t = - 1 then s
      else (let s1 = (case io_source s (Plain t) of None \<Rightarrow> s | Some src \<Rightarrow> source_removeIoListener P src (Plain t) s)
            in s1\<lparr>io_fd := (io_fd s1)(t := - 1)\<rparr>))"

definition transport_destroy :: "'p poller \<Rightarrow> nat \<Rightarrow> 'p io \<Rightarrow> 'p io" where
  "transport_destroy P t s = clearWriteListener P t (clearReadListener P t (io_close P t s))"

definition transport_listener_destroy :: "'p poller \<Rightarrow> nat \<Rightarrow> 'p io \<Rightarrow> 'p io" where
  "transport_listener_destroy P l s =
     (let s1 = (case io_readTransport s l of None \<Rightarrow> s | Some t \<Rightarrow> clearReadListener P t s)
      in case io_writeTransport s1 l of None \<Rightarrow> s1 | Some t \<Rightarrow> clearWriteListener P t s1)"

subsection \<open>Dispatching\<close>

text \<open>The transport behind a listener.\<close>

definition endpoint :: "io_listener \<Rightarrow> 'p io \<Rightarrow> nat option" where
  "endpoint l s = (case l of Plain i \<Rightarrow> Some i | Forwarder f \<Rightarrow> io_downstream s f)"

text \<open>
  \<^verbatim>\<open>ITransport::handleIoReady\<close>: the listener that is called, if there is one; \<^verbatim>\<open>notifyListenerForIo\<close> leads there, through
  the \<^verbatim>\<open>handleIoReady\<close> of a forwarder or directly.
\<close>

definition transport_handleIoReady :: "bool \<Rightarrow> nat \<Rightarrow> 'p io \<Rightarrow> nat option" where
  "transport_handleIoReady isRead t s = (if isRead then io_readListener s t else io_writeListener s t)"

definition notifyListenerForIo :: "int \<Rightarrow> bool \<Rightarrow> 'p io \<Rightarrow> nat option" where
  "notifyListenerForIo fd isRead s =
     (case io_registered s fd of
        None \<Rightarrow> None
      | Some l \<Rightarrow> (case endpoint l s of None \<Rightarrow> None | Some t \<Rightarrow> transport_handleIoReady isRead t s))"


subsection \<open>The invariant\<close>

text \<open>How listeners and sources know each other.\<close>

definition io_wiring :: "(int \<Rightarrow> bool) \<Rightarrow> 'p io \<Rightarrow> bool" where
  "io_wiring fits s \<longleftrightarrow>
     (\<forall>fd l. io_registered s fd = Some l \<longrightarrow> io_source s l = Some Dispatcher \<and> listener_fd l s = Some fd \<and> fits fd) \<and>
     (\<forall>l. io_source s l = Some Dispatcher \<longrightarrow> (\<exists>fd. listener_fd l s = Some fd \<and> io_registered s fd = Some l)) \<and>
     (\<forall>f. io_source s (Forwarder f) = (if io_downstream s f = None then None else Some Dispatcher)) \<and>
     (\<forall>f i. io_downstream s f = Some i \<longleftrightarrow> io_source s (Plain i) = Some (ForwarderSource f))"

text \<open>What the poller waits for.\<close>

definition io_watching :: "('p \<Rightarrow> int \<Rightarrow> uint32 option) \<Rightarrow> ('p \<Rightarrow> bool) \<Rightarrow> 'p io \<Rightarrow> bool" where
  "io_watching watched good s \<longleftrightarrow>
     \<not> io_fault s \<and> good (io_poller s) \<and> (\<forall>l. io_interest s l \<le> 3) \<and>
     (\<forall>f i. io_downstream s f = Some i \<longrightarrow> io_interest s (Forwarder f) = io_interest s (Plain i)) \<and>
     (\<forall>fd. watched (io_poller s) fd = map_option (io_interest s) (io_registered s fd))"

lemma listener_fd_simps [simp]:
  "listener_fd (Plain i) s = Some (io_fd s i)" "listener_fd (Forwarder f) s = map_option (io_fd s) (io_downstream s f)"
  by (simp_all add: listener_fd_def)

lemma listener_fd_same:
  "io_fd s' = io_fd s \<Longrightarrow> io_downstream s' = io_downstream s \<Longrightarrow> listener_fd l s' = listener_fd l s"
  by (cases l) simp_all

lemma wiring_registered:
  "io_wiring fits s \<Longrightarrow> io_registered s fd = Some l \<Longrightarrow>
    io_source s l = Some Dispatcher \<and> listener_fd l s = Some fd \<and> fits fd"
  by (simp add: io_wiring_def)

lemma wiring_source:
  "io_wiring fits s \<Longrightarrow> io_source s l = Some Dispatcher \<Longrightarrow> \<exists>fd. listener_fd l s = Some fd \<and> io_registered s fd = Some l"
  unfolding io_wiring_def by blast

lemma wiring_plain:
  assumes "io_wiring fits s" and "io_source s (Plain t) = Some Dispatcher"
  shows "io_registered s (io_fd s t) = Some (Plain t)"
  using wiring_source [OF assms] by (auto simp: listener_fd_def)

lemma wiring_forwarder:
  assumes "io_wiring fits s" and "io_downstream s f = Some t"
  shows "io_registered s (io_fd s t) = Some (Forwarder f)" and "io_source s (Forwarder f) = Some Dispatcher"
    and "io_source s (Plain t) = Some (ForwarderSource f)"
proof -
  show f: "io_source s (Forwarder f) = Some Dispatcher" and "io_source s (Plain t) = Some (ForwarderSource f)"
    using assms by (auto simp: io_wiring_def)
  from wiring_source [OF assms(1) f] assms(2) show "io_registered s (io_fd s t) = Some (Forwarder f)"
    by (auto simp: listener_fd_def)
qed

lemma wiring_forwarder_source:
  "io_wiring fits s \<Longrightarrow> io_source s (Forwarder f) = (if io_downstream s f = None then None else Some Dispatcher)"
  by (simp add: io_wiring_def)

lemma wiring_downstream:
  "io_wiring fits s \<Longrightarrow> io_downstream s f = Some i \<longleftrightarrow> io_source s (Plain i) = Some (ForwarderSource f)"
  by (simp add: io_wiring_def)

text \<open>A registered listener stands for one transport, and a transport for at most one.\<close>

lemma wiring_unique:
  assumes "io_wiring fits s" and "io_registered s fd = Some l" and "io_registered s fd' = Some l"
  shows "fd = fd'"
  using wiring_registered [OF assms(1,2)] wiring_registered [OF assms(1,3)] by simp

text \<open>A descriptor is free for a listener if nobody else is registered with it.\<close>

definition fd_free_for :: "nat \<Rightarrow> 'p io \<Rightarrow> bool" where
  "fd_free_for i s \<longleftrightarrow> (\<forall>l. io_registered s (io_fd s i) = Some l \<longrightarrow> endpoint l s = Some i)"

definition transport_links :: "'p io \<Rightarrow> bool" where
  "transport_links s \<longleftrightarrow>
     (\<forall>t l. io_readListener s t = Some l \<longleftrightarrow> io_readTransport s l = Some t) \<and>
     (\<forall>t l. io_writeListener s t = Some l \<longleftrightarrow> io_writeTransport s l = Some t)"

definition wanted :: "nat \<Rightarrow> 'p io \<Rightarrow> uint32" where
  "wanted t s = (if io_readListener s t \<noteq> None then ReadBit else 0) OR (if io_writeListener s t \<noteq> None then WriteBit else 0)"

text \<open>What the operations on interests leave alone, and what those on sources do.\<close>

definition only_interest :: "'p io \<Rightarrow> 'p io \<Rightarrow> bool" where
  "only_interest s s' \<longleftrightarrow>
     io_source s' = io_source s \<and> io_fd s' = io_fd s \<and> io_downstream s' = io_downstream s \<and>
     io_registered s' = io_registered s \<and> io_readListener s' = io_readListener s \<and>
     io_writeListener s' = io_writeListener s \<and> io_readTransport s' = io_readTransport s \<and>
     io_writeTransport s' = io_writeTransport s"

definition only_sources :: "'p io \<Rightarrow> 'p io \<Rightarrow> bool" where
  "only_sources s s' \<longleftrightarrow>
     io_fd s' = io_fd s \<and> (\<forall>t. io_interest s' (Plain t) = io_interest s (Plain t)) \<and>
     io_readListener s' = io_readListener s \<and> io_writeListener s' = io_writeListener s \<and>
     io_readTransport s' = io_readTransport s \<and> io_writeTransport s' = io_writeTransport s"

lemma only_interest_wiring: "only_interest s s' \<Longrightarrow> io_wiring fits s' = io_wiring fits s"
  unfolding only_interest_def io_wiring_def listener_fd_def by (elim conjE) (simp only:)

lemma only_interest_update [simp]:
  "only_interest s (s\<lparr>io_interest := I\<rparr>)" "only_interest s (s\<lparr>io_interest := I, io_poller := p\<rparr>)" "only_interest s s"
  by (simp_all add: only_interest_def)

lemma same_wiring:
  "io_source s' = io_source s \<Longrightarrow> io_fd s' = io_fd s \<Longrightarrow> io_downstream s' = io_downstream s \<Longrightarrow>
    io_registered s' = io_registered s \<Longrightarrow> io_wiring fits s' = io_wiring fits s"
  unfolding io_wiring_def listener_fd_def by (simp only:)

lemma same_watching:
  "io_fault s' = io_fault s \<Longrightarrow> io_poller s' = io_poller s \<Longrightarrow> io_interest s' = io_interest s \<Longrightarrow>
    io_downstream s' = io_downstream s \<Longrightarrow> io_registered s' = io_registered s \<Longrightarrow>
    io_watching watched good s' = io_watching watched good s"
  unfolding io_watching_def by (simp only:)

lemma io_wiring_links [simp]:
  "io_wiring fits (s\<lparr>io_readListener := R\<rparr>) = io_wiring fits s"
  "io_wiring fits (s\<lparr>io_readTransport := T\<rparr>) = io_wiring fits s"
  "io_wiring fits (s\<lparr>io_writeListener := R\<rparr>) = io_wiring fits s"
  "io_wiring fits (s\<lparr>io_writeTransport := T\<rparr>) = io_wiring fits s"
  by (rule same_wiring; simp)+

lemma io_watching_links [simp]:
  "io_watching watched good (s\<lparr>io_readListener := R\<rparr>) = io_watching watched good s"
  "io_watching watched good (s\<lparr>io_readTransport := T\<rparr>) = io_watching watched good s"
  "io_watching watched good (s\<lparr>io_writeListener := R\<rparr>) = io_watching watched good s"
  "io_watching watched good (s\<lparr>io_writeTransport := T\<rparr>) = io_watching watched good s"
  by (rule same_watching; simp)+

lemma io_wiring_update [simp]:
  "io_wiring fits (s\<lparr>io_interest := I\<rparr>) = io_wiring fits s"
  "io_wiring fits (s\<lparr>io_interest := I, io_poller := p\<rparr>) = io_wiring fits s"
  by (rule only_interest_wiring; simp)+

context event_poller
begin

abbreviation core :: "'p io \<Rightarrow> bool" where
  "core s \<equiv> io_wiring fits s \<and> io_watching watched good s"

lemma call_set:
  assumes "core s" and "io_registered s fd = Some l" and "rw \<le> 3" and "s' = s\<lparr>io_interest := I\<rparr>"
  obtains p' where "call_poller (pl_set P fd rw) s' = s'\<lparr>io_poller := p'\<rparr>" and "good p'"
    and "watched p' = (watched (io_poller s))(fd := Some rw)"
proof -
  have "good (io_poller s)" "fits fd" "watched (io_poller s) fd \<noteq> None"
    using assms(1,2) wiring_registered [of fits s fd l] by (auto simp: io_watching_def)
  from set_interest [OF this(1,2) assms(3) this(3)] obtain p' where
    "pl_set P fd rw (io_poller s) = Some p'" "good p'" "watched p' = (watched (io_poller s))(fd := Some rw)" by blast
  then show ?thesis using that [of p'] assms(4) by (simp add: call_poller_def)
qed

text \<open>The interests \<open>I\<close> differ from the old ones at most where the poller was told so.\<close>

lemma watching_update:
  assumes "core s" and "io_registered s fd = Some l" and "good p'"
    and "watched p' = (watched (io_poller s))(fd := Some (I l))" and "\<forall>l. I l \<le> 3"
    and "\<forall>f i. io_downstream s f = Some i \<longrightarrow> I (Forwarder f) = I (Plain i)"
    and "\<forall>fd' l'. io_registered s fd' = Some l' \<longrightarrow> l' \<noteq> l \<longrightarrow> I l' = io_interest s l'"
  shows "io_watching watched good (s\<lparr>io_interest := I, io_poller := p'\<rparr>)"
proof -
  have "watched p' fd' = map_option I (io_registered s fd')" for fd'
  proof (cases "fd' = fd")
    case True
    with assms(2,4) show ?thesis by simp
  next
    case False
    then have "io_registered s fd' \<noteq> Some l" using wiring_unique [of fits s fd' l fd] assms(1,2) by blast
    then show ?thesis using False assms(1,4,7) by (cases "io_registered s fd'") (auto simp: io_watching_def)
  qed
  with assms(1,3,5,6) show ?thesis by (simp add: io_watching_def)
qed

lemma setTransportInterest_core:
  assumes "core s" and "rw \<le> 3"
  shows "core (setTransportInterest P t rw s) \<and> only_interest s (setTransportInterest P t rw s) \<and>
    io_interest (setTransportInterest P t rw s) (Plain t) = rw \<and>
    (\<forall>u. u \<noteq> t \<longrightarrow> io_interest (setTransportInterest P t rw s) (Plain u) = io_interest s (Plain u))"
proof (cases "io_interest s (Plain t) = rw")
  case True
  with assms show ?thesis by (simp add: setTransportInterest_def setIoInterest_def)
next
  case differs: False
  have w: "io_wiring fits s" and watch: "io_watching watched good s" using assms(1) by simp_all
  then have le: "\<forall>l. io_interest s l \<le> 3" by (simp add: io_watching_def)
  define s1 where "s1 = s\<lparr>io_interest := (io_interest s)(Plain t := rw)\<rparr>"
  have eq: "setTransportInterest P t rw s =
      (case io_source s (Plain t) of None \<Rightarrow> s1 | Some src \<Rightarrow> source_updateIoInterest P src (Plain t) s1)"
    using differs unfolding setTransportInterest_def setIoInterest_def s1_def Let_def by simp
  consider "io_source s (Plain t) = None" | "io_source s (Plain t) = Some Dispatcher"
    | f where "io_source s (Plain t) = Some (ForwarderSource f)"
    by (metis io_source.exhaust option.exhaust)
  then show ?thesis
  proof cases
    case 1
    have nr: "io_registered s fd \<noteq> Some (Plain t)" for fd using wiring_registered [OF w] 1 by fastforce
    have nd: "io_downstream s f \<noteq> Some t" for f using wiring_downstream [OF w] 1 by simp
    have "map_option ((io_interest s)(Plain t := rw)) (io_registered s fd) = map_option (io_interest s) (io_registered s fd)" for fd
      using nr [of fd] by (cases "io_registered s fd") auto
    then have "io_watching watched good s1"
      using watch nd assms(2) by (auto simp: io_watching_def s1_def)
    moreover have "only_interest s s1" by (simp add: s1_def)
    ultimately show ?thesis using 1 w by (simp add: eq s1_def)
  next
    case 2
    note reg = wiring_plain [OF w 2]
    from call_set [OF assms(1) reg assms(2) s1_def] obtain p' where
      p': "call_poller (pl_set P (io_fd s t) rw) s1 = s1\<lparr>io_poller := p'\<rparr>" "good p'"
        "watched p' = (watched (io_poller s))(io_fd s t := Some rw)" .
    have eq2: "setTransportInterest P t rw s = s\<lparr>io_interest := (io_interest s)(Plain t := rw), io_poller := p'\<rparr>"
      using 2 p'(1)
      by (simp add: eq source_updateIoInterest_def updateIoInterest_def disp_updateIoInterestInternal_def s1_def
          listener_fd_def)
    have nd: "io_downstream s f \<noteq> Some t" for f using wiring_downstream [OF w] 2 by simp
    have "io_watching watched good (s\<lparr>io_interest := (io_interest s)(Plain t := rw), io_poller := p'\<rparr>)"
      by (rule watching_update [OF assms(1) reg p'(2)])
        (use p'(3) le assms(2) nd watch in \<open>auto simp: io_watching_def\<close>)
    then show ?thesis unfolding eq2 using w by simp
  next
    case 3
    then have down: "io_downstream s f = Some t" using wiring_downstream [OF w] by simp
    note reg = wiring_forwarder(1) [OF w down] and src = wiring_forwarder(2) [OF w down]
    have same: "io_interest s (Forwarder f) = io_interest s (Plain t)" using watch down by (simp add: io_watching_def)
    define s2 where "s2 = s\<lparr>io_interest := (io_interest s)(Plain t := rw, Forwarder f := rw)\<rparr>"
    from call_set [OF assms(1) reg assms(2) s2_def] obtain p' where
      p': "call_poller (pl_set P (io_fd s t) rw) s2 = s2\<lparr>io_poller := p'\<rparr>" "good p'"
        "watched p' = (watched (io_poller s))(io_fd s t := Some rw)" .
    have eq2: "setTransportInterest P t rw s =
        s\<lparr>io_interest := (io_interest s)(Plain t := rw, Forwarder f := rw), io_poller := p'\<rparr>"
      using 3 p'(1) differs same src down
      by (simp add: eq source_updateIoInterest_def updateIoInterest_def disp_updateIoInterestInternal_def s1_def s2_def
          listener_fd_def fwd_updateIoInterestInternal_def setIoInterest_def disp_updateIoInterest_def Let_def)
    have np: "io_registered s fd \<noteq> Some (Plain t)" for fd using wiring_registered [OF w] 3 by fastforce
    have od: "g = f" if "io_downstream s g = Some t" for g using wiring_downstream [OF w] 3 that by simp
    have fw: "((io_interest s)(Plain t := rw, Forwarder f := rw)) (Forwarder g) =
        ((io_interest s)(Plain t := rw, Forwarder f := rw)) (Plain j)" if d: "io_downstream s g = Some j" for g j
    proof (cases "g = f")
      case True
      then have "j = t" using d down by simp
      then show ?thesis using True by simp
    next
      case False
      then have "j \<noteq> t" using od [of g] d by blast
      then show ?thesis using False watch d by (simp add: io_watching_def)
    qed
    have "io_watching watched good (s\<lparr>io_interest := (io_interest s)(Plain t := rw, Forwarder f := rw), io_poller := p'\<rparr>)"
    proof (rule watching_update [OF assms(1) reg p'(2)])
      show "\<forall>g j. io_downstream s g = Some j \<longrightarrow> ((io_interest s)(Plain t := rw, Forwarder f := rw)) (Forwarder g) =
          ((io_interest s)(Plain t := rw, Forwarder f := rw)) (Plain j)" using fw by blast
      show "\<forall>fd' l'. io_registered s fd' = Some l' \<longrightarrow> l' \<noteq> Forwarder f \<longrightarrow>
          ((io_interest s)(Plain t := rw, Forwarder f := rw)) l' = io_interest s l'"
        using np by auto
    qed (use p'(3) le assms(2) in simp_all)
    then show ?thesis unfolding eq2 using w by simp
  qed
qed


text \<open>Adding and removing.\<close>

lemma call_add:
  assumes "io_watching watched good s" and "io_registered s fd = None" and "fits fd"
    and "io_poller s' = io_poller s"
  obtains p' where "call_poller (pl_add P fd (io_interest s l)) s' = s'\<lparr>io_poller := p'\<rparr>" and "good p'"
    and "watched p' = (watched (io_poller s))(fd := Some (io_interest s l))"
proof -
  have "good (io_poller s)" "watched (io_poller s) fd = None" "io_interest s l \<le> 3"
    using assms(1,2) by (simp_all add: io_watching_def)
  from add [OF this(1) assms(3) this(3,2)] obtain p' where
    "pl_add P fd (io_interest s l) (io_poller s) = Some p'" "good p'"
    "watched p' = (watched (io_poller s))(fd := Some (io_interest s l))" by blast
  then show ?thesis using that [of p'] assms(4) by (simp add: call_poller_def)
qed

lemma call_remove:
  assumes "core s" and "io_registered s fd = Some l" and "io_poller s' = io_poller s"
  obtains p' where "call_poller (pl_remove P fd) s' = s'\<lparr>io_poller := p'\<rparr>" and "good p'"
    and "watched p' = (watched (io_poller s))(fd := None)"
proof -
  have "good (io_poller s)" "fits fd" "watched (io_poller s) fd \<noteq> None"
    using assms(1,2) wiring_registered [of fits s fd l] by (auto simp: io_watching_def)
  from remove [OF this] obtain p' where
    "pl_remove P fd (io_poller s) = Some p'" "good p'" "watched p' = (watched (io_poller s))(fd := None)" by blast
  then show ?thesis using that [of p'] assms(3) by (simp add: call_poller_def)
qed

lemma remove_source_core:
  assumes "core s" and "io_source s (Plain i) = Some src"
  defines "s' \<equiv> source_removeIoListener P src (Plain i) s"
  shows "core s' \<and> only_sources s s' \<and> io_source s' (Plain i) = None \<and>
    (\<forall>fd. io_registered s' fd = (if fd = io_fd s i then None else io_registered s fd)) \<and>
    (\<forall>f. io_downstream s' f = (if io_downstream s f = Some i then None else io_downstream s f))"
proof (cases src)
  case Dispatcher
  have w: "io_wiring fits s" and watch: "io_watching watched good s" using assms(1) by simp_all
  have source: "io_source s (Plain i) = Some Dispatcher" using assms(2) Dispatcher by simp
  note reg = wiring_plain [OF w source]
  define s1 where "s1 = s\<lparr>io_source := (io_source s)(Plain i := None), io_registered := (io_registered s)(io_fd s i := None)\<rparr>"
  obtain p' where p': "call_poller (pl_remove P (io_fd s i)) s1 = s1\<lparr>io_poller := p'\<rparr>" "good p'"
    "watched p' = (watched (io_poller s))(io_fd s i := None)"
    by (rule call_remove [OF assms(1) reg, of s1]) (simp add: s1_def)
  have eq: "s' = s1\<lparr>io_poller := p'\<rparr>"
    using p'(1) source reg
    by (simp add: s'_def Dispatcher source_removeIoListener_def disp_removeIoListener_def removeIoListener_def
        disp_removeIoListenerInternal_def listener_fd_def s1_def)
  have nd: "io_downstream s f \<noteq> Some i" for f using wiring_downstream [OF w] source by simp
  have "io_wiring fits s'"
    unfolding io_wiring_def
  proof (intro conjI allI impI)
    fix fd l assume "io_registered s' fd = Some l"
    then have r: "io_registered s fd = Some l" "fd \<noteq> io_fd s i" by (auto simp: eq s1_def split: if_splits)
    then have "l \<noteq> Plain i" using wiring_registered [OF w r(1)] by (auto simp: listener_fd_def)
    then show "io_source s' l = Some Dispatcher" "listener_fd l s' = Some fd" "fits fd"
      using wiring_registered [OF w r(1)] listener_fd_same [of s' s l] by (simp_all add: eq s1_def)
  next
    fix l assume "io_source s' l = Some Dispatcher"
    then have l: "l \<noteq> Plain i" "io_source s l = Some Dispatcher" by (auto simp: eq s1_def split: if_splits)
    from wiring_source [OF w l(2)] obtain fd where fd: "listener_fd l s = Some fd" "io_registered s fd = Some l" by blast
    moreover have "fd \<noteq> io_fd s i" using fd(2) reg l(1) by auto
    ultimately show "\<exists>fd. listener_fd l s' = Some fd \<and> io_registered s' fd = Some l"
      using listener_fd_same [of s' s l] by (auto simp: eq s1_def)
  next
    fix g
    show "io_source s' (Forwarder g) = (if io_downstream s' g = None then None else Some Dispatcher)"
      using wiring_forwarder_source [OF w, of g] by (simp add: eq s1_def)
  next
    fix g j
    show "(io_downstream s' g = Some j) = (io_source s' (Plain j) = Some (ForwarderSource g))"
      using wiring_downstream [OF w, of g j] nd [of g] by (auto simp: eq s1_def)
  qed
  moreover have "io_watching watched good s'"
    using watch p'(2,3) by (simp add: io_watching_def eq s1_def)
  ultimately show ?thesis using nd by (simp add: eq s1_def only_sources_def)
next
  case (ForwarderSource f)
  have w: "io_wiring fits s" and watch: "io_watching watched good s" using assms(1) by simp_all
  have source: "io_source s (Plain i) = Some (ForwarderSource f)" using assms(2) ForwarderSource by simp
  then have down: "io_downstream s f = Some i" using wiring_downstream [OF w] by simp
  note reg = wiring_forwarder(1) [OF w down] and fsrc = wiring_forwarder(2) [OF w down]
  define s1 where "s1 = s\<lparr>io_source := (io_source s)(Plain i := None, Forwarder f := None),
      io_registered := (io_registered s)(io_fd s i := None)\<rparr>"
  obtain p' where p': "call_poller (pl_remove P (io_fd s i)) s1 = s1\<lparr>io_poller := p'\<rparr>" "good p'"
    "watched p' = (watched (io_poller s))(io_fd s i := None)"
    by (rule call_remove [OF assms(1) reg, of s1]) (simp add: s1_def)
  have eq: "s' = s1\<lparr>io_poller := p', io_downstream := (io_downstream s)(f := None)\<rparr>"
    using p'(1) source reg fsrc down
    by (simp add: s'_def ForwarderSource source_removeIoListener_def disp_removeIoListener_def removeIoListener_def
        disp_removeIoListenerInternal_def listener_fd_def fwd_removeIoListenerInternal_def s1_def Let_def)
  have od: "g = f" if "io_downstream s g = Some i" for g using wiring_downstream [OF w] source that by simp
  have "io_wiring fits s'"
    unfolding io_wiring_def
  proof (intro conjI allI impI)
    fix fd l assume "io_registered s' fd = Some l"
    then have r: "io_registered s fd = Some l" "fd \<noteq> io_fd s i" by (auto simp: eq s1_def split: if_splits)
    then have "l \<noteq> Plain i" "l \<noteq> Forwarder f"
      using wiring_registered [OF w r(1)] down by (auto simp: listener_fd_def)
    then show "io_source s' l = Some Dispatcher" "listener_fd l s' = Some fd" "fits fd"
      using wiring_registered [OF w r(1)] by (cases l; simp add: eq s1_def)+
  next
    fix l assume "io_source s' l = Some Dispatcher"
    then have l: "l \<noteq> Plain i" "l \<noteq> Forwarder f" "io_source s l = Some Dispatcher"
      by (auto simp: eq s1_def split: if_splits)
    from wiring_source [OF w l(3)] obtain fd where fd: "listener_fd l s = Some fd" "io_registered s fd = Some l" by blast
    moreover have "fd \<noteq> io_fd s i" using fd(2) reg l(2) by auto
    ultimately show "\<exists>fd. listener_fd l s' = Some fd \<and> io_registered s' fd = Some l"
      using l by (cases l) (auto simp: eq s1_def)
  next
    fix g
    show "io_source s' (Forwarder g) = (if io_downstream s' g = None then None else Some Dispatcher)"
      using wiring_forwarder_source [OF w, of g] by (simp add: eq s1_def)
  next
    fix g j
    show "(io_downstream s' g = Some j) = (io_source s' (Plain j) = Some (ForwarderSource g))"
      using wiring_downstream [OF w, of g j] source down by (auto simp: eq s1_def)
  qed
  moreover have "io_watching watched good s'"
    using watch p'(2,3) by (simp add: io_watching_def eq s1_def)
  moreover have "io_downstream s' g = (if io_downstream s g = Some i then None else io_downstream s g)" for g
    using od [of g] down by (cases "g = f") (auto simp: eq s1_def)
  moreover have "only_sources s s'" "io_source s' (Plain i) = None"
    "io_registered s' fd = (if fd = io_fd s i then None else io_registered s fd)" for fd
    by (simp_all add: eq s1_def only_sources_def)
  ultimately show ?thesis by blast
qed


lemma disp_add_core:
  assumes "core s" and "io_source s (Plain i) = None" and "io_registered s (io_fd s i) = None" and "fits (io_fd s i)"
  defines "s' \<equiv> disp_addIoListener P (Plain i) s"
  shows "core s' \<and> only_sources s s'"
proof -
  have w: "io_wiring fits s" and watch: "io_watching watched good s" using assms(1) by simp_all
  define s1 where "s1 = s\<lparr>io_source := (io_source s)(Plain i := Some Dispatcher),
      io_registered := (io_registered s)(io_fd s i := Some (Plain i))\<rparr>"
  obtain p' where p': "call_poller (pl_add P (io_fd s i) (io_interest s (Plain i))) s1 = s1\<lparr>io_poller := p'\<rparr>" "good p'"
    "watched p' = (watched (io_poller s))(io_fd s i := Some (io_interest s (Plain i)))"
    by (rule call_add [OF watch assms(3,4), where s' = s1 and l = "Plain i"]) (simp_all add: s1_def)
  have eq: "s' = s1\<lparr>io_poller := p'\<rparr>"
    using p'(1) assms(2,3)
    by (simp add: s'_def disp_addIoListener_def addIoListener_def disp_addIoListenerInternal_def s1_def Let_def)
  have "io_wiring fits s'"
    unfolding io_wiring_def
  proof (intro conjI allI impI)
    fix fd l assume "io_registered s' fd = Some l"
    then have r: "fd = io_fd s i \<and> l = Plain i \<or> fd \<noteq> io_fd s i \<and> io_registered s fd = Some l"
      by (auto simp: eq s1_def split: if_splits)
    then show "io_source s' l = Some Dispatcher" "listener_fd l s' = Some fd" "fits fd"
      using wiring_registered [OF w, of fd l] listener_fd_same [of s' s l] assms(4) by (auto simp: eq s1_def)
  next
    fix l assume "io_source s' l = Some Dispatcher"
    then have l: "l = Plain i \<or> l \<noteq> Plain i \<and> io_source s l = Some Dispatcher" by (auto simp: eq s1_def split: if_splits)
    then show "\<exists>fd. listener_fd l s' = Some fd \<and> io_registered s' fd = Some l"
    proof
      assume "l \<noteq> Plain i \<and> io_source s l = Some Dispatcher"
      then obtain fd where "listener_fd l s = Some fd" "io_registered s fd = Some l" using wiring_source [OF w] by blast
      then show ?thesis
        using assms(3) listener_fd_same [of s' s l] by (intro exI [of _ fd]) (auto simp: eq s1_def)
    qed (simp add: eq s1_def)
  next
    fix g
    show "io_source s' (Forwarder g) = (if io_downstream s' g = None then None else Some Dispatcher)"
      using wiring_forwarder_source [OF w, of g] by (simp add: eq s1_def)
  next
    fix g j
    show "(io_downstream s' g = Some j) = (io_source s' (Plain j) = Some (ForwarderSource g))"
      using wiring_downstream [OF w, of g j] assms(2) by (auto simp: eq s1_def)
  qed
  moreover have "io_watching watched good s'"
    using watch p'(2,3) by (simp add: io_watching_def eq s1_def)
  ultimately show ?thesis by (simp add: eq s1_def only_sources_def)
qed

lemma fwd_add_core:
  assumes "core s" and "io_source s (Plain i) = None" and "io_registered s (io_fd s i) = None" and "fits (io_fd s i)"
    and "io_downstream s f = None"
  defines "s' \<equiv> fwd_addIoListener P f (Plain i) s"
  shows "core s' \<and> only_sources s s'"
proof -
  have w: "io_wiring fits s" and watch: "io_watching watched good s" using assms(1) by simp_all
  have fsrc: "io_source s (Forwarder f) = None" using wiring_forwarder_source [OF w, of f] assms(5) by simp
  define s1 where "s1 = s\<lparr>io_interest := (io_interest s)(Forwarder f := io_interest s (Plain i)),
      io_downstream := (io_downstream s)(f := Some i),
      io_source := (io_source s)(Plain i := Some (ForwarderSource f), Forwarder f := Some Dispatcher),
      io_registered := (io_registered s)(io_fd s i := Some (Forwarder f))\<rparr>"
  obtain p' where p': "call_poller (pl_add P (io_fd s i) (io_interest s (Plain i))) s1 = s1\<lparr>io_poller := p'\<rparr>" "good p'"
    "watched p' = (watched (io_poller s))(io_fd s i := Some (io_interest s (Plain i)))"
    by (rule call_add [OF watch assms(3,4), where s' = s1 and l = "Plain i"]) (simp_all add: s1_def)
  have set: "setIoInterest (disp_updateIoInterest P) (Forwarder f) rw t =
      t\<lparr>io_interest := (io_interest t)(Forwarder f := rw)\<rparr>" if "io_source t (Forwarder f) = None" for rw t
    using that by (simp add: setIoInterest_def fun_upd_idem)
  have "s' = (let t = s\<lparr>io_source := (io_source s)(Plain i := Some (ForwarderSource f))\<rparr>;
      t1 = setIoInterest (disp_updateIoInterest P) (Forwarder f) (io_interest s (Plain i)) t
      in disp_addIoListener P (Forwarder f) (t1\<lparr>io_downstream := (io_downstream t1)(f := Some i)\<rparr>))"
    using assms(2) by (simp add: s'_def fwd_addIoListener_def addIoListener_def fwd_addIoListenerInternal_def Let_def)
  also have "\<dots> = disp_addIoListener P (Forwarder f) (s\<lparr>io_source := (io_source s)(Plain i := Some (ForwarderSource f)),
      io_interest := (io_interest s)(Forwarder f := io_interest s (Plain i)),
      io_downstream := (io_downstream s)(f := Some i)\<rparr>)"
    using fsrc by (simp add: set)
  also have "\<dots> = call_poller (pl_add P (io_fd s i) (io_interest s (Plain i))) s1"
    using fsrc assms(3)
    by (simp add: disp_addIoListener_def addIoListener_def disp_addIoListenerInternal_def s1_def Let_def)
  finally have eq: "s' = s1\<lparr>io_poller := p'\<rparr>" using p'(1) by simp
  have nf: "l \<noteq> Forwarder f" if "io_registered s fd = Some l" for fd l
    using wiring_registered [OF w that] fsrc by auto
  have fd_other: "listener_fd l s' = listener_fd l s" if "l \<noteq> Forwarder f" for l
    using that by (cases l) (auto simp: eq s1_def)
  have "io_wiring fits s'"
    unfolding io_wiring_def
  proof (intro conjI allI impI)
    fix fd l assume "io_registered s' fd = Some l"
    then have r: "fd = io_fd s i \<and> l = Forwarder f \<or> fd \<noteq> io_fd s i \<and> io_registered s fd = Some l"
      by (auto simp: eq s1_def split: if_splits)
    then show "io_source s' l = Some Dispatcher" "listener_fd l s' = Some fd" "fits fd"
      using wiring_registered [OF w, of fd l] fd_other [of l] nf [of fd l] assms(2,4) by (auto simp: eq s1_def)
  next
    fix l assume "io_source s' l = Some Dispatcher"
    then have l: "l = Forwarder f \<or> l \<noteq> Forwarder f \<and> io_source s l = Some Dispatcher"
      by (auto simp: eq s1_def split: if_splits)
    then show "\<exists>fd. listener_fd l s' = Some fd \<and> io_registered s' fd = Some l"
    proof
      assume a: "l \<noteq> Forwarder f \<and> io_source s l = Some Dispatcher"
      then obtain fd where "listener_fd l s = Some fd" "io_registered s fd = Some l" using wiring_source [OF w] by blast
      then show ?thesis
        using assms(3) fd_other [of l] a by (intro exI [of _ fd]) (auto simp: eq s1_def)
    qed (simp add: eq s1_def)
  next
    fix g
    show "io_source s' (Forwarder g) = (if io_downstream s' g = None then None else Some Dispatcher)"
      using wiring_forwarder_source [OF w, of g] by (simp add: eq s1_def)
  next
    fix g j
    show "(io_downstream s' g = Some j) = (io_source s' (Plain j) = Some (ForwarderSource g))"
      using wiring_downstream [OF w, of g j] assms(2,5) by (auto simp: eq s1_def)
  qed
  moreover have "io_watching watched good s'"
  proof -
    have "map_option (io_interest s') (io_registered s' fd) = watched p' fd" for fd
      using watch p'(3) nf [of fd] by (cases "io_registered s fd") (auto simp: io_watching_def eq s1_def)
    moreover have "io_interest s' (Forwarder g) = io_interest s' (Plain j)" if "io_downstream s' g = Some j" for g j
      using watch that by (cases "g = f") (auto simp: io_watching_def eq s1_def)
    ultimately show ?thesis using watch p'(2) by (simp add: io_watching_def eq s1_def)
  qed
  ultimately show ?thesis by (simp add: eq s1_def only_sources_def)
qed


text \<open>With a source that the listener has already.\<close>

lemma detached:
  assumes "core s" and "io_source s (Plain i) = Some src" and "fd_free_for i s"
  defines "s1 \<equiv> source_removeIoListener P src (Plain i) s"
  shows "core s1" and "only_sources s s1" and "io_source s1 (Plain i) = None" and "io_registered s1 (io_fd s1 i) = None"
    and "io_downstream s f = None \<Longrightarrow> io_downstream s1 f = None"
  using remove_source_core [OF assms(1,2), folded s1_def] by (auto simp: only_sources_def)

lemma addIoListener_detaches:
  assumes "io_source s l = Some src" and "src \<noteq> this"
  shows "addIoListener (source_removeIoListener P) f this l s =
    (let s1 = source_removeIoListener P src l s; s2 = s1\<lparr>io_source := (io_source s1)(l := Some this)\<rparr>
     in f l (io_interest s2 l) s2)"
  using assms by (simp add: addIoListener_def)

lemma free_unregistered:
  assumes "core s" and "io_source s (Plain i) = None" and "fd_free_for i s"
  shows "io_registered s (io_fd s i) = None"
proof (rule ccontr)
  assume "io_registered s (io_fd s i) \<noteq> None"
  then obtain l where l: "io_registered s (io_fd s i) = Some l" by blast
  then have e: "endpoint l s = Some i" using assms(3) by (simp add: fd_free_for_def)
  have src: "io_source s l = Some Dispatcher" using wiring_registered [of fits s _ l] assms(1) l by blast
  show False
  proof (cases l)
    case (Plain j)
    then show ?thesis using e src assms(2) by (simp add: endpoint_def)
  next
    case (Forwarder f)
    then have "io_downstream s f = Some i" using e by (simp add: endpoint_def)
    then show ?thesis using wiring_downstream [of fits s f i] assms(1,2) by simp
  qed
qed

lemma disp_add_any:
  assumes "core s" and "fd_free_for i s" and "fits (io_fd s i)"
  shows "core (disp_addIoListener P (Plain i) s) \<and> only_sources s (disp_addIoListener P (Plain i) s)"
proof -
  consider "io_source s (Plain i) = None" | "io_source s (Plain i) = Some Dispatcher"
    | f where "io_source s (Plain i) = Some (ForwarderSource f)"
    by (metis io_source.exhaust option.exhaust)
  then show ?thesis
  proof cases
    case 1
    from disp_add_core [OF assms(1) 1 free_unregistered [OF assms(1) 1 assms(2)] assms(3)] show ?thesis .
  next
    case 2
    then have "io_registered s (io_fd s i) = Some (Plain i)" using wiring_plain assms(1) by blast
    moreover have "s\<lparr>io_source := (io_source s)(Plain i := Some Dispatcher)\<rparr> = s" using 2 by (simp add: fun_upd_idem)
    ultimately have "disp_addIoListener P (Plain i) s = s"
      using 2 by (simp add: disp_addIoListener_def addIoListener_def disp_addIoListenerInternal_def Let_def)
    then show ?thesis using assms(1) by (simp add: only_sources_def)
  next
    case 3
    define s1 where "s1 = source_removeIoListener P (ForwarderSource f) (Plain i) s"
    note d = detached [OF assms(1) 3 assms(2), folded s1_def]
    have fd: "fits (io_fd s1 i)" using d(2) assms(3) by (simp add: only_sources_def)
    have "disp_addIoListener P (Plain i) s = disp_addIoListener P (Plain i) s1"
      using 3 d(3) addIoListener_detaches [of s "Plain i" "ForwarderSource f" Dispatcher]
      by (simp add: disp_addIoListener_def s1_def [symmetric] Let_def) (simp add: addIoListener_def Let_def)
    then show ?thesis using disp_add_core [OF d(1,3,4) fd] d(2) by (simp add: only_sources_def)
  qed
qed

lemma fwd_add_any:
  assumes "core s" and "fd_free_for i s" and "fits (io_fd s i)" and "io_downstream s f = None"
  shows "core (fwd_addIoListener P f (Plain i) s) \<and> only_sources s (fwd_addIoListener P f (Plain i) s)"
proof (cases "io_source s (Plain i)")
  case None
  from fwd_add_core [OF assms(1) None free_unregistered [OF assms(1) None assms(2)] assms(3,4)] show ?thesis .
next
  case (Some src)
  have ne: "src \<noteq> ForwarderSource f"
  proof
    assume "src = ForwarderSource f"
    with Some assms(1,4) wiring_downstream [of fits s f i] show False by simp
  qed
  define s1 where "s1 = source_removeIoListener P src (Plain i) s"
  note d = detached [OF assms(1) Some assms(2), folded s1_def]
  have fd: "fits (io_fd s1 i)" using d(2) assms(3) by (simp add: only_sources_def)
  have "fwd_addIoListener P f (Plain i) s = fwd_addIoListener P f (Plain i) s1"
    using Some ne d(3) addIoListener_detaches [of s "Plain i" src "ForwarderSource f"]
    by (simp add: fwd_addIoListener_def s1_def [symmetric] Let_def) (simp add: addIoListener_def Let_def)
  then show ?thesis using fwd_add_core [OF d(1,3,4) fd d(5) [OF assms(4)]] d(2) by (simp add: only_sources_def)
qed

text \<open>Closing.\<close>

lemma io_close_core:
  assumes "core s"
  shows "core (io_close P t s) \<and> io_interest (io_close P t s) (Plain u) = io_interest s (Plain u) \<and>
    io_readListener (io_close P t s) = io_readListener s \<and> io_writeListener (io_close P t s) = io_writeListener s \<and>
    io_readTransport (io_close P t s) = io_readTransport s \<and> io_writeTransport (io_close P t s) = io_writeTransport s"
proof (cases "io_fd s t = - 1")
  case True
  with assms show ?thesis by (simp add: io_close_def)
next
  case False
  define s1 where "s1 = (case io_source s (Plain t) of None \<Rightarrow> s | Some src \<Rightarrow> source_removeIoListener P src (Plain t) s)"
  have s1: "core s1" "io_source s1 (Plain t) = None" "only_sources s s1"
    using remove_source_core [OF assms, of t] assms by (auto simp: s1_def only_sources_def split: option.splits)
  have eq: "io_close P t s = s1\<lparr>io_fd := (io_fd s1)(t := - 1)\<rparr>"
    using False unfolding io_close_def s1_def Let_def by simp
  have nd: "io_downstream s1 f \<noteq> Some t" for f using wiring_downstream [of fits s1 f t] s1(1,2) by simp
  have fd: "listener_fd l (io_close P t s) = listener_fd l s1" if "io_source s1 l = Some Dispatcher" for l
    using that s1(2) nd by (cases l) (auto simp: eq intro!: option.map_cong0 split: option.splits)
  have "io_wiring fits (io_close P t s)"
    unfolding io_wiring_def
  proof (intro conjI allI impI)
    fix fd l assume "io_registered (io_close P t s) fd = Some l"
    then have "io_registered s1 fd = Some l" by (simp add: eq)
    then show "io_source (io_close P t s) l = Some Dispatcher" "listener_fd l (io_close P t s) = Some fd" "fits fd"
      using wiring_registered [of fits s1 fd l] s1(1) fd [of l] by (simp_all add: eq)
  next
    fix l assume "io_source (io_close P t s) l = Some Dispatcher"
    then show "\<exists>fd. listener_fd l (io_close P t s) = Some fd \<and> io_registered (io_close P t s) fd = Some l"
      using wiring_source [of fits s1 l] s1(1) fd [of l] by (simp add: eq)
  next
    fix g
    show "io_source (io_close P t s) (Forwarder g) = (if io_downstream (io_close P t s) g = None then None else Some Dispatcher)"
      using wiring_forwarder_source [of fits s1 g] s1(1) by (simp add: eq)
  next
    fix g j
    show "(io_downstream (io_close P t s) g = Some j) = (io_source (io_close P t s) (Plain j) = Some (ForwarderSource g))"
      using wiring_downstream [of fits s1 g j] s1(1) by (simp add: eq)
  qed
  then show ?thesis using s1 by (simp add: eq io_watching_def only_sources_def)
qed


text \<open>The listeners of transports.\<close>

lemma wanted_le: "wanted t s \<le> 3"
  by (simp add: wanted_def ReadBit_def WriteBit_def)

lemma updateTransportIoInterest_core:
  assumes "core s" and "\<forall>u. u \<noteq> t \<longrightarrow> io_interest s (Plain u) = wanted u s"
  defines "s' \<equiv> updateTransportIoInterest P t s"
  shows "core s' \<and> only_interest s s' \<and> (\<forall>u. io_interest s' (Plain u) = wanted u s')"
proof -
  have eq: "s' = setTransportInterest P t (wanted t s) s"
    by (simp add: s'_def updateTransportIoInterest_def wanted_def)
  note i = setTransportInterest_core [OF assms(1) wanted_le [of t s], of t, folded eq]
  then have "wanted u s' = wanted u s" for u by (simp add: wanted_def only_interest_def)
  with i assms(2) show ?thesis by metis
qed

lemma clearReadListener_core:
  assumes "core s" and "\<forall>u. u \<noteq> t \<longrightarrow> io_interest s (Plain u) = wanted u s"
  defines "s' \<equiv> clearReadListener P t s"
  shows "core s' \<and> (\<forall>u. io_interest s' (Plain u) = wanted u s') \<and>
    io_readListener s' = (io_readListener s)(t := None) \<and>
    io_readTransport s' = (case io_readListener s t of None \<Rightarrow> io_readTransport s | Some old \<Rightarrow> (io_readTransport s)(old := None)) \<and>
    io_writeListener s' = io_writeListener s \<and> io_writeTransport s' = io_writeTransport s"
proof -
  define s1 where "s1 = (case io_readListener s t of
          None \<Rightarrow> s
        | Some old \<Rightarrow> s\<lparr>io_readTransport := (io_readTransport s)(old := None),
                        io_readListener := (io_readListener s)(t := None)\<rparr>)"
  have eq: "s' = updateTransportIoInterest P t s1" by (simp add: s'_def clearReadListener_def s1_def)
  have s1: "core s1" "io_readListener s1 = (io_readListener s)(t := None)"
    "io_readTransport s1 = (case io_readListener s t of None \<Rightarrow> io_readTransport s | Some old \<Rightarrow> (io_readTransport s)(old := None))"
    "io_writeListener s1 = io_writeListener s" "io_writeTransport s1 = io_writeTransport s"
    "\<forall>u. u \<noteq> t \<longrightarrow> io_interest s1 (Plain u) = wanted u s1"
    using assms(1,2) by (auto simp: s1_def wanted_def fun_upd_idem split: option.splits)
  from updateTransportIoInterest_core [OF s1(1,6), folded eq] s1(2-5) show ?thesis by (simp add: only_interest_def)
qed


lemma clearWriteListener_core:
  assumes "core s" and "\<forall>u. u \<noteq> t \<longrightarrow> io_interest s (Plain u) = wanted u s"
  defines "s' \<equiv> clearWriteListener P t s"
  shows "core s' \<and> (\<forall>u. io_interest s' (Plain u) = wanted u s') \<and>
    io_writeListener s' = (io_writeListener s)(t := None) \<and>
    io_writeTransport s' = (case io_writeListener s t of None \<Rightarrow> io_writeTransport s | Some old \<Rightarrow> (io_writeTransport s)(old := None)) \<and>
    io_readListener s' = io_readListener s \<and> io_readTransport s' = io_readTransport s"
proof -
  define s1 where "s1 = (case io_writeListener s t of
          None \<Rightarrow> s
        | Some old \<Rightarrow> s\<lparr>io_writeTransport := (io_writeTransport s)(old := None),
                        io_writeListener := (io_writeListener s)(t := None)\<rparr>)"
  have eq: "s' = updateTransportIoInterest P t s1" by (simp add: s'_def clearWriteListener_def s1_def)
  have s1: "core s1" "io_writeListener s1 = (io_writeListener s)(t := None)"
    "io_writeTransport s1 = (case io_writeListener s t of None \<Rightarrow> io_writeTransport s | Some old \<Rightarrow> (io_writeTransport s)(old := None))"
    "io_readListener s1 = io_readListener s" "io_readTransport s1 = io_readTransport s"
    "\<forall>u. u \<noteq> t \<longrightarrow> io_interest s1 (Plain u) = wanted u s1"
    using assms(1,2) by (auto simp: s1_def wanted_def fun_upd_idem split: option.splits)
  from updateTransportIoInterest_core [OF s1(1,6), folded eq] s1(2-5) show ?thesis by (simp add: only_interest_def)
qed

end

text \<open>The two directions of a link as functions.\<close>

definition linked :: "(nat \<Rightarrow> nat option) \<Rightarrow> (nat \<Rightarrow> nat option) \<Rightarrow> bool" where
  "linked R T \<longleftrightarrow> (\<forall>t l. R t = Some l \<longleftrightarrow> T l = Some t)"

lemma transport_links_linked:
  "transport_links s \<longleftrightarrow> linked (io_readListener s) (io_readTransport s) \<and> linked (io_writeListener s) (io_writeTransport s)"
  by (simp add: transport_links_def linked_def)

lemma linkedD: "linked R T \<Longrightarrow> R t = Some l \<longleftrightarrow> T l = Some t"
  by (simp add: linked_def)

lemma linked_drop:
  assumes "linked R T"
  shows "(case R t of None \<Rightarrow> T | Some old \<Rightarrow> T(old := None)) = (\<lambda>x. if T x = Some t then None else T x)"
proof (cases "R t")
  case None
  then show ?thesis using linkedD [OF assms, of t] by (auto simp: fun_eq_iff)
next
  case (Some old)
  then have "T x = Some t \<longleftrightarrow> x = old" for x using linkedD [OF assms, of t x] by auto
  then show ?thesis using Some by (simp add: fun_eq_iff)
qed

lemma linked_clear:
  assumes "linked R T"
  shows "linked (R(t := None)) (case R t of None \<Rightarrow> T | Some old \<Rightarrow> T(old := None))"
  unfolding linked_drop [OF assms]
proof (unfold linked_def, intro allI)
  fix u l
  show "((R(t := None)) u = Some l) = ((if T l = Some t then None else T l) = Some u)"
    using linkedD [OF assms, of u l] by auto
qed

lemma linked_set:
  assumes "linked R T" and "R t \<noteq> Some l"
  defines "T1 \<equiv> (case R t of None \<Rightarrow> T | Some old \<Rightarrow> T(old := None))"
  shows "T1 l = T l"
    and "T l = None \<Longrightarrow> linked (R(t := Some l)) (T1(l := Some t))"
    and "T l = Some t2 \<Longrightarrow> t2 \<noteq> t \<and> linked (R(t2 := None, t := Some l)) (T1(l := None, l := Some t))"
proof -
  have T1: "T1 x = (if T x = Some t then None else T x)" for x by (simp add: T1_def linked_drop [OF assms(1)])
  have l: "T l \<noteq> Some t" using linkedD [OF assms(1), of t l] assms(2) by simp
  then show "T1 l = T l" by (simp add: T1)
  show "linked (R(t := Some l)) (T1(l := Some t))" if "T l = None"
  proof (unfold linked_def, intro allI)
    fix u k
    show "((R(t := Some l)) u = Some k) = ((T1(l := Some t)) k = Some u)"
      using linkedD [OF assms(1), of u k] that l by (auto simp: T1)
  qed
  show "t2 \<noteq> t \<and> linked (R(t2 := None, t := Some l)) (T1(l := None, l := Some t))" if t2: "T l = Some t2"
  proof
    show "t2 \<noteq> t" using l t2 by auto
    show "linked (R(t2 := None, t := Some l)) (T1(l := None, l := Some t))"
    proof (unfold linked_def, intro allI)
      fix u k
      have "R t2 = Some k \<longleftrightarrow> k = l" using linkedD [OF assms(1), of t2 k] linkedD [OF assms(1), of t2 l] t2 by auto
      then show "((R(t2 := None, t := Some l)) u = Some k) = ((T1(l := None, l := Some t)) k = Some u)"
        using linkedD [OF assms(1), of u k] linkedD [OF assms(1), of t2 k] t2 l by (auto simp: T1)
    qed
  qed
qed

text \<open>Calls of the classes that use all this.\<close>

datatype io_op =
    NewTransport nat int
  | AddToDispatcher nat
  | AddToForwarder nat nat
  | SetReadListener nat "nat option"
  | SetWriteListener nat "nat option"
  | CloseTransport nat
  | DestroyTransport nat
  | DestroyListener nat

fun io_step :: "'p poller \<Rightarrow> io_op \<Rightarrow> 'p io \<Rightarrow> 'p io" where
  "io_step P (NewTransport i fd) s = s\<lparr>io_fd := (io_fd s)(i := fd)\<rparr>"
| "io_step P (AddToDispatcher i) s = disp_addIoListener P (Plain i) s"
| "io_step P (AddToForwarder f i) s = fwd_addIoListener P f (Plain i) s"
| "io_step P (SetReadListener t listener) s = setReadListener P t listener s"
| "io_step P (SetWriteListener t listener) s = setWriteListener P t listener s"
| "io_step P (CloseTransport t) s = io_close P t s"
| "io_step P (DestroyTransport t) s = transport_destroy P t s"
| "io_step P (DestroyListener l) s = transport_listener_destroy P l s"

text \<open>
  What the callers keep to: a listener that is added has a descriptor that the poller can handle and that no other
  listener has (the system gives different descriptors to open sockets); a forwarder has one listener, as its
  assertions say; the socket of a registered transport does not change but by closing.
\<close>

fun io_allowed :: "(int \<Rightarrow> bool) \<Rightarrow> io_op \<Rightarrow> 'p io \<Rightarrow> bool" where
  "io_allowed fits (NewTransport i fd) s = (io_source s (Plain i) = None)"
| "io_allowed fits (AddToDispatcher i) s = (fits (io_fd s i) \<and> fd_free_for i s)"
| "io_allowed fits (AddToForwarder f i) s = (fits (io_fd s i) \<and> fd_free_for i s \<and> io_downstream s f = None)"
| "io_allowed fits _ s = True"

inductive io_reachable :: "'p poller \<Rightarrow> (int \<Rightarrow> bool) \<Rightarrow> 'p \<Rightarrow> 'p io \<Rightarrow> bool" for P fits p where
  io_init: "io_reachable P fits p (io_start p)"
| io_next: "io_reachable P fits p s \<Longrightarrow> io_allowed fits op s \<Longrightarrow> io_reachable P fits p (io_step P op s)"

context event_poller
begin

definition ok :: "'p io \<Rightarrow> bool" where
  "ok s \<longleftrightarrow> core s \<and> transport_links s \<and> (\<forall>u. io_interest s (Plain u) = wanted u s)"

lemma setReadListener_ok:
  assumes "ok s"
  shows "ok (setReadListener P t listener s)"
proof (cases listener)
  case None
  have c: "core s" "\<forall>u. u \<noteq> t \<longrightarrow> io_interest s (Plain u) = wanted u s" using assms by (simp_all add: ok_def)
  from clearReadListener_core [OF c] assms linked_clear [of "io_readListener s" "io_readTransport s" t] None
  show ?thesis by (simp add: ok_def setReadListener_def transport_links_linked)
next
  case (Some l)
  show ?thesis
  proof (cases "io_readListener s t = Some l")
    case True
    have "core s" "\<forall>u. u \<noteq> t \<longrightarrow> io_interest s (Plain u) = wanted u s" using assms by (simp_all add: ok_def)
    from updateTransportIoInterest_core [OF this] assms True Some show ?thesis
      by (simp add: ok_def setReadListener_def transport_links_linked only_interest_def)
  next
    case False
    define s1 where "s1 = (case io_readListener s t of None \<Rightarrow> s
        | Some old \<Rightarrow> s\<lparr>io_readTransport := (io_readTransport s)(old := None)\<rparr>)"
    define s2 where "s2 = (case io_readTransport s1 l of None \<Rightarrow> s1 | Some t2 \<Rightarrow> clearReadListener P t2 s1)"
    define s3 where "s3 = s2\<lparr>io_readTransport := (io_readTransport s2)(l := Some t),
        io_readListener := (io_readListener s2)(t := Some l)\<rparr>"
    have eq: "setReadListener P t listener s = updateTransportIoInterest P t s3"
      using False unfolding setReadListener_def Some option.case s1_def s2_def s3_def Let_def by simp
    have linked: "linked (io_readListener s) (io_readTransport s)" "linked (io_writeListener s) (io_writeTransport s)"
      using assms by (simp_all add: ok_def transport_links_linked)
    have s1: "core s1" "\<forall>u. io_interest s1 (Plain u) = wanted u s1" "io_readListener s1 = io_readListener s"
      "io_readTransport s1 = (case io_readListener s t of None \<Rightarrow> io_readTransport s | Some old \<Rightarrow> (io_readTransport s)(old := None))"
      "io_writeListener s1 = io_writeListener s" "io_writeTransport s1 = io_writeTransport s"
      using assms by (auto simp: s1_def ok_def wanted_def split: option.splits)
    note sets = linked_set [OF linked(1) False, folded s1(4)]
    have "core s2 \<and> (\<forall>u. io_interest s2 (Plain u) = wanted u s2) \<and> io_writeListener s2 = io_writeListener s \<and>
        io_writeTransport s2 = io_writeTransport s \<and>
        linked ((io_readListener s2)(t := Some l)) ((io_readTransport s2)(l := Some t))"
    proof (cases "io_readTransport s l")
      case None
      with sets(1) have "s2 = s1" by (simp add: s2_def)
      with s1 sets(2) [OF None] show ?thesis by simp
    next
      case t2: (Some t2)
      with sets(1) have "s2 = clearReadListener P t2 s1" by (simp add: s2_def)
      moreover have "io_readListener s t2 = Some l" using linked(1) t2 by (simp add: linked_def)
      moreover have "\<forall>u. u \<noteq> t2 \<longrightarrow> io_interest s1 (Plain u) = wanted u s1" using s1(2) by blast
      note clearReadListener_core [OF s1(1) this]
      ultimately show ?thesis using s1(3,5,6) sets(3) [OF t2] by simp
    qed
    then have s3: "core s3" "\<forall>u. u \<noteq> t \<longrightarrow> io_interest s3 (Plain u) = wanted u s3" "transport_links s3"
      using linked(2) by (simp_all add: s3_def wanted_def transport_links_linked)
    from updateTransportIoInterest_core [OF s3(1,2)] s3(3) show ?thesis
      unfolding eq by (simp add: ok_def transport_links_linked only_interest_def)
  qed
qed

lemma setWriteListener_ok:
  assumes "ok s"
  shows "ok (setWriteListener P t listener s)"
proof (cases listener)
  case None
  have c: "core s" "\<forall>u. u \<noteq> t \<longrightarrow> io_interest s (Plain u) = wanted u s" using assms by (simp_all add: ok_def)
  from clearWriteListener_core [OF c] assms linked_clear [of "io_writeListener s" "io_writeTransport s" t] None
  show ?thesis by (simp add: ok_def setWriteListener_def transport_links_linked)
next
  case (Some l)
  show ?thesis
  proof (cases "io_writeListener s t = Some l")
    case True
    have "core s" "\<forall>u. u \<noteq> t \<longrightarrow> io_interest s (Plain u) = wanted u s" using assms by (simp_all add: ok_def)
    from updateTransportIoInterest_core [OF this] assms True Some show ?thesis
      by (simp add: ok_def setWriteListener_def transport_links_linked only_interest_def)
  next
    case False
    define s1 where "s1 = (case io_writeListener s t of None \<Rightarrow> s
        | Some old \<Rightarrow> s\<lparr>io_writeTransport := (io_writeTransport s)(old := None)\<rparr>)"
    define s2 where "s2 = (case io_writeTransport s1 l of None \<Rightarrow> s1 | Some t2 \<Rightarrow> clearWriteListener P t2 s1)"
    define s3 where "s3 = s2\<lparr>io_writeTransport := (io_writeTransport s2)(l := Some t),
        io_writeListener := (io_writeListener s2)(t := Some l)\<rparr>"
    have eq: "setWriteListener P t listener s = updateTransportIoInterest P t s3"
      using False unfolding setWriteListener_def Some option.case s1_def s2_def s3_def Let_def by simp
    have linked: "linked (io_readListener s) (io_readTransport s)" "linked (io_writeListener s) (io_writeTransport s)"
      using assms by (simp_all add: ok_def transport_links_linked)
    have s1: "core s1" "\<forall>u. io_interest s1 (Plain u) = wanted u s1" "io_writeListener s1 = io_writeListener s"
      "io_writeTransport s1 = (case io_writeListener s t of None \<Rightarrow> io_writeTransport s | Some old \<Rightarrow> (io_writeTransport s)(old := None))"
      "io_readListener s1 = io_readListener s" "io_readTransport s1 = io_readTransport s"
      using assms by (auto simp: s1_def ok_def wanted_def split: option.splits)
    note sets = linked_set [OF linked(2) False, folded s1(4)]
    have "core s2 \<and> (\<forall>u. io_interest s2 (Plain u) = wanted u s2) \<and> io_readListener s2 = io_readListener s \<and>
        io_readTransport s2 = io_readTransport s \<and>
        linked ((io_writeListener s2)(t := Some l)) ((io_writeTransport s2)(l := Some t))"
    proof (cases "io_writeTransport s l")
      case None
      with sets(1) have "s2 = s1" by (simp add: s2_def)
      with s1 sets(2) [OF None] show ?thesis by simp
    next
      case t2: (Some t2)
      with sets(1) have "s2 = clearWriteListener P t2 s1" by (simp add: s2_def)
      moreover have "io_writeListener s t2 = Some l" using linked(2) t2 by (simp add: linked_def)
      moreover have "\<forall>u. u \<noteq> t2 \<longrightarrow> io_interest s1 (Plain u) = wanted u s1" using s1(2) by blast
      note clearWriteListener_core [OF s1(1) this]
      ultimately show ?thesis using s1(3,5,6) sets(3) [OF t2] by simp
    qed
    then have s3: "core s3" "\<forall>u. u \<noteq> t \<longrightarrow> io_interest s3 (Plain u) = wanted u s3" "transport_links s3"
      using linked(1) by (simp_all add: s3_def wanted_def transport_links_linked)
    from updateTransportIoInterest_core [OF s3(1,2)] s3(3) show ?thesis
      unfolding eq by (simp add: ok_def transport_links_linked only_interest_def)
  qed
qed


lemma links_wanted: "io_readListener s' = io_readListener s \<Longrightarrow> io_writeListener s' = io_writeListener s \<Longrightarrow> wanted u s' = wanted u s"
  by (simp add: wanted_def)

lemma only_sources_ok: "ok s \<Longrightarrow> core s' \<Longrightarrow> only_sources s s' \<Longrightarrow> ok s'"
  using links_wanted [of s' s] by (simp add: ok_def only_sources_def transport_links_def)

lemma clearReadListener_ok: "ok s \<Longrightarrow> ok (clearReadListener P t s)"
  using setReadListener_ok [of s t None] by (simp add: setReadListener_def)

lemma clearWriteListener_ok: "ok s \<Longrightarrow> ok (clearWriteListener P t s)"
  using setWriteListener_ok [of s t None] by (simp add: setWriteListener_def)

lemma io_close_ok:
  assumes "ok s"
  shows "ok (io_close P t s)"
  using assms io_close_core [of s t] links_wanted [of "io_close P t s" s] by (simp add: ok_def transport_links_def)

lemma NewTransport_ok:
  assumes "ok s" and "io_source s (Plain i) = None"
  shows "ok (s\<lparr>io_fd := (io_fd s)(i := fd)\<rparr>)"
proof -
  define s' where "s' = s\<lparr>io_fd := (io_fd s)(i := fd)\<rparr>"
  have w: "io_wiring fits s" using assms(1) by (simp add: ok_def)
  have nd: "io_downstream s f \<noteq> Some i" for f using wiring_downstream [OF w, of f i] assms(2) by simp
  have lfd: "listener_fd l s' = listener_fd l s" if "io_source s l = Some Dispatcher" for l
    using that assms(2) nd by (cases l) (auto simp: s'_def intro!: option.map_cong0 split: option.splits)
  have "io_wiring fits s'"
    unfolding io_wiring_def
  proof (intro conjI allI impI)
    fix fd l assume "io_registered s' fd = Some l"
    then have "io_registered s fd = Some l" by (simp add: s'_def)
    then show "io_source s' l = Some Dispatcher" "listener_fd l s' = Some fd" "fits fd"
      using wiring_registered [OF w, of fd l] lfd [of l] by (simp_all add: s'_def)
  next
    fix l assume "io_source s' l = Some Dispatcher"
    then show "\<exists>fd. listener_fd l s' = Some fd \<and> io_registered s' fd = Some l"
      using wiring_source [OF w, of l] lfd [of l] by (simp add: s'_def)
  next
    fix g
    show "io_source s' (Forwarder g) = (if io_downstream s' g = None then None else Some Dispatcher)"
      using wiring_forwarder_source [OF w, of g] by (simp add: s'_def)
  next
    fix g j
    show "(io_downstream s' g = Some j) = (io_source s' (Plain j) = Some (ForwarderSource g))"
      using wiring_downstream [OF w, of g j] by (simp add: s'_def)
  qed
  then have "ok s'" using assms(1) links_wanted [of s' s]
    by (simp add: ok_def s'_def transport_links_def io_watching_def)
  then show ?thesis by (simp add: s'_def)
qed

lemma io_step_ok:
  assumes "ok s" and "io_allowed fits op s"
  shows "ok (io_step P op s)"
proof (cases op)
  case (NewTransport i fd)
  with assms NewTransport_ok show ?thesis by simp
next
  case (AddToDispatcher i)
  then have "core (io_step P op s) \<and> only_sources s (io_step P op s)"
    using disp_add_any [of s i] assms by (simp add: ok_def)
  then show ?thesis using only_sources_ok [OF assms(1)] by blast
next
  case (AddToForwarder f i)
  then have "core (io_step P op s) \<and> only_sources s (io_step P op s)"
    using fwd_add_any [of s i f] assms by (simp add: ok_def)
  then show ?thesis using only_sources_ok [OF assms(1)] by blast
next
  case (DestroyTransport t)
  then show ?thesis
    using clearWriteListener_ok [OF clearReadListener_ok [OF io_close_ok [OF assms(1)]]] by (simp add: transport_destroy_def)
next
  case (DestroyListener l)
  define s1 where "s1 = (case io_readTransport s l of None \<Rightarrow> s | Some t \<Rightarrow> clearReadListener P t s)"
  have "ok s1" using assms(1) clearReadListener_ok by (simp add: s1_def split: option.split)
  then have "ok (case io_writeTransport s1 l of None \<Rightarrow> s1 | Some t \<Rightarrow> clearWriteListener P t s1)"
    using clearWriteListener_ok by (simp split: option.split)
  then show ?thesis using DestroyListener by (simp add: transport_listener_destroy_def s1_def [symmetric])
qed (use assms setReadListener_ok setWriteListener_ok io_close_ok in auto)

lemma reachable_ok:
  assumes "good p" and "\<forall>fd. watched p fd = None" and "io_reachable P fits p s"
  shows "ok s"
  using assms(3)
proof (induction rule: io_reachable.induct)
  case io_init
  then show ?case
    using assms(1,2)
    by (simp add: ok_def io_start_def io_wiring_def io_watching_def transport_links_def wanted_def)
next
  case (io_next s op)
  then show ?case using io_step_ok by blast
qed

text \<open>The poller waits for what the listeners of a registered transport want, and a ready descriptor reaches them.\<close>

lemma registered_watched:
  assumes "ok s" and "io_source s (Plain t) \<noteq> None"
  shows "watched (io_poller s) (io_fd s t) = Some (wanted t s)"
    and "notifyListenerForIo (io_fd s t) isRead s = transport_handleIoReady isRead t s"
proof -
  have w: "io_wiring fits s" and watch: "io_watching watched good s" and i: "io_interest s (Plain t) = wanted t s"
    using assms(1) by (simp_all add: ok_def)
  consider "io_source s (Plain t) = Some Dispatcher" | f where "io_source s (Plain t) = Some (ForwarderSource f)"
    using assms(2) by (metis io_source.exhaust option.exhaust)
  then have "watched (io_poller s) (io_fd s t) = Some (wanted t s) \<and>
    notifyListenerForIo (io_fd s t) isRead s = transport_handleIoReady isRead t s"
  proof cases
    case 1
    note reg = wiring_plain [OF w 1]
    with watch i show ?thesis by (simp add: io_watching_def notifyListenerForIo_def endpoint_def)
  next
    case 2
    then have down: "io_downstream s f = Some t" using wiring_downstream [OF w] by simp
    note reg = wiring_forwarder(1) [OF w down]
    with watch i down show ?thesis by (simp add: io_watching_def notifyListenerForIo_def endpoint_def)
  qed
  then show "watched (io_poller s) (io_fd s t) = Some (wanted t s)"
    and "notifyListenerForIo (io_fd s t) isRead s = transport_handleIoReady isRead t s" by blast+
qed

lemma watched_registered:
  assumes "ok s" and "watched (io_poller s) fd = Some rw"
  shows "\<exists>t. io_fd s t = fd \<and> io_source s (Plain t) \<noteq> None"
proof -
  have w: "io_wiring fits s" and watch: "io_watching watched good s" using assms(1) by (simp_all add: ok_def)
  from assms(2) watch obtain l where reg: "io_registered s fd = Some l" by (auto simp: io_watching_def)
  note r = wiring_registered [OF w reg]
  show ?thesis
  proof (cases l)
    case (Plain t)
    with r show ?thesis by auto
  next
    case (Forwarder f)
    with r obtain t where t: "io_downstream s f = Some t" "io_fd s t = fd" by auto
    then show ?thesis using wiring_forwarder(3) [OF w t(1)] by auto
  qed
qed

end

end
