(* ===== verification/Pollers.thy ===== *)
theory Pollers
  imports Io_Listeners
begin

text \<open>
  The pollers (\<^verbatim>\<open>events/epolleventpoller.cpp\<close>, \<^verbatim>\<open>events/selecteventpoller_unix.cpp\<close>, and the one that hands the work to
  another event loop, \<^verbatim>\<open>events/foreigneventloopintegrator.cpp\<close>), and \<^verbatim>\<open>EventDispatcher::poll\<close>.  What \<^verbatim>\<open>epoll_wait\<close>
  and \<^verbatim>\<open>select\<close> report is an argument.
\<close>

subsection \<open>Select\<close>

definition interested :: "uint32 \<Rightarrow> uint32 \<Rightarrow> bool" where
  "interested direction ioRw = (ioRw AND direction \<noteq> 0)"

text \<open>The state is \<^verbatim>\<open>m_fds\<close>; \<open>limit\<close> is \<^verbatim>\<open>FD_SETSIZE\<close>.\<close>

type_synonym fd_map = "int \<Rightarrow> uint32 option"

definition select_add :: "int \<Rightarrow> int \<Rightarrow> uint32 \<Rightarrow> fd_map \<Rightarrow> fd_map option" where
  "select_add limit fd ioRw fds =
     (if limit \<le> fd then Some fds
      else Some (if fds fd = None then fds(fd := Some ioRw) else fds))"

definition select_remove :: "int \<Rightarrow> fd_map \<Rightarrow> fd_map option" where
  "select_remove fd fds = Some (fds(fd := None))"

text \<open>\<^verbatim>\<open>at\<close> throws if there is no entry.\<close>

definition select_set :: "int \<Rightarrow> uint32 \<Rightarrow> fd_map \<Rightarrow> fd_map option" where
  "select_set fd ioRw fds = (if fds fd = None then None else Some (fds(fd := Some ioRw)))"

definition SelectEventPoller :: "int \<Rightarrow> fd_map poller" where
  "SelectEventPoller limit = \<lparr>pl_add = select_add limit, pl_remove = select_remove, pl_set = select_set\<rparr>"

interpretation select: event_poller "SelectEventPoller limit" "\<lambda>fds. fds" "\<lambda>_. True" "\<lambda>fd. fd < limit" for limit
  by unfold_locales (auto simp: SelectEventPoller_def select_add_def select_remove_def select_set_def)

datatype interrupt_action = NoInterrupt | ProcessAuxEvents | Stop

text \<open>The bytes that are in the pipe, and what reading all of them makes of the action.\<close>

definition interrupt_byte :: "interrupt_action \<Rightarrow> char" where
  "interrupt_byte action = (if action = Stop then CHR ''S'' else CHR ''N'')"

fun read_pipe :: "string \<Rightarrow> interrupt_action \<Rightarrow> interrupt_action" where
  "read_pipe [] ret = ret"
| "read_pipe (buf # rest) ret = read_pipe rest (if buf = CHR ''S'' then Stop else ret)"

text \<open>
  The sets that \<^verbatim>\<open>select\<close> is called with: descriptors whose interest has the bit, and the pipe for reading.
\<close>

definition select_readSet :: "int \<Rightarrow> fd_map \<Rightarrow> int \<Rightarrow> bool" where
  "select_readSet pipeFd fds fd =
     (fd = pipeFd \<or> (case fds fd of None \<Rightarrow> False | Some rw \<Rightarrow> interested ReadBit rw))"

definition select_writeSet :: "fd_map \<Rightarrow> int \<Rightarrow> bool" where
  "select_writeSet fds fd = (case fds fd of None \<Rightarrow> False | Some rw \<Rightarrow> interested WriteBit rw)"

text \<open>
  The loop over the descriptors below \<^verbatim>\<open>nfds\<close>, the larger of the pipe's and all watched ones plus one.  Each
  notification is a descriptor and whether it is for reading.
\<close>

function selectLoop ::
  "nat \<Rightarrow> nat \<Rightarrow> int \<Rightarrow> (int \<Rightarrow> bool) \<Rightarrow> (int \<Rightarrow> bool) \<Rightarrow> (int \<times> bool) list" where
  "selectLoop i nfds numEvents readSet writeSet =
     (if i < nfds \<and> 0 < numEvents then
        (let r = (if readSet (int i) then [(int i, True)] else []);
             n1 = (if readSet (int i) then numEvents - 1 else numEvents);
             w = (if writeSet (int i) then [(int i, False)] else []);
             n2 = (if writeSet (int i) then n1 - 1 else n1)
         in r @ w @ selectLoop (i + 1) nfds n2 readSet writeSet)
      else [])"
  by pat_completeness auto
termination by (relation "measure (\<lambda>(i, nfds, numEvents, readSet, writeSet). nfds - i)") auto

declare selectLoop.simps [simp del]

text \<open>
  \<open>numEvents\<close>, \<open>readSet\<close>, \<open>writeSet\<close> are what \<^verbatim>\<open>select\<close> left; the result is the action and the notifications.
\<close>

definition select_poll ::
  "int \<Rightarrow> string \<Rightarrow> nat \<Rightarrow> int \<Rightarrow> (int \<Rightarrow> bool) \<Rightarrow> (int \<Rightarrow> bool) \<Rightarrow> interrupt_action \<times> (int \<times> bool) list" where
  "select_poll pipeFd pipe nfds numEvents readSet writeSet =
     (let ret = (if readSet pipeFd then read_pipe pipe ProcessAuxEvents else NoInterrupt);
          n = (if ret = Stop then 0 else numEvents)
      in (ret, if n < 0 then [] else selectLoop 0 nfds n readSet writeSet))"

subsection \<open>Epoll\<close>

definition EPOLLIN :: uint32 where "EPOLLIN = 1"
definition EPOLLOUT :: uint32 where "EPOLLOUT = 4"
definition EPOLLERR :: uint32 where "EPOLLERR = 8"
definition EPOLLHUP :: uint32 where "EPOLLHUP = 16"

definition epeventsFromIoRw :: "uint32 \<Rightarrow> uint32" where
  "epeventsFromIoRw ioRw =
     (if interested ReadBit ioRw then EPOLLIN else 0) OR (if interested WriteBit ioRw then EPOLLOUT else 0)"

text \<open>The state is the list of the calls of \<^verbatim>\<open>epoll_ctl\<close>.\<close>

datatype epoll_call = CtlAdd int uint32 | CtlDel int | CtlMod int uint32

definition epoll_add :: "int \<Rightarrow> uint32 \<Rightarrow> epoll_call list \<Rightarrow> epoll_call list option" where
  "epoll_add fd ioRw calls = Some (calls @ [CtlAdd fd (epeventsFromIoRw ioRw)])"

definition epoll_remove :: "int \<Rightarrow> epoll_call list \<Rightarrow> epoll_call list option" where
  "epoll_remove fd calls = Some (calls @ [CtlDel fd])"

definition epoll_set :: "int \<Rightarrow> uint32 \<Rightarrow> epoll_call list \<Rightarrow> epoll_call list option" where
  "epoll_set fd ioRw calls = (if fd = 0 then Some calls else Some (calls @ [CtlMod fd (epeventsFromIoRw ioRw)]))"

definition EpollEventPoller :: "epoll_call list poller" where
  "EpollEventPoller = \<lparr>pl_add = epoll_add, pl_remove = epoll_remove, pl_set = epoll_set\<rparr>"

text \<open>
  What the system documents of these calls: a descriptor is added once, changed if it is there, and removed.
\<close>

fun epoll_ctl :: "epoll_call \<Rightarrow> fd_map \<Rightarrow> fd_map" where
  "epoll_ctl (CtlAdd fd events) m = (if m fd = None then m(fd := Some events) else m)"
| "epoll_ctl (CtlDel fd) m = m(fd := None)"
| "epoll_ctl (CtlMod fd events) m = (if m fd = None then m else m(fd := Some events))"

definition epoll_events :: "epoll_call list \<Rightarrow> fd_map" where
  "epoll_events calls = fold epoll_ctl calls (\<lambda>_. None)"

definition ioRwFromEvents :: "uint32 \<Rightarrow> uint32" where
  "ioRwFromEvents events =
     (if events AND EPOLLIN \<noteq> 0 then ReadBit else 0) OR (if events AND EPOLLOUT \<noteq> 0 then WriteBit else 0)"

lemma events_roundtrip:
  assumes "rw \<le> 3"
  shows "ioRwFromEvents (epeventsFromIoRw rw) = rw"
proof -
  have "unat rw \<le> 3" using assms by (simp add: word_le_nat_alt)
  then have "unat rw = 0 \<or> unat rw = 1 \<or> unat rw = 2 \<or> unat rw = 3" by linarith
  then have "rw = 0 \<or> rw = 1 \<or> rw = 2 \<or> rw = 3" by (auto simp: word_unat_eq_iff)
  then show ?thesis
    by (elim disjE) (simp_all add: ioRwFromEvents_def epeventsFromIoRw_def interested_def ReadBit_def WriteBit_def
        EPOLLIN_def EPOLLOUT_def)
qed

interpretation epoll: event_poller EpollEventPoller "\<lambda>calls fd. map_option ioRwFromEvents (epoll_events calls fd)"
  "\<lambda>_. True" "\<lambda>fd. 0 < fd"
  by unfold_locales
    (auto simp: EpollEventPoller_def epoll_add_def epoll_remove_def epoll_set_def epoll_events_def events_roundtrip fun_eq_iff)

text \<open>
  One round of the results of \<^verbatim>\<open>epoll_wait\<close>: an interrupt is taken from the pipe, and one to stop discards what is
  left.
\<close>

fun epollLoop ::
  "int \<Rightarrow> string \<Rightarrow> (uint32 \<times> int) list \<Rightarrow> interrupt_action \<Rightarrow> (int \<times> bool) list \<Rightarrow> interrupt_action \<times> (int \<times> bool) list" where
  "epollLoop pipeFd pipe [] ret notified = (ret, notified)"
| "epollLoop pipeFd pipe ((events, fd) # results) ret notified =
     (let readable = (events AND (EPOLLIN OR EPOLLERR OR EPOLLHUP) \<noteq> 0);
          isPipe = (readable \<and> fd = pipeFd);
          ret1 = (if isPipe then read_pipe pipe ProcessAuxEvents else ret);
          notified1 = (if readable \<and> \<not> isPipe then notified @ [(fd, True)] else notified)
      in if isPipe \<and> ret1 = Stop then (ret1, notified1)
         else epollLoop pipeFd (if isPipe then [] else pipe) results ret1
                (if events AND (EPOLLOUT OR EPOLLERR OR EPOLLHUP) \<noteq> 0 then notified1 @ [(fd, False)] else notified1))"

text \<open>\<open>None\<close>: \<^verbatim>\<open>epoll_wait\<close> failed.\<close>

definition epoll_poll :: "int \<Rightarrow> string \<Rightarrow> (uint32 \<times> int) list option \<Rightarrow> interrupt_action \<times> (int \<times> bool) list" where
  "epoll_poll pipeFd pipe results =
     (case results of None \<Rightarrow> (NoInterrupt, []) | Some rs \<Rightarrow> epollLoop pipeFd pipe rs NoInterrupt [])"

subsection \<open>Another event loop\<close>

text \<open>What the other event loop is asked to do.\<close>

datatype watch_call = WatchRead int bool | WatchWrite int bool | WatchTimeout int

record integrator =
  fi_fds :: fd_map
  fi_exiting :: bool
  fi_calls :: "watch_call list"

definition ForeignEventLoopIntegratorPrivate :: integrator where
  "ForeignEventLoopIntegratorPrivate = \<lparr>fi_fds = \<lambda>_. None, fi_exiting = False, fi_calls = []\<rparr>"

definition fi_set :: "int \<Rightarrow> uint32 \<Rightarrow> integrator \<Rightarrow> integrator option" where
  "fi_set fd ioRw p =
     (if fi_exiting p then Some p
      else case fi_fds p fd of
        None \<Rightarrow> None
      | Some oldRw \<Rightarrow>
          (let p1 = (if interested ReadBit oldRw \<noteq> interested ReadBit ioRw
                     then p\<lparr>fi_calls := fi_calls p @ [WatchRead fd (interested ReadBit ioRw)]\<rparr> else p);
               p2 = (if interested WriteBit oldRw \<noteq> interested WriteBit ioRw
                     then p1\<lparr>fi_calls := fi_calls p1 @ [WatchWrite fd (interested WriteBit ioRw)]\<rparr> else p1)
           in Some (p2\<lparr>fi_fds := (fi_fds p2)(fd := Some ioRw)\<rparr>)))"

definition fi_add :: "int \<Rightarrow> uint32 \<Rightarrow> integrator \<Rightarrow> integrator option" where
  "fi_add fd ioRw p =
     (if fi_exiting p then Some p
      else (let p1 = (if fi_fds p fd = None then p\<lparr>fi_fds := (fi_fds p)(fd := Some 0)\<rparr> else p)
            in if ioRw \<noteq> 0 then fi_set fd ioRw p1 else Some p1))"

definition fi_remove :: "int \<Rightarrow> integrator \<Rightarrow> integrator option" where
  "fi_remove fd p =
     (if fi_exiting p then Some p
      else map_option (\<lambda>p1. p1\<lparr>fi_fds := (fi_fds p1)(fd := None)\<rparr>) (fi_set fd 0 p))"

definition ForeignPoller :: "integrator poller" where
  "ForeignPoller = \<lparr>pl_add = fi_add, pl_remove = fi_remove, pl_set = fi_set\<rparr>"

text \<open>Whether the other event loop watches a descriptor, after the calls that it got.\<close>

fun apply_watch :: "bool \<Rightarrow> int \<Rightarrow> watch_call \<Rightarrow> bool \<Rightarrow> bool" where
  "apply_watch isRead fd (WatchRead fd' on) w = (if isRead \<and> fd' = fd then on else w)"
| "apply_watch isRead fd (WatchWrite fd' on) w = (if \<not> isRead \<and> fd' = fd then on else w)"
| "apply_watch isRead fd (WatchTimeout msecs) w = w"

definition watches :: "bool \<Rightarrow> int \<Rightarrow> watch_call list \<Rightarrow> bool" where
  "watches isRead fd calls = fold (apply_watch isRead fd) calls False"

definition fi_good :: "integrator \<Rightarrow> bool" where
  "fi_good p \<longleftrightarrow> \<not> fi_exiting p \<and>
     (\<forall>fd isRead. watches isRead fd (fi_calls p) =
        (case fi_fds p fd of None \<Rightarrow> False | Some rw \<Rightarrow> interested (if isRead then ReadBit else WriteBit) rw))"

lemma watches_append [simp]:
  "watches isRead fd (calls @ [c]) = apply_watch isRead fd c (watches isRead fd calls)"
  by (simp add: watches_def)

lemma fi_set_good:
  assumes "fi_good p" and "fi_fds p fd \<noteq> None"
  shows "\<exists>p'. fi_set fd rw p = Some p' \<and> fi_good p' \<and> fi_fds p' = (fi_fds p)(fd := Some rw)"
proof -
  from assms(2) obtain old where old: "fi_fds p fd = Some old" by blast
  define p' where "p' = the (fi_set fd rw p)"
  have set: "fi_set fd rw p = Some p'" using assms(1) old by (simp add: p'_def fi_set_def fi_good_def Let_def)
  have f: "fi_fds p' = (fi_fds p)(fd := Some rw)" "fi_exiting p' = fi_exiting p"
    using assms(1) old by (auto simp: p'_def fi_set_def fi_good_def Let_def)
  have "watches isRead fd' (fi_calls p') =
      (case fi_fds p' fd' of None \<Rightarrow> False | Some rw \<Rightarrow> interested (if isRead then ReadBit else WriteBit) rw)" for fd' isRead
  proof -
    have "watches isRead fd' (fi_calls p) =
        (case fi_fds p fd' of None \<Rightarrow> False | Some rw \<Rightarrow> interested (if isRead then ReadBit else WriteBit) rw)"
      using assms(1) by (simp add: fi_good_def)
    then show ?thesis
      unfolding f(1) using assms(1) old
      by (cases isRead; cases "fd' = fd") (auto simp: p'_def fi_set_def fi_good_def Let_def)
  qed
  then show ?thesis using set f assms(1) by (auto simp: fi_good_def)
qed

interpretation foreign: event_poller ForeignPoller fi_fds fi_good "\<lambda>_. True"
proof
  fix p fd rw
  assume g: "fi_good p" and none: "fi_fds p fd = None"
  define p1 where "p1 = p\<lparr>fi_fds := (fi_fds p)(fd := Some 0)\<rparr>"
  have g1: "fi_good p1" using g none by (auto simp: fi_good_def p1_def interested_def)
  have add: "pl_add ForeignPoller fd rw p = (if rw \<noteq> 0 then fi_set fd rw p1 else Some p1)"
    using g none by (simp add: ForeignPoller_def fi_add_def p1_def fi_good_def Let_def)
  show "\<exists>p'. pl_add ForeignPoller fd rw p = Some p' \<and> fi_good p' \<and> fi_fds p' = (fi_fds p)(fd := Some rw)"
    unfolding add using fi_set_good [OF g1, of fd rw] g1 by (auto simp: p1_def)
next
  fix p fd
  assume g: "fi_good p" and some: "fi_fds p fd \<noteq> None"
  from fi_set_good [OF this, of 0] obtain p1 where
    p1: "fi_set fd 0 p = Some p1" "fi_good p1" "fi_fds p1 = (fi_fds p)(fd := Some 0)" by blast
  then have "fi_good (p1\<lparr>fi_fds := (fi_fds p1)(fd := None)\<rparr>)" by (auto simp: fi_good_def interested_def)
  with p1 g show "\<exists>p'. pl_remove ForeignPoller fd p = Some p' \<and> fi_good p' \<and> fi_fds p' = (fi_fds p)(fd := None)"
    by (auto simp: ForeignPoller_def fi_remove_def fi_good_def)
next
  fix p fd rw
  assume "fi_good p" and "fi_fds p fd \<noteq> None"
  from fi_set_good [OF this, of rw]
  show "\<exists>p'. pl_set ForeignPoller fd rw p = Some p' \<and> fi_good p' \<and> fi_fds p' = (fi_fds p)(fd := Some rw)"
    by (simp add: ForeignPoller_def)
qed


text \<open>
  The object that the client derives from; \<open>fr_d\<close> is its private object.  The derived class calls
  \<^verbatim>\<open>removeAllWatches\<close> in its destructor, before that of the base class runs.  \<open>order\<close> is the order in which the map
  of descriptors is traversed.
\<close>

record integrator_front =
  fr_d :: "integrator option"
  fr_calls :: "watch_call list"
  fr_fault :: bool

definition removeAllWatches :: "int list \<Rightarrow> integrator_front \<Rightarrow> integrator_front" where
  "removeAllWatches order f =
     (case fr_d f of
        None \<Rightarrow> f\<lparr>fr_fault := True\<rparr>
      | Some p \<Rightarrow>
          (let off = concat (map (\<lambda>fd. case fi_fds p fd of
                 None \<Rightarrow> []
               | Some rw \<Rightarrow> (if interested ReadBit rw then [WatchRead fd False] else []) @
                            (if interested WriteBit rw then [WatchWrite fd False] else [])) order)
           in f\<lparr>fr_calls := fi_calls p @ off @ [WatchTimeout (- 1)], fr_d := None\<rparr>))"

definition integrator_destroy :: "integrator_front \<Rightarrow> integrator_front" where
  "integrator_destroy f =
     (case fr_d f of None \<Rightarrow> f\<lparr>fr_fault := True\<rparr> | Some p \<Rightarrow> f\<lparr>fr_d := Some (p\<lparr>fi_exiting := True\<rparr>)\<rparr>)"

lemma integrator_destruction_faults: "fr_fault (integrator_destroy (removeAllWatches order f))"
  by (simp add: integrator_destroy_def removeAllWatches_def Let_def split: option.split)

subsection \<open>One round of the dispatcher\<close>

text \<open>
  After the poller has returned: whether \<^verbatim>\<open>poll\<close> returns true, whether it handles the queued events, and whether it
  triggers timers.
\<close>

definition poll_outcome :: "interrupt_action \<Rightarrow> bool \<Rightarrow> bool \<times> bool \<times> bool" where
  "poll_outcome action connectionToNotify =
     (if action = Stop then (False, False, False)
      else (True, action = ProcessAuxEvents \<and> connectionToNotify, True))"

lemma read_pipe_interrupts:
  "read_pipe (map interrupt_byte actions) ret = (if Stop \<in> set actions then Stop else ret)"
  by (induction actions arbitrary: ret) (auto simp: interrupt_byte_def)

text \<open>A request to stop gets through whatever other requests there are, and a request to process events does.\<close>

lemma interrupts_get_through:
  assumes "readSet pipeFd" and "actions \<noteq> []"
  shows "fst (select_poll pipeFd (map interrupt_byte actions) nfds n readSet writeSet) =
    (if Stop \<in> set actions then Stop else ProcessAuxEvents)"
  using assms by (simp add: select_poll_def read_pipe_interrupts Let_def)

text \<open>The descriptors that are ready, in ascending order.\<close>

definition ready_events :: "nat \<Rightarrow> nat \<Rightarrow> (int \<Rightarrow> bool) \<Rightarrow> (int \<Rightarrow> bool) \<Rightarrow> (int \<times> bool) list" where
  "ready_events i n readSet writeSet =
     concat (map (\<lambda>j. (if readSet (int j) then [(int j, True)] else []) @ (if writeSet (int j) then [(int j, False)] else []))
       [i..<n])"

lemma ready_events_step:
  "i < n \<Longrightarrow> ready_events i n R W =
    (if R (int i) then [(int i, True)] else []) @ (if W (int i) then [(int i, False)] else []) @ ready_events (i + 1) n R W"
  by (simp add: ready_events_def upt_conv_Cons)

lemma selectLoop_ready:
  assumes "int (length (ready_events i n R W)) \<le> numEvents"
  shows "selectLoop i n numEvents R W = ready_events i n R W"
  using assms
proof (induction i n numEvents R W rule: selectLoop.induct)
  case (1 i n numEvents R W)
  show ?case
  proof (cases "i < n")
    case False
    then show ?thesis by (simp add: selectLoop.simps [of i] ready_events_def)
  next
    case True
    note step = ready_events_step [OF True, of R W]
    show ?thesis
    proof (cases "0 < numEvents")
      case False
      then have "length (ready_events i n R W) = 0" using 1(2) by linarith
      then have "ready_events i n R W = []" by simp
      with False show ?thesis by (simp add: selectLoop.simps [of i])
    next
      case pos: True
      define m where "m = (if W (int i) then (if R (int i) then numEvents - 1 else numEvents) - 1
        else (if R (int i) then numEvents - 1 else numEvents))"
      have le: "int (length (ready_events (i + 1) n R W)) \<le> m"
        using 1(2) unfolding step m_def by (simp split: if_splits)
      have "i < n \<and> 0 < numEvents" using True pos by simp
      from 1(1) [OF this refl refl refl refl] le have "selectLoop (i + 1) n m R W = ready_events (i + 1) n R W"
        by (simp add: m_def)
      then show ?thesis unfolding step using True pos by (simp add: selectLoop.simps [of i] m_def Let_def)
    qed
  qed
qed

text \<open>C32: One round of select notifies every ready descriptor once for each direction in which it is ready, in ascending
  order, and no other: counting down the number of events that select reported ends the loop neither too early nor too
  late.  A request to stop, which wins over all other requests, discards them.\<close>

theorem select_round_notifies_ready:
  assumes "numEvents = int (length (ready_events 0 nfds readSet writeSet))" and "actions \<noteq> [] \<longleftrightarrow> readSet pipeFd"
  shows "select_poll pipeFd (map interrupt_byte actions) nfds numEvents readSet writeSet =
    (if Stop \<in> set actions then (Stop, [])
     else (if actions = [] then NoInterrupt else ProcessAuxEvents, ready_events 0 nfds readSet writeSet))"
proof -
  have loop: "selectLoop 0 nfds numEvents readSet writeSet = ready_events 0 nfds readSet writeSet"
    using assms(1) by (intro selectLoop_ready) simp
  have none: "selectLoop 0 nfds 0 readSet writeSet = []" by (simp add: selectLoop.simps [of 0])
  have nn: "\<not> numEvents < 0" using assms(1) by simp
  show ?thesis
  proof (cases "readSet pipeFd")
    case True
    then have "actions \<noteq> []" using assms(2) by blast
    with True nn show ?thesis by (simp add: select_poll_def Let_def read_pipe_interrupts loop none)
  next
    case False
    then have "actions = []" using assms(2) by blast
    with False nn show ?thesis by (simp add: select_poll_def Let_def loop)
  qed
qed

theorem select_round_notifies_ready_witness:
  "select_poll 3 (map interrupt_byte [ProcessAuxEvents]) 8 3 (\<lambda>fd. fd = 3 \<or> fd = 5) (\<lambda>fd. fd = 5) =
    (ProcessAuxEvents, [(3, True), (5, True), (5, False)])"
proof -
  have e: "ready_events 0 8 (\<lambda>fd. fd = 3 \<or> fd = 5) (\<lambda>fd. fd = 5) = [(3, True), (5, True), (5, False)]"
    by (simp add: ready_events_def upt_rec)
  from select_round_notifies_ready [of 3 8 "\<lambda>fd. fd = 3 \<or> fd = 5" "\<lambda>fd. fd = 5" "[ProcessAuxEvents]" 3]
  show ?thesis unfolding e by simp
qed

subsection \<open>Interests and listeners\<close>

lemma wanted_interests:
  "interested ReadBit (wanted t s) = (io_readListener s t \<noteq> None)"
  "interested WriteBit (wanted t s) = (io_writeListener s t \<noteq> None)"
  by (auto simp: interested_def wanted_def ReadBit_def WriteBit_def)

text \<open>C7: Whatever sequence of adding, removing, closing and destroying transports and of setting their read and write
  listeners is executed, with or without a connection or server as a forwarder in between: the other event loop is
  asked to watch a registered transport's descriptor for reading exactly if the transport has a read listener, and for
  writing exactly if it has a write listener; when it reports the descriptor ready, exactly that listener is called;
  it watches no descriptor that does not belong to a registered transport; and nothing throws.\<close>

theorem watches_match_listeners:
  assumes "io_reachable ForeignPoller (\<lambda>_. True) ForeignEventLoopIntegratorPrivate s"
  shows "\<not> io_fault s \<and>
    (\<forall>t. io_source s (Plain t) \<noteq> None \<longrightarrow>
       watches True (io_fd s t) (fi_calls (io_poller s)) = (io_readListener s t \<noteq> None) \<and>
       watches False (io_fd s t) (fi_calls (io_poller s)) = (io_writeListener s t \<noteq> None) \<and>
       notifyListenerForIo (io_fd s t) True s = io_readListener s t \<and>
       notifyListenerForIo (io_fd s t) False s = io_writeListener s t) \<and>
    (\<forall>isRead fd. watches isRead fd (fi_calls (io_poller s)) \<longrightarrow> (\<exists>t. io_fd s t = fd \<and> io_source s (Plain t) \<noteq> None))"
proof -
  have "fi_good ForeignEventLoopIntegratorPrivate" "\<forall>fd. fi_fds ForeignEventLoopIntegratorPrivate fd = None"
    by (simp_all add: fi_good_def ForeignEventLoopIntegratorPrivate_def watches_def)
  note ok = foreign.reachable_ok [OF this assms]
  then have good: "fi_good (io_poller s)" and nf: "\<not> io_fault s" by (simp_all add: foreign.ok_def io_watching_def)
  have w: "watches isRead fd (fi_calls (io_poller s)) = (case fi_fds (io_poller s) fd of None \<Rightarrow> False
      | Some rw \<Rightarrow> interested (if isRead then ReadBit else WriteBit) rw)" for isRead fd
    using good by (simp add: fi_good_def)
  show ?thesis
  proof (intro conjI allI impI nf)
    fix t assume t: "io_source s (Plain t) \<noteq> None"
    note r = foreign.registered_watched [OF ok t]
    show "watches True (io_fd s t) (fi_calls (io_poller s)) = (io_readListener s t \<noteq> None)"
      "watches False (io_fd s t) (fi_calls (io_poller s)) = (io_writeListener s t \<noteq> None)"
      by (simp_all add: w r(1) wanted_interests)
    show "notifyListenerForIo (io_fd s t) True s = io_readListener s t"
      "notifyListenerForIo (io_fd s t) False s = io_writeListener s t"
      by (simp_all add: r(2) transport_handleIoReady_def)
  next
    fix isRead fd assume "watches isRead fd (fi_calls (io_poller s))"
    then obtain rw where "fi_fds (io_poller s) fd = Some rw" using w by (auto split: option.splits)
    from foreign.watched_registered [OF ok this]
    show "\<exists>t. io_fd s t = fd \<and> io_source s (Plain t) \<noteq> None" .
  qed
qed

text \<open>A connection's transport, as in the constructor: opened, added through the forwarder, then read from.\<close>

definition example_io :: "'p poller \<Rightarrow> 'p \<Rightarrow> 'p io" where
  "example_io P p = fold (io_step P) [NewTransport 0 5, AddToForwarder 1 0, SetReadListener 0 (Some 9)] (io_start p)"

lemma example_io_reachable:
  "io_reachable ForeignPoller (\<lambda>_. True) ForeignEventLoopIntegratorPrivate (example_io ForeignPoller ForeignEventLoopIntegratorPrivate)"
proof -
  let ?p = "ForeignEventLoopIntegratorPrivate"
  let ?s1 = "io_step ForeignPoller (NewTransport 0 5) (io_start ?p)"
  let ?s2 = "io_step ForeignPoller (AddToForwarder 1 0) ?s1"
  have "io_reachable ForeignPoller (\<lambda>_. True) ?p ?s1" by (rule io_next [OF io_init]) (simp add: io_start_def)
  then have "io_reachable ForeignPoller (\<lambda>_. True) ?p ?s2"
    by (rule io_next) (simp add: io_start_def fd_free_for_def)
  then have "io_reachable ForeignPoller (\<lambda>_. True) ?p (io_step ForeignPoller (SetReadListener 0 (Some 9)) ?s2)"
    by (rule io_next) simp
  then show ?thesis by (simp add: example_io_def)
qed

theorem watches_match_listeners_witness:
  "\<not> io_fault (example_io ForeignPoller ForeignEventLoopIntegratorPrivate)"
  using watches_match_listeners [OF example_io_reachable] by blast

lemma epoll_matches_listeners:
  assumes "io_reachable EpollEventPoller (\<lambda>fd. 0 < fd) [] s" and "io_source s (Plain t) \<noteq> None"
  shows "map_option ioRwFromEvents (epoll_events (io_poller s) (io_fd s t)) = Some (wanted t s)"
proof -
  have "\<forall>fd. map_option ioRwFromEvents (epoll_events [] fd) = None" by (simp add: epoll_events_def)
  from epoll.registered_watched(1) [OF epoll.reachable_ok [OF TrueI this assms(1)] assms(2)] show ?thesis .
qed

lemma select_matches_listeners:
  assumes "io_reachable (SelectEventPoller limit) (\<lambda>fd. fd < limit) (\<lambda>_. None) s" and "io_source s (Plain t) \<noteq> None"
    and "io_fd s t \<noteq> pipeFd"
  shows "select_readSet pipeFd (io_poller s) (io_fd s t) = (io_readListener s t \<noteq> None) \<and>
    select_writeSet (io_poller s) (io_fd s t) = (io_writeListener s t \<noteq> None)"
proof -
  have "\<forall>fd. (\<lambda>_. None) fd = None" by simp
  from select.registered_watched(1) [OF select.reachable_ok [OF TrueI this assms(1)] assms(2)]
  show ?thesis using assms(3) by (simp add: select_readSet_def select_writeSet_def wanted_interests)
qed

text \<open>The select poller silently ignores a descriptor from FD_SETSIZE on when it is added, but not when the interest in
  it changes: the first read listener of such a transport makes it throw an exception that nobody catches.\<close>

theorem large_descriptor_throws:
  assumes "limit \<le> fd"
  shows "io_fault (fold (io_step (SelectEventPoller limit))
    [NewTransport t fd, AddToDispatcher t, SetReadListener t (Some l)] (io_start (\<lambda>_. None)))"
  using assms
  by (simp add: io_start_def disp_addIoListener_def addIoListener_def disp_addIoListenerInternal_def Let_def
      call_poller_def SelectEventPoller_def select_add_def setReadListener_def updateTransportIoInterest_def
      setTransportInterest_def setIoInterest_def source_updateIoInterest_def updateIoInterest_def
      disp_updateIoInterestInternal_def select_set_def io_undefined_def ReadBit_def)

theorem large_descriptor_throws_witness:
  "io_fault (fold (io_step (SelectEventPoller 1024))
    [NewTransport 0 1024, AddToDispatcher 0, SetReadListener 0 (Some 0)] (io_start (\<lambda>_. None)))"
  by (rule large_descriptor_throws) simp

end
