(* ===== verification/Introspection.thy ===== *)
theory Introspection
  imports Signature_Check String_Tools Message_Model "HOL-Library.AList"
begin

text \<open>
  The introspection tree of the client library (\<^verbatim>\<open>client/introspection.cpp\<close>): nodes with their interfaces, methods
  and properties, made from XML documents.  The XML parser, tinyxml2, is not part of the code: \<^verbatim>\<open>Parse\<close> is an argument
  \<open>parse\<close>, whose result is \<open>None\<close> for an error, \<open>Some None\<close> for a document without root element, and otherwise the
  root element with the elements below it.  Nodes are objects in a store, because parents and children refer to
  each other; a \<^verbatim>\<open>std::map\<close> is an association list, whose order the code does not depend on.
\<close>

subsection \<open>Documents and nodes\<close>

text \<open>The elements of a document: name, attributes in order, and the child elements (other children are skipped).\<close>

datatype xml_element =
  Element (el_name: string) (el_attributes: "(string \<times> string) list") (el_children: "xml_element list")

record argument =
  a_name :: string
  a_type :: string
  a_isDirectionOut :: bool

record xml_method =
  me_type :: nat
  me_name :: string
  me_arguments :: "argument list"

datatype access = InvalidAccess | ReadAccess | WriteAccess | ReadWriteAccess

record xml_property =
  pr_name :: string
  pr_type :: string
  pr_access :: access

record iface =
  if_name :: string
  if_methods :: "(string \<times> xml_method) list"
  if_properties :: "(string \<times> xml_property) list"

text \<open>The parent pointer is not initialized by \<^verbatim>\<open>new IntrospectionNode\<close>.\<close>

datatype parent_link = NoParent | Parent nat | Uninitialized

record inode =
  n_parent :: parent_link
  n_name :: string
  n_children :: "(string \<times> nat) list"
  n_interfaces :: "(string \<times> iface) list"

record introspection_tree =
  t_nodes :: "nat \<Rightarrow> inode option"
  t_next :: nat
  t_fault :: bool

definition new_node :: inode where
  "new_node = \<lparr>n_parent = Uninitialized, n_name = [], n_children = [], n_interfaces = []\<rparr>"

text \<open>\<^verbatim>\<open>m_rootNode\<close> is the node 0.\<close>

definition IntrospectionTree :: introspection_tree where
  "IntrospectionTree =
     \<lparr>t_nodes = (\<lambda>_. None)(0 \<mapsto> new_node\<lparr>n_parent := NoParent\<rparr>), t_next = 1, t_fault = False\<rparr>"

text \<open>The store: \<^verbatim>\<open>new\<close>, a change through a pointer, and \<^verbatim>\<open>delete\<close>.\<close>

definition newNode :: "inode \<Rightarrow> introspection_tree \<Rightarrow> introspection_tree" where
  "newNode n t = t\<lparr>t_nodes := (t_nodes t)(t_next t \<mapsto> n), t_next := Suc (t_next t)\<rparr>"

definition changeNode :: "nat \<Rightarrow> (inode \<Rightarrow> inode) \<Rightarrow> introspection_tree \<Rightarrow> introspection_tree" where
  "changeNode i f t =
     (case t_nodes t i of
        None \<Rightarrow> t\<lparr>t_fault := True\<rparr>
      | Some n \<Rightarrow> t\<lparr>t_nodes := (t_nodes t)(i \<mapsto> f n)\<rparr>)"

definition deleteNode :: "nat \<Rightarrow> introspection_tree \<Rightarrow> introspection_tree" where
  "deleteNode i t = t\<lparr>t_nodes := (t_nodes t)(i := None), t_fault := (t_fault t \<or> t_nodes t i = None)\<rparr>"

text \<open>The destructor does not look at the children.\<close>

definition introspection_destroy :: "introspection_tree \<Rightarrow> introspection_tree" where
  "introspection_destroy t = deleteNode 0 t"

definition child :: "introspection_tree \<Rightarrow> nat \<Rightarrow> string \<Rightarrow> nat option" where
  "child t i name = (case t_nodes t i of None \<Rightarrow> None | Some n \<Rightarrow> map_of (n_children n) name)"

text \<open>\<^verbatim>\<open>operator[]\<close> with assignment, and \<^verbatim>\<open>emplace\<close>, which keeps an existing entry.\<close>

definition setChild :: "string \<Rightarrow> nat \<Rightarrow> inode \<Rightarrow> inode" where
  "setChild name c n = n\<lparr>n_children := AList.update name c (n_children n)\<rparr>"

definition emplaceChild :: "string \<Rightarrow> nat \<Rightarrow> inode \<Rightarrow> inode" where
  "emplaceChild name c n =
     (if map_of (n_children n) name = None then n\<lparr>n_children := n_children n @ [(name, c)]\<rparr> else n)"

text \<open>
  The path of a node; \<open>None\<close> when an uninitialized or dangling pointer is followed, or the parents form a cycle.
\<close>

partial_function (option) introspectionNodePathHelper :: "introspection_tree \<Rightarrow> nat \<Rightarrow> string option" where
  "introspectionNodePathHelper t i =
     (case t_nodes t i of
        None \<Rightarrow> None
      | Some n \<Rightarrow> (case n_parent n of
            NoParent \<Rightarrow> Some []
          | Uninitialized \<Rightarrow> None
          | Parent p \<Rightarrow>
              Option.bind (introspectionNodePathHelper t p) (\<lambda>out. Some (out @ ''/'' @ n_name n))))"

definition node_path :: "introspection_tree \<Rightarrow> nat \<Rightarrow> string option" where
  "node_path t i =
     (case t_nodes t i of
        None \<Rightarrow> None
      | Some n \<Rightarrow> if n_parent n = NoParent then Some ''/'' else introspectionNodePathHelper t i)"

subsection \<open>Interfaces\<close>

text \<open>An element that must have exactly the attribute \<open>name\<close>.\<close>

definition nameAttribute :: "xml_element \<Rightarrow> string option" where
  "nameAttribute el =
     (case el_attributes el of
        [(a, v)] \<Rightarrow> if a = ''name'' then Some v else None
      | _ \<Rightarrow> None)"

fun argumentAttributes :: "nat \<Rightarrow> (string \<times> string) list \<Rightarrow> argument \<Rightarrow> argument option" where
  "argumentAttributes messageType [] arg = Some arg"
| "argumentAttributes messageType ((a, v) # attrs) arg =
     (if a = ''name'' then argumentAttributes messageType attrs (arg\<lparr>a_name := v\<rparr>)
      else if a = ''type'' then argumentAttributes messageType attrs (arg\<lparr>a_type := v\<rparr>)
      else if a = ''direction'' then
        (if v = ''in'' then
           (if messageType = SignalMessage then None
            else argumentAttributes messageType attrs (arg\<lparr>a_isDirectionOut := False\<rparr>))
         else if v = ''out'' then argumentAttributes messageType attrs (arg\<lparr>a_isDirectionOut := True\<rparr>)
         else None)
      else None)"

text \<open>
  The functions from here to \<open>addInterface\<close> are given the object to change and return it changed, \<open>None\<close> standing for
  the result \<^verbatim>\<open>false\<close>; the object is discarded then.
\<close>

definition addArgument :: "xml_element \<Rightarrow> nat \<Rightarrow> xml_method \<Rightarrow> xml_method option" where
  "addArgument el messageType m =
     (case argumentAttributes messageType (el_attributes el)
         \<lparr>a_name = [], a_type = [], a_isDirectionOut = (messageType = SignalMessage)\<rparr> of
        None \<Rightarrow> None
      | Some arg \<Rightarrow> if a_type arg = [] then None else Some (m\<lparr>me_arguments := me_arguments m @ [arg]\<rparr>))"

fun methodChildren :: "nat \<Rightarrow> xml_element list \<Rightarrow> xml_method \<Rightarrow> xml_method option" where
  "methodChildren messageType [] m = Some m"
| "methodChildren messageType (el # els) m =
     (if el_name el = ''arg'' then
        (case addArgument el messageType m of
           None \<Rightarrow> None
         | Some m' \<Rightarrow> methodChildren messageType els m')
      else if el_name el = ''annotation'' then methodChildren messageType els m
      else None)"

definition addMethod :: "xml_element \<Rightarrow> nat \<Rightarrow> iface \<Rightarrow> iface option" where
  "addMethod el messageType i =
     (case nameAttribute el of
        None \<Rightarrow> None
      | Some name \<Rightarrow>
          (case methodChildren messageType (el_children el)
               \<lparr>me_type = messageType, me_name = name, me_arguments = []\<rparr> of
             None \<Rightarrow> None
           | Some m \<Rightarrow> Some (i\<lparr>if_methods := AList.update (me_name m) m (if_methods i)\<rparr>)))"

fun propertyAttributes :: "(string \<times> string) list \<Rightarrow> xml_property \<Rightarrow> xml_property option" where
  "propertyAttributes [] prop = Some prop"
| "propertyAttributes ((a, v) # attrs) prop =
     (if a = ''name'' then propertyAttributes attrs (prop\<lparr>pr_name := v\<rparr>)
      else if a = ''type'' then propertyAttributes attrs (prop\<lparr>pr_type := v\<rparr>)
      else if a = ''access'' then
        (if v = ''readwrite'' then propertyAttributes attrs (prop\<lparr>pr_access := ReadWriteAccess\<rparr>)
         else if v = ''read'' then propertyAttributes attrs (prop\<lparr>pr_access := ReadAccess\<rparr>)
         else if v = ''write'' then propertyAttributes attrs (prop\<lparr>pr_access := WriteAccess\<rparr>)
         else None)
      else None)"

definition addProperty :: "xml_element \<Rightarrow> iface \<Rightarrow> iface option" where
  "addProperty el i =
     (case propertyAttributes (el_attributes el) \<lparr>pr_name = [], pr_type = [], pr_access = InvalidAccess\<rparr> of
        None \<Rightarrow> None
      | Some prop \<Rightarrow>
          if pr_name prop = [] \<or> pr_type prop = [] \<or> pr_access prop = InvalidAccess then None
          else Some (i\<lparr>if_properties := AList.update (pr_name prop) prop (if_properties i)\<rparr>))"

definition interfaceMember :: "xml_element \<Rightarrow> iface \<Rightarrow> iface option" where
  "interfaceMember el i =
     (if el_name el = ''method'' then addMethod el MethodCallMessage i
      else if el_name el = ''signal'' then addMethod el SignalMessage i
      else if el_name el = ''property'' then addProperty el i
      else None)"

fun interfaceChildren :: "xml_element list \<Rightarrow> iface \<Rightarrow> iface option" where
  "interfaceChildren [] i = Some i"
| "interfaceChildren (el # els) i =
     (case interfaceMember el i of None \<Rightarrow> None | Some i' \<Rightarrow> interfaceChildren els i')"

text \<open>The interface that an element describes, which \<^verbatim>\<open>addInterface\<close> stores in the node.\<close>

definition addInterface :: "xml_element \<Rightarrow> iface option" where
  "addInterface el =
     (case nameAttribute el of
        None \<Rightarrow> None
      | Some name \<Rightarrow> interfaceChildren (el_children el) \<lparr>if_name = name, if_methods = [], if_properties = []\<rparr>)"

definition storeInterface :: "iface \<Rightarrow> inode \<Rightarrow> inode" where
  "storeInterface i n = n\<lparr>n_interfaces := AList.update (if_name i) i (n_interfaces n)\<rparr>"

subsection \<open>Adding and finding nodes\<close>

text \<open>
  \<^verbatim>\<open>addNode\<close> with its loop over the child elements.  On failure the \<^verbatim>\<open>unique_ptr\<close> deletes the new node, but not the
  nodes that are its children already.
\<close>

fun addNode :: "nat \<Rightarrow> xml_element \<Rightarrow> introspection_tree \<Rightarrow> bool \<times> introspection_tree"
  and addChildren :: "nat \<Rightarrow> xml_element list \<Rightarrow> introspection_tree \<Rightarrow> bool \<times> introspection_tree" where
  "addNode parent (Element name attrs els) t =
     (case nameAttribute (Element name attrs els) of
        None \<Rightarrow> (False, t)
      | Some v \<Rightarrow>
          (let i = t_next t;
               (ok, t1) = addChildren i els (newNode (new_node\<lparr>n_parent := Parent parent, n_name := v\<rparr>) t)
           in if ok then (True, changeNode parent (emplaceChild v i) t1)
              else (False, deleteNode i t1)))"
| "addChildren i [] t = (True, t)"
| "addChildren i (el # els) t =
     (if el_name el = ''node'' then
        (case addNode i el t of (ok, t1) \<Rightarrow> if ok then addChildren i els t1 else (False, t1))
      else if el_name el = ''interface'' then
        (case addInterface el of
           None \<Rightarrow> (False, t)
         | Some ifc \<Rightarrow> addChildren i els (changeNode i (storeInterface ifc) t))
      else addChildren i els t)"

text \<open>The loop of \<^verbatim>\<open>findOrCreateParent\<close>, over the elements of the path but the last one.\<close>

fun descend :: "string list \<Rightarrow> nat \<Rightarrow> introspection_tree \<Rightarrow> nat \<times> introspection_tree" where
  "descend [] node t = (node, t)"
| "descend (e # es) node t =
     (case child t node e of
        Some c \<Rightarrow> descend es c t
      | None \<Rightarrow> descend es (t_next t)
          (changeNode node (setChild e (t_next t)) (newNode (new_node\<lparr>n_name := e\<rparr>) t)))"

definition findOrCreateParent ::
  "string \<Rightarrow> introspection_tree \<Rightarrow> (nat \<times> string) option \<times> introspection_tree" where
  "findOrCreateParent p t =
     (case isObjectPathValid (cstring_of p) of
        None \<Rightarrow> (None, t\<lparr>t_fault := True\<rparr>)
      | Some False \<Rightarrow> (None, t)
      | Some True \<Rightarrow>
          (let elements = split p (CHR ''/'') False;
               (node, t1) = descend (butlast elements) 0 t
           in (Some (node, if elements = [] then [] else last elements), t1)))"

text \<open>The path of the document: its own name attribute must agree with the argument, if that is not empty.\<close>

definition documentPath :: "xml_element \<Rightarrow> string \<Rightarrow> string option" where
  "documentPath el p =
     (case el_attributes el of
        [] \<Rightarrow> Some p
      | (a, v) # _ \<Rightarrow>
          if a = ''name'' then (if p \<noteq> [] \<and> p \<noteq> v then None else Some v) else Some p)"

definition mergeXml ::
  "(string \<Rightarrow> xml_element option option) \<Rightarrow> string \<Rightarrow> string \<Rightarrow> introspection_tree \<Rightarrow> bool \<times> introspection_tree" where
  "mergeXml parse xmlData p t =
     (case parse xmlData of
        Some (Some el) \<Rightarrow>
          if el_name el \<noteq> ''node'' then (False, t)
          else (case documentPath el p of
                  None \<Rightarrow> (False, t)
                | Some q \<Rightarrow>
                    (case findOrCreateParent q t of
                       (None, t1) \<Rightarrow> (False, t1)
                     | (Some (parent, leafName), t1) \<Rightarrow>
                         if child t1 parent leafName \<noteq> None then (False, t1) else addNode parent el t1))
      | _ \<Rightarrow> (False, t))"

subsection \<open>Removing nodes\<close>

text \<open>
  \<^verbatim>\<open>removeNode\<close> and \<^verbatim>\<open>pruneBranch\<close>, which nothing calls so far.  Both follow pointers; \<open>None\<close> stands for not ending.
\<close>

partial_function (option) removeNodes :: "nat list \<Rightarrow> introspection_tree \<Rightarrow> introspection_tree option" where
  "removeNodes is t =
     (case is of
        [] \<Rightarrow> Some t
      | i # rest \<Rightarrow>
          (case t_nodes t i of
             None \<Rightarrow> Some (t\<lparr>t_fault := True\<rparr>)
           | Some n \<Rightarrow>
               Option.bind (removeNodes (map snd (n_children n)) t) (\<lambda>t1. removeNodes rest (deleteNode i t1))))"

definition removeNode :: "nat \<Rightarrow> introspection_tree \<Rightarrow> introspection_tree option" where
  "removeNode i t = removeNodes [i] t"

partial_function (option) pruneParents :: "parent_link \<Rightarrow> introspection_tree \<Rightarrow> introspection_tree option" where
  "pruneParents l t =
     (if l = Parent 0 then Some t
      else case l of
        Parent i \<Rightarrow>
          (case t_nodes t i of
             None \<Rightarrow> Some (t\<lparr>t_fault := True\<rparr>)
           | Some n \<Rightarrow>
               if length (n_children n) = 1 \<and> n_interfaces n = [] then pruneParents (n_parent n) (deleteNode i t)
               else Some t)
      | _ \<Rightarrow> Some (t\<lparr>t_fault := True\<rparr>))"

definition pruneBranch :: "nat \<Rightarrow> introspection_tree \<Rightarrow> introspection_tree option" where
  "pruneBranch i t =
     (case t_nodes t i of
        None \<Rightarrow> Some (t\<lparr>t_fault := True\<rparr>)
      | Some n \<Rightarrow> Option.bind (removeNode i t) (pruneParents (n_parent n)))"

end
