(* ===== verification/Introspection_Tree.thy ===== *)
theory Introspection_Tree
  imports Introspection
begin

text \<open>
  What the introspection tree promises: it holds the nodes that the documents denote, merging never changes a node
  that is there, and everything in the tree is well-formed.
\<close>

subsection \<open>The node that a document denotes\<close>

text \<open>Name, interfaces and children of a node, without pointers.  Of children with the same name the first one counts.\<close>

datatype doc_node = DocNode (dn_name: string) (dn_interfaces: "(string \<times> iface) list") (dn_kids: "doc_node list")

definition add_kids :: "doc_node list \<Rightarrow> doc_node list \<Rightarrow> doc_node list" where
  "add_kids = foldl (\<lambda>ks k. if dn_name k \<in> dn_name ` set ks then ks else ks @ [k])"

definition add_interfaces :: "(string \<times> iface) list \<Rightarrow> iface list \<Rightarrow> (string \<times> iface) list" where
  "add_interfaces = foldl (\<lambda>ifs i. AList.update (if_name i) i ifs)"

definition elements_named :: "string \<Rightarrow> xml_element list \<Rightarrow> xml_element list" where
  "elements_named name = filter (\<lambda>el. el_name el = name)"

lemma size_elements_named [termination_simp]:
  "el \<in> set (elements_named name els) \<Longrightarrow> size el < Suc (size_list size els)"
  by (induction els) (auto simp: elements_named_def split: if_splits)

fun document_node :: "xml_element \<Rightarrow> doc_node option" where
  "document_node (Element name attrs els) =
     (case (nameAttribute (Element name attrs els), those (map document_node (elements_named ''node'' els)),
            those (map addInterface (elements_named ''interface'' els))) of
        (Some v, Some kids, Some ifs) \<Rightarrow> Some (DocNode v (add_interfaces [] ifs) (add_kids [] kids))
      | _ \<Rightarrow> None)"

subsection \<open>A node of the store and what it stands for\<close>

text \<open>The object \<open>i\<close> is a node with the parent \<open>p\<close> that stands for the given one; children are younger than parents.\<close>

fun holds_node :: "introspection_tree \<Rightarrow> nat \<Rightarrow> nat \<Rightarrow> doc_node \<Rightarrow> bool"
  and holds_kids :: "introspection_tree \<Rightarrow> nat \<Rightarrow> doc_node list \<Rightarrow> (string \<times> nat) list \<Rightarrow> bool" where
  "holds_node t p i (DocNode v ifs kids) =
     (case t_nodes t i of
        None \<Rightarrow> False
      | Some n \<Rightarrow> n_parent n = Parent p \<and> n_name n = v \<and> n_interfaces n = ifs \<and> holds_kids t i kids (n_children n))"
| "holds_kids t i [] cs = (cs = [])"
| "holds_kids t i (k # ks) cs =
     (case cs of
        [] \<Rightarrow> False
      | (name, c) # cs' \<Rightarrow> name = dn_name k \<and> i < c \<and> holds_node t i c k \<and> holds_kids t i ks cs')"

lemma holds_frame:
  "holds_node t p i k \<Longrightarrow> (\<And>j. i \<le> j \<Longrightarrow> t_nodes t j \<noteq> None \<Longrightarrow> t_nodes t' j = t_nodes t j) \<Longrightarrow>
     holds_node t' p i k"
  "holds_kids t i ks cs \<Longrightarrow> (\<And>j. i < j \<Longrightarrow> t_nodes t j \<noteq> None \<Longrightarrow> t_nodes t' j = t_nodes t j) \<Longrightarrow>
     holds_kids t' i ks cs"
proof (induction t p i k and t i ks cs rule: holds_node_holds_kids.induct)
  case (1 t p i v ifs kids)
  then obtain n where n: "t_nodes t i = Some n" by (auto split: option.splits)
  moreover have "t_nodes t' i = Some n" using 1(3) [of i] n by simp
  moreover have "holds_kids t' i kids (n_children n)"
    using 1(1) [OF n] 1(2,3) n by simp
  ultimately show ?case using 1(2) by simp
next
  case (3 t i k ks cs)
  then obtain c cs' where cs: "cs = (dn_name k, c) # cs'" "i < c" by (auto split: list.splits)
  have "holds_node t' i c k" by (rule 3(1) [of "(dn_name k, c)" cs' "dn_name k" c]) (use 3(3,4) cs in auto)
  moreover have "holds_kids t' i ks cs'" by (rule 3(2) [of "(dn_name k, c)" cs' "dn_name k" c]) (use 3(3,4) cs in auto)
  ultimately show ?case using cs by simp
qed simp

lemma holds_kids_names: "holds_kids t i ks cs \<Longrightarrow> map fst cs = map dn_name ks"
  by (induction ks arbitrary: cs) (auto split: list.splits)

lemma holds_kids_append:
  "holds_kids t i ks cs \<Longrightarrow> i < c \<Longrightarrow> holds_node t i c k \<Longrightarrow> holds_kids t i (ks @ [k]) (cs @ [(dn_name k, c)])"
  by (induction ks arbitrary: cs) (auto split: list.splits)

lemma holds_nameD: "holds_node t p i k \<Longrightarrow> \<exists>n. t_nodes t i = Some n \<and> n_name n = dn_name k \<and> n_parent n = Parent p"
  by (cases k) (auto split: option.splits)

subsection \<open>The effect of adding nodes\<close>

definition fresh :: "introspection_tree \<Rightarrow> bool" where
  "fresh t \<longleftrightarrow> (\<forall>j \<ge> t_next t. t_nodes t j = None)"

text \<open>Nodes are added to \<open>t\<close>; of the old ones only \<open>i\<close> may change.\<close>

definition grown :: "nat \<Rightarrow> introspection_tree \<Rightarrow> introspection_tree \<Rightarrow> bool" where
  "grown i t t' \<longleftrightarrow> fresh t' \<and> t_next t \<le> t_next t' \<and> t_fault t' = t_fault t \<and>
     (\<forall>j < t_next t. j \<noteq> i \<longrightarrow> t_nodes t' j = t_nodes t j)"

lemma grown_refl: "fresh t \<Longrightarrow> grown i t t"
  by (simp add: grown_def)

lemma grown_trans: "grown i t t1 \<Longrightarrow> grown i t1 t2 \<Longrightarrow> grown i t t2"
  by (auto simp: grown_def)

lemma grown_change: "fresh t \<Longrightarrow> t_nodes t i = Some n \<Longrightarrow> grown i t (changeNode i f t)"
  unfolding grown_def changeNode_def fresh_def by (cases "i < t_next t") auto

lemma changeNode_same: "t_nodes t i = Some n \<Longrightarrow> t_nodes (changeNode i f t) i = Some (f n)"
  by (simp add: changeNode_def)

lemma fresh_less: "fresh t \<Longrightarrow> t_nodes t i \<noteq> None \<Longrightarrow> i < t_next t"
  unfolding fresh_def by (meson not_le)

text \<open>What \<open>addChildren\<close> has to make of a node: nothing to say if a child or interface is bad.\<close>

definition children_added ::
  "nat \<Rightarrow> doc_node list option \<Rightarrow> iface list option \<Rightarrow> inode \<Rightarrow> doc_node list \<Rightarrow> bool \<Rightarrow> introspection_tree \<Rightarrow> bool" where
  "children_added i kids ifs n ks ok t' \<longleftrightarrow>
     (case t_nodes t' i of
        None \<Rightarrow> False
      | Some n' \<Rightarrow>
          (case (kids, ifs) of
             (Some kids, Some ifs) \<Rightarrow>
               ok \<and> n_parent n' = n_parent n \<and> n_name n' = n_name n \<and>
               n_interfaces n' = add_interfaces (n_interfaces n) ifs \<and> holds_kids t' i (add_kids ks kids) (n_children n')
           | _ \<Rightarrow> \<not> ok))"

definition node_added :: "nat \<Rightarrow> nat \<Rightarrow> doc_node option \<Rightarrow> inode \<Rightarrow> bool \<Rightarrow> introspection_tree \<Rightarrow> bool" where
  "node_added parent i k n ok t' \<longleftrightarrow>
     (case k of
        None \<Rightarrow> \<not> ok \<and> t_nodes t' parent = Some n
      | Some k \<Rightarrow> ok \<and> t_nodes t' parent = Some (emplaceChild (dn_name k) i n) \<and> holds_node t' parent i k)"

lemma add_kids_simps [simp]:
  "add_kids ks [] = ks"
  "add_kids ks (k # kids) = add_kids (if dn_name k \<in> dn_name ` set ks then ks else ks @ [k]) kids"
  by (simp_all add: add_kids_def)

lemma add_interfaces_simps [simp]:
  "add_interfaces m [] = m" "add_interfaces m (i # ifs) = add_interfaces (AList.update (if_name i) i m) ifs"
  by (simp_all add: add_interfaces_def)

lemma elements_named_simps [simp]:
  "elements_named name [] = []"
  "elements_named name (el # els) = (if el_name el = name then el # elements_named name els else elements_named name els)"
  by (simp_all add: elements_named_def)

lemma emplaceChild_simps [simp]:
  "n_parent (emplaceChild v c n) = n_parent n" "n_name (emplaceChild v c n) = n_name n"
  "n_interfaces (emplaceChild v c n) = n_interfaces n"
  by (simp_all add: emplaceChild_def)

lemma storeInterface_simps [simp]:
  "n_parent (storeInterface i n) = n_parent n" "n_name (storeInterface i n) = n_name n"
  "n_interfaces (storeInterface i n) = AList.update (if_name i) i (n_interfaces n)"
  "n_children (storeInterface i n) = n_children n"
  by (simp_all add: storeInterface_def)

lemma holds_kids_emplace:
  assumes "holds_kids t i ks (n_children n)" "holds_node t i c k" "i < c"
  shows "holds_kids t i (add_kids ks [k]) (n_children (emplaceChild (dn_name k) c n))"
proof -
  have "map_of (n_children n) (dn_name k) = None \<longleftrightarrow> dn_name k \<notin> dn_name ` set ks"
    using holds_kids_names [OF assms(1)] by (metis list.set_map map_of_eq_None_iff)
  then show ?thesis using assms by (auto simp: emplaceChild_def intro: holds_kids_append)
qed

lemma grown_node:
  assumes "fresh t" "t_nodes t p = Some n" "grown (t_next t) (newNode m t) t1" "t_nodes t1 (t_next t) = Some n1"
  shows "t_nodes t1 p = Some n" "grown p t (changeNode p f t1)" "grown p t (deleteNode (t_next t) t1)"
    "t_nodes (deleteNode (t_next t) t1) p = Some n"
proof -
  have p: "p < t_next t" using fresh_less [of t p] assms(1,2) by simp
  show n: "t_nodes t1 p = Some n" using assms(2,3) p by (simp add: grown_def newNode_def)
  show "grown p t (changeNode p f t1)" using assms(3) p n
    by (auto simp: grown_def newNode_def changeNode_def fresh_def)
  show "grown p t (deleteNode (t_next t) t1)" using assms(3,4) p
    by (auto simp: grown_def newNode_def deleteNode_def fresh_def)
  show "t_nodes (deleteNode (t_next t) t1) p = Some n" using p n by (simp add: deleteNode_def)
qed

lemma fresh_newNode: "fresh t \<Longrightarrow> fresh (newNode n t)"
  by (simp add: fresh_def newNode_def)

lemma addNode_case:
  assumes IH: "\<And>ok t1 n ks. fresh (newNode (new_node\<lparr>n_parent := Parent p, n_name := v\<rparr>) t) \<Longrightarrow>
      t_nodes (newNode (new_node\<lparr>n_parent := Parent p, n_name := v\<rparr>) t) (t_next t) = Some n \<Longrightarrow>
      holds_kids (newNode (new_node\<lparr>n_parent := Parent p, n_name := v\<rparr>) t) (t_next t) ks (n_children n) \<Longrightarrow>
      addChildren (t_next t) els (newNode (new_node\<lparr>n_parent := Parent p, n_name := v\<rparr>) t) = (ok, t1) \<Longrightarrow>
      grown (t_next t) (newNode (new_node\<lparr>n_parent := Parent p, n_name := v\<rparr>) t) t1 \<and>
      children_added (t_next t) (those (map document_node (elements_named ''node'' els)))
        (those (map addInterface (elements_named ''interface'' els))) n ks ok t1"
    and t: "fresh t" "t_nodes t p = Some n" and v: "nameAttribute (Element name attrs els) = Some v"
    and r: "addNode p (Element name attrs els) t = (ok, t')"
  shows "grown p t t' \<and> node_added p (t_next t) (document_node (Element name attrs els)) n ok t'"
proof -
  let ?i = "t_next t" and ?n0 = "new_node\<lparr>n_parent := Parent p, n_name := v\<rparr>"
  obtain ok1 t1 where c: "addChildren ?i els (newNode ?n0 t) = (ok1, t1)" by fastforce
  have z: "fresh (newNode ?n0 t)" "t_nodes (newNode ?n0 t) ?i = Some ?n0"
    "holds_kids (newNode ?n0 t) ?i [] (n_children ?n0)"
    using fresh_newNode [OF t(1)] by (simp_all add: newNode_def new_node_def)
  note g = conjunct1 [OF IH [OF z c]] and a = conjunct2 [OF IH [OF z c]]
  from a obtain n1 where n1: "t_nodes t1 ?i = Some n1" by (auto simp: children_added_def split: option.splits)
  note gn = grown_node [OF t g n1]
  show ?thesis
  proof (cases ok1)
    case True
    with a n1 obtain kids ifs where k: "those (map document_node (elements_named ''node'' els)) = Some kids"
      "those (map addInterface (elements_named ''interface'' els)) = Some ifs"
      "n_parent n1 = Parent p" "n_name n1 = v" "n_interfaces n1 = add_interfaces [] ifs"
      "holds_kids t1 ?i (add_kids [] kids) (n_children n1)"
      by (auto simp: children_added_def new_node_def split: option.splits)
    have t': "t' = changeNode p (emplaceChild v ?i) t1" "ok" using r v c True by (simp_all add: Let_def)
    have p: "p < ?i" using fresh_less [of t p] t by simp
    have "holds_kids t' ?i (add_kids [] kids) (n_children n1)"
      by (rule holds_frame(2) [OF k(6)]) (use p gn(1) t' in \<open>simp add: changeNode_def\<close>)
    moreover have "t_nodes t' ?i = Some n1" using p gn(1) t' n1 by (simp add: changeNode_def)
    ultimately show ?thesis
      using gn(2) t' k v changeNode_same [OF gn(1)] by (simp add: node_added_def)
  next
    case False
    then have "t' = deleteNode ?i t1" "\<not> ok" using r v c by (simp_all add: Let_def)
    then show ?thesis using a n1 v gn(3,4) False
      by (auto simp: node_added_def children_added_def split: option.splits)
  qed
qed

lemma children_added_step:
  assumes "children_added i kids ifs n1 ks1 ok t'" "n_parent n1 = n_parent n" "n_name n1 = n_name n"
  shows "kids' = kids \<Longrightarrow> ifs' = map_option (Cons i') ifs \<Longrightarrow> ks1 = ks \<Longrightarrow>
      n_interfaces n1 = AList.update (if_name i') i' (n_interfaces n) \<Longrightarrow> children_added i kids' ifs' n ks ok t'"
    "kids' = map_option (Cons k) kids \<Longrightarrow> ifs' = ifs \<Longrightarrow> ks1 = add_kids ks [k] \<Longrightarrow>
      n_interfaces n1 = n_interfaces n \<Longrightarrow> children_added i kids' ifs' n ks ok t'"
  using assms unfolding children_added_def by (auto split: option.splits)


lemma children_failed:
  assumes "t_nodes t' i = Some n'" "kids = None \<or> ifs = None"
  shows "children_added i kids ifs n ks False t'"
  using assms by (auto simp: children_added_def split: option.splits)

lemma interface_case:
  assumes IH: "\<And>i'. addInterface el = Some i' \<Longrightarrow> P (changeNode i (storeInterface i') t)"
    and t: "fresh t" "t_nodes t i = Some n" "holds_kids t i ks (n_children n)"
    and el: "el_name el = ''interface''" and r: "addChildren i (el # els) t = (ok, t')"
    and P: "\<And>t. P t \<Longrightarrow> (\<forall>ok t' n ks. fresh t \<and> t_nodes t i = Some n \<and> holds_kids t i ks (n_children n) \<and>
        addChildren i els t = (ok, t') \<longrightarrow> grown i t t' \<and>
        children_added i (those (map document_node (elements_named ''node'' els)))
          (those (map addInterface (elements_named ''interface'' els))) n ks ok t')"
  shows "grown i t t' \<and> children_added i (those (map document_node (elements_named ''node'' (el # els))))
          (those (map addInterface (elements_named ''interface'' (el # els)))) n ks ok t'"
proof (cases "addInterface el")
  case None
  then show ?thesis using r el t by (auto simp: grown_refl intro!: children_failed)
next
  case (Some i')
  let ?t1 = "changeNode i (storeInterface i') t"
  have n1: "t_nodes ?t1 i = Some (storeInterface i' n)" by (rule changeNode_same [OF t(2)])
  have g: "grown i t ?t1" by (rule grown_change [OF t(1,2)])
  have "holds_kids ?t1 i ks (n_children n)"
    by (rule holds_frame(2) [OF t(3)]) (simp add: changeNode_def t(2))
  then have "grown i ?t1 t' \<and> children_added i (those (map document_node (elements_named ''node'' els)))
      (those (map addInterface (elements_named ''interface'' els))) (storeInterface i' n) ks ok t'"
    using P [OF IH [OF Some]] n1 g r el Some by (simp add: grown_def)
  then show ?thesis using el Some grown_trans [OF g]
    by (auto intro: children_added_step(1) [of i _ _ "storeInterface i' n" ks])
qed

text \<open>The state in which the loop goes on after a child.\<close>

lemma next_child:
  assumes "fresh t" "t_nodes t i = Some n" "holds_kids t i ks (n_children n)"
    "grown i t t1 \<and> node_added i (t_next t) (document_node el) n ok1 t1" "document_node el = Some k"
  shows "ok1" "fresh t1" "t_nodes t1 i = Some (emplaceChild (dn_name k) (t_next t) n)"
    "holds_kids t1 i (add_kids ks [k]) (n_children (emplaceChild (dn_name k) (t_next t) n))"
proof -
  have i: "i < t_next t" using fresh_less [of t i] assms(1,2) by simp
  show "ok1" "fresh t1" "t_nodes t1 i = Some (emplaceChild (dn_name k) (t_next t) n)"
    using assms(4,5) by (simp_all add: node_added_def grown_def)
  have "holds_kids t1 i ks (n_children n)"
    by (rule holds_frame(2) [OF assms(3)]) (use assms(4) fresh_less [OF assms(1)] in \<open>auto simp: grown_def\<close>)
  moreover have "holds_node t1 i (t_next t) k" using assms(4,5) by (simp add: node_added_def)
  ultimately show "holds_kids t1 i (add_kids ks [k]) (n_children (emplaceChild (dn_name k) (t_next t) n))"
    using holds_kids_emplace i by blast
qed

lemma node_case:
  assumes N: "\<And>ok t1. addNode i el t = (ok, t1) \<Longrightarrow>
        grown i t t1 \<and> node_added i (t_next t) (document_node el) n ok t1"
    and t: "fresh t" "t_nodes t i = Some n" "holds_kids t i ks (n_children n)"
    and el: "el_name el = ''node''" and r: "addChildren i (el # els) t = (ok, t')"
    and P: "\<And>t1 ok t' n ks. addNode i el t = (True, t1) \<Longrightarrow>
        fresh t1 \<and> t_nodes t1 i = Some n \<and> holds_kids t1 i ks (n_children n) \<and>
        addChildren i els t1 = (ok, t') \<Longrightarrow> grown i t1 t' \<and>
        children_added i (those (map document_node (elements_named ''node'' els)))
          (those (map addInterface (elements_named ''interface'' els))) n ks ok t'"
  shows "grown i t t' \<and> children_added i (those (map document_node (elements_named ''node'' (el # els))))
          (those (map addInterface (elements_named ''interface'' (el # els)))) n ks ok t'"
proof -
  obtain ok1 t1 where c: "addNode i el t = (ok1, t1)" by fastforce
  note g = conjunct1 [OF N [OF c]] and a = conjunct2 [OF N [OF c]]
  show ?thesis
  proof (cases "document_node el")
    case None
    then have "\<not> ok1" "t_nodes t1 i = Some n" using a by (simp_all add: node_added_def)
    then show ?thesis using r el c g None by (auto intro!: children_failed)
  next
    case (Some k)
    note n1 = next_child [OF t conjI [OF g a] Some]
    have c': "addNode i el t = (True, t1)" and r': "addChildren i els t1 = (ok, t')" using n1(1) c r el by simp_all
    have r2:
      "grown i t1 t' \<and> children_added i (those (map document_node (elements_named ''node'' els)))
        (those (map addInterface (elements_named ''interface'' els))) (emplaceChild (dn_name k) (t_next t) n)
        (add_kids ks [k]) ok t'"
      using P [OF c' conjI [OF n1(2) conjI [OF n1(3) conjI [OF n1(4) r']]]] .
    have "children_added i (those (map document_node (elements_named ''node'' (el # els))))
        (those (map addInterface (elements_named ''interface'' (el # els)))) n ks ok t'"
      by (rule children_added_step(2) [OF conjunct2 [OF r2]]) (simp_all only: elements_named_simps el, simp_all add: Some)
    then show ?thesis using grown_trans [OF g conjunct1 [OF r2]] by blast
  qed
qed

lemma addNode_effect:
  "\<forall>ok t' n. fresh t \<and> t_nodes t p = Some n \<and> addNode p el t = (ok, t') \<longrightarrow>
     grown p t t' \<and> node_added p (t_next t) (document_node el) n ok t'"
  "\<forall>ok t' n ks. fresh t \<and> t_nodes t i = Some n \<and> holds_kids t i ks (n_children n) \<and>
     addChildren i els t = (ok, t') \<longrightarrow> grown i t t' \<and>
     children_added i (those (map document_node (elements_named ''node'' els)))
       (those (map addInterface (elements_named ''interface'' els))) n ks ok t'"
proof (induction p el t and i els t rule: addNode_addChildren.induct)
  case (1 parent name attrs els t)
  show ?case
  proof (intro allI impI, elim conjE)
    fix ok t' n
    assume t: "fresh t" "t_nodes t parent = Some n" "addNode parent (Element name attrs els) t = (ok, t')"
    show "grown parent t t' \<and> node_added parent (t_next t) (document_node (Element name attrs els)) n ok t'"
    proof (cases "nameAttribute (Element name attrs els)")
      case None
      then show ?thesis using t by (auto simp: grown_refl node_added_def)
    next
      case (Some v)
      show ?thesis by (rule addNode_case [OF _ t(1,2) Some t(3)]) (use 1 [OF Some] in blast)
    qed
  qed
next
  case (2 i t)
  then show ?case by (auto simp: grown_refl children_added_def)
next
  case (3 i el els t)
  show ?case
  proof (intro allI impI, elim conjE)
    fix ok t' n ks
    assume t: "fresh t" "t_nodes t i = Some n" "holds_kids t i ks (n_children n)"
      and r: "addChildren i (el # els) t = (ok, t')"
    consider "el_name el = ''node''" | "el_name el = ''interface''"
      | "el_name el \<noteq> ''node''" "el_name el \<noteq> ''interface''" by blast
    then show "grown i t t' \<and> children_added i (those (map document_node (elements_named ''node'' (el # els))))
        (those (map addInterface (elements_named ''interface'' (el # els)))) n ks ok t'"
    proof cases
      case 1
      show ?thesis
      proof (rule node_case [OF _ t 1 r])
        show "addNode i el t = (ok, t1) \<Longrightarrow> grown i t t1 \<and> node_added i (t_next t) (document_node el) n ok t1" for ok t1
          using "3.IH"(1) [OF 1] t by blast
        show "grown i t1 t' \<and> children_added i (those (map document_node (elements_named ''node'' els)))
            (those (map addInterface (elements_named ''interface'' els))) n ks ok t'"
          if "addNode i el t = (True, t1)" "fresh t1 \<and> t_nodes t1 i = Some n \<and> holds_kids t1 i ks (n_children n) \<and>
            addChildren i els t1 = (ok, t')" for t1 ok t' n ks
          using "3.IH"(2) [OF 1 that(1) [symmetric]] that(2) by blast
      qed
    next
      case 2
      show ?thesis
        by (rule interface_case [where P = "\<lambda>t. (\<forall>ok t' n ks. fresh t \<and> t_nodes t i = Some n \<and>
            holds_kids t i ks (n_children n) \<and> addChildren i els t = (ok, t') \<longrightarrow> grown i t t' \<and>
            children_added i (those (map document_node (elements_named ''node'' els)))
              (those (map addInterface (elements_named ''interface'' els))) n ks ok t')", OF _ t 2 r])
          (use 3(3) 2 in auto)
    next
      case 3
      then show ?thesis using "3.IH"(4) t r by simp
    qed
  qed
qed


subsection \<open>What is valid in the tree\<close>

definition method_ok :: "string \<Rightarrow> xml_method \<Rightarrow> bool" where
  "method_ok name m \<longleftrightarrow> me_name m = name \<and> me_type m \<in> {MethodCallMessage, SignalMessage} \<and>
     (\<forall>a \<in> set (me_arguments m). a_type a \<noteq> [] \<and> (me_type m = SignalMessage \<longrightarrow> a_isDirectionOut a))"

definition property_ok :: "string \<Rightarrow> xml_property \<Rightarrow> bool" where
  "property_ok name p \<longleftrightarrow> pr_name p = name \<and> name \<noteq> [] \<and> pr_type p \<noteq> [] \<and> pr_access p \<noteq> InvalidAccess"

definition members_ok :: "iface \<Rightarrow> bool" where
  "members_ok i \<longleftrightarrow> distinct (map fst (if_methods i)) \<and> distinct (map fst (if_properties i)) \<and>
     (\<forall>(name, m) \<in> set (if_methods i). method_ok name m) \<and>
     (\<forall>(name, p) \<in> set (if_properties i). property_ok name p)"

definition interfaces_ok :: "(string \<times> iface) list \<Rightarrow> bool" where
  "interfaces_ok ifs \<longleftrightarrow> distinct (map fst ifs) \<and> (\<forall>(name, i) \<in> set ifs. if_name i = name \<and> members_ok i)"

lemma set_update_subset: "set (AList.update k v m) \<subseteq> insert (k, v) (set m)"
  by (induction m) auto

lemma argumentAttributes_signal:
  "argumentAttributes SignalMessage attrs arg = Some a \<Longrightarrow> a_isDirectionOut arg \<Longrightarrow> a_isDirectionOut a"
  by (induction SignalMessage attrs arg rule: argumentAttributes.induct) (auto split: if_splits)

lemma methodChildren_ok:
  "methodChildren mt els m = Some m' \<Longrightarrow> method_ok name m \<Longrightarrow> me_type m = mt \<Longrightarrow> method_ok name m' \<and> me_name m' = me_name m"
proof (induction mt els m rule: methodChildren.induct)
  case (2 mt el els m)
  show ?case
  proof (cases "el_name el = ''arg''")
    case True
    with 2(3) obtain m1 where m1: "addArgument el mt m = Some m1" by (auto split: option.splits)
    then obtain a where a: "argumentAttributes mt (el_attributes el)
        \<lparr>a_name = [], a_type = [], a_isDirectionOut = (mt = SignalMessage)\<rparr> = Some a"
      "a_type a \<noteq> []" "m1 = m\<lparr>me_arguments := me_arguments m @ [a]\<rparr>"
      by (auto simp: addArgument_def split: option.splits if_splits)
    have "mt = SignalMessage \<Longrightarrow> a_isDirectionOut a" using argumentAttributes_signal a(1) by simp
    then have "method_ok name m1" using 2(4,5) a by (auto simp: method_ok_def)
    then show ?thesis using 2(1) [OF True m1] 2(3,5) m1 a True by simp
  next
    case False
    then show ?thesis using 2(2-5) by (auto split: if_splits)
  qed
qed simp

lemma interfaceMember_ok:
  assumes "interfaceMember el i = Some i'" "members_ok i"
  shows "members_ok i' \<and> if_name i' = if_name i"
proof -
  have M: "members_ok i' \<and> if_name i' = if_name i"
    if add: "addMethod el mt i = Some i'" and mt: "mt \<in> {MethodCallMessage, SignalMessage}" for mt
  proof -
    obtain name m where m: "methodChildren mt (el_children el) \<lparr>me_type = mt, me_name = name, me_arguments = []\<rparr> = Some m"
      "i' = i\<lparr>if_methods := AList.update (me_name m) m (if_methods i)\<rparr>"
      using add by (auto simp: addMethod_def split: option.splits)
    have "method_ok name m \<and> me_name m = name"
      using methodChildren_ok [OF m(1), of name] mt by (simp add: method_ok_def)
    then show ?thesis using assms(2) m(2) set_update_subset [of "me_name m" m "if_methods i"]
      by (auto simp: members_ok_def distinct_update)
  qed
  have P: "members_ok i' \<and> if_name i' = if_name i" if add: "addProperty el i = Some i'"
  proof -
    obtain p where p: "pr_name p \<noteq> []" "pr_type p \<noteq> []" "pr_access p \<noteq> InvalidAccess"
      "i' = i\<lparr>if_properties := AList.update (pr_name p) p (if_properties i)\<rparr>"
      using add by (auto simp: addProperty_def split: option.splits if_splits)
    then show ?thesis using assms(2) set_update_subset [of "pr_name p" p "if_properties i"]
      by (auto simp: members_ok_def property_ok_def distinct_update)
  qed
  show ?thesis using assms(1) M P by (auto simp: interfaceMember_def split: if_splits)
qed

lemma interfaceChildren_ok:
  "interfaceChildren els i = Some i' \<Longrightarrow> members_ok i \<Longrightarrow> members_ok i'"
  by (induction els i rule: interfaceChildren.induct) (auto split: option.splits dest: interfaceMember_ok)

lemma addInterface_ok: "addInterface el = Some i \<Longrightarrow> members_ok i"
  by (auto simp: addInterface_def split: option.splits elim!: interfaceChildren_ok) (simp add: members_ok_def)


subsection \<open>The invariant\<close>

text \<open>
  Nodes that are made from documents have a parent pointer, and are entered below another such node, or under the
  whole path of the document.  The nodes that \<^verbatim>\<open>findOrCreateParent\<close> makes on the way to a parent are entered under
  one element of a path, and have none.
\<close>

definition has_parent :: "inode \<Rightarrow> bool" where
  "has_parent n \<longleftrightarrow> (case n_parent n of Parent p \<Rightarrow> True | _ \<Rightarrow> False)"

definition expected_parent :: "nat \<Rightarrow> inode \<Rightarrow> string \<Rightarrow> parent_link" where
  "expected_parent i n name = (if has_parent n \<or> CHR ''/'' \<in> set name then Parent i else Uninitialized)"

lemma has_parent_cong: "n_parent n' = n_parent n \<Longrightarrow> has_parent n' = has_parent n"
  by (simp add: has_parent_def)

lemma expected_parent_cong: "n_parent n' = n_parent n \<Longrightarrow> expected_parent i n' name = expected_parent i n name"
  by (simp add: expected_parent_def has_parent_cong [of n' n])

text \<open>Entries for children lead to existing, younger nodes of that name with exactly that parent pointer.\<close>

definition node_valid :: "introspection_tree \<Rightarrow> nat \<Rightarrow> inode \<Rightarrow> bool" where
  "node_valid t i n \<longleftrightarrow> interfaces_ok (n_interfaces n) \<and> distinct (map fst (n_children n)) \<and>
     (\<forall>(name, c) \<in> set (n_children n). i < c \<and>
        (\<exists>m. t_nodes t c = Some m \<and> n_name m = name \<and> n_parent m = expected_parent i n name))"

definition nodes_valid :: "introspection_tree \<Rightarrow> bool" where
  "nodes_valid t \<longleftrightarrow> (\<forall>i n. t_nodes t i = Some n \<longrightarrow> node_valid t i n)"

definition tree_valid :: "introspection_tree \<Rightarrow> bool" where
  "tree_valid t \<longleftrightarrow> fresh t \<and> (\<exists>n. t_nodes t 0 = Some n \<and> n_parent n = NoParent) \<and> nodes_valid t"

lemma tree_validD:
  assumes "tree_valid t"
  shows "fresh t" "nodes_valid t" "\<exists>n. t_nodes t 0 = Some n \<and> \<not> has_parent n" "t_nodes t 0 \<noteq> None"
  using assms by (auto simp: tree_valid_def has_parent_def)

lemma nodes_validD: "nodes_valid t \<Longrightarrow> t_nodes t i = Some n \<Longrightarrow> node_valid t i n"
  by (simp add: nodes_valid_def)

lemma node_valid_mono:
  assumes "node_valid t i n"
    "\<And>c m. t_nodes t c = Some m \<Longrightarrow> (\<exists>name. (name, c) \<in> set (n_children n)) \<Longrightarrow>
       \<exists>m'. t_nodes t' c = Some m' \<and> n_name m' = n_name m \<and> n_parent m' = n_parent m"
  shows "node_valid t' i n"
  using assms unfolding node_valid_def by fastforce

lemma valid_newNode:
  assumes "fresh t" "nodes_valid t" "n_interfaces m = []" "n_children m = []"
  shows "nodes_valid (newNode m t)"
  unfolding nodes_valid_def
proof (intro allI impI)
  fix i n assume n: "t_nodes (newNode m t) i = Some n"
  show "node_valid (newNode m t) i n"
  proof (cases "i = t_next t")
    case True
    then show ?thesis using n assms(3,4) by (simp add: newNode_def node_valid_def interfaces_ok_def)
  next
    case False
    then have "node_valid t i n" using n assms(2) by (simp add: newNode_def nodes_valid_def)
    then show ?thesis
      by (rule node_valid_mono) (use assms(1) in \<open>auto simp: newNode_def fresh_def\<close>)
  qed
qed

lemma valid_changeNode:
  assumes "nodes_valid t" "t_nodes t i = Some n" "n_name (f n) = n_name n" "n_parent (f n) = n_parent n"
    "node_valid t i n \<Longrightarrow> node_valid t i (f n)"
  shows "nodes_valid (changeNode i f t)"
  unfolding nodes_valid_def
proof (intro allI impI)
  fix j m assume m: "t_nodes (changeNode i f t) j = Some m"
  have "node_valid t j m"
    using m assms(1,2) assms(5) [OF nodes_validD [OF assms(1,2)]]
    by (auto simp: changeNode_def nodes_valid_def split: if_splits)
  then show "node_valid (changeNode i f t) j m"
    by (rule node_valid_mono) (use assms(2-4) in \<open>auto simp: changeNode_def\<close>)
qed

lemma valid_storeInterface:
  assumes "nodes_valid t" "t_nodes t i = Some n" "members_ok ifc"
  shows "nodes_valid (changeNode i (storeInterface ifc) t)"
proof (rule valid_changeNode [OF assms(1,2)])
  show "node_valid t i n \<Longrightarrow> node_valid t i (storeInterface ifc n)"
    using assms(3) set_update_subset [of "if_name ifc" ifc "n_interfaces n"]
    by (auto simp: node_valid_def interfaces_ok_def distinct_update expected_parent_cong [of "storeInterface ifc n" n])
qed simp_all

lemma valid_emplaceChild:
  assumes "nodes_valid t" "t_nodes t i = Some n" "t_nodes t c = Some m" "n_name m = name" "n_parent m = Parent i" "i < c"
    "has_parent n \<or> CHR ''/'' \<in> set name"
  shows "nodes_valid (changeNode i (emplaceChild name c) t)"
proof (rule valid_changeNode [OF assms(1,2)])
  show "node_valid t i n \<Longrightarrow> node_valid t i (emplaceChild name c n)"
    using assms(3-7) expected_parent_cong [of "emplaceChild name c n" n]
    by (auto simp: node_valid_def emplaceChild_def map_of_eq_None_iff expected_parent_def)
qed simp_all

lemma valid_deleteNode:
  assumes "nodes_valid t" "\<And>j n name. t_nodes t j = Some n \<Longrightarrow> (name, i) \<notin> set (n_children n)"
  shows "nodes_valid (deleteNode i t)"
  unfolding nodes_valid_def
proof (intro allI impI)
  fix j m assume m: "t_nodes (deleteNode i t) j = Some m"
  then have j: "t_nodes t j = Some m" by (simp add: deleteNode_def split: if_splits)
  show "node_valid (deleteNode i t) j m"
    by (rule node_valid_mono [OF nodes_validD [OF assms(1) j]]) (use assms(2) j in \<open>auto simp: deleteNode_def\<close>)
qed

text \<open>Nothing refers to a node that was added and is still being built.\<close>

lemma not_child:
  assumes "fresh t" "nodes_valid t" "nodes_valid t1" "grown (t_next t) (newNode m t) t1"
    "t_nodes t1 j = Some n"
  shows "(name, t_next t) \<notin> set (n_children n)"
proof
  assume c: "(name, t_next t) \<in> set (n_children n)"
  have j: "j < t_next t" using nodes_validD [OF assms(3,5)] c by (auto simp: node_valid_def)
  then have "t_nodes t j = Some n" using assms(4,5) by (auto simp: grown_def newNode_def)
  from nodes_validD [OF assms(2) this] have "t_nodes t (t_next t) \<noteq> None" using c by (auto simp: node_valid_def)
  then show False using assms(1) by (auto simp: fresh_def)
qed


lemma addNode_valid:
  "\<forall>ok t' n. fresh t \<and> nodes_valid t \<and> t_nodes t p = Some n \<and>
     (has_parent n \<or> (\<forall>v. nameAttribute el = Some v \<longrightarrow> CHR ''/'' \<in> set v)) \<and> addNode p el t = (ok, t') \<longrightarrow> nodes_valid t'"
  "\<forall>ok t' n ks. fresh t \<and> nodes_valid t \<and> t_nodes t i = Some n \<and> has_parent n \<and> holds_kids t i ks (n_children n) \<and>
     addChildren i els t = (ok, t') \<longrightarrow> nodes_valid t'"
proof (induction p el t and i els t rule: addNode_addChildren.induct)
  case (1 p name attrs els t)
  show ?case
  proof (intro allI impI, elim conjE)
    fix ok t' n
    assume t: "fresh t" "nodes_valid t" "t_nodes t p = Some n" "addNode p (Element name attrs els) t = (ok, t')"
      and slash: "has_parent n \<or> (\<forall>v. nameAttribute (Element name attrs els) = Some v \<longrightarrow> CHR ''/'' \<in> set v)"
    show "nodes_valid t'"
    proof (cases "nameAttribute (Element name attrs els)")
      case None
      then show ?thesis using t by simp
    next
      case (Some v)
      let ?i = "t_next t" and ?n0 = "new_node\<lparr>n_parent := Parent p, n_name := v\<rparr>"
      obtain ok1 t1 where c: "addChildren ?i els (newNode ?n0 t) = (ok1, t1)" by fastforce
      have z: "fresh (newNode ?n0 t)" "t_nodes (newNode ?n0 t) ?i = Some ?n0"
        "holds_kids (newNode ?n0 t) ?i [] (n_children ?n0)" "has_parent ?n0"
        using fresh_newNode [OF t(1)] by (simp_all add: newNode_def new_node_def has_parent_def)
      have "nodes_valid (newNode ?n0 t)" by (rule valid_newNode [OF t(1,2)]) (simp_all add: new_node_def)
      then have v1: "nodes_valid t1" using 1 [OF Some refl] z c by blast
      have e: "grown ?i (newNode ?n0 t) t1 \<and>
          children_added ?i (those (map document_node (elements_named ''node'' els)))
            (those (map addInterface (elements_named ''interface'' els))) ?n0 [] ok1 t1"
        using addNode_effect(2) z c by blast
      then obtain n1 where n1: "t_nodes t1 ?i = Some n1" by (auto simp: children_added_def split: option.splits)
      note gn = grown_node [OF t(1,3) conjunct1 [OF e] n1]
      show ?thesis
      proof (cases ok1)
        case True
        have "n_parent n1 = Parent p" "n_name n1 = v"
          using e n1 True by (auto simp: children_added_def new_node_def split: option.splits)
        then have "nodes_valid (changeNode p (emplaceChild v ?i) t1)"
          using valid_emplaceChild [OF v1 gn(1) n1] fresh_less [of t p] t slash Some by auto
        then show ?thesis using t(4) Some c True by (simp add: Let_def)
      next
        case False
        have "nodes_valid (deleteNode ?i t1)"
          by (rule valid_deleteNode [OF v1]) (rule not_child [OF t(1,2) v1 conjunct1 [OF e]])
        then show ?thesis using t(4) Some c False by (simp add: Let_def)
      qed
    qed
  qed
next
  case (3 i el els t)
  show ?case
  proof (intro allI impI, elim conjE)
    fix ok t' n ks
    assume t: "fresh t" "nodes_valid t" "t_nodes t i = Some n" "holds_kids t i ks (n_children n)"
      and doc: "has_parent n" and r: "addChildren i (el # els) t = (ok, t')"
    consider "el_name el = ''node''" | "el_name el = ''interface''"
      | "el_name el \<noteq> ''node''" "el_name el \<noteq> ''interface''" by blast
    then show "nodes_valid t'"
    proof cases
      case 1
      obtain ok1 t1 where c: "addNode i el t = (ok1, t1)" by fastforce
      have v1: "nodes_valid t1" using "3.IH"(1) [OF 1] t doc c by blast
      have e: "grown i t t1 \<and> node_added i (t_next t) (document_node el) n ok1 t1"
        using addNode_effect(1) t c by blast
      show ?thesis
      proof (cases "document_node el")
        case None
        then show ?thesis using e v1 r c 1 by (simp add: node_added_def)
      next
        case (Some k)
        note k = next_child [OF t(1,3,4) e Some]
        have c': "addNode i el t = (True, t1)" and r': "addChildren i els t1 = (ok, t')" using k(1) c r 1 by simp_all
        have "has_parent (emplaceChild (dn_name k) (t_next t) n)" using doc by (simp add: has_parent_def)
        then show ?thesis using "3.IH"(2) [OF 1 c' [symmetric]] k(2,3,4) v1 r' by blast
      qed
    next
      case 2
      show ?thesis
      proof (cases "addInterface el")
        case None
        then show ?thesis using r t(2) 2 by simp
      next
        case (Some ifc)
        let ?t1 = "changeNode i (storeInterface ifc) t"
        have v1: "nodes_valid ?t1" by (rule valid_storeInterface [OF t(2,3) addInterface_ok [OF Some]])
        have f: "fresh ?t1" using grown_change [OF t(1,3)] by (simp add: grown_def)
        have n1: "t_nodes ?t1 i = Some (storeInterface ifc n)" by (rule changeNode_same [OF t(3)])
        have "holds_kids ?t1 i ks (n_children (storeInterface ifc n))"
          using holds_frame(2) [OF t(4), of ?t1] by (simp add: changeNode_def t(3))
        moreover have "has_parent (storeInterface ifc n)" using doc by (simp add: has_parent_def)
        ultimately show ?thesis using "3.IH"(3) [OF _ 2 Some] v1 f n1 r 2 Some by auto
      qed
    next
      case 3
      then show ?thesis using "3.IH"(4) t doc r by auto
    qed
  qed
qed auto


lemma getline_no_delimiter: "e \<in> set (getline_parts c p s) \<Longrightarrow> c \<notin> set p \<Longrightarrow> c \<notin> set e"
proof (induction s arbitrary: p)
  case (Cons a s)
  show ?case
  proof (cases "a = c")
    case True
    then show ?thesis using Cons.IH [of "[]"] Cons.prems by (cases "e = rev p") simp_all
  next
    case False
    then show ?thesis using Cons.IH [of "a # p"] Cons.prems by simp
  qed
qed (auto split: if_splits)

lemma split_no_delimiter: "e \<in> set (split s c b) \<Longrightarrow> c \<notin> set e"
  using getline_no_delimiter [of e c "[]" s] by (simp add: split_def)

lemma parent_path_no_slash: "e \<in> set (butlast (split q (CHR ''/'') b)) \<Longrightarrow> CHR ''/'' \<notin> set e"
  using split_no_delimiter [of e q "CHR ''/''" b] in_set_butlastD by fast

lemma valid_path_slash: "isObjectPathValid (cstring_of q) = Some True \<Longrightarrow> CHR ''/'' \<in> set q"
  by (cases q) (auto simp: isObjectPathValid_def cs_at_cstring_of Let_def split: if_splits)

subsection \<open>Walking along a path\<close>

fun walk :: "introspection_tree \<Rightarrow> nat \<Rightarrow> string list \<Rightarrow> nat option" where
  "walk t i [] = Some i"
| "walk t i (e # es) = (case child t i e of None \<Rightarrow> None | Some c \<Rightarrow> walk t c es)"

text \<open>A node is kept with its place, its name, its interfaces and its children.\<close>

definition keeps :: "introspection_tree \<Rightarrow> introspection_tree \<Rightarrow> bool" where
  "keeps t t' \<longleftrightarrow> (\<forall>i n. t_nodes t i = Some n \<longrightarrow> (\<exists>n'. t_nodes t' i = Some n' \<and> n_parent n' = n_parent n \<and>
     n_name n' = n_name n \<and> n_interfaces n' = n_interfaces n \<and>
     map_of (n_children n) \<subseteq>\<^sub>m map_of (n_children n')))"

lemma keeps_refl [simp]: "keeps t t"
  by (simp add: keeps_def)

lemma keepsE:
  assumes "keeps t t'" "t_nodes t i = Some n"
  obtains n' where "t_nodes t' i = Some n'" "n_parent n' = n_parent n" "n_name n' = n_name n"
    "n_interfaces n' = n_interfaces n" "map_of (n_children n) \<subseteq>\<^sub>m map_of (n_children n')"
  using assms unfolding keeps_def by blast

lemma keeps_trans:
  assumes "keeps t t1" "keeps t1 t2"
  shows "keeps t t2"
  unfolding keeps_def
proof (intro allI impI)
  fix i n assume "t_nodes t i = Some n"
  then obtain n1 where n1: "t_nodes t1 i = Some n1" "n_parent n1 = n_parent n" "n_name n1 = n_name n"
    "n_interfaces n1 = n_interfaces n" "map_of (n_children n) \<subseteq>\<^sub>m map_of (n_children n1)"
    by (rule keepsE [OF assms(1)])
  obtain n2 where n2: "t_nodes t2 i = Some n2" "n_parent n2 = n_parent n1" "n_name n2 = n_name n1"
    "n_interfaces n2 = n_interfaces n1" "map_of (n_children n1) \<subseteq>\<^sub>m map_of (n_children n2)"
    by (rule keepsE [OF assms(2) n1(1)])
  show "\<exists>n'. t_nodes t2 i = Some n' \<and> n_parent n' = n_parent n \<and> n_name n' = n_name n \<and>
      n_interfaces n' = n_interfaces n \<and> map_of (n_children n) \<subseteq>\<^sub>m map_of (n_children n')"
    using n1 n2 map_le_trans [OF n1(5) n2(5)] by simp
qed

lemma keeps_child:
  assumes "keeps t t'" "child t i e = Some c"
  shows "child t' i e = Some c"
proof -
  obtain n where n: "t_nodes t i = Some n" "map_of (n_children n) e = Some c"
    using assms(2) by (auto simp: child_def split: option.splits)
  obtain n' where "t_nodes t' i = Some n'" "map_of (n_children n) \<subseteq>\<^sub>m map_of (n_children n')"
    by (rule keepsE [OF assms(1) n(1)])
  then show ?thesis using n(2) by (metis child_def domI map_le_def option.simps(5))
qed

lemma keeps_walk: "keeps t t' \<Longrightarrow> walk t i es = Some j \<Longrightarrow> walk t' i es = Some j"
  by (induction es arbitrary: i) (auto split: option.splits simp: keeps_child)

lemma child_node:
  assumes "nodes_valid t" "child t i e = Some c"
  shows "t_nodes t c \<noteq> None"
proof -
  obtain n where n: "t_nodes t i = Some n" "map_of (n_children n) e = Some c"
    using assms(2) by (auto simp: child_def split: option.splits)
  show ?thesis using nodes_validD [OF assms(1) n(1)] map_of_SomeD [OF n(2)] by (fastforce simp: node_valid_def)
qed

lemma keeps_grown:
  assumes "grown p t t'" "fresh t" "t_nodes t p = Some n" "t_nodes t' p = Some n'" "n_parent n' = n_parent n"
    "n_name n' = n_name n" "n_interfaces n' = n_interfaces n" "map_of (n_children n) \<subseteq>\<^sub>m map_of (n_children n')"
  shows "keeps t t'"
  unfolding keeps_def
proof (intro allI impI)
  fix i m assume m: "t_nodes t i = Some m"
  show "\<exists>n'. t_nodes t' i = Some n' \<and> n_parent n' = n_parent m \<and> n_name n' = n_name m \<and>
      n_interfaces n' = n_interfaces m \<and> map_of (n_children m) \<subseteq>\<^sub>m map_of (n_children n')"
    using assms m fresh_less [OF assms(2)] by (cases "i = p") (auto simp: grown_def)
qed

lemma emplace_le: "map_of (n_children n) \<subseteq>\<^sub>m map_of (n_children (emplaceChild v c n))"
  by (auto simp: emplaceChild_def map_le_def map_add_def split: option.splits)

lemma addNode_keeps:
  assumes "fresh t" "t_nodes t p = Some n" "addNode p el t = (ok, t')"
  shows "keeps t t'"
proof -
  have e: "grown p t t' \<and> node_added p (t_next t) (document_node el) n ok t'"
    using addNode_effect(1) assms by blast
  have "\<exists>n'. t_nodes t' p = Some n' \<and> n_parent n' = n_parent n \<and> n_name n' = n_name n \<and>
      n_interfaces n' = n_interfaces n \<and> map_of (n_children n) \<subseteq>\<^sub>m map_of (n_children n')"
    using e by (auto simp: node_added_def emplace_le split: option.splits)
  then show ?thesis using keeps_grown [OF conjunct1 [OF e] assms(1,2)] by blast
qed

text \<open>One missing node on the way to a parent; its own parent pointer stays uninitialized.\<close>

definition create_step :: "nat \<Rightarrow> string \<Rightarrow> introspection_tree \<Rightarrow> introspection_tree" where
  "create_step i e t = changeNode i (setChild e (t_next t)) (newNode (new_node\<lparr>n_name := e\<rparr>) t)"

lemma create_step_effect:
  assumes "fresh t" "nodes_valid t" "t_nodes t i = Some n" "child t i e = None" "\<not> has_parent n" "CHR ''/'' \<notin> set e"
  shows "fresh (create_step i e t)" "nodes_valid (create_step i e t)" "keeps t (create_step i e t)"
    "t_fault (create_step i e t) = t_fault t" "child (create_step i e t) i e = Some (t_next t)"
    "t_nodes (create_step i e t) (t_next t) = Some (new_node\<lparr>n_name := e\<rparr>)"
proof -
  let ?t0 = "newNode (new_node\<lparr>n_name := e\<rparr>) t"
  have i: "i < t_next t" using fresh_less [of t i] assms by simp
  have n: "t_nodes ?t0 i = Some n" using i assms(3) by (simp add: newNode_def)
  have f: "fresh ?t0" by (rule fresh_newNode [OF assms(1)])
  have new: "map_of (n_children n) e = None" using assms(3,4) by (simp add: child_def)
  show "fresh (create_step i e t)" "t_fault (create_step i e t) = t_fault t"
    using grown_change [OF f n] by (simp_all add: create_step_def grown_def newNode_def)
  show "child (create_step i e t) i e = Some (t_next t)"
    using n by (simp add: create_step_def child_def changeNode_def setChild_def update_conv')
  show c: "t_nodes (create_step i e t) (t_next t) = Some (new_node\<lparr>n_name := e\<rparr>)"
    using n i by (simp add: create_step_def changeNode_def) (simp add: newNode_def)
  show "keeps t (create_step i e t)"
  proof (rule keeps_grown [OF _ assms(1,3)])
    show "grown i t (create_step i e t)" using grown_change [OF f n, of "setChild e (t_next t)"]
      by (auto simp: grown_def create_step_def newNode_def)
    show "t_nodes (create_step i e t) i = Some (setChild e (t_next t) n)"
      unfolding create_step_def by (rule changeNode_same [OF n])
  qed (use new in \<open>auto simp: setChild_def update_conv' map_le_def\<close>)
  have "nodes_valid ?t0" by (rule valid_newNode [OF assms(1,2)]) (simp_all add: new_node_def)
  then show "nodes_valid (create_step i e t)" unfolding create_step_def
  proof (rule valid_changeNode [OF _ n])
    assume v: "node_valid ?t0 i n"
    have "\<forall>(name, c) \<in> insert (e, t_next t) (set (n_children n)). i < c \<and>
        (\<exists>m. t_nodes ?t0 c = Some m \<and> n_name m = name \<and> n_parent m = expected_parent i n name)"
      using v i assms(5,6) unfolding node_valid_def
      by (simp add: newNode_def) (simp add: new_node_def expected_parent_def)
    then have "\<forall>(name, c) \<in> set (AList.update e (t_next t) (n_children n)). i < c \<and>
        (\<exists>m. t_nodes ?t0 c = Some m \<and> n_name m = name \<and> n_parent m = expected_parent i n name)"
      by - (rule ballI, drule bspec, erule subsetD [OF set_update_subset])
    then show "node_valid ?t0 i (setChild e (t_next t) n)"
      using v expected_parent_cong [of "setChild e (t_next t) n" n]
      by (simp add: node_valid_def setChild_def distinct_update)
  qed (simp_all add: setChild_def)
qed

text \<open>A path of elements leads to nodes that \<^verbatim>\<open>findOrCreateParent\<close> has made.\<close>

definition made_parent :: "introspection_tree \<Rightarrow> nat \<Rightarrow> bool" where
  "made_parent t i \<longleftrightarrow> (\<exists>n. t_nodes t i = Some n \<and> \<not> has_parent n)"

lemma made_child:
  assumes "nodes_valid t" "made_parent t i" "child t i e = Some c" "CHR ''/'' \<notin> set e"
  shows "made_parent t c"
proof -
  obtain n where n: "t_nodes t i = Some n" "\<not> has_parent n" using assms(2) by (auto simp: made_parent_def)
  then have "(e, c) \<in> set (n_children n)" using assms(3) by (auto simp: child_def map_of_SomeD)
  with nodes_validD [OF assms(1) n(1)] obtain m where "t_nodes t c = Some m" "n_parent m = expected_parent i n e"
    by (auto simp: node_valid_def)
  then show ?thesis using n(2) assms(4) by (auto simp: made_parent_def has_parent_def expected_parent_def)
qed

lemma descend_effect:
  assumes "fresh t" "nodes_valid t" "made_parent t i" "\<forall>e \<in> set es. CHR ''/'' \<notin> set e" "descend es i t = (j, t')"
  shows "fresh t' \<and> nodes_valid t' \<and> keeps t t' \<and> t_fault t' = t_fault t \<and> walk t' i es = Some j \<and>
     made_parent t' j \<and>
     (case walk t i es of
        Some j0 \<Rightarrow> t' = t
      | None \<Rightarrow> (\<exists>n. t_nodes t' j = Some n \<and> n_parent n = Uninitialized) \<and> t_nodes t j = None \<and> (\<forall>v. child t' j v = None))"
  using assms
proof (induction es i t rule: descend.induct)
  case (1 node t)
  then show ?case by simp
next
  case (2 e es i t)
  have e: "CHR ''/'' \<notin> set e" and es: "\<forall>e \<in> set es. CHR ''/'' \<notin> set e" using 2(6) by simp_all
  show ?case
  proof (cases "child t i e")
    case (Some c)
    then have d: "descend es c t = (j, t')" using 2(7) by simp
    note IH = 2(2) [OF Some 2(3,4) made_child [OF 2(4,5) Some e] es d]
    have "child t' i e = Some c" using keeps_child Some IH by blast
    then show ?thesis using IH Some by simp
  next
    case None
    obtain n where n: "t_nodes t i = Some n" "\<not> has_parent n" using 2(5) by (auto simp: made_parent_def)
    note cs = create_step_effect [OF 2(3,4) n(1) None n(2) e]
    have d: "descend es (t_next t) (create_step i e t) = (j, t')" using 2(7) None by (simp add: create_step_def)
    have made: "made_parent (create_step i e t) (t_next t)"
      using cs(6) by (simp add: made_parent_def has_parent_def new_node_def)
    have IH: "fresh t' \<and> nodes_valid t' \<and> keeps (create_step i e t) t' \<and> t_fault t' = t_fault t \<and>
        walk t' (t_next t) es = Some j \<and> made_parent t' j \<and>
        (case walk (create_step i e t) (t_next t) es of
           Some j0 \<Rightarrow> t' = create_step i e t
         | None \<Rightarrow> (\<exists>n. t_nodes t' j = Some n \<and> n_parent n = Uninitialized) \<and>
             t_nodes (create_step i e t) j = None \<and> (\<forall>v. child t' j v = None))"
      using 2(1) [OF None, folded create_step_def, OF cs(1,2) made es d] cs(4) by simp
    have k: "keeps t t'" using keeps_trans [OF cs(3)] IH by blast
    have w: "walk t' i (e # es) = Some j" using IH keeps_child [OF _ cs(5), of t'] by simp
    have new: "t_nodes t (t_next t) = None" using 2(3) by (simp add: fresh_def)
    have "(\<exists>n. t_nodes t' j = Some n \<and> n_parent n = Uninitialized) \<and> t_nodes t j = None \<and> (\<forall>v. child t' j v = None)"
    proof (cases es)
      case Nil
      then show ?thesis using d cs(6) new by (simp add: new_node_def child_def)
    next
      case (Cons a list)
      then have "walk (create_step i e t) (t_next t) es = None" using cs(6) by (simp add: child_def new_node_def)
      moreover have "t_nodes (create_step i e t) j = None \<Longrightarrow> t_nodes t j = None"
        by (cases "t_nodes t j") (auto elim: keepsE [OF cs(3)])
      ultimately show ?thesis using IH by simp
    qed
    then show ?thesis using k w IH None by simp
  qed
qed


subsection \<open>Merging documents\<close>

definition parent_path :: "string \<Rightarrow> string list" where
  "parent_path q = butlast (split q (CHR ''/'') False)"

definition leaf_name :: "string \<Rightarrow> string" where
  "leaf_name q = (if split q (CHR ''/'') False = [] then [] else last (split q (CHR ''/'') False))"

lemma descend_root:
  assumes "tree_valid t" "descend (parent_path q) 0 t = (j, t')"
  shows "fresh t' \<and> nodes_valid t' \<and> keeps t t' \<and> t_fault t' = t_fault t \<and> walk t' 0 (parent_path q) = Some j \<and>
     t_nodes t' j \<noteq> None \<and> made_parent t' j \<and>
     (case walk t 0 (parent_path q) of
        Some j0 \<Rightarrow> t' = t
      | None \<Rightarrow> (\<exists>n. t_nodes t' j = Some n \<and> n_parent n = Uninitialized) \<and> t_nodes t j = None \<and> (\<forall>v. child t' j v = None))"
proof -
  have "made_parent t 0" using tree_validD(3) [OF assms(1)] by (simp add: made_parent_def)
  moreover have "\<forall>e \<in> set (parent_path q). CHR ''/'' \<notin> set e" using parent_path_no_slash by (simp add: parent_path_def)
  ultimately show ?thesis
    using descend_effect [OF tree_validD(1,2) [OF assms(1)] _ _ assms(2)] by (auto simp: made_parent_def)
qed

lemma path_check_total: "isObjectPathValid (cstring_of q) \<noteq> None"
  by (simp add: isObjectPathValid_def cs_at_cstring_of Let_def del: not_None_eq)

lemma keeps_node: "keeps t t' \<Longrightarrow> t_nodes t i \<noteq> None \<Longrightarrow> t_nodes t' i \<noteq> None"
  by (auto simp: keeps_def)

lemma document_node_name:
  "document_node el = Some k \<Longrightarrow> el_attributes el = [(''name'', dn_name k)]"
  by (cases el) (auto simp: nameAttribute_def split: option.splits list.splits if_splits)

lemma mergeXml_cases:
  assumes "mergeXml parse d p t = (ok, t')"
  obtains (refused) "\<not> ok" "t' = t"
  | (taken) el q parent where "\<not> ok" "parse d = Some (Some el)" "documentPath el p = Some q"
      "descend (parent_path q) 0 t = (parent, t')" "child t' parent (leaf_name q) \<noteq> None"
  | (added) el q parent t1 where "parse d = Some (Some el)" "el_name el = ''node''" "documentPath el p = Some q"
      "isObjectPathValid (cstring_of q) = Some True" "descend (parent_path q) 0 t = (parent, t1)"
      "child t1 parent (leaf_name q) = None" "addNode parent el t1 = (ok, t')"
proof (cases "parse d")
  case None
  then show ?thesis using assms refused by (simp add: mergeXml_def)
next
  case (Some r)
  show ?thesis
  proof (cases r)
    case None
    then show ?thesis using assms Some refused by (simp add: mergeXml_def)
  next
    case (Some el)
    note parse = \<open>parse d = Some r\<close> [unfolded Some]
    show ?thesis
    proof (cases "el_name el = ''node'' \<and> documentPath el p \<noteq> None")
      case False
      then show ?thesis using assms parse refused by (auto simp: mergeXml_def split: if_splits)
    next
      case True
      then obtain q where q: "el_name el = ''node''" "documentPath el p = Some q" by blast
      obtain parent t1 where d: "descend (parent_path q) 0 t = (parent, t1)" by fastforce
      show ?thesis
      proof (cases "isObjectPathValid (cstring_of q)")
        case None
        then show ?thesis using path_check_total by blast
      next
        case (Some valid)
        show ?thesis
        proof (cases valid)
          case False
          then show ?thesis using assms parse q Some refused by (simp add: mergeXml_def findOrCreateParent_def)
        next
          case True
          then have m: "(if child t1 parent (leaf_name q) \<noteq> None then (False, t1) else addNode parent el t1) = (ok, t')"
            using assms parse q Some d
            by (simp add: mergeXml_def findOrCreateParent_def parent_path_def leaf_name_def Let_def)
          then show ?thesis using parse q Some True d taken added by (auto split: if_splits)
        qed
      qed
    qed
  qed
qed

lemma keeps_root: "keeps t t' \<Longrightarrow> \<exists>n. t_nodes t 0 = Some n \<and> n_parent n = NoParent \<Longrightarrow>
    \<exists>n. t_nodes t' 0 = Some n \<and> n_parent n = NoParent"
  unfolding keeps_def by metis

lemma documentPath_attribute: "documentPath el p = Some q \<Longrightarrow> nameAttribute el = Some v \<Longrightarrow> v = q"
  by (cases el) (auto simp: documentPath_def nameAttribute_def split: list.splits if_splits)

lemma mergeXml_effect:
  assumes "tree_valid t" "mergeXml parse d p t = (ok, t')"
  shows "keeps t t' \<and> tree_valid t'"
  using assms(2)
proof (cases rule: mergeXml_cases)
  case refused
  then show ?thesis using assms(1) by simp
next
  case (taken el q parent)
  then have "fresh t' \<and> nodes_valid t' \<and> keeps t t'"
    using descend_root [OF assms(1)] by blast
  then show ?thesis using assms(1) keeps_root unfolding tree_valid_def by blast
next
  case (added el q parent t1)
  have e: "fresh t1 \<and> nodes_valid t1 \<and> keeps t t1 \<and> t_nodes t1 parent \<noteq> None"
    using descend_root [OF assms(1) added(5)] by blast
  then obtain n where n: "t_nodes t1 parent = Some n" by blast
  have k: "keeps t t'" using keeps_trans addNode_keeps [OF _ n added(7)] e by blast
  moreover have "nameAttribute el = Some v \<longrightarrow> CHR ''/'' \<in> set v" for v
    using valid_path_slash [OF added(4)] documentPath_attribute [OF added(3)] by blast
  then have "nodes_valid t'" using addNode_valid(1) e n added(7) by blast
  moreover have "grown parent t1 t'" using addNode_effect(1) e n added(7) by blast
  ultimately show ?thesis using assms(1) keeps_root [OF k] unfolding tree_valid_def grown_def by blast
qed

lemma mergeXml_no_fault:
  assumes "tree_valid t" "mergeXml parse d p t = (ok, t')"
  shows "t_fault t' = t_fault t"
  using assms(2)
proof (cases rule: mergeXml_cases)
  case (taken el q parent)
  then show ?thesis using descend_root [OF assms(1)] by blast
next
  case (added el q parent t1)
  have e: "fresh t1 \<and> t_fault t1 = t_fault t \<and> t_nodes t1 parent \<noteq> None"
    using descend_root [OF assms(1) added(5)] by blast
  then obtain n where n: "t_nodes t1 parent = Some n" by blast
  have "grown parent t1 t'" using addNode_effect(1) e n added(7) by blast
  then show ?thesis using e by (simp add: grown_def)
qed simp

text \<open>Which trees there are: the empty one, and what merging makes of a tree, successful or not.\<close>

inductive tree_reachable :: "(string \<Rightarrow> xml_element option option) \<Rightarrow> introspection_tree \<Rightarrow> bool" for parse where
  tree_start: "tree_reachable parse IntrospectionTree"
| tree_merge: "tree_reachable parse t \<Longrightarrow> mergeXml parse d p t = (ok, t') \<Longrightarrow> tree_reachable parse t'"

lemma tree_valid_start: "tree_valid IntrospectionTree"
  by (auto simp: tree_valid_def IntrospectionTree_def new_node_def fresh_def nodes_valid_def node_valid_def
      interfaces_ok_def split: if_splits)

lemma reachable_valid: "tree_reachable parse t \<Longrightarrow> tree_valid t \<and> \<not> t_fault t"
proof (induction rule: tree_reachable.induct)
  case tree_start
  then show ?case using tree_valid_start by (simp add: IntrospectionTree_def)
next
  case (tree_merge t d p ok t')
  then show ?case using mergeXml_effect mergeXml_no_fault by blast
qed

lemma merge_added:
  assumes "tree_valid t" "mergeXml parse d p t = (ok, t')" "parse d = Some (Some el)" "documentPath el p = Some q"
    "descend (parent_path q) 0 t = (parent, t1)" "child t1 parent (leaf_name q) = None"
    "addNode parent el t1 = (ok, t')"
  shows "ok \<longleftrightarrow> document_node el \<noteq> None"
    "document_node el = Some k \<Longrightarrow>
      walk t' 0 (parent_path q) = Some parent \<and> t_nodes t1 (t_next t1) = None \<and> keeps t t1 \<and> keeps t1 t' \<and>
      holds_node t' parent (t_next t1) k \<and>
      child t' parent (dn_name k) = (case child t1 parent (dn_name k) of None \<Rightarrow> Some (t_next t1) | c \<Rightarrow> c)"
proof -
  have e: "fresh t1 \<and> nodes_valid t1 \<and> keeps t t1 \<and> t_nodes t1 parent \<noteq> None \<and> walk t1 0 (parent_path q) = Some parent"
    using descend_root [OF assms(1,5)] by blast
  then obtain n where n: "t_nodes t1 parent = Some n" by blast
  have a: "grown parent t1 t' \<and> node_added parent (t_next t1) (document_node el) n ok t'"
    using addNode_effect(1) e n assms(7) by blast
  show "ok \<longleftrightarrow> document_node el \<noteq> None" using a by (auto simp: node_added_def split: option.splits)
  assume k: "document_node el = Some k"
  have kk: "keeps t1 t'" using addNode_keeps n e assms(7) by blast
  have "t_nodes t' parent = Some (emplaceChild (dn_name k) (t_next t1) n)" "holds_node t' parent (t_next t1) k"
    using a k by (simp_all add: node_added_def)
  moreover have "t_nodes t1 (t_next t1) = None" using e by (simp add: fresh_def)
  ultimately show "walk t' 0 (parent_path q) = Some parent \<and> t_nodes t1 (t_next t1) = None \<and> keeps t t1 \<and> keeps t1 t' \<and>
      holds_node t' parent (t_next t1) k \<and>
      child t' parent (dn_name k) = (case child t1 parent (dn_name k) of None \<Rightarrow> Some (t_next t1) | c \<Rightarrow> c)"
    using e kk n keeps_walk by (auto simp: child_def emplaceChild_def map_add_def split: option.splits)
qed


lemma documentPath_node:
  assumes "document_node el = Some k" "documentPath el p = Some q"
  shows "q = dn_name k \<and> p \<in> {[], dn_name k}"
  using assms document_node_name by (auto simp: documentPath_def split: if_splits)

text \<open>Whether a node is filed under the whole path below the node that its parent's path leads to.\<close>

definition merged_before :: "introspection_tree \<Rightarrow> string \<Rightarrow> bool" where
  "merged_before t q \<longleftrightarrow>
     (case walk t 0 (parent_path q) of None \<Rightarrow> False | Some parent \<Rightarrow> child t parent q \<noteq> None)"

text \<open>C11: A document that is merged successfully, and was not merged before, is in the tree: a new node, reached from
  the root by way of the parent that the path of the document leads to, stands for exactly the name, the interfaces and
  the children that the document denotes, with all parent pointers below.  (The tree files it under the whole path.  A
  second merge of the same document succeeds, too, but its new node is not filed.)\<close>

theorem merged_document_in_tree:
  assumes "tree_reachable parse t" "mergeXml parse d p t = (True, t')" "parse d = Some (Some el)"
    "documentPath el p = Some q" "\<not> merged_before t q"
  shows "\<exists>k parent i. document_node el = Some k \<and> dn_name k = q \<and> p \<in> {[], q} \<and>
    walk t' 0 (parent_path q) = Some parent \<and> child t' parent q = Some i \<and> holds_node t' parent i k \<and>
    t_nodes t i = None"
  using assms(2)
proof (cases rule: mergeXml_cases)
  case (added el' q' parent t1)
  have same: "el' = el" "q' = q" using added(1,3) assms(3,4) by simp_all
  note added = added [unfolded same]
  have v: "tree_valid t" using reachable_valid assms(1) by blast
  note m = merge_added [OF v assms(2) added(1,3,5,6,7)]
  obtain k where k: "document_node el = Some k" using m(1) by blast
  note q = documentPath_node [OF k added(3)]
  have "child t1 parent q = None"
    using descend_root [OF v added(5)] assms(5) by (auto simp: merged_before_def split: option.splits)
  moreover have "t_nodes t (t_next t1) = None" using m(2) [OF k] keeps_node [of t t1 "t_next t1"] by blast
  ultimately show ?thesis using k q m(2) [OF k] by fastforce
qed simp_all

text \<open>C24: Merging never takes anything away, whether it succeeds or fails: every node keeps its place below its
  parent, its name, its interfaces, and its children under their names.\<close>

theorem merge_keeps_tree:
  assumes "tree_reachable parse t" "mergeXml parse d p t = (ok, t')" "t_nodes t i = Some n"
  shows "\<exists>n'. t_nodes t' i = Some n' \<and> n_parent n' = n_parent n \<and> n_name n' = n_name n \<and>
    n_interfaces n' = n_interfaces n \<and> map_of (n_children n) \<subseteq>\<^sub>m map_of (n_children n')"
  using mergeXml_effect [OF conjunct1 [OF reachable_valid [OF assms(1)]] assms(2)] assms(3) unfolding keeps_def by blast

text \<open>C23: Everything in a tree made of documents is valid, also after failed merges: no dangling pointer is followed,
  every child entry leads to an existing, younger node of that name, names are unique, and the parent pointer of the
  child leads back exactly if the child was made from a document, that is, if it is entered under a whole path or below
  another node made from a document; the nodes made on the way to a parent have none, which the code does not mean.
  Every argument and property has a type, a property its access, and the arguments of signals are outgoing.\<close>

theorem introspection_tree_valid:
  assumes "tree_reachable parse t"
  shows "tree_valid t \<and> \<not> t_fault t"
  by (rule reachable_valid [OF assms])

subsection \<open>Success and its gaps\<close>

text \<open>A merge succeeds exactly for a document of valid nodes with a valid path, that agrees with the path given, and
  whose last element is not taken below the parent.\<close>

lemma merge_succeeds_exactly:
  assumes "tree_valid t"
  shows "fst (mergeXml parse d p t) \<longleftrightarrow> (\<exists>el k. parse d = Some (Some el) \<and> el_name el = ''node'' \<and>
    document_node el = Some k \<and> p \<in> {[], dn_name k} \<and> isObjectPathValid (cstring_of (dn_name k)) = Some True \<and>
    (\<forall>parent. walk t 0 (parent_path (dn_name k)) = Some parent \<longrightarrow> child t parent (leaf_name (dn_name k)) = None))"
proof
  assume "fst (mergeXml parse d p t)"
  then obtain t' where m: "mergeXml parse d p t = (True, t')" by (metis (full_types) prod.collapse)
  then show "\<exists>el k. parse d = Some (Some el) \<and> el_name el = ''node'' \<and>
    document_node el = Some k \<and> p \<in> {[], dn_name k} \<and> isObjectPathValid (cstring_of (dn_name k)) = Some True \<and>
    (\<forall>parent. walk t 0 (parent_path (dn_name k)) = Some parent \<longrightarrow> child t parent (leaf_name (dn_name k)) = None)"
  proof (cases rule: mergeXml_cases)
    case (added el q parent t1)
    obtain k where k: "document_node el = Some k" using merge_added(1) [OF assms m added(1,3,5,6,7)] by blast
    note q = documentPath_node [OF k added(3)]
    have "walk t 0 (parent_path q) = Some par \<longrightarrow> child t par (leaf_name q) = None" for par
      using descend_root [OF assms added(5)] added(6) by auto
    then show ?thesis using added k q by blast
  qed simp_all
next
  assume "\<exists>el k. parse d = Some (Some el) \<and> el_name el = ''node'' \<and>
    document_node el = Some k \<and> p \<in> {[], dn_name k} \<and> isObjectPathValid (cstring_of (dn_name k)) = Some True \<and>
    (\<forall>parent. walk t 0 (parent_path (dn_name k)) = Some parent \<longrightarrow> child t parent (leaf_name (dn_name k)) = None)"
  then obtain el k where h: "parse d = Some (Some el)" "el_name el = ''node''" "document_node el = Some k"
    "p \<in> {[], dn_name k}" "isObjectPathValid (cstring_of (dn_name k)) = Some True"
    "\<And>parent. walk t 0 (parent_path (dn_name k)) = Some parent \<Longrightarrow> child t parent (leaf_name (dn_name k)) = None"
    by blast
  have q: "documentPath el p = Some (dn_name k)" using document_node_name [OF h(3)] h(4) by (auto simp: documentPath_def)
  obtain parent t1 where d: "descend (parent_path (dn_name k)) 0 t = (parent, t1)" by fastforce
  obtain ok t' where a: "addNode parent el t1 = (ok, t')" by fastforce
  have "child t1 parent (leaf_name (dn_name k)) = None"
    using descend_root [OF assms d] h(6) by (auto split: option.splits)
  then have m: "mergeXml parse d p t = (ok, t')" and c: "child t1 parent (leaf_name (dn_name k)) = None"
    using h(1,2,5) q d a
    by (simp_all add: mergeXml_def findOrCreateParent_def parent_path_def leaf_name_def Let_def)
  then show "fst (mergeXml parse d p t)"
    using merge_added(1) [OF assms m h(1) q d c a] h(3) by simp
qed

text \<open>
  The parents that \<^verbatim>\<open>findOrCreateParent\<close> makes have no parent pointer: the path of a node below them is undefined.
\<close>

lemma created_parents_have_no_path:
  assumes "tree_valid t" "mergeXml parse d p t = (True, t')" "parse d = Some (Some el)" "document_node el = Some k"
    "walk t 0 (parent_path (dn_name k)) = None"
  shows "\<exists>parent i. walk t' 0 (parent_path (dn_name k)) = Some parent \<and> holds_node t' parent i k \<and> node_path t' i = None"
  using assms(2)
proof (cases rule: mergeXml_cases)
  case (added el' q parent t1)
  then have el: "el' = el" using assms(3) by simp
  note a = added [unfolded el]
  have k: "q = dn_name k" using documentPath_node [OF assms(4) a(3)] by simp
  note m = merge_added(2) [OF assms(1,2) a(1,3,5,6,7) assms(4)]
  obtain n where n: "t_nodes t1 parent = Some n" "n_parent n = Uninitialized"
    using descend_root [OF assms(1) a(5)] assms(5) k by auto
  obtain n' where n': "t_nodes t' parent = Some n'" "n_parent n' = Uninitialized"
    using m n by (metis keepsE)
  obtain ni where "t_nodes t' (t_next t1) = Some ni" "n_parent ni = Parent parent"
    using m holds_nameD by blast
  then have "node_path t' (t_next t1) = None"
    using n' by (simp add: node_path_def introspectionNodePathHelper.simps [of _ "t_next t1"]
        introspectionNodePathHelper.simps [of _ parent])
  then show ?thesis using m k by blast
qed simp_all

lemma leaf_name_differs:
  assumes "isObjectPathValid (cstring_of q) = Some True"
  shows "leaf_name q \<noteq> q"
proof -
  have "CHR ''/'' \<in> set q"
    using assms by (cases q) (auto simp: isObjectPathValid_def cs_at_cstring_of Let_def split: if_splits)
  moreover have "CHR ''/'' \<notin> set (leaf_name q)"
    using split_no_delimiter [of "leaf_name q" q "CHR ''/''" False] by (auto simp: leaf_name_def)
  ultimately show ?thesis by auto
qed

text \<open>
  The node is filed under its whole path, but looked for under the last element of the path.  Merging a document a
  second time is therefore not refused: it succeeds, and its new nodes are not reached from the old ones.
\<close>

lemma second_merge_is_lost:
  assumes t: "tree_valid t" and m: "mergeXml parse d p t = (True, t')"
  shows "\<exists>t''. mergeXml parse d p t' = (True, t'') \<and> t_next t' < t_next t'' \<and>
    (\<forall>i. t_nodes t' i \<noteq> None \<longrightarrow> t_nodes t'' i = t_nodes t' i)"
  using m
proof (cases rule: mergeXml_cases)
  case (added el q parent t1)
  obtain k where k: "document_node el = Some k" using merge_added(1) [OF t m added(1,3,5,6,7)] by blast
  note q = documentPath_node [OF k added(3)]
  note ma = merge_added(2) [OF t m added(1,3,5,6,7) k]
  have v: "tree_valid t'" using mergeXml_effect [OF t m] by blast
  obtain parent' t2 where d: "descend (parent_path q) 0 t' = (parent', t2)" by fastforce
  have d': "descend (parent_path q) 0 t' = (parent, t')"
    using descend_root [OF v d] ma d by auto
  have e1: "fresh t1 \<and> t_nodes t1 parent \<noteq> None"
    using descend_root [OF t added(5)] by blast
  then obtain n where n: "t_nodes t1 parent = Some n" by blast
  have "grown parent t1 t' \<and> node_added parent (t_next t1) (document_node el) n True t'"
    using addNode_effect(1) e1 n added(7) by blast
  then have n': "t_nodes t' parent = Some (emplaceChild (dn_name k) (t_next t1) n)" using k by (simp add: node_added_def)
  have "dn_name k \<noteq> leaf_name q" using leaf_name_differs [OF added(4)] q by auto
  then have c: "child t' parent (leaf_name q) = None"
    using added(6) n n' by (auto simp: child_def emplaceChild_def map_add_def)
  obtain ok t'' where a: "addNode parent el t' = (ok, t'')" by fastforce
  have m2: "mergeXml parse d p t' = (ok, t'')" using added(1-4) d' c a
    by (simp add: mergeXml_def findOrCreateParent_def parent_path_def leaf_name_def Let_def)
  let ?n = "emplaceChild (dn_name k) (t_next t1) n"
  have g: "grown parent t' t'' \<and> node_added parent (t_next t') (document_node el) ?n ok t''"
    using addNode_effect(1) v n' a unfolding tree_valid_def by blast
  have "emplaceChild (dn_name k) (t_next t') ?n = ?n" by (simp add: emplaceChild_def)
  then have p: "ok" "t_nodes t'' parent = t_nodes t' parent" "holds_node t'' parent (t_next t') k"
    using g k n' by (simp_all add: node_added_def)
  have "t_next t' < t_next t''" using holds_nameD [OF p(3)] fresh_less [of t'' "t_next t'"] g by (auto simp: grown_def)
  moreover have "t_nodes t' i \<noteq> None \<Longrightarrow> t_nodes t'' i = t_nodes t' i" for i
    using g p(2) fresh_less [of t' i] v by (cases "i = parent") (auto simp: grown_def tree_valid_def)
  moreover have "mergeXml parse d p t' = (True, t'')" using m2 p(1) by simp
  ultimately show ?thesis by blast
qed simp_all


text \<open>\<^verbatim>\<open>pruneBranch\<close> leaves the pointer to the removed node in the children of its parent.\<close>

lemma pruned_node_dangles:
  assumes "t_nodes t i = Some n" "n_parent n = Parent 0" "n_children n = []" "child t 0 name = Some i" "i \<noteq> 0"
  shows "\<exists>t'. pruneBranch i t = Some t' \<and> t_nodes t' i = None \<and> child t' 0 name = Some i"
proof (intro exI conjI)
  show "pruneBranch i t = Some (deleteNode i t)"
    using assms by (simp add: pruneBranch_def removeNode_def removeNodes.simps [of "[i]"] removeNodes.simps [of "[]"]
        pruneParents.simps [of "Parent 0"])
  show "t_nodes (deleteNode i t) i = None" "child (deleteNode i t) 0 name = Some i"
    using assms by (simp_all add: deleteNode_def child_def)
qed

subsection \<open>An example\<close>

definition example_document :: xml_element where
  "example_document = Element ''node'' [(''name'', ''/a'')]
     [Element ''interface'' [(''name'', ''i'')]
        [Element ''signal'' [(''name'', ''s'')] [Element ''arg'' [(''type'', ''u'')] []],
         Element ''property'' [(''name'', ''p''), (''access'', ''read''), (''type'', ''s'')] []],
      Element ''node'' [(''name'', ''c'')] []]"

lemma example_node: "document_node example_document = Some (DocNode ''/a''
    [(''i'', \<lparr>if_name = ''i'',
        if_methods = [(''s'', \<lparr>me_type = SignalMessage, me_name = ''s'',
          me_arguments = [\<lparr>a_name = [], a_type = ''u'', a_isDirectionOut = True\<rparr>]\<rparr>)],
        if_properties = [(''p'', \<lparr>pr_name = ''p'', pr_type = ''s'', pr_access = ReadAccess\<rparr>)]\<rparr>)]
    [DocNode ''c'' [] []])"
  by (simp add: example_document_def nameAttribute_def addInterface_def interfaceMember_def addMethod_def
      addArgument_def addProperty_def)

lemma example_path: "isObjectPathValid (cstring_of ''/a'') = Some True"
  by (simp add: isObjectPathValid_def cs_at_cstring_of u32_def MaxArrayLength_def isObjectNameLetter_def
      signed_char_def)

lemma example_merge: "fst (mergeXml (\<lambda>_. Some (Some example_document)) [] [] IntrospectionTree)"
  unfolding merge_succeeds_exactly [OF tree_valid_start]
  by (simp add: example_node example_path)
    (simp add: example_document_def IntrospectionTree_def child_def new_node_def parent_path_def split_def)

lemma merged_document_in_tree_witness:
  "\<exists>t' k parent i. mergeXml (\<lambda>_. Some (Some example_document)) [] [] IntrospectionTree = (True, t') \<and>
     document_node example_document = Some k \<and> walk t' 0 (parent_path ''/a'') = Some parent \<and>
     child t' parent ''/a'' = Some i \<and> holds_node t' parent i k"
proof -
  obtain t' where m: "mergeXml (\<lambda>_. Some (Some example_document)) [] [] IntrospectionTree = (True, t')"
    using example_merge by (metis (full_types) prod.collapse)
  have "documentPath example_document [] = Some ''/a''" by (simp add: documentPath_def example_document_def)
  moreover have "\<not> merged_before IntrospectionTree ''/a''"
    by (simp add: merged_before_def IntrospectionTree_def child_def new_node_def parent_path_def split_def)
  ultimately show ?thesis using merged_document_in_tree [OF tree_start m refl] m by blast
qed

lemma merge_keeps_tree_witness:
  "\<exists>n'. t_nodes (snd (mergeXml (\<lambda>_. Some (Some example_document)) [] [] IntrospectionTree)) 0 = Some n' \<and>
     n_parent n' = NoParent"
  using merge_keeps_tree [OF tree_start [of "\<lambda>_. Some (Some example_document)"] prod.collapse [symmetric], of 0]
  by (fastforce simp: IntrospectionTree_def new_node_def)

lemma introspection_tree_valid_witness:
  "tree_valid (snd (mergeXml (\<lambda>_. Some (Some example_document)) [] [] IntrospectionTree)) \<and>
   \<not> t_fault (snd (mergeXml (\<lambda>_. Some (Some example_document)) [] [] IntrospectionTree))"
  by (rule introspection_tree_valid [OF tree_merge [OF tree_start prod.collapse [symmetric]]])

end
