(* ===== verification/Analyzer.thy ===== *)
theory Analyzer
  imports Message_Serial
begin

text \<open>
  The recorded messages of the analyzer (\<^verbatim>\<open>applications/analyzer/eavesdroppermodel.cpp\<close>) and their filter
  (\<^verbatim>\<open>messagesortfilter.cpp\<close>): calls are connected with their replies as the messages come in.  A message is recorded
  in a vector; \<^verbatim>\<open>container[i]\<close> outside of it is \<open>None\<close>.  Of Qt, the comparison of strings and the encoding of numbers
  in a \<^verbatim>\<open>QDataStream\<close> are arguments; signals to the view other than \<^verbatim>\<open>dataChanged\<close> are left out.
\<close>

subsection \<open>Records\<close>

record message_record =
  mr_message :: message
  mr_otherMessageIndex :: int
  mr_timestamp :: int

definition MessageRecord :: "message \<Rightarrow> int \<Rightarrow> message_record" where
  "MessageRecord msg time = \<lparr>mr_message = msg, mr_otherMessageIndex = - 1, mr_timestamp = time\<rparr>"

definition at_index :: "message_record list \<Rightarrow> int \<Rightarrow> message_record option" where
  "at_index container i = (if 0 \<le> i \<and> nat i < length container then Some (container ! nat i) else None)"

definition mr_type :: "message_record \<Rightarrow> string" where
  "mr_type r =
     (let t = m_messageType (mr_message r)
      in if t = MethodCallMessage then ''Call''
         else if t = MethodReturnMessage then ''Return''
         else if t = ErrorMessage then ''Error''
         else if t = SignalMessage then ''Signal''
         else if t = InvalidMessage then ''???''
         else [])"

definition isAwaitingReply :: "message_record \<Rightarrow> bool" where
  "isAwaitingReply r \<longleftrightarrow> m_messageType (mr_message r) = MethodCallMessage \<and> expectsReply (mr_message r) \<and>
     mr_otherMessageIndex r < 0"

definition isAnswer :: "message \<Rightarrow> bool" where
  "isAnswer m \<longleftrightarrow> m_messageType m = MethodReturnMessage \<or> m_messageType m = ErrorMessage"

definition isReplyToKnownCall :: "message_record \<Rightarrow> bool" where
  "isReplyToKnownCall r \<longleftrightarrow> 0 \<le> mr_otherMessageIndex r \<and> isAnswer (mr_message r)"

definition conversationSerial :: "message_record \<Rightarrow> uint32" where
  "conversationSerial r =
     (if isAnswer (mr_message r) then replySerial (mr_message r) else m_serial (mr_message r))"

definition conversationMethod :: "message_record list \<Rightarrow> message_record \<Rightarrow> string option" where
  "conversationMethod container r =
     (if isReplyToKnownCall r
      then map_option (\<lambda>o'. methodName (mr_message o')) (at_index container (mr_otherMessageIndex r))
      else Some (methodName (mr_message r)))"

definition conversationStartTime :: "message_record list \<Rightarrow> message_record \<Rightarrow> int option" where
  "conversationStartTime container r =
     (if isReplyToKnownCall r then map_option mr_timestamp (at_index container (mr_otherMessageIndex r))
      else Some (mr_timestamp r))"

definition roundtripTime :: "message_record list \<Rightarrow> message_record \<Rightarrow> int option" where
  "roundtripTime container r =
     (if isReplyToKnownCall r
      then map_option (\<lambda>o'. mr_timestamp r - mr_timestamp o') (at_index container (mr_otherMessageIndex r))
      else Some (- 1))"

definition isNumericAddress :: "string \<Rightarrow> bool" where
  "isNumericAddress address \<longleftrightarrow> address \<noteq> [] \<and> hd address = CHR '':''"

definition niceSender :: "message_record list \<Rightarrow> message_record \<Rightarrow> string option" where
  "niceSender container r =
     (let s = sender (mr_message r)
      in if isNumericAddress s \<and> isReplyToKnownCall r
         then map_option (\<lambda>o'. let otherDest = destination (mr_message o')
                in if otherDest \<noteq> [] \<and> hd otherDest \<noteq> CHR '':'' then s @ '' ('' @ otherDest @ '')'' else s)
              (at_index container (mr_otherMessageIndex r))
         else Some s)"

definition couldHaveNicerDestination :: "message_record list \<Rightarrow> message_record \<Rightarrow> bool option" where
  "couldHaveNicerDestination container r =
     (if m_messageType (mr_message r) \<noteq> MethodCallMessage \<or> mr_otherMessageIndex r < 0 then Some False
      else if isNumericAddress (destination (mr_message r)) then Some False
      else map_option (\<lambda>o'. isNumericAddress (sender (mr_message o'))) (at_index container (mr_otherMessageIndex r)))"

definition niceDestination :: "message_record list \<Rightarrow> message_record \<Rightarrow> string option" where
  "niceDestination container r =
     (let dest = destination (mr_message r)
      in case couldHaveNicerDestination container r of
           None \<Rightarrow> None
         | Some False \<Rightarrow> Some dest
         | Some True \<Rightarrow> map_option (\<lambda>o'. dest @ '' ('' @ sender (mr_message o') @ '')'')
                          (at_index container (mr_otherMessageIndex r)))"

subsection \<open>Recording\<close>

text \<open>
  \<open>e_changed\<close> lists the rows for which \<^verbatim>\<open>dataChanged\<close> was emitted, \<open>e_leaked\<close> the messages that are never deleted.
  A call is known by its serial and its sender.
\<close>

record eavesdropper =
  e_isRecording :: bool
  e_callsAwaitingResponse :: "uint32 \<times> string \<Rightarrow> nat option"
  e_messages :: "message_record list"
  e_changed :: "nat list"
  e_leaked :: "message list"

definition EavesdropperModel :: eavesdropper where
  "EavesdropperModel = \<lparr>e_isRecording = True, e_callsAwaitingResponse = (\<lambda>_. None), e_messages = [], e_changed = [],
     e_leaked = []\<rparr>"

text \<open>Indices are kept as \<^verbatim>\<open>uint\<close> and as \<^verbatim>\<open>int\<close>.\<close>

definition int_of_index :: "nat \<Rightarrow> int" where
  "int_of_index i = sint (of_nat i :: int32)"

definition set_other :: "nat \<Rightarrow> nat \<Rightarrow> message_record list \<Rightarrow> message_record list" where
  "set_other i j rs = rs[i := (rs ! i)\<lparr>mr_otherMessageIndex := int_of_index j\<rparr>]"

text \<open>The result \<open>None\<close> is an access outside of the vector.\<close>

definition addMessage :: "message \<Rightarrow> int \<Rightarrow> eavesdropper \<Rightarrow> eavesdropper option" where
  "addMessage message timestamp e =
     (if \<not> e_isRecording e then Some (e\<lparr>e_leaked := e_leaked e @ [message]\<rparr>)
      else
        (let rs = e_messages e @ [MessageRecord message timestamp];
             current = u32 (length rs - 1);
             e1 = e\<lparr>e_messages := rs\<rparr>
         in if m_messageType message = MethodCallMessage then
              Some (e1\<lparr>e_callsAwaitingResponse := (e_callsAwaitingResponse e)((m_serial message, sender message) \<mapsto> current)\<rparr>)
            else if isAnswer message then
              (let key = (replySerial message, destination message)
               in case e_callsAwaitingResponse e key of
                    None \<Rightarrow> Some e1
                  | Some original \<Rightarrow>
                      if length rs \<le> original then None
                      else
                        (let rs' = set_other original current (set_other (length rs - 1) original rs);
                             e2 = e1\<lparr>e_messages := rs',
                               e_callsAwaitingResponse := (e_callsAwaitingResponse e)(key := None)\<rparr>
                         in case couldHaveNicerDestination rs' (rs' ! original) of
                              None \<Rightarrow> None
                            | Some nicer \<Rightarrow> Some (if nicer then e2\<lparr>e_changed := e_changed e @ [original]\<rparr> else e2)))
            else Some e1))"

definition setRecording :: "bool \<Rightarrow> eavesdropper \<Rightarrow> eavesdropper" where
  "setRecording recording e = e\<lparr>e_isRecording := recording\<rparr>"

definition eavesdropper_clear :: "eavesdropper \<Rightarrow> eavesdropper" where
  "eavesdropper_clear e = e\<lparr>e_callsAwaitingResponse := (\<lambda>_. None), e_messages := []\<rparr>"

subsection \<open>Display\<close>

datatype cell = NoData | TextCell string | LatencyNanoseconds int

text \<open>\<^verbatim>\<open>data\<close> for a row and a column in the display role; the outer \<open>None\<close> is an access outside of the vector.\<close>

definition model_data :: "message_record list \<Rightarrow> nat \<Rightarrow> nat \<Rightarrow> cell option" where
  "model_data container row column =
     (if length container \<le> row then None
      else
        (let r = container ! row
         in if column = 0 then Some (TextCell (mr_type r))
            else if column = 1 then
              map_option (\<lambda>rtt. if rtt = - 1 then NoData else LatencyNanoseconds rtt) (roundtripTime container r)
            else if column = 2 then map_option TextCell (conversationMethod container r)
            else if column = 3 then Some (TextCell (interface (mr_message r)))
            else if column = 4 then Some (TextCell (path (mr_message r)))
            else if column = 5 then map_option TextCell (niceSender container r)
            else if column = 6 then map_option TextCell (niceDestination container r)
            else Some NoData))"

text \<open>\<open>contains\<close> compares without regard to case.  A disjunction evaluates its second part only if it has to.\<close>

definition or_else :: "bool option \<Rightarrow> bool option \<Rightarrow> bool option" where
  "or_else a b = (case a of None \<Rightarrow> None | Some True \<Rightarrow> Some True | Some False \<Rightarrow> b)"

definition filterAcceptsRow ::
  "(string \<Rightarrow> string \<Rightarrow> bool) \<Rightarrow> string \<Rightarrow> bool \<Rightarrow> message_record list \<Rightarrow> nat \<Rightarrow> bool option" where
  "filterAcceptsRow contains filterString onlyUnanswered msgList row =
     (if filterString = [] \<and> \<not> onlyUnanswered then Some True
      else if length msgList \<le> row then None
      else
        (let r = msgList ! row; t = m_messageType (mr_message r);
             unwanted = (if t = MethodCallMessage then \<not> isAwaitingReply r
                         else if t = ErrorMessage then \<not> isReplyToKnownCall r
                         else True);
             holds = (\<lambda>s. contains s filterString)
         in if onlyUnanswered \<and> unwanted then Some False
            else if filterString = [] then Some True
            else or_else (map_option holds (conversationMethod msgList r))
                  (or_else (map_option holds (niceSender msgList r))
                    (or_else (map_option holds (niceDestination msgList r))
                      (Some (holds (interface (mr_message r)) \<or> holds (path (mr_message r))))))))"

definition sort_lessThan :: "message_record list \<Rightarrow> nat \<Rightarrow> nat \<Rightarrow> bool option" where
  "sort_lessThan msgList left right =
     (if length msgList \<le> left \<or> length msgList \<le> right then None
      else case (conversationStartTime msgList (msgList ! left), conversationStartTime msgList (msgList ! right)) of
             (Some a, Some b) \<Rightarrow> Some (a < b)
           | _ \<Rightarrow> None)"

subsection \<open>Files\<close>

definition fileHeader :: string where
  "fileHeader = ''Dferry binary DBus dump v0001''"

text \<open>
  \<open>put\<close> encodes what \<^verbatim>\<open>saveToFile\<close> writes to a \<^verbatim>\<open>QDataStream\<close> for a record: the index, the time and the length of the
  data; \<open>get\<close> reads these from the rest of a file.
\<close>

fun saveRecords :: "(int \<Rightarrow> int \<Rightarrow> nat \<Rightarrow> byte list) \<Rightarrow> message_record list \<Rightarrow> byte list \<times> message_record list" where
  "saveRecords put [] = ([], [])"
| "saveRecords put (r # rs) =
     (let (msgData, m) = save (mr_message r);
          (rest, rs') = saveRecords put rs
      in (put (mr_otherMessageIndex r) (mr_timestamp r) (length msgData) @ msgData @ rest,
          r\<lparr>mr_message := m\<rparr> # rs'))"

definition saveToFile ::
  "(int \<Rightarrow> int \<Rightarrow> nat \<Rightarrow> byte list) \<Rightarrow> eavesdropper \<Rightarrow> byte list \<times> eavesdropper" where
  "saveToFile put e =
     (let (bytes, rs) = saveRecords put (e_messages e)
      in (map byte_of fileHeader @ bytes, e\<lparr>e_messages := rs\<rparr>))"

text \<open>
  The loop of \<^verbatim>\<open>loadFromFile\<close>: \<open>Inl\<close> of the records loaded so far when it returns false.  The outer \<open>None\<close> stands for
  not ending or an access outside of a message's data.  \<open>junk\<close> is what uninitialized memory holds.
\<close>

partial_function (option) loadRecords ::
  "(nat \<Rightarrow> byte) \<Rightarrow> (byte list \<Rightarrow> (int \<times> int \<times> nat) \<times> byte list) \<Rightarrow> byte list \<Rightarrow> message_record list \<Rightarrow>
     (message_record list + message_record list) option" where
  "loadRecords junk get file loaded =
     (if file = [] then Some (Inr loaded)
      else
        (let (aux, file1) = get file
         in if file1 = [] then Some (Inl loaded)
            else if length file1 < snd (snd aux) then Some (Inl loaded)
            else case deserializeAndTake (take (snd (snd aux)) file1) (Message junk) of
                   None \<Rightarrow> None
                 | Some m \<Rightarrow>
                     loadRecords junk get (drop (snd (snd aux)) file1)
                       (loaded @ [\<lparr>mr_message = m, mr_otherMessageIndex = fst aux, mr_timestamp = fst (snd aux)\<rparr>])))"

definition loadFromFile ::
  "(nat \<Rightarrow> byte) \<Rightarrow> (byte list \<Rightarrow> (int \<times> int \<times> nat) \<times> byte list) \<Rightarrow> byte list \<Rightarrow> eavesdropper \<Rightarrow>
     (bool \<times> eavesdropper) option" where
  "loadFromFile junk get file e =
     (if take (length fileHeader) file \<noteq> map byte_of fileHeader then Some (False, e)
      else case loadRecords junk get (drop (length fileHeader) file) [] of
             None \<Rightarrow> None
           | Some (Inl rs) \<Rightarrow> Some (False, e\<lparr>e_leaked := e_leaked e @ map mr_message rs\<rparr>)
           | Some (Inr rs) \<Rightarrow> Some (True, (eavesdropper_clear e)\<lparr>e_messages := rs\<rparr>))"

end
