(* ===== verification/Analyzer_Pairs.thy ===== *)
theory Analyzer_Pairs
  imports Analyzer
begin

text \<open>
  The pairs of calls and replies in the recorded messages: what a reply is connected with, and that all rows can be
  displayed.
\<close>

subsection \<open>Calls and their keys\<close>

abbreviation is_call :: "message \<Rightarrow> bool" where
  "is_call m \<equiv> m_messageType m = MethodCallMessage"

definition call_key :: "message \<Rightarrow> uint32 \<times> string" where
  "call_key m = (m_serial m, sender m)"

definition answer_key :: "message \<Rightarrow> uint32 \<times> string" where
  "answer_key m = (replySerial m, destination m)"

text \<open>The latest call with the given serial and sender.\<close>

definition calls_with :: "uint32 \<times> string \<Rightarrow> message_record list \<Rightarrow> nat list" where
  "calls_with k rs = filter (\<lambda>i. is_call (mr_message (rs ! i)) \<and> call_key (mr_message (rs ! i)) = k) [0..<length rs]"

definition last_call :: "uint32 \<times> string \<Rightarrow> message_record list \<Rightarrow> nat option" where
  "last_call k rs = (if calls_with k rs = [] then None else Some (last (calls_with k rs)))"

lemma calls_with_snoc:
  "calls_with k (rs @ [r]) =
     calls_with k rs @ (if is_call (mr_message r) \<and> call_key (mr_message r) = k then [length rs] else [])"
  unfolding calls_with_def by (auto intro!: filter_cong simp: nth_append)

lemma last_call_snoc:
  "last_call k (rs @ [r]) =
     (if is_call (mr_message r) \<and> call_key (mr_message r) = k then Some (length rs) else last_call k rs)"
  by (simp add: last_call_def calls_with_snoc)

lemma last_call_messages:
  assumes "map mr_message rs = map mr_message rs'"
  shows "last_call k rs = last_call k rs'"
proof -
  have "length rs = length rs'" using assms by (metis length_map)
  moreover have "i < length rs \<Longrightarrow> mr_message (rs ! i) = mr_message (rs' ! i)" for i
    using assms calculation by (metis nth_map)
  ultimately have "calls_with k rs = calls_with k rs'" unfolding calls_with_def by (auto intro: filter_cong)
  then show ?thesis by (simp add: last_call_def)
qed

lemma last_call_SomeD:
  assumes "last_call k rs = Some i"
  shows "i < length rs" "is_call (mr_message (rs ! i))" "call_key (mr_message (rs ! i)) = k"
proof -
  have "i \<in> set (calls_with k rs)" using assms last_in_set by (auto simp: last_call_def split: if_splits)
  then show "i < length rs" "is_call (mr_message (rs ! i))" "call_key (mr_message (rs ! i)) = k"
    by (auto simp: calls_with_def)
qed

subsection \<open>The invariant\<close>

text \<open>The messages \<open>i\<close> and \<open>j\<close> are a call and an answer to it that came later.\<close>

definition conversation :: "message_record list \<Rightarrow> nat \<Rightarrow> nat \<Rightarrow> bool" where
  "conversation rs i j \<longleftrightarrow> i < j \<and> j < length rs \<and> is_call (mr_message (rs ! i)) \<and> isAnswer (mr_message (rs ! j)) \<and>
     call_key (mr_message (rs ! i)) = answer_key (mr_message (rs ! j)) \<and>
     mr_otherMessageIndex (rs ! i) = int j \<and> mr_otherMessageIndex (rs ! j) = int i"

definition paired :: "message_record list \<Rightarrow> bool" where
  "paired rs \<longleftrightarrow> (\<forall>i < length rs. mr_otherMessageIndex (rs ! i) = - 1 \<or> (\<exists>j. conversation rs i j \<or> conversation rs j i))"

definition awaiting :: "message_record list \<Rightarrow> uint32 \<times> string \<Rightarrow> nat option" where
  "awaiting rs k =
     (case last_call k rs of
        None \<Rightarrow> None
      | Some i \<Rightarrow> if mr_otherMessageIndex (rs ! i) = - 1 then Some i else None)"

definition timed :: "message_record list \<Rightarrow> bool" where
  "timed rs \<longleftrightarrow> sorted (map mr_timestamp rs)"

lemma int_of_index: "i < 2 ^ 31 \<Longrightarrow> int_of_index i = int i"
  unfolding int_of_index_def by (simp add: signed_of_nat signed_take_bit_int_eq_self)

lemma conversation_snoc: "conversation rs i j \<Longrightarrow> conversation (rs @ [r]) i j"
  by (auto simp: conversation_def nth_append)

lemma paired_snoc: "paired rs \<Longrightarrow> mr_otherMessageIndex r = - 1 \<Longrightarrow> paired (rs @ [r])"
  unfolding paired_def by (auto simp: nth_append less_Suc_eq dest: conversation_snoc)

lemma awaiting_snoc:
  "mr_otherMessageIndex r = - 1 \<Longrightarrow> awaiting (rs @ [r]) k =
     (if is_call (mr_message r) \<and> call_key (mr_message r) = k then Some (length rs) else awaiting rs k)"
  unfolding awaiting_def by (auto simp: last_call_snoc nth_append dest: last_call_SomeD split: option.splits)


text \<open>Connecting the answer that has come last with the call \<open>i\<close>.\<close>

definition connected :: "nat \<Rightarrow> message_record \<Rightarrow> message_record list \<Rightarrow> message_record list" where
  "connected i r rs = set_other i (length rs) (set_other (length rs) i (rs @ [r]))"

lemma connected_simps:
  assumes "i < length rs" "length rs < 2 ^ 31"
  shows "length (connected i r rs) = Suc (length rs)"
    "map mr_message (connected i r rs) = map mr_message (rs @ [r])"
    "map mr_timestamp (connected i r rs) = map mr_timestamp (rs @ [r])"
    "connected i r rs ! i = (rs ! i)\<lparr>mr_otherMessageIndex := int (length rs)\<rparr>"
    "connected i r rs ! length rs = r\<lparr>mr_otherMessageIndex := int i\<rparr>"
    "x < length rs \<Longrightarrow> x \<noteq> i \<Longrightarrow> connected i r rs ! x = rs ! x"
proof -
  have i: "int_of_index i = int i" "int_of_index (length rs) = int (length rs)"
    using assms by (simp_all add: int_of_index)
  show "length (connected i r rs) = Suc (length rs)" by (simp add: connected_def set_other_def)
  have same: "j < length xs \<Longrightarrow> map mr_message (xs[j := (xs ! j)\<lparr>mr_otherMessageIndex := v\<rparr>]) = map mr_message xs"
    "j < length xs \<Longrightarrow> map mr_timestamp (xs[j := (xs ! j)\<lparr>mr_otherMessageIndex := v\<rparr>]) = map mr_timestamp xs"
    for j v and xs :: "message_record list" by (simp_all add: map_update list_update_same_conv)
  show "map mr_message (connected i r rs) = map mr_message (rs @ [r])"
    "map mr_timestamp (connected i r rs) = map mr_timestamp (rs @ [r])"
    using assms(1) by (simp_all add: connected_def set_other_def same del: map_append) simp_all
  show "connected i r rs ! i = (rs ! i)\<lparr>mr_otherMessageIndex := int (length rs)\<rparr>"
    "connected i r rs ! length rs = r\<lparr>mr_otherMessageIndex := int i\<rparr>"
    "x < length rs \<Longrightarrow> x \<noteq> i \<Longrightarrow> connected i r rs ! x = rs ! x"
    using assms i by (simp_all add: connected_def set_other_def nth_append nth_list_update)
qed

lemma connected_conversation:
  assumes "conversation rs x y" "mr_otherMessageIndex (rs ! i) = - 1" "i < length rs" "length rs < 2 ^ 31"
  shows "conversation (connected i r rs) x y"
proof -
  have "x \<noteq> i" "y \<noteq> i" "x < length rs" "y < length rs" using assms(1,2) by (auto simp: conversation_def)
  then show ?thesis using assms(1) connected_simps(1,6) [OF assms(3,4)] by (simp add: conversation_def)
qed

lemma connected_inv:
  assumes "paired rs" "awaiting rs (answer_key (mr_message r)) = Some i" "isAnswer (mr_message r)"
    "length rs < 2 ^ 31"
  shows "paired (connected i r rs)"
    "awaiting (connected i r rs) k = (if k = answer_key (mr_message r) then None else awaiting rs k)"
proof -
  let ?key = "answer_key (mr_message r)"
  have i: "last_call ?key rs = Some i" "mr_otherMessageIndex (rs ! i) = - 1"
    using assms(2) by (auto simp: awaiting_def split: option.splits if_splits)
  note call = last_call_SomeD [OF i(1)]
  note c = connected_simps [OF call(1) assms(4), where r = r]
  have pair: "conversation (connected i r rs) i (length rs)"
    using call c(1,4,5) assms(3) by (simp add: conversation_def)
  show "paired (connected i r rs)"
    unfolding paired_def
  proof (intro allI impI)
    fix x assume "x < length (connected i r rs)"
    then consider "x = length rs" | "x = i" | "x < length rs" "x \<noteq> i" using c(1) by linarith
    then show "mr_otherMessageIndex (connected i r rs ! x) = - 1 \<or>
        (\<exists>j. conversation (connected i r rs) x j \<or> conversation (connected i r rs) j x)"
    proof cases
      case 3
      then have "mr_otherMessageIndex (rs ! x) = - 1 \<or> (\<exists>j. conversation rs x j \<or> conversation rs j x)"
        using assms(1) by (simp add: paired_def)
      then show ?thesis using 3 c(6) connected_conversation [OF _ i(2) call(1) assms(4)] by metis
    qed (use pair in blast)+
  qed
  have "\<not> is_call (mr_message r)"
    using assms(3) by (auto simp: isAnswer_def message_type_defs)
  then have l: "last_call k (connected i r rs) = last_call k rs"
    using last_call_messages [OF c(2), of k] by (simp add: last_call_snoc)
  show "awaiting (connected i r rs) k = (if k = ?key then None else awaiting rs k)"
  proof (cases "k = ?key")
    case True
    then show ?thesis using l i(1) c(4) by (simp add: awaiting_def)
  next
    case False
    have "last_call k rs = Some x \<Longrightarrow> connected i r rs ! x = rs ! x" for x
      using last_call_SomeD [of k rs x] call(3) False by (intro c(6)) auto
    then show ?thesis using l False by (simp add: awaiting_def split: option.splits)
  qed
qed

subsection \<open>Which message answers which\<close>

text \<open>
  Of the messages alone: \<open>m\<close> is part of the conversations with the key \<open>k\<close>; \<open>j\<close> answers the call \<open>i\<close> if no other such
  message came between them; the call \<open>i\<close> is the one that still waits.
\<close>

abbreviation is_answer :: "message \<Rightarrow> bool" where
  "is_answer m \<equiv> m_messageType m = MethodReturnMessage \<or> m_messageType m = ErrorMessage"

definition touches :: "uint32 \<times> string \<Rightarrow> message \<Rightarrow> bool" where
  "touches k m \<longleftrightarrow> is_call m \<and> call_key m = k \<or> is_answer m \<and> answer_key m = k"

definition answers :: "message list \<Rightarrow> nat \<Rightarrow> nat \<Rightarrow> bool" where
  "answers ms i j \<longleftrightarrow> i < j \<and> j < length ms \<and> is_call (ms ! i) \<and> is_answer (ms ! j) \<and>
     answer_key (ms ! j) = call_key (ms ! i) \<and> (\<forall>l. i < l \<and> l < j \<longrightarrow> \<not> touches (call_key (ms ! i)) (ms ! l))"

definition unanswered :: "message list \<Rightarrow> uint32 \<times> string \<Rightarrow> nat \<Rightarrow> bool" where
  "unanswered ms k i \<longleftrightarrow> i < length ms \<and> is_call (ms ! i) \<and> call_key (ms ! i) = k \<and>
     (\<forall>l. i < l \<and> l < length ms \<longrightarrow> \<not> touches k (ms ! l))"

lemma call_no_answer: "is_answer m \<Longrightarrow> \<not> is_call m"
  by (auto simp: message_type_defs)

lemma answers_snoc:
  "answers (ms @ [m]) i j \<longleftrightarrow> answers ms i j \<or> j = length ms \<and> is_answer m \<and> unanswered ms (answer_key m) i"
proof -
  consider "j < length ms" | "j = length ms" | "length ms < j" by linarith
  then show ?thesis
  proof cases
    case 1
    then show ?thesis by (auto simp: answers_def nth_append)
  next
    case 2
    then show ?thesis by (auto simp: answers_def unanswered_def nth_append)
  qed (simp add: answers_def)
qed

lemma unanswered_snoc:
  "unanswered (ms @ [m]) k i \<longleftrightarrow>
     i = length ms \<and> is_call m \<and> call_key m = k \<or> unanswered ms k i \<and> \<not> touches k m"
proof -
  consider "i < length ms" | "i = length ms" | "length ms < i" by linarith
  then show ?thesis
  proof cases
    case 1
    then show ?thesis by (auto simp: unanswered_def nth_append less_Suc_eq)
  qed (auto simp: unanswered_def)
qed

lemma unanswered_unique: "unanswered ms k i \<Longrightarrow> unanswered ms k j \<Longrightarrow> i = j"
  unfolding unanswered_def touches_def by (metis nat_neq_iff)

lemma answers_unique: "answers ms i j \<Longrightarrow> answers ms i j' \<Longrightarrow> j = j'" "answers ms i j \<Longrightarrow> answers ms i' j \<Longrightarrow> i = i'"
  unfolding answers_def touches_def by (metis nat_neq_iff)+

lemma unanswered_no_answers: "unanswered ms k i \<Longrightarrow> \<not> answers ms i j \<and> \<not> answers ms j i"
  by (auto simp: unanswered_def answers_def touches_def message_type_defs)

text \<open>The indices and the table of waiting calls say exactly this.\<close>

definition exact :: "message_record list \<Rightarrow> bool" where
  "exact rs \<longleftrightarrow> (let ms = map mr_message rs in
     (\<forall>i < length rs. \<forall>j < length rs. mr_otherMessageIndex (rs ! i) = int j \<longleftrightarrow> answers ms i j \<or> answers ms j i) \<and>
     (\<forall>k i. awaiting rs k = Some i \<longleftrightarrow> unanswered ms k i))"

lemma exactD:
  assumes "exact rs"
  shows "awaiting rs k = Some i \<longleftrightarrow> unanswered (map mr_message rs) k i"
    "i < length rs \<Longrightarrow> j < length rs \<Longrightarrow>
       mr_otherMessageIndex (rs ! i) = int j \<longleftrightarrow> answers (map mr_message rs) i j \<or> answers (map mr_message rs) j i"
  using assms unfolding exact_def Let_def by blast+

lemma exactI:
  assumes "\<And>k i. awaiting rs k = Some i \<longleftrightarrow> unanswered (map mr_message rs) k i"
    "\<And>i j. i < length rs \<Longrightarrow> j < length rs \<Longrightarrow>
       mr_otherMessageIndex (rs ! i) = int j \<longleftrightarrow> answers (map mr_message rs) i j \<or> answers (map mr_message rs) j i"
  shows "exact rs"
  using assms unfolding exact_def Let_def by blast

lemma paired_bound: "paired rs \<Longrightarrow> i < length rs \<Longrightarrow> mr_otherMessageIndex (rs ! i) < int (length rs)"
  unfolding paired_def by (fastforce simp: conversation_def)

lemma exact_snoc:
  assumes ex: "exact rs" and p: "paired rs" and r: "mr_otherMessageIndex r = - 1"
    and no: "is_answer (mr_message r) \<Longrightarrow> awaiting rs (answer_key (mr_message r)) = None"
  shows "exact (rs @ [r])"
proof -
  let ?ms = "map mr_message rs" and ?m = "mr_message r"
  have none: "\<not> unanswered ?ms (answer_key ?m) i" if "is_answer ?m" for i
    using no exactD(1) [OF ex] that by (metis option.distinct(1))
  have a: "answers (?ms @ [?m]) i j \<longleftrightarrow> answers ?ms i j" for i j using none by (auto simp: answers_snoc)
  have idx: "mr_otherMessageIndex ((rs @ [r]) ! i) = int j \<longleftrightarrow> answers ?ms i j \<or> answers ?ms j i"
    if "i < Suc (length rs)" "j < Suc (length rs)" for i j
  proof (cases "i = length rs \<or> j = length rs")
    case True
    then have "\<not> answers ?ms i j \<and> \<not> answers ?ms j i" by (auto simp: answers_def)
    moreover have "mr_otherMessageIndex ((rs @ [r]) ! i) \<noteq> int j"
      using True that r paired_bound [OF p, of i] by (auto simp: nth_append less_Suc_eq)
    ultimately show ?thesis by simp
  next
    case False
    with that show ?thesis by (simp add: nth_append exactD(2) [OF ex])
  qed
  have "awaiting (rs @ [r]) k = Some i \<longleftrightarrow> unanswered (?ms @ [?m]) k i" for k i
  proof (cases "is_call ?m \<and> call_key ?m = k")
    case True
    then show ?thesis by (auto simp: awaiting_snoc [OF r] unanswered_snoc touches_def)
  next
    case False
    then have "unanswered ?ms k i \<Longrightarrow> \<not> touches k ?m" using none unfolding touches_def by metis
    with False show ?thesis by (auto simp: awaiting_snoc [OF r] unanswered_snoc exactD(1) [OF ex])
  qed
  with idx a show ?thesis by (intro exactI) simp_all
qed

lemma exact_connected:
  assumes ex: "exact rs" and p: "paired rs" and wait: "awaiting rs (answer_key (mr_message r)) = Some i"
    and ans: "isAnswer (mr_message r)" and n: "length rs < 2 ^ 31"
  shows "exact (connected i r rs)"
proof -
  let ?ms = "map mr_message rs" and ?m = "mr_message r" and ?n = "length rs"
  have i: "unanswered ?ms (answer_key ?m) i" using wait exactD(1) [OF ex] by blast
  then have lt: "i < ?n" by (simp add: unanswered_def)
  note c = connected_simps [OF lt n, where r = r]
  have ms: "map mr_message (connected i r rs) = ?ms @ [?m]" using c(2) by simp
  have is_ans: "is_answer ?m" using ans by (simp add: isAnswer_def)
  have only_i: "unanswered ?ms (answer_key ?m) x \<longleftrightarrow> x = i" for x using i unanswered_unique by metis
  have a: "answers (?ms @ [?m]) x y \<longleftrightarrow> answers ?ms x y \<or> x = i \<and> y = ?n" for x y
    unfolding answers_snoc only_i using is_ans by auto
  have no: "\<not> answers ?ms i y \<and> \<not> answers ?ms y i" for y by (rule unanswered_no_answers [OF i])
  have out: "\<not> answers ?ms ?n y \<and> \<not> answers ?ms y ?n" for y by (simp add: answers_def)
  have idx: "mr_otherMessageIndex (connected i r rs ! x) = int y \<longleftrightarrow> answers (?ms @ [?m]) x y \<or> answers (?ms @ [?m]) y x"
    if xy: "x < Suc ?n" "y < Suc ?n" for x y
  proof -
    consider "x = i" | "x = ?n" | "x < ?n" "x \<noteq> i" "y = ?n" | "x < ?n" "x \<noteq> i" "y < ?n"
      using xy by (auto simp: less_Suc_eq)
    then show ?thesis
    proof cases
      case 1
      then show ?thesis using c(4) a no lt by auto
    next
      case 2
      then show ?thesis using c(5) a out lt by auto
    next
      case 3
      then show ?thesis using c(6) a out paired_bound [OF p, of x] lt by auto
    next
      case 4
      then show ?thesis using c(6) a exactD(2) [OF ex] by auto
    qed
  qed
  have "awaiting (connected i r rs) k = Some x \<longleftrightarrow> unanswered (?ms @ [?m]) k x" for k x
  proof -
    have "touches k ?m \<longleftrightarrow> answer_key ?m = k" using is_ans call_no_answer [OF is_ans] by (simp add: touches_def)
    then show ?thesis
      using call_no_answer [OF is_ans] by (auto simp: connected_inv(2) [OF p wait ans n] unanswered_snoc exactD(1) [OF ex])
  qed
  with idx c(1) show ?thesis by (intro exactI) (simp_all add: ms)
qed

definition recording_inv :: "eavesdropper \<Rightarrow> bool" where
  "recording_inv e \<longleftrightarrow> paired (e_messages e) \<and> exact (e_messages e) \<and> timed (e_messages e) \<and>
     (\<forall>k. e_callsAwaitingResponse e k = awaiting (e_messages e) k)"

text \<open>The clock of the recording thread does not go back.\<close>

definition no_earlier :: "int \<Rightarrow> message_record list \<Rightarrow> bool" where
  "no_earlier time rs \<longleftrightarrow> (\<forall>r \<in> set rs. mr_timestamp r \<le> time)"

lemma addMessage_inv:
  assumes inv: "recording_inv e" and t: "no_earlier time (e_messages e)" and n: "length (e_messages e) < 2 ^ 31"
  shows "\<exists>e'. addMessage m time e = Some e' \<and> recording_inv e'"
proof (cases "e_isRecording e")
  case False
  then show ?thesis using inv by (simp add: addMessage_def recording_inv_def)
next
  case True
  let ?rs = "e_messages e" and ?r = "MessageRecord m time"
  have u: "u32 (length ?rs) = length ?rs" using n by (simp add: u32_def)
  have r: "mr_message ?r = m" "mr_otherMessageIndex ?r = - 1" "mr_timestamp ?r = time"
    by (simp_all add: MessageRecord_def)
  have p: "paired (?rs @ [?r])" and a: "awaiting (?rs @ [?r]) k =
      (if is_call m \<and> call_key m = k then Some (length ?rs) else awaiting ?rs k)"
    and s: "timed (?rs @ [?r])" for k
    using inv t r paired_snoc awaiting_snoc [of ?r]
    by (auto simp: recording_inv_def timed_def no_earlier_def sorted_append)
  have ex: "exact ?rs" "paired ?rs" using inv by (simp_all add: recording_inv_def)
  have e: "exact (?rs @ [?r])" if "\<not> isAnswer m \<or> awaiting ?rs (answer_key m) = None"
    using exact_snoc [OF ex r(2)] that r(1) by (auto simp: isAnswer_def)
  consider "is_call m" | "\<not> is_call m" "isAnswer m" "awaiting ?rs (answer_key m) \<noteq> None"
    | "\<not> is_call m" "\<not> isAnswer m \<or> awaiting ?rs (answer_key m) = None" by blast
  then show ?thesis
  proof cases
    case 1
    then have "addMessage m time e = Some (e\<lparr>e_messages := ?rs @ [?r],
        e_callsAwaitingResponse := (e_callsAwaitingResponse e)(call_key m \<mapsto> length ?rs)\<rparr>)"
      using True u by (simp add: addMessage_def Let_def call_key_def)
    moreover have "\<not> isAnswer m" using 1 by (auto simp: isAnswer_def message_type_defs)
    ultimately show ?thesis using 1 p a s e inv by (auto simp: recording_inv_def)
  next
    case 2
    then obtain i where i: "awaiting ?rs (answer_key m) = Some i" by blast
    then have l: "last_call (answer_key m) ?rs = Some i" "mr_otherMessageIndex (?rs ! i) = - 1"
      by (auto simp: awaiting_def split: option.splits if_splits)
    note c = connected_simps [OF last_call_SomeD(1) [OF l(1)] n, where r = ?r]
    note ci = connected_inv [of ?rs ?r i, unfolded r(1), OF _ i 2(2) n]
    have "couldHaveNicerDestination (connected i ?r ?rs) (connected i ?r ?rs ! i) \<noteq> None"
      using c(1,4) by (simp add: couldHaveNicerDestination_def at_index_def del: not_None_eq)
    then obtain nicer where nicer: "couldHaveNicerDestination (connected i ?r ?rs) (connected i ?r ?rs ! i) = Some nicer"
      by blast
    let ?e = "e\<lparr>e_messages := connected i ?r ?rs,
        e_callsAwaitingResponse := (e_callsAwaitingResponse e)(answer_key m := None)\<rparr>"
    have "recording_inv ?e" and "recording_inv (?e\<lparr>e_changed := e_changed e @ [i]\<rparr>)"
      using ci inv c(3) s exact_connected [OF ex, of ?r i, unfolded r(1), OF i 2(2) n]
      by (auto simp: recording_inv_def timed_def)
    moreover have "addMessage m time e = Some (if nicer then ?e\<lparr>e_changed := e_changed e @ [i]\<rparr> else ?e)"
      using True 2 i inv u nicer last_call_SomeD(1) [OF l(1)]
      by (simp add: addMessage_def Let_def answer_key_def connected_def recording_inv_def)
    ultimately show ?thesis by simp
  next
    case 3
    then have "addMessage m time e = Some (e\<lparr>e_messages := ?rs @ [?r]\<rparr>)"
      using True inv by (auto simp: addMessage_def Let_def answer_key_def recording_inv_def)
    then show ?thesis using 3 p a s e inv by (auto simp: recording_inv_def)
  qed
qed


subsection \<open>Every recording\<close>

text \<open>
  What the view and the recording thread can do, without files.  The vector is bounded by the range of its indices.
\<close>

inductive recorded :: "eavesdropper \<Rightarrow> bool" where
  recorded_start: "recorded EavesdropperModel"
| recorded_add: "recorded e \<Longrightarrow> no_earlier time (e_messages e) \<Longrightarrow> length (e_messages e) < 2 ^ 31 \<Longrightarrow>
    addMessage m time e = Some e' \<Longrightarrow> recorded e'"
| recorded_pause: "recorded e \<Longrightarrow> recorded (setRecording b e)"
| recorded_clear: "recorded e \<Longrightarrow> recorded (eavesdropper_clear e)"

lemma recorded_inv: "recorded e \<Longrightarrow> recording_inv e"
proof (induction rule: recorded.induct)
  case (recorded_add e time m e')
  then show ?case using addMessage_inv [of e time m] by auto
qed (auto simp: recording_inv_def EavesdropperModel_def setRecording_def eavesdropper_clear_def paired_def timed_def
    awaiting_def last_call_def calls_with_def exact_def unanswered_def)

text \<open>C25: In every recording, calls and replies are connected in pairs, exactly as the messages say: a method return or
  error answers the latest call before it with its reply serial and its destination as the sender, unless that call was
  answered before.  A call and its answer have each other's index, and every other message has none.  The table of
  waiting calls leads, for a serial and a sender, exactly to the latest such call, as long as no answer followed it.\<close>

theorem calls_and_replies_paired:
  assumes "recorded e"
  shows "(let rs = e_messages e; ms = map mr_message rs in
    (\<forall>i < length rs. \<forall>j < length rs. mr_otherMessageIndex (rs ! i) = int j \<longleftrightarrow> answers ms i j \<or> answers ms j i) \<and>
    (\<forall>i < length rs. mr_otherMessageIndex (rs ! i) = - 1 \<or> (\<exists>j < length rs. mr_otherMessageIndex (rs ! i) = int j)) \<and>
    (\<forall>k i. e_callsAwaitingResponse e k = Some i \<longleftrightarrow> unanswered ms k i))"
proof -
  let ?rs = "e_messages e"
  have inv: "paired ?rs" "exact ?rs" "\<And>k. e_callsAwaitingResponse e k = awaiting ?rs k"
    using recorded_inv [OF assms] unfolding recording_inv_def by blast+
  have "mr_otherMessageIndex (?rs ! i) = - 1 \<or> (\<exists>j < length ?rs. mr_otherMessageIndex (?rs ! i) = int j)"
    if "i < length ?rs" for i
  proof -
    have "mr_otherMessageIndex (?rs ! i) = - 1 \<or> (\<exists>j. conversation ?rs i j \<or> conversation ?rs j i)"
      using inv(1) that by (simp add: paired_def)
    then show ?thesis by (auto simp: conversation_def)
  qed
  then show ?thesis using inv(2,3) unfolding exact_def Let_def by simp
qed

text \<open>An arriving answer is recorded, with the latest call of its serial that waits.\<close>

lemma addMessage_total:
  assumes "recorded e" "no_earlier time (e_messages e)" "length (e_messages e) < 2 ^ 31"
  shows "\<exists>e'. addMessage m time e = Some e' \<and> recorded e'"
  using addMessage_inv [OF recorded_inv [OF assms(1)] assms(2,3)] recorded_add [OF assms] by blast

lemma other_message:
  assumes "recorded e" "i < length (e_messages e)" "0 \<le> mr_otherMessageIndex (e_messages e ! i)"
  obtains j where "j < length (e_messages e)" "at_index (e_messages e) (mr_otherMessageIndex (e_messages e ! i)) = Some (e_messages e ! j)"
    "isAnswer (mr_message (e_messages e ! i)) \<Longrightarrow> j < i"
proof -
  have "\<exists>j. conversation (e_messages e) i j \<or> conversation (e_messages e) j i"
    using recorded_inv [OF assms(1)] assms(2,3) by (auto simp: recording_inv_def paired_def)
  then obtain j where j: "conversation (e_messages e) i j \<or> conversation (e_messages e) j i" by blast
  show ?thesis
  proof (rule that [of j])
    show "j < length (e_messages e)" using j assms(2) by (auto simp: conversation_def)
    then show "at_index (e_messages e) (mr_otherMessageIndex (e_messages e ! i)) = Some (e_messages e ! j)"
      using j by (auto simp: conversation_def at_index_def)
    show "isAnswer (mr_message (e_messages e ! i)) \<Longrightarrow> j < i"
      using j by (auto simp: conversation_def isAnswer_def message_type_defs)
  qed
qed

text \<open>Every cell of a recording can be displayed, no latency is negative, and the rows can be sorted.\<close>

lemma recording_displayed:
  assumes "recorded e" "i < length (e_messages e)"
  shows "model_data (e_messages e) i column \<noteq> None"
    "\<exists>rtt \<ge> - 1. roundtripTime (e_messages e) (e_messages e ! i) = Some rtt"
    "j < length (e_messages e) \<Longrightarrow> sort_lessThan (e_messages e) i j \<noteq> None"
    "filterAcceptsRow contains filterString onlyUnanswered (e_messages e) i \<noteq> None"
proof -
  let ?rs = "e_messages e"
  have at: "0 \<le> mr_otherMessageIndex (?rs ! i) \<Longrightarrow> at_index ?rs (mr_otherMessageIndex (?rs ! i)) \<noteq> None"
    if "i < length ?rs" for i
    using other_message [OF assms(1) that] by (metis option.distinct(1))
  have m: "conversationMethod ?rs (?rs ! i) \<noteq> None" "niceSender ?rs (?rs ! i) \<noteq> None"
    "couldHaveNicerDestination ?rs (?rs ! i) \<noteq> None" "niceDestination ?rs (?rs ! i) \<noteq> None"
    "roundtripTime ?rs (?rs ! i) \<noteq> None"
  proof -
    have "0 \<le> mr_otherMessageIndex (?rs ! i) \<Longrightarrow> \<exists>r. at_index ?rs (mr_otherMessageIndex (?rs ! i)) = Some r"
      using at [OF assms(2)] by blast
    then show "conversationMethod ?rs (?rs ! i) \<noteq> None" "niceSender ?rs (?rs ! i) \<noteq> None"
      "roundtripTime ?rs (?rs ! i) \<noteq> None"
      by (auto simp: conversationMethod_def niceSender_def roundtripTime_def isReplyToKnownCall_def Let_def)
    show "couldHaveNicerDestination ?rs (?rs ! i) \<noteq> None" "niceDestination ?rs (?rs ! i) \<noteq> None"
      using at [OF assms(2)]
      by (auto simp: niceDestination_def couldHaveNicerDestination_def Let_def not_less split: option.splits bool.splits)
  qed
  show "model_data ?rs i column \<noteq> None" using m assms(2) by (auto simp: model_data_def Let_def)
  show "filterAcceptsRow contains filterString onlyUnanswered ?rs i \<noteq> None"
    using m assms(2) by (auto simp: filterAcceptsRow_def or_else_def Let_def split: option.splits bool.splits)
  have start: "conversationStartTime ?rs (?rs ! i) \<noteq> None" if "i < length ?rs" for i
    using at [OF that] by (auto simp: conversationStartTime_def isReplyToKnownCall_def)
  show "j < length ?rs \<Longrightarrow> sort_lessThan ?rs i j \<noteq> None"
    using start [of i] start [of j] assms(2) by (auto simp: sort_lessThan_def)
  show "\<exists>rtt \<ge> - 1. roundtripTime ?rs (?rs ! i) = Some rtt"
  proof (cases "isReplyToKnownCall (?rs ! i)")
    case True
    then obtain j where j: "j < length ?rs" "at_index ?rs (mr_otherMessageIndex (?rs ! i)) = Some (?rs ! j)" "j < i"
      using other_message [OF assms] by (metis isReplyToKnownCall_def)
    have "sorted (map mr_timestamp ?rs)" using recorded_inv [OF assms(1)] by (simp add: recording_inv_def timed_def)
    then have "mr_timestamp (?rs ! j) \<le> mr_timestamp (?rs ! i)"
      using j(1,3) assms(2) sorted_nth_mono [of "map mr_timestamp ?rs" j i] by simp
    then show ?thesis using True j(2) by (simp add: roundtripTime_def)
  next
    case False
    then show ?thesis by (simp add: roundtripTime_def)
  qed
qed


subsection \<open>An example\<close>

definition example_call_message :: message where
  "example_call_message = (Message (\<lambda>_. 0))\<lparr>m_messageType := MethodCallMessage, m_serial := 7\<rparr>"

definition example_answer_message :: message where
  "example_answer_message = setReplySerial 7 ((Message (\<lambda>_. 0))\<lparr>m_messageType := MethodReturnMessage\<rparr>)"

lemma example_parts:
  "sender example_call_message = []" "m_serial example_call_message = 7" "is_call example_call_message"
  "replySerial example_answer_message = 7" "destination example_answer_message = []" "isAnswer example_answer_message"
  "\<not> is_call example_answer_message" "destination example_call_message = []" "sender example_answer_message = []"
  by code_simp+

definition example_recording :: eavesdropper where
  "example_recording = the (Option.bind (addMessage example_call_message 1 EavesdropperModel)
     (addMessage example_answer_message 2))"

lemma example_recorded: "recorded example_recording \<and> map mr_otherMessageIndex (e_messages example_recording) = [1, 0]"
proof -
  let ?e1 = "EavesdropperModel\<lparr>e_messages := [MessageRecord example_call_message 1],
      e_callsAwaitingResponse := [(7, []) \<mapsto> 0]\<rparr>"
  have a1: "addMessage example_call_message 1 EavesdropperModel = Some ?e1"
    by (simp add: addMessage_def EavesdropperModel_def u32_def example_parts)
  have r1: "recorded ?e1"
    by (rule recorded_add [OF recorded_start _ _ a1]) (simp_all add: EavesdropperModel_def no_earlier_def)
  obtain e2 where a2: "addMessage example_answer_message 2 ?e1 = Some e2"
    using addMessage_inv [OF recorded_inv [OF r1], of 2 example_answer_message]
    by (auto simp: no_earlier_def MessageRecord_def)
  have r2: "recorded e2"
    by (rule recorded_add [OF r1 _ _ a2]) (simp_all add: no_earlier_def MessageRecord_def)
  have "map mr_otherMessageIndex (e_messages e2) = [1, 0]"
    using a2 by (simp add: addMessage_def EavesdropperModel_def u32_def example_parts set_other_def int_of_index
        MessageRecord_def couldHaveNicerDestination_def at_index_def isNumericAddress_def split: if_splits) auto
  then show ?thesis using a1 a2 r2 by (simp add: example_recording_def)
qed


lemma calls_and_replies_paired_witness:
  "answers (map mr_message (e_messages example_recording)) 0 1"
proof -
  let ?rs = "e_messages example_recording"
  have l: "length ?rs = 2"
    using arg_cong [OF conjunct2 [OF example_recorded], of length] by simp
  moreover have "mr_otherMessageIndex (?rs ! 0) = int 1"
    using arg_cong [OF conjunct2 [OF example_recorded], of "\<lambda>xs. xs ! 0"] l by simp
  moreover note pairs = calls_and_replies_paired [OF conjunct1 [OF example_recorded], unfolded Let_def]
  moreover have "\<forall>j < length ?rs. mr_otherMessageIndex (?rs ! 0) = int j \<longleftrightarrow>
      answers (map mr_message ?rs) 0 j \<or> answers (map mr_message ?rs) j 0"
    using spec [OF conjunct1 [OF pairs], of 0] l by (simp only: zero_less_numeral simp_thms)
  note spec [OF this, of 1]
  ultimately have "answers (map mr_message ?rs) 0 1 \<or> answers (map mr_message ?rs) 1 0" by simp
  moreover have "\<not> answers (map mr_message ?rs) 1 0" by (simp add: answers_def)
  ultimately show ?thesis by blast
qed

subsection \<open>Files\<close>

text \<open>What is relied on of \<^verbatim>\<open>QDataStream\<close>: a record of numbers in their ranges is read back, and takes up space.\<close>

definition stream_ok :: "(int \<Rightarrow> int \<Rightarrow> nat \<Rightarrow> byte list) \<Rightarrow> (byte list \<Rightarrow> (int \<times> int \<times> nat) \<times> byte list) \<Rightarrow> bool" where
  "stream_ok put get \<longleftrightarrow> (\<forall>a b n rest. - (2 ^ 31) \<le> a \<longrightarrow> a < 2 ^ 31 \<longrightarrow> - (2 ^ 63) \<le> b \<longrightarrow> b < 2 ^ 63 \<longrightarrow> n < 2 ^ 32 \<longrightarrow>
     put a b n \<noteq> [] \<and> get (put a b n @ rest) = ((a, b, n), rest))"

text \<open>A record that can be saved: its message has a serialized form, from which \<open>m\<close> is read.\<close>

definition saved_as :: "(nat \<Rightarrow> byte) \<Rightarrow> message_record \<Rightarrow> message \<Rightarrow> bool" where
  "saved_as junk r m \<longleftrightarrow> fst (save (mr_message r)) \<noteq> [] \<and> length (fst (save (mr_message r))) < 2 ^ 32 \<and>
     deserializeAndTake (fst (save (mr_message r))) (Message junk) = Some m \<and>
     - (2 ^ 31) \<le> mr_otherMessageIndex r \<and> mr_otherMessageIndex r < 2 ^ 31 \<and>
     - (2 ^ 63) \<le> mr_timestamp r \<and> mr_timestamp r < 2 ^ 63"

lemma loadRecords_saved:
  assumes "stream_ok put get" "list_all2 (saved_as junk) rs ms"
  shows "loadRecords junk get (fst (saveRecords put rs)) loaded =
     Some (Inr (loaded @ map (\<lambda>(r, m). r\<lparr>mr_message := m\<rparr>) (zip rs ms)))"
  using assms(2)
proof (induction rs ms arbitrary: loaded rule: list_all2_induct)
  case Nil
  show ?case by (simp add: loadRecords.simps)
next
  case (Cons r rs m ms)
  obtain msgData m' where s: "save (mr_message r) = (msgData, m')" by fastforce
  obtain rest rs' where r: "saveRecords put rs = (rest, rs')" by fastforce
  have v: "msgData \<noteq> []" "length msgData < 2 ^ 32" "deserializeAndTake msgData (Message junk) = Some m"
    "put (mr_otherMessageIndex r) (mr_timestamp r) (length msgData) \<noteq> []"
    "get (put (mr_otherMessageIndex r) (mr_timestamp r) (length msgData) @ msgData @ rest) =
      ((mr_otherMessageIndex r, mr_timestamp r, length msgData), msgData @ rest)"
    using Cons.hyps(1) assms(1) s by (simp_all add: saved_as_def stream_ok_def)
  have "fst (saveRecords put (r # rs)) = put (mr_otherMessageIndex r) (mr_timestamp r) (length msgData) @ msgData @ rest"
    using s r by simp
  then show ?case using v Cons.IH r by (subst loadRecords.simps) simp
qed

text \<open>A saved recording is loaded again: indices and times are kept, and the messages are what their data says.\<close>

lemma recording_file_roundtrip:
  assumes "stream_ok put get" "list_all2 (saved_as junk) (e_messages e) ms"
  shows "loadFromFile junk get (fst (saveToFile put e)) e0 =
    Some (True, (eavesdropper_clear e0)\<lparr>e_messages := map (\<lambda>(r, m). r\<lparr>mr_message := m\<rparr>) (zip (e_messages e) ms)\<rparr>)"
proof -
  obtain bytes rs where s: "saveRecords put (e_messages e) = (bytes, rs)" by fastforce
  have "length fileHeader = length (map byte_of fileHeader)" by simp
  then show ?thesis
    using loadRecords_saved [OF assms, of "[]"] s by (simp add: loadFromFile_def saveToFile_def)
qed

text \<open>The indices in a file are not checked: displaying an answer with an index outside of the file reads outside of the vector.\<close>

lemma loaded_index_unchecked:
  assumes "loadFromFile junk get file e = Some (True, e')" "i < length (e_messages e')"
    "isAnswer (mr_message (e_messages e' ! i))" "int (length (e_messages e')) \<le> mr_otherMessageIndex (e_messages e' ! i)"
  shows "model_data (e_messages e') i 1 = None"
  using assms by (simp add: model_data_def Let_def roundtripTime_def isReplyToKnownCall_def at_index_def)

text \<open>A message that cannot be serialized is saved without data; as the last one, it makes the file unreadable.\<close>

lemma unserializable_last_message:
  assumes "stream_ok put get" "fst (save (mr_message r)) = []" "e_messages e = [r]"
    "- (2 ^ 31) \<le> mr_otherMessageIndex r" "mr_otherMessageIndex r < 2 ^ 31" "- (2 ^ 63) \<le> mr_timestamp r" "mr_timestamp r < 2 ^ 63"
  shows "loadFromFile junk get (fst (saveToFile put e)) e0 = Some (False, e0)"
proof -
  have g: "put (mr_otherMessageIndex r) (mr_timestamp r) 0 \<noteq> []"
    "get (put (mr_otherMessageIndex r) (mr_timestamp r) 0 @ []) = ((mr_otherMessageIndex r, mr_timestamp r, 0), [])"
    using assms(1,4-7) unfolding stream_ok_def by fastforce+
  then show ?thesis using assms(2,3)
    by (simp add: loadFromFile_def saveToFile_def split_beta loadRecords.simps [of _ _ "put _ _ _"])
qed

end
