(* ===== verification/Spec2Isabelle.thy ===== *)
theory Spec2Isabelle
  imports Message_IO Message_Print Connect_Address Timer_Dispatch Connection_Errors Locks Socket_Receiving Servers Pollers Introspection_Tree Analyzer_Pairs
begin

text \<open>
  Verification of dferry, a C++ library for the D-Bus protocol.

  \<^bold>\<open>The program.\<close>  A client builds a message: it sets the headers of a \<^verbatim>\<open>Message\<close> and writes values
  through an \<^verbatim>\<open>Arguments::Writer\<close>, which makes an \<^verbatim>\<open>Arguments\<close> object, a signature and the bytes of the
  values.  \<^verbatim>\<open>MessagePrivate::serialize\<close> puts fixed headers, variable headers and body into one buffer, which
  the sending state machine hands to a transport piece by piece.  A receiving message collects bytes from a
  transport until its headers, and then its body, are complete; the client reads the values back with an
  \<^verbatim>\<open>Arguments::Reader\<close>.

  A \<^verbatim>\<open>Connection\<close> is opened at a \<^verbatim>\<open>ConnectAddress\<close>: it makes the transport for the address, or the server
  that waits for a peer, authenticates itself with the line-based dialogue of \<^verbatim>\<open>AuthClient\<close>, and asks the bus for
  its name with a hello message.  From then on it queues messages to send, one at a time, and dispatches received
  ones: answers to the \<^verbatim>\<open>PendingReply\<close> with the serial of the call, everything else to the receiver of spontaneous
  messages.  Connections of other threads share the main one; they exchange events with it, and the links between them
  are guarded by a \<^verbatim>\<open>Commutex\<close>.  Transports (\<^verbatim>\<open>LocalSocket\<close>, \<^verbatim>\<open>IpSocket\<close>) and servers
  (\<^verbatim>\<open>LocalServer\<close>, \<^verbatim>\<open>IpServer\<close>) sit on system calls.  All of this is driven by an \<^verbatim>\<open>EventDispatcher\<close> that
  waits for I/O with a poller, notifies listeners and triggers timers.  On top of it, a client can build an
  \<^verbatim>\<open>IntrospectionTree\<close> of the objects of a peer, and the analyzer records the messages of a bus.

  \<^bold>\<open>The theories\<close>, in the order of their imports.
  \<^item> \<open>Dfer_Prelude\<close>: types of machine integers, 32-bit arithmetic on positions, slices and overwriting of byte
    lists.  \<open>Basic_Type_IO\<close> (\<^verbatim>\<open>serialization/basictypeio.h\<close>): alignment, padding, fixed-width values.
    \<open>Dfer_Types\<close>: error codes, strings handed over by pointer and length, the states of reader and writer, the
    table of types, the nesting counters.
  \<^item> \<open>Signature_Check\<close> (\<^verbatim>\<open>arguments.cpp\<close>): strings, object paths and the recursive signature parser, against the
    grammar of types \<open>dbus_type\<close>.  \<open>Arguments_Obj\<close>: the \<^verbatim>\<open>Arguments\<close> object with its ownership of memory.
  \<^item> \<open>Reader_Model\<close> and \<open>Reader_Ops\<close> (\<^verbatim>\<open>argumentsreader.cpp\<close>): the reader as a record, \<^verbatim>\<open>advanceState\<close> split
    along its phases, and every public operation; \<open>Reader_Decode\<close> and \<open>Reader_Aggregates\<close> relate it to the
    encoding of \<open>Wire_Format\<close>.
  \<^item> \<open>Writer_Model\<close> and \<open>Writer_Ops\<close> (\<^verbatim>\<open>argumentswriter.cpp\<close>): the writer with its queue of delayed data;
    \<open>Arguments_Walk\<close>: copying and printing by a walk of a reader.
  \<^item> \<open>Var_Headers\<close>, \<open>Message_Model\<close>, \<open>Message_Serial\<close>, \<open>Message_IO\<close> (\<^verbatim>\<open>message.cpp\<close>): the compact storage of
    headers, the message and its setters, serialization and its inverse, the two I/O state machines;
    \<open>Message_Print\<close>: the printed form.
  \<^item> \<open>String_Tools\<close> (\<^verbatim>\<open>transport/stringtools.cpp\<close>), \<open>Connect_Address\<close> (\<^verbatim>\<open>connection/connectaddress.cpp\<close>) and
    \<open>Auth_Client\<close> (\<^verbatim>\<open>connection/authclient.cpp\<close>).
  \<^item> \<open>Event_Dispatcher\<close> (\<^verbatim>\<open>events/timer.cpp\<close>, the timers of \<^verbatim>\<open>events/eventdispatcher.cpp\<close>), with the invariant of
    the map of timers in \<open>Timer_Map\<close> and the dispatch loop in \<open>Timer_Dispatch\<close>.
  \<^item> \<open>Connection_Model\<close> (\<^verbatim>\<open>connection.cpp\<close>, \<^verbatim>\<open>pendingreply.cpp\<close>, \<^verbatim>\<open>event.h\<close>): the state of a connection with
    its replies, records and events; \<open>Connection_Ops\<close>: sending, receiving, dispatch and the hello message;
    \<open>Connection_Life\<close>: events between threads, construction, destruction and I/O.  \<open>Connection_Replies\<close>: the
    invariant of records and replies; \<open>Connection_Calls\<close>: all calls as one step function, with the relation
    \<open>conn_reachable\<close>; \<open>Connection_Effects\<close>: what operations do to replies and tell their clients;
    \<open>Connection_Errors\<close>: where the code goes wrong.
  \<^item> \<open>Locks\<close> (\<^verbatim>\<open>util/commutex.h\<close>, \<^verbatim>\<open>spinlock.h\<close>, \<^verbatim>\<open>malloccache.h\<close>): interleavings of atomic operations.
  \<^item> \<open>Sockets\<close>, \<open>Socket_Sending\<close> and \<open>Socket_Receiving\<close> (\<^verbatim>\<open>transport/localsocket.cpp\<close>, \<^verbatim>\<open>ipsocket.cpp\<close>,
    \<^verbatim>\<open>ipresolver.cpp\<close>): opening, writing and reading, and messages over them.  \<open>Servers\<close> (\<^verbatim>\<open>iserver.cpp\<close>,
    \<^verbatim>\<open>localserver.cpp\<close>, \<^verbatim>\<open>ipserver.cpp\<close>, \<^verbatim>\<open>connection/server.cpp\<close>): listening, accepting and the queue of clients.
  \<^item> \<open>Io_Listeners\<close> (\<^verbatim>\<open>events/iioevent*.cpp\<close>, \<^verbatim>\<open>itransportlistener.cpp\<close>): the graph of event sources and listeners;
    \<open>Pollers\<close>: the epoll and select pollers and the integrator of other event loops.
  \<^item> \<open>Introspection\<close> (\<^verbatim>\<open>client/introspection.cpp\<close>): the tree of nodes that introspection documents are merged into;
    \<open>Introspection_Tree\<close>: that it holds what the documents denote, and keeps it.
  \<^item> \<open>Analyzer\<close> (\<^verbatim>\<open>applications/analyzer/eavesdroppermodel.cpp\<close>, \<^verbatim>\<open>messagesortfilter.cpp\<close>): recorded messages,
    with \<open>Analyzer_Pairs\<close> on the pairs of calls and replies.

  \<^bold>\<open>How the model corresponds to the code.\<close>  Records have the fields of the classes; a pointer to a buffer is the
  list of bytes behind it, so that an access outside of it is visible and sets a fault flag (\<open>m_fault\<close>,
  \<open>r_fault\<close>, \<open>d_fault\<close>, \<open>c_fault\<close>, \<open>t_fault\<close>) or is \<open>None\<close>.  Objects that refer to each other (replies, connections,
  listeners, nodes of the introspection tree) are identified by numbers, and a set or map of the living ones tells
  a dangling pointer.  Positions and lengths are natural numbers reduced modulo 2^32 where the code
  computes in 32 bits.  Assertions are not executed, as in a release build.  The results of system calls are a list that
  the calls consume in order; the clock, environment variables, files, and the parsed form of XML are parameters.
  Callbacks into a client are recorded as notices, or are given as scripts of calls.

  \<^bold>\<open>Interfaces.\<close>  The locales state what one part relies on in another, and each is interpreted on the definitions of
  the part that provides it: \<open>byte_writer\<close> and \<open>byte_reader\<close> (the promises of a transport's write and read; local and
  IP sockets), \<open>message_writer\<close> and \<open>message_reader\<close> (what messages need of them), \<open>event_poller\<close> (the interests that
  a dispatcher registers; epoll, select and the integrator), \<open>closing\<close> (operations after which replies are finished),
  \<open>exclusive\<close> (a lock; commutex and spinlock), \<open>header_store\<close> (a map of headers; strings and integers) and
  \<open>fixed_width_io\<close> (reading and writing; each type of value).

  \<^bold>\<open>The lemmas.\<close>  Round trips of values, fixed headers, numbers and addresses; the reader on the encoding of any
  list of values; parsers against grammars and reference definitions; the header storage as two maps; invariants
  over all sequences of operations (invalid data stays invalid, failed serialization stays failed, the map of
  timers, records of calls and the replies that wait for them, watches and listeners); what is handed to the transport
  and what is taken from it, down to the bytes of the system calls; the authentication dialogue against its
  specification; each reply finished at most once, and all of them by closing; exclusion of threads;
  what merged documents make of the introspection tree; the pairs of calls and replies in a recording;
  termination of the dialogue and of dispatching.  Theorems of kind \<open>error\<close> and the lemmas named in the findings state on
  which inputs the code goes wrong.

  \<^bold>\<open>Bounds and fuel.\<close>  Loops that may not end are \<open>partial_function\<close>s or \<open>while_option\<close>, with \<open>None\<close> for
  not ending; the receiving loop on a message that has arrived in half is one that does not end.  The renumbering loop of
  timers has the fuel \<open>2 * n + 2\<close> for \<open>n\<close> entries: each iteration uses a serial or drops a dead entry.  Loops over
  system calls recur on the list of results.

  \<^bold>\<open>Not modelled.\<close>  The kernel behind the system calls and the clock.  Third-party code: SHA-1, and the
  XML parser tinyxml2.  The Windows port with its poller, the tests, and the applications but for the recorded
  messages of the analyzer.  The text of error messages and debugging output.
\<close>

end
